(* ===== verification/Errcode.thy ===== *)
theory Errcode
  imports Genroc_Prelude
begin

text \<open>
  The error-code vocabulary (\<open>internal/errcode\<close>): the engine's codes, the wildcard matcher
  that \<open>on_error\<close> rules use, and the classification of codes by the task that reports them.
  \<open>MatchCode\<close> is proved equal to the language its pattern denotes.
\<close>

unbundle bit_operations_syntax

type_synonym code = string

subsection \<open>Codes\<close>

definition HTTPTimeout :: code where "HTTPTimeout = ''http.timeout''"
definition HTTPDisconnected :: code where "HTTPDisconnected = ''http.disconnected''"
definition PreTimeout :: code where "PreTimeout = ''pre.timeout''"
definition PreError :: code where "PreError = ''pre.error''"
definition ResultParse :: code where "ResultParse = ''result.parse''"
definition ResultTooLarge :: code where "ResultTooLarge = ''result.too_large''"
definition ResultInvalid :: code where "ResultInvalid = ''result.invalid''"
definition ExternalTimeout :: code where "ExternalTimeout = ''external.timeout''"
definition ExternalLost :: code where "ExternalLost = ''external.lost''"
definition OnlyOnceInterrupted :: code where "OnlyOnceInterrupted = ''only_once.interrupted''"

definition HTTP :: "int \<Rightarrow> code" where
  "HTTP status = ''http.'' @ itoa status"

definition EngineDefinition :: code where "EngineDefinition = ''engine.definition''"
definition EngineExpression :: code where "EngineExpression = ''engine.expression''"
definition EngineConfig :: code where "EngineConfig = ''engine.config''"
definition EngineInput :: code where "EngineInput = ''engine.input''"
definition EngineOutput :: code where "EngineOutput = ''engine.output''"
definition EngineSpawn :: code where "EngineSpawn = ''engine.spawn''"
definition EngineCollect :: code where "EngineCollect = ''engine.collect''"
definition EnginePanic :: code where "EnginePanic = ''engine.panic''"

lemmas call_code_defs = HTTPTimeout_def HTTPDisconnected_def PreTimeout_def PreError_def
  ResultParse_def ResultTooLarge_def ResultInvalid_def ExternalTimeout_def ExternalLost_def
  OnlyOnceInterrupted_def

lemmas engine_code_defs = EngineDefinition_def EngineExpression_def EngineConfig_def
  EngineInput_def EngineOutput_def EngineSpawn_def EngineCollect_def EnginePanic_def

definition NotReached :: string where "NotReached = ''pre.''"

definition IsNotReached :: "code \<Rightarrow> bool" where
  "IsNotReached c = has_prefix c NotReached"

definition unknowable :: "code list" where
  "unknowable = [OnlyOnceInterrupted, HTTPTimeout, HTTPDisconnected, ExternalTimeout, ExternalLost]"

definition IsUnknowable :: "code \<Rightarrow> bool" where
  "IsUnknowable c = list_ex (\<lambda>u. c = u) unknowable"

subsection \<open>MatchCode\<close>

text \<open>
  The loop of \<open>MatchCode\<close> consumes the pattern byte by byte; on \<open>'%'\<close> it tries every suffix
  of the subject, from the whole subject to the empty one.
\<close>

fun MatchCode :: "string \<Rightarrow> string \<Rightarrow> bool" where
  "MatchCode [] s = (s = [])"
| "MatchCode (c # p) s =
     (if c = CHR ''%'' then
        (if p = [] then True
         else list_ex (\<lambda>i. MatchCode p (drop i s)) [0..<Suc (length s)])
      else
        (case s of
           [] \<Rightarrow> False
         | d # s' \<Rightarrow> if c \<noteq> d then False else MatchCode p s'))"

text \<open>The language of a pattern: \<open>'%'\<close> is any text, every other byte is itself.\<close>

inductive code_lang :: "string \<Rightarrow> string \<Rightarrow> bool" where
  lang_nil: "code_lang [] []"
| lang_any: "code_lang p s \<Longrightarrow> code_lang (CHR ''%'' # p) (u @ s)"
| lang_lit: "c \<noteq> CHR ''%'' \<Longrightarrow> code_lang p s \<Longrightarrow> code_lang (c # p) (c # s)"

inductive_cases lang_nilE [elim!]: "code_lang [] s"
inductive_cases lang_consE: "code_lang (c # p) s"

lemma MatchCode_any:
  "MatchCode (CHR ''%'' # p) s \<longleftrightarrow> p = [] \<or> (\<exists>i \<le> length s. MatchCode p (drop i s))"
  by (auto simp: list_ex_upt_iff less_Suc_eq_le simp del: upt_Suc)

lemma MatchCode_lit:
  "c \<noteq> CHR ''%'' \<Longrightarrow> MatchCode (c # p) s \<longleftrightarrow> (\<exists>s'. s = c # s' \<and> MatchCode p s')"
  by (cases s) auto

declare MatchCode.simps(2) [simp del]

lemma code_lang_any_iff: "code_lang (CHR ''%'' # p) s \<longleftrightarrow> (\<exists>i \<le> length s. code_lang p (drop i s))"
proof
  assume "code_lang (CHR ''%'' # p) s"
  then obtain u t where "s = u @ t" "code_lang p t" by (auto elim: lang_consE)
  then show "\<exists>i \<le> length s. code_lang p (drop i s)"
    by (intro exI [of _ "length u"]) auto
next
  assume "\<exists>i \<le> length s. code_lang p (drop i s)"
  then obtain i where "code_lang p (drop i s)" by blast
  then have "code_lang (CHR ''%'' # p) (take i s @ drop i s)" by (rule lang_any)
  then show "code_lang (CHR ''%'' # p) s" by simp
qed

lemma code_lang_lit_iff:
  "c \<noteq> CHR ''%'' \<Longrightarrow> code_lang (c # p) s \<longleftrightarrow> (\<exists>s'. s = c # s' \<and> code_lang p s')"
  by (auto elim: lang_consE intro: lang_lit)

lemma MatchCode_lang: "MatchCode p s \<longleftrightarrow> code_lang p s"
proof (induction p arbitrary: s)
  case Nil
  then show ?case by (auto intro: lang_nil)
next
  case (Cons c p)
  show ?case
  proof (cases "c = CHR ''%''")
    case True
    have "code_lang [] (drop (length s) s)" by (simp add: lang_nil)
    with True Cons show ?thesis
      by (auto simp: MatchCode_any code_lang_any_iff simp del: drop_all)
  next
    case False
    with Cons show ?thesis by (simp add: MatchCode_lit code_lang_lit_iff)
  qed
qed

lemma MatchCode_literal: "CHR ''%'' \<notin> set p \<Longrightarrow> MatchCode p s \<longleftrightarrow> p = s"
proof (induction p arbitrary: s)
  case (Cons c p)
  then have "c \<noteq> CHR ''%''" by auto
  with Cons show ?case by (simp add: MatchCode_lit eq_commute)
qed auto

lemma MatchCode_append_any: "CHR ''%'' \<notin> set p \<Longrightarrow> MatchCode (p @ ''%'') s \<longleftrightarrow> (\<exists>t. s = p @ t)"
proof (induction p arbitrary: s)
  case Nil
  show ?case by (simp add: MatchCode_any)
next
  case (Cons c p)
  then have "c \<noteq> CHR ''%''" by auto
  with Cons show ?case by (simp add: MatchCode_lit) blast
qed

subsection \<open>Classification\<close>

type_synonym kind = "8 word"

definition KindFetch :: kind where "KindFetch = 1"
definition KindExternal :: kind where "KindExternal = 2"
definition KindChild :: kind where "KindChild = 4"
definition KindOnlyOnce :: kind where "KindOnlyOnce = 8"

lemmas kind_defs = KindFetch_def KindExternal_def KindChild_def KindOnlyOnce_def

text \<open>The one-line prose of an entry is documentation and is not modelled.\<close>

record info =
  info_code :: code
  info_kinds :: kind

definition catchable :: "info list" where
  "catchable =
    [\<lparr>info_code = HTTPTimeout, info_kinds = KindFetch\<rparr>,
     \<lparr>info_code = HTTPDisconnected, info_kinds = KindFetch\<rparr>,
     \<lparr>info_code = PreTimeout, info_kinds = KindFetch\<rparr>,
     \<lparr>info_code = PreError, info_kinds = KindFetch\<rparr>,
     \<lparr>info_code = ResultParse, info_kinds = KindFetch\<rparr>,
     \<lparr>info_code = ResultTooLarge, info_kinds = KindFetch\<rparr>,
     \<lparr>info_code = ResultInvalid, info_kinds = KindFetch OR KindChild\<rparr>,
     \<lparr>info_code = ExternalTimeout, info_kinds = KindExternal\<rparr>,
     \<lparr>info_code = ExternalLost, info_kinds = KindExternal\<rparr>,
     \<lparr>info_code = OnlyOnceInterrupted, info_kinds = KindOnlyOnce\<rparr>]"

definition Catchable :: "kind \<Rightarrow> info list" where
  "Catchable kinds = filter (\<lambda>i. info_kinds i AND kinds \<noteq> 0) catchable"

definition terminal :: "info list" where
  "terminal = map (\<lambda>c. \<lparr>info_code = c, info_kinds = 0\<rparr>)
    [EngineDefinition, EngineExpression, EngineConfig, EngineInput, EngineOutput, EngineSpawn,
     EngineCollect, EnginePanic]"

definition All :: "info list" where
  "All = Catchable (NOT 0) @ terminal"

definition Names :: "kind \<Rightarrow> string list" where
  "Names k = map snd (filter (\<lambda>(kd, _). k AND kd \<noteq> 0)
    [(KindFetch, ''fetch''), (KindExternal, ''external''), (KindChild, ''child''),
     (KindOnlyOnce, ''only_once'')])"

lemma catchable_kinds_nonzero: "i \<in> set catchable \<Longrightarrow> info_kinds i \<noteq> 0"
  by (auto simp: catchable_def kind_defs)

lemma Catchable_all: "Catchable (- 1) = catchable"
  unfolding Catchable_def by (rule filter_True) (auto dest: catchable_kinds_nonzero)

lemma All_codes: "map info_code All =
  [HTTPTimeout, HTTPDisconnected, PreTimeout, PreError, ResultParse, ResultTooLarge,
   ResultInvalid, ExternalTimeout, ExternalLost, OnlyOnceInterrupted,
   EngineDefinition, EngineExpression, EngineConfig, EngineInput, EngineOutput, EngineSpawn,
   EngineCollect, EnginePanic]"
  by (simp add: All_def Catchable_all catchable_def terminal_def)

lemma unknowable_not_reached_disjoint: "\<not> (IsUnknowable c \<and> IsNotReached c)"
  by (auto simp: IsUnknowable_def unknowable_def IsNotReached_def NotReached_def has_prefix_def
      call_code_defs)

lemma unknowable_catchable: "IsUnknowable c \<Longrightarrow> c \<in> info_code ` set catchable"
  by (auto simp: IsUnknowable_def unknowable_def catchable_def)

text \<open>No pattern written for the catchable families reaches a terminal code by accident.\<close>

lemma terminal_prefix: "i \<in> set terminal \<Longrightarrow> has_prefix (info_code i) ''engine.''"
  by (auto simp: terminal_def engine_code_defs has_prefix_def)

text \<open>
  C32: the wildcard matcher decides the language its pattern denotes, in which \<open>%\<close> stands for any
  run of characters and everything else for itself: it never misses a match by committing a
  wildcard too early, and never matches outside the language.
\<close>

theorem MatchCode_decides_language: "MatchCode p s \<longleftrightarrow> code_lang p s"
  by (rule MatchCode_lang)

end
