(* ===== verification/Instance_Model.thy ===== *)
theory Instance_Model
  imports Errcode
begin

text \<open>
  The process model's own vocabulary (\<open>internal/model\<close>): lifecycle statuses and phases, the
  tokens that answer an external task, and the status patterns of a fetch's responses.
\<close>

subsection \<open>Status and phase (model/instance.go)\<close>

datatype status =
    StatusRunning | StatusCompleted | StatusFailing | StatusFailed | StatusRaised
  | StatusPausing | StatusPaused | StatusCancelling | StatusCancelled

definition Terminal :: "status \<Rightarrow> bool" where
  "Terminal s \<longleftrightarrow> s = StatusCompleted \<or> s = StatusFailed \<or> s = StatusRaised \<or> s = StatusCancelled"

definition Draining :: "status \<Rightarrow> bool" where
  "Draining s \<longleftrightarrow> s = StatusPausing \<or> s = StatusFailing \<or> s = StatusCancelling"

definition Busy :: "status \<Rightarrow> bool" where
  "Busy s \<longleftrightarrow> s = StatusRunning \<or> Draining s"

definition AcceptsExternalOutcome :: "status \<Rightarrow> bool" where
  "AcceptsExternalOutcome s \<longleftrightarrow> s = StatusRunning \<or> s = StatusPaused \<or> s = StatusPausing"

lemma Terminal_simps [simp]:
  "\<not> Terminal StatusRunning"
  "Terminal StatusCompleted"
  "\<not> Terminal StatusFailing"
  "Terminal StatusFailed"
  "Terminal StatusRaised"
  "\<not> Terminal StatusPausing"
  "\<not> Terminal StatusPaused"
  "\<not> Terminal StatusCancelling"
  "Terminal StatusCancelled"
  by (simp_all add: Terminal_def)

lemma Draining_simps [simp]:
  "\<not> Draining StatusRunning"
  "\<not> Draining StatusCompleted"
  "Draining StatusFailing"
  "\<not> Draining StatusFailed"
  "\<not> Draining StatusRaised"
  "Draining StatusPausing"
  "\<not> Draining StatusPaused"
  "Draining StatusCancelling"
  "\<not> Draining StatusCancelled"
  by (simp_all add: Draining_def)

lemma Busy_simps [simp]:
  "Busy StatusRunning"
  "\<not> Busy StatusCompleted"
  "Busy StatusFailing"
  "\<not> Busy StatusFailed"
  "\<not> Busy StatusRaised"
  "Busy StatusPausing"
  "\<not> Busy StatusPaused"
  "Busy StatusCancelling"
  "\<not> Busy StatusCancelled"
  by (simp_all add: Busy_def)

lemma AcceptsExternalOutcome_simps [simp]:
  "AcceptsExternalOutcome StatusRunning"
  "\<not> AcceptsExternalOutcome StatusCompleted"
  "\<not> AcceptsExternalOutcome StatusFailing"
  "\<not> AcceptsExternalOutcome StatusFailed"
  "\<not> AcceptsExternalOutcome StatusRaised"
  "AcceptsExternalOutcome StatusPausing"
  "AcceptsExternalOutcome StatusPaused"
  "\<not> AcceptsExternalOutcome StatusCancelling"
  "\<not> AcceptsExternalOutcome StatusCancelled"
  by (simp_all add: AcceptsExternalOutcome_def)

text \<open>Every status is settled, suspended, or one a worker may still act on, and only one of these.\<close>

lemma status_trichotomy:
  "Terminal s \<or> s = StatusPaused \<or> Busy s" "\<not> (Terminal s \<and> Busy s)"
  by (cases s; simp)+

lemma Busy_not_Terminal: "Busy s \<Longrightarrow> \<not> Terminal s"
  by (cases s) auto

lemma Draining_Busy: "Draining s \<Longrightarrow> Busy s"
  by (simp add: Busy_def)

datatype phase = PhaseNone | PhaseChildren | PhaseCollecting | PhaseExternal

datatype outcome = OutcomeApplied | OutcomeAccepted | OutcomeUnchanged

subsection \<open>External tokens (model/instance.go)\<close>

text \<open>
  Epochs are int64 columns. The model keeps them as \<open>int\<close> and states the int64 range where a
  conversion depends on it.
\<close>

definition int64_range :: "int \<Rightarrow> bool" where
  "int64_range i \<longleftrightarrow> - (2 ^ 63) \<le> i \<and> i < 2 ^ 63"

definition ExternalToken :: "string \<Rightarrow> int \<Rightarrow> string" where
  "ExternalToken instanceID taskEpoch = instanceID @ ''.'' @ itoa taskEpoch"

definition ClaimToken :: "string \<Rightarrow> int \<Rightarrow> int \<Rightarrow> string" where
  "ClaimToken instanceID taskEpoch claimEpoch =
     instanceID @ ''.'' @ itoa taskEpoch @ ''.'' @ itoa claimEpoch"

text \<open>The five results, in order: instance, task epoch, claim epoch, hasClaim, ok.\<close>

definition ParseExternalToken :: "string \<Rightarrow> string \<times> int \<times> int \<times> bool \<times> bool" where
  "ParseExternalToken token =
     (case str_cut (CHR ''.'') token of (iid, rest, found) \<Rightarrow>
        if \<not> found \<or> iid = [] then ([], 0, 0, False, False)
        else
          (case str_cut (CHR ''.'') rest of (epochStr, claimStr, hasClaim) \<Rightarrow>
             (case parse_int64 epochStr of
                None \<Rightarrow> ([], 0, 0, False, False)
              | Some n \<Rightarrow>
                  if n < 0 then ([], 0, 0, False, False)
                  else if \<not> hasClaim then (iid, n, 0, False, True)
                  else
                    (case parse_int64 claimStr of
                       None \<Rightarrow> ([], 0, 0, False, False)
                     | Some c \<Rightarrow>
                         if c < 0 then ([], 0, 0, False, False)
                         else (iid, n, c, True, True)))))"

lemma parse_itoa_epoch: "0 \<le> e \<Longrightarrow> int64_range e \<Longrightarrow> parse_int64 (itoa e) = Some e"
  by (rule parse_int64_itoa) (simp_all add: int64_range_def)

lemma str_cut_token:
  "CHR ''.'' \<notin> set i \<Longrightarrow> str_cut (CHR ''.'') (i @ CHR ''.'' # r) = (i, r, True)"
  by (rule str_cut_found)

lemma ParseExternalToken_External:
  assumes "i \<noteq> []" "CHR ''.'' \<notin> set i" "0 \<le> e" "int64_range e"
  shows "ParseExternalToken (ExternalToken i e) = (i, e, 0, False, True)"
  using assms by (simp add: ParseExternalToken_def ExternalToken_def str_cut_token
      str_cut_none parse_itoa_epoch)

lemma ParseExternalToken_Claim:
  assumes "i \<noteq> []" "CHR ''.'' \<notin> set i" "0 \<le> e" "int64_range e" "0 \<le> c" "int64_range c"
  shows "ParseExternalToken (ClaimToken i e c) = (i, e, c, True, True)"
  using assms by (simp add: ParseExternalToken_def ClaimToken_def str_cut_token
      parse_itoa_epoch)

text \<open>
  What an accepted token names is determined by its text: a claim token is never read as the
  bare form, and the epochs it yields are non-negative int64 values.
\<close>

lemma ParseExternalToken_ok:
  assumes "ParseExternalToken t = (i, e, c, h, True)"
  shows "i \<noteq> [] \<and> CHR ''.'' \<notin> set i \<and> 0 \<le> e \<and> 0 \<le> c \<and> (\<not> h \<longrightarrow> c = 0)"
  using assms unfolding ParseExternalToken_def
  by (auto split: prod.splits option.splits if_splits dest: str_cut_True)

text \<open>
  C33: an external task's handle survives the trip through its text: for an instance id without a
  dot and non-negative int64 epochs, both token forms parse back to exactly what they were made
  from, and a claim token is never read as the bare form.
\<close>

theorem token_roundtrip:
  assumes "i \<noteq> []" "CHR ''.'' \<notin> set i" "0 \<le> e" "int64_range e" "0 \<le> c" "int64_range c"
  shows "ParseExternalToken (ExternalToken i e) = (i, e, 0, False, True) \<and>
    ParseExternalToken (ClaimToken i e c) = (i, e, c, True, True)"
  using ParseExternalToken_External [OF assms(1-4)] ParseExternalToken_Claim [OF assms] by blast

theorem token_roundtrip_witness:
  "ParseExternalToken (ExternalToken ''p1'' 4) = (''p1'', 4, 0, False, True) \<and>
   ParseExternalToken (ClaimToken ''p1'' 4 7) = (''p1'', 4, 7, True, True)"
  by (rule token_roundtrip) (simp_all add: int64_range_def)

subsection \<open>Status patterns (model/status.go)\<close>

definition x_char :: char where "x_char = CHR ''x''"

definition range_pattern :: "string \<Rightarrow> bool" where
  "range_pattern p \<longleftrightarrow> length p = 3 \<and> p ! 1 = x_char \<and> p ! 2 = x_char"

text \<open>
  The loop over the bytes of a three-byte string. Go ranges over runes; a byte above 127 starts
  or is an invalid or longer rune, which is outside \<open>'0'..'9'\<close> in either reading.
\<close>

definition ValidStatusPattern :: "string \<Rightarrow> bool" where
  "ValidStatusPattern p =
     (if length p \<noteq> 3 then False
      else if p ! 1 = x_char \<and> p ! 2 = x_char then CHR ''1'' \<le> p ! 0 \<and> p ! 0 \<le> CHR ''5''
      else list_all is_digit p)"

text \<open>
  \<open>int(p[0]-'0')\<close> subtracts bytes, so it wraps at 256. \<open>strconv.Atoi\<close> is \<open>ParseInt(s, 10, 0)\<close>.
\<close>

definition byte_sub :: "char \<Rightarrow> char \<Rightarrow> int" where
  "byte_sub a b = (of_char a - of_char b) mod 256"

definition MatchStatusPattern :: "string \<Rightarrow> int \<Rightarrow> bool" where
  "MatchStatusPattern p code =
     (if range_pattern p then
        (let hundreds = byte_sub (p ! 0) (CHR ''0'') * 100
         in hundreds \<le> code \<and> code \<le> hundreds + 99)
      else (case parse_int64 p of None \<Rightarrow> False | Some n \<Rightarrow> n = code))"

definition MatchAnyStatus :: "int \<Rightarrow> string list \<Rightarrow> bool" where
  "MatchAnyStatus code patterns =
     (if patterns = [] then 200 \<le> code \<and> code \<le> 299
      else list_ex (\<lambda>p. MatchStatusPattern p code) patterns)"

definition IsSuccessPattern :: "string \<Rightarrow> bool" where
  "IsSuccessPattern p =
     (if range_pattern p then p ! 0 = CHR ''2''
      else (case parse_int64 p of None \<Rightarrow> False | Some n \<Rightarrow> 200 \<le> n \<and> n \<le> 299))"

definition patternWidth :: "string \<Rightarrow> nat" where
  "patternWidth p = (if range_pattern p then 100 else 1)"

datatype key_error = EmptyPattern | NotAPattern string | ListedTwice string | MixesSides string string

fun parse_key_parts :: "string list \<Rightarrow> string list \<Rightarrow> (key_error, string list) result" where
  "parse_key_parts out [] = Inr out"
| "parse_key_parts out (part # parts) =
     (let p = trim_space part in
      if p = [] then Inl EmptyPattern
      else if \<not> ValidStatusPattern p then Inl (NotAPattern p)
      else if p \<in> set out then Inl (ListedTwice p)
      else parse_key_parts (out @ [p]) parts)"

definition ParseResponseKey :: "string \<Rightarrow> (key_error, string list) result" where
  "ParseResponseKey key =
     (case parse_key_parts [] (str_split (CHR '','') key) of
        Inl e \<Rightarrow> Inl e
      | Inr out \<Rightarrow>
          (case find (\<lambda>p. IsSuccessPattern p \<noteq> IsSuccessPattern (hd out)) out of
             Some p \<Rightarrow> Inl (MixesSides (hd out) p)
           | None \<Rightarrow> Inr out))"

end
