(* ===== verification/Store.thy ===== *)
theory Store
  imports Instance_Model
begin

text \<open>
  The tables the engine and the API share (\<open>internal/db\<close>) and the SQL statements on
  \<open>process_instances\<close> that lease, write and move rows (\<open>queries.sql\<close>, compiled into
  \<open>internal/db/gen/queries.sql.go\<close>). A table is a list of rows; a statement is a function on the
  store, and one that reports its row count returns it. A NULL column is \<open>None\<close>, and a comparison
  with NULL is false, as in SQL's WHERE. JSON columns keep their text, except \<open>call_stack\<close> and
  \<open>objects\<close>, which are lists, and \<open>engine_state\<close>, which is its closed key set.
\<close>

subsection \<open>Tables\<close>

datatype path_elem = PKey string | PIdx int

record objref =
  ref_hash :: string
  ref_size :: int
  ref_path :: "path_elem list"

text \<open>\<open>engine_state\<close>: the whitelisted bookkeeping keys, absent when never set.\<close>

record engine_state =
  es_spawn_child_key :: "string option"
  es_spawn_index :: "int option"
  es_spawn_attempt :: "int option"
  es_retry_override :: bool

text \<open>\<open>stateCols\<close>: the value columns an encode produces.\<close>

record state_cols =
  c_InputData :: string
  c_OutputsData :: string
  c_OutputData :: string
  c_ErrorInternal :: string
  c_ErrorData :: string
  c_ExternalInput :: string
  c_ExternalLost :: bool
  c_EngineState :: engine_state
  c_Objects :: "objref list"

record row =
  r_id :: string
  r_process_name :: string
  r_process_version :: int
  r_parent_id :: string
  r_root_id :: string
  r_spawn_task_id :: string
  r_parent_task_epoch :: int
  r_call_stack :: "string list"
  r_created_at :: int
  r_superseded_at :: "int option"
  r_task :: string
  r_next_replayable :: bool
  r_task_epoch :: int
  r_cols :: state_cols
  r_retry_count :: int
  r_wake_at :: "int option"
  r_status :: status
  r_phase :: phase
  r_error_message :: string
  r_error_code :: string
  r_updated_at :: int
  r_worker_id :: "string option"
  r_lease_expires_at :: "int option"
  r_lease_epoch :: int
  r_external_worker_id :: "string option"
  r_external_lease_expires_at :: "int option"
  r_external_claim_epoch :: int

text \<open>A buffered outcome (\<open>process_signals\<close>); the outcome stays JSON text.\<close>

record signal =
  g_id :: string
  g_seq :: int
  g_instance_id :: string
  g_task_id :: string
  g_outcome :: string
  g_created_at :: int

record object_row =
  o_hash :: string
  o_content :: string
  o_size :: int
  o_created_at :: int
  o_released_at :: "int option"

datatype owner_kind = OwnerInstance | OwnerLog

record object_ref_row =
  f_hash :: string
  f_owner_kind :: owner_kind
  f_owner_id :: string
  f_created_at :: int

text \<open>The audit events (\<open>internal/model/logs.go\<close>) the lifecycle writes.\<close>

datatype event =
    EventInstanceSettled | EventPauseRequested | EventPaused | EventPausing | EventResumed
  | EventCancelRequested | EventCancelled | EventCancelling

text \<open>
  \<open>s_logs\<close> is \<open>process_logs\<close> by id and root; \<open>s_audit\<close> is what the operations below hand to
  \<open>AppendLog\<close>, whose rows are buffered and best-effort: the instance and the event.
\<close>

record store =
  s_rows :: "row list"
  s_signals :: "signal list"
  s_objects :: "object_row list"
  s_refs :: "object_ref_row list"
  s_logs :: "(string \<times> string) list"
  s_audit :: "(string \<times> event) list"

datatype db_error =
    ErrNotFound | ErrConflict | ErrInvalid | ErrLeaseLost | ErrUpgradeStale | ErrInternal

type_synonym 'a tx = "(db_error, 'a \<times> store) result"

text \<open>\<open>withTx\<close>: an error rolls the whole transaction back.\<close>

definition withTx :: "(store \<Rightarrow> 'a tx) \<Rightarrow> store \<Rightarrow> (db_error, 'a) result \<times> store" where
  "withTx body s = (case body s of Inl e \<Rightarrow> (Inl e, s) | Inr (x, s') \<Rightarrow> (Inr x, s'))"

lemma withTx_error [simp]: "withTx body s = (Inl e, s') \<longleftrightarrow> body s = Inl e \<and> s' = s"
  by (auto simp: withTx_def split: sum.splits)

lemma withTx_ok [simp]: "withTx body s = (Inr x, s') \<longleftrightarrow> body s = Inr (x, s')"
  by (auto simp: withTx_def split: sum.splits)

subsection \<open>Statements\<close>

definition find_row :: "row list \<Rightarrow> string \<Rightarrow> row option" where
  "find_row rows i = List.find (\<lambda>r. r_id r = i) rows"

text \<open>\<open>UPDATE process_instances SET f WHERE P\<close>; every SET reads the pre-update row.\<close>

definition upd :: "(row \<Rightarrow> bool) \<Rightarrow> (row \<Rightarrow> row) \<Rightarrow> store \<Rightarrow> store" where
  "upd P f s = s\<lparr>s_rows := map (\<lambda>r. if P r then f r else r) (s_rows s)\<rparr>"

definition rows_matching :: "(row \<Rightarrow> bool) \<Rightarrow> store \<Rightarrow> nat" where
  "rows_matching P s = length (filter P (s_rows s))"

definition opt_le :: "int option \<Rightarrow> int \<Rightarrow> bool" where
  "opt_le x b = (case x of None \<Rightarrow> False | Some v \<Rightarrow> v \<le> b)"

definition opt_lt :: "int option \<Rightarrow> int \<Rightarrow> bool" where
  "opt_lt x b = (case x of None \<Rightarrow> False | Some v \<Rightarrow> v < b)"

definition opt_gt :: "int option \<Rightarrow> int \<Rightarrow> bool" where
  "opt_gt x b = (case x of None \<Rightarrow> False | Some v \<Rightarrow> v > b)"

definition coalesce_str :: "string option \<Rightarrow> string" where
  "coalesce_str x = (case x of None \<Rightarrow> [] | Some v \<Rightarrow> v)"

text \<open>\<open>UpdateInstanceParams\<close>; \<open>UpdateInstanceProgress\<close> binds the same minus the last five.\<close>

record update_params =
  u_ID :: string
  u_Task :: string
  u_NextReplayable :: bool
  u_TaskEpoch :: int
  u_Cols :: state_cols
  u_RetryCount :: int
  u_WakeAt :: "int option"
  u_Phase :: phase
  u_UpdatedAt :: int
  u_LeaseEpoch :: int
  u_WorkerID :: string
  u_Status :: status
  u_ErrorMessage :: string
  u_ErrorCode :: string

definition fence :: "update_params \<Rightarrow> row \<Rightarrow> bool" where
  "fence p r \<longleftrightarrow> r_id r = u_ID p \<and> r_lease_epoch r = u_LeaseEpoch p \<and>
     coalesce_str (r_worker_id r) = u_WorkerID p"

definition kept_status :: "status \<Rightarrow> status \<Rightarrow> status" where
  "kept_status old new =
     (if old \<in> {StatusPausing, StatusCancelling} \<and> new = StatusRunning then old else new)"

text \<open>Moving \<open>task_epoch\<close> drops the external claim.\<close>

definition set_update :: "update_params \<Rightarrow> row \<Rightarrow> row" where
  "set_update p r = r\<lparr>
     r_task := u_Task p,
     r_next_replayable := u_NextReplayable p,
     r_task_epoch := u_TaskEpoch p,
     r_cols := (u_Cols p)\<lparr>c_InputData := c_InputData (r_cols r)\<rparr>,
     r_retry_count := u_RetryCount p,
     r_wake_at := u_WakeAt p,
     r_status := kept_status (r_status r) (u_Status p),
     r_phase := u_Phase p,
     r_error_message := u_ErrorMessage p,
     r_error_code := u_ErrorCode p,
     r_updated_at := u_UpdatedAt p,
     r_external_worker_id := (if r_task_epoch r = u_TaskEpoch p then r_external_worker_id r else None),
     r_external_lease_expires_at :=
       (if r_task_epoch r = u_TaskEpoch p then r_external_lease_expires_at r else None),
     r_worker_id := None,
     r_lease_expires_at := None\<rparr>"

definition q_UpdateInstance :: "update_params \<Rightarrow> store \<Rightarrow> nat \<times> store" where
  "q_UpdateInstance p s = (rows_matching (fence p) s, upd (fence p) (set_update p) s)"

definition set_progress :: "update_params \<Rightarrow> row \<Rightarrow> row" where
  "set_progress p r = r\<lparr>
     r_task := u_Task p,
     r_next_replayable := u_NextReplayable p,
     r_task_epoch := u_TaskEpoch p,
     r_cols := (u_Cols p)\<lparr>c_InputData := c_InputData (r_cols r), c_OutputData := c_OutputData (r_cols r),
                          c_ErrorData := c_ErrorData (r_cols r)\<rparr>,
     r_retry_count := u_RetryCount p,
     r_wake_at := u_WakeAt p,
     r_phase := u_Phase p,
     r_updated_at := u_UpdatedAt p,
     r_external_worker_id := (if r_task_epoch r = u_TaskEpoch p then r_external_worker_id r else None),
     r_external_lease_expires_at :=
       (if r_task_epoch r = u_TaskEpoch p then r_external_lease_expires_at r else None),
     r_worker_id := None,
     r_lease_expires_at := None\<rparr>"

definition q_UpdateInstanceProgress :: "update_params \<Rightarrow> store \<Rightarrow> nat \<times> store" where
  "q_UpdateInstanceProgress p s = (rows_matching (fence p) s, upd (fence p) (set_progress p) s)"

text \<open>
  \<open>InsertInstance\<close>: \<open>root_id\<close> is derived from the parent row, the lease and claim columns take
  their defaults, and a taken id violates the primary key.
\<close>

definition derive_root :: "row list \<Rightarrow> row \<Rightarrow> string" where
  "derive_root rows r = (case find_row rows (r_parent_id r) of None \<Rightarrow> r_id r | Some p \<Rightarrow> r_root_id p)"

definition q_InsertInstance :: "row \<Rightarrow> store \<Rightarrow> (db_error, store) result" where
  "q_InsertInstance r s =
     (if find_row (s_rows s) (r_id r) \<noteq> None then Inl ErrInternal
      else Inr (s\<lparr>s_rows := s_rows s @ [r\<lparr>r_root_id := derive_root (s_rows s) r,
             r_superseded_at := None, r_worker_id := None, r_lease_expires_at := None,
             r_lease_epoch := 0, r_external_worker_id := None, r_external_lease_expires_at := None,
             r_external_claim_epoch := 0\<rparr>]\<rparr>))"

text \<open>The batch a spawn made: one parent, one task, one epoch.\<close>

definition in_batch :: "string \<Rightarrow> string \<Rightarrow> int \<Rightarrow> row \<Rightarrow> bool" where
  "in_batch parentID spawnTask epoch r \<longleftrightarrow>
     r_parent_id r = parentID \<and> r_spawn_task_id r = spawnTask \<and> r_parent_task_epoch r = epoch"

definition q_CountActiveSiblings :: "string \<Rightarrow> string \<Rightarrow> int \<Rightarrow> store \<Rightarrow> nat" where
  "q_CountActiveSiblings parentID spawnTask epoch s =
     rows_matching (\<lambda>r. in_batch parentID spawnTask epoch r \<and>
       r_status r \<notin> {StatusCompleted, StatusFailed, StatusRaised, StatusCancelled}) s"

definition q_CountBusySiblings :: "string \<Rightarrow> string \<Rightarrow> int \<Rightarrow> store \<Rightarrow> nat" where
  "q_CountBusySiblings parentID spawnTask epoch s =
     rows_matching (\<lambda>r. in_batch parentID spawnTask epoch r \<and>
       r_status r \<in> {StatusRunning, StatusPausing, StatusFailing, StatusCancelling}) s"

definition drained_status :: "status \<Rightarrow> status" where
  "drained_status st =
     (if st = StatusPausing then StatusPaused
      else if st = StatusCancelling then StatusCancelled else StatusFailed)"

definition set_drained :: "int \<Rightarrow> row \<Rightarrow> row" where
  "set_drained now r = r\<lparr>
     r_status := drained_status (r_status r),
     r_phase := (if r_status r = StatusFailing then PhaseNone else r_phase r),
     r_wake_at := (if r_status r = StatusFailing then None else r_wake_at r),
     r_updated_at := now\<rparr>"

definition q_SettleDrained :: "string \<Rightarrow> int \<Rightarrow> store \<Rightarrow> store" where
  "q_SettleDrained i now =
     upd (\<lambda>r. r_id r = i \<and> r_status r \<in> {StatusPausing, StatusCancelling, StatusFailing}) (set_drained now)"

definition set_woken :: "int \<Rightarrow> row \<Rightarrow> row" where
  "set_woken now r = r\<lparr>
     r_phase := (if r_status r \<in> {StatusRunning, StatusPausing, StatusPaused}
                 then PhaseCollecting else PhaseNone),
     r_updated_at := now\<rparr>"

definition q_WakeParent :: "string \<Rightarrow> int \<Rightarrow> store \<Rightarrow> store" where
  "q_WakeParent i now = upd (\<lambda>r. r_id r = i) (set_woken now)"

definition set_failing :: "string \<Rightarrow> string \<Rightarrow> int \<Rightarrow> row \<Rightarrow> row" where
  "set_failing msg code now r =
     r\<lparr>r_status := StatusFailing, r_error_message := msg, r_error_code := code, r_updated_at := now\<rparr>"

definition q_FailAncestors :: "string \<Rightarrow> string \<Rightarrow> int \<Rightarrow> string list \<Rightarrow> store \<Rightarrow> store" where
  "q_FailAncestors msg code now ids =
     upd (\<lambda>r. r_id r \<in> set ids \<and> r_status r \<in> {StatusRunning, StatusPausing, StatusPaused})
         (set_failing msg code now)"

text \<open>A row a worker holds, or any row above one, drains.\<close>

definition above_held :: "row list \<Rightarrow> string \<Rightarrow> string \<Rightarrow> bool" where
  "above_held rows root i \<longleftrightarrow>
     list_ex (\<lambda>h. r_root_id h = root \<and> r_worker_id h \<noteq> None \<and> i \<in> set (r_call_stack h)) rows"

definition split_status :: "row list \<Rightarrow> string \<Rightarrow> status \<Rightarrow> status \<Rightarrow> row \<Rightarrow> status" where
  "split_status rows root drain stopped r =
     (if r_worker_id r \<noteq> None \<or> above_held rows root (r_id r) then drain else stopped)"

definition set_status :: "status \<Rightarrow> int \<Rightarrow> row \<Rightarrow> row" where
  "set_status st now r = r\<lparr>r_status := st, r_updated_at := now\<rparr>"

text \<open>The two statements return the id and the new status of each row they wrote.\<close>

definition stop_rows :: "(row \<Rightarrow> bool) \<Rightarrow> status \<Rightarrow> status \<Rightarrow> string \<Rightarrow> int \<Rightarrow> store \<Rightarrow> (string \<times> status) list \<times> store" where
  "stop_rows P drain stopped root now s =
     (let new = split_status (s_rows s) root drain stopped;
          hit = (\<lambda>r. r_root_id r = root \<and> P r)
      in (map (\<lambda>r. (r_id r, new r)) (filter hit (s_rows s)),
          upd hit (\<lambda>r. set_status (new r) now r) s))"

definition q_PauseTree :: "string \<Rightarrow> int \<Rightarrow> store \<Rightarrow> (string \<times> status) list \<times> store" where
  "q_PauseTree = stop_rows (\<lambda>r. r_status r = StatusRunning) StatusPausing StatusPaused"

definition q_CancelTree :: "string \<Rightarrow> int \<Rightarrow> store \<Rightarrow> (string \<times> status) list \<times> store" where
  "q_CancelTree = stop_rows (\<lambda>r. r_status r \<in> {StatusRunning, StatusPaused}) StatusCancelling StatusCancelled"

definition q_SetStatusIn :: "status \<Rightarrow> int \<Rightarrow> string list \<Rightarrow> store \<Rightarrow> store" where
  "q_SetStatusIn st now ids = upd (\<lambda>r. r_id r \<in> set ids) (set_status st now)"

definition set_grant :: "string \<Rightarrow> int \<Rightarrow> row \<Rightarrow> row" where
  "set_grant worker expiry r = r\<lparr>r_worker_id := Some worker, r_lease_expires_at := Some expiry,
     r_lease_epoch := r_lease_epoch r + 1\<rparr>"

definition q_GrantLeases :: "string \<Rightarrow> int \<Rightarrow> string list \<Rightarrow> store \<Rightarrow> store" where
  "q_GrantLeases worker expiry ids = upd (\<lambda>r. r_id r \<in> set ids) (set_grant worker expiry)"

definition q_SupersedeInstance :: "string \<Rightarrow> int \<Rightarrow> store \<Rightarrow> store" where
  "q_SupersedeInstance i now = upd (\<lambda>r. r_id r = i) (\<lambda>r. r\<lparr>r_superseded_at := Some now\<rparr>)"

definition q_GetInstanceStatus :: "string \<Rightarrow> store \<Rightarrow> status option" where
  "q_GetInstanceStatus i s = map_option r_status (find_row (s_rows s) i)"

end
