(* ===== verification/Objects.thy ===== *)
theory Objects
  imports Store
begin

text \<open>
  The object store (\<open>internal/db/db_objects.go\<close>): content addressed by hash, claimed by the
  instances and log rows that reference it, and swept once unclaimed for the grace period.
\<close>

subsection \<open>Statements\<close>

record pending_object =
  po_Hash :: string
  po_Content :: string
  po_Size :: int

definition q_PutObject :: "pending_object \<Rightarrow> int \<Rightarrow> store \<Rightarrow> store" where
  "q_PutObject ob now s =
     (if list_ex (\<lambda>r. o_hash r = po_Hash ob) (s_objects s)
      then s\<lparr>s_objects := map (\<lambda>r. if o_hash r = po_Hash ob
               then r\<lparr>o_size := po_Size ob, o_released_at := None\<rparr> else r) (s_objects s)\<rparr>
      else s\<lparr>s_objects := s_objects s @
               [\<lparr>o_hash = po_Hash ob, o_content = po_Content ob, o_size = po_Size ob,
                 o_created_at = now, o_released_at = None\<rparr>]\<rparr>)"

definition ref_is :: "string \<Rightarrow> owner_kind \<Rightarrow> string \<Rightarrow> object_ref_row \<Rightarrow> bool" where
  "ref_is h k own r \<longleftrightarrow> f_hash r = h \<and> f_owner_kind r = k \<and> f_owner_id r = own"

definition q_PutObjectRef :: "string \<Rightarrow> owner_kind \<Rightarrow> string \<Rightarrow> int \<Rightarrow> store \<Rightarrow> store" where
  "q_PutObjectRef h k own now s =
     (if list_ex (ref_is h k own) (s_refs s) then s
      else s\<lparr>s_refs := s_refs s @
               [\<lparr>f_hash = h, f_owner_kind = k, f_owner_id = own, f_created_at = now\<rparr>]\<rparr>)"

definition q_DropObjectRef :: "string \<Rightarrow> owner_kind \<Rightarrow> string \<Rightarrow> store \<Rightarrow> store" where
  "q_DropObjectRef h k own s = s\<lparr>s_refs := filter (\<lambda>r. \<not> ref_is h k own r) (s_refs s)\<rparr>"

definition claimed :: "store \<Rightarrow> string \<Rightarrow> bool" where
  "claimed s h \<longleftrightarrow> list_ex (\<lambda>r. f_hash r = h) (s_refs s)"

definition stored :: "store \<Rightarrow> string \<Rightarrow> bool" where
  "stored s h \<longleftrightarrow> list_ex (\<lambda>r. o_hash r = h) (s_objects s)"

definition q_ClearObjectRelease :: "store \<Rightarrow> store" where
  "q_ClearObjectRelease s = s\<lparr>s_objects := map (\<lambda>r.
     if o_released_at r \<noteq> None \<and> claimed s (o_hash r) then r\<lparr>o_released_at := None\<rparr> else r) (s_objects s)\<rparr>"

definition q_MarkObjectReleased :: "int \<Rightarrow> store \<Rightarrow> store" where
  "q_MarkObjectReleased now s = s\<lparr>s_objects := map (\<lambda>r.
     if o_released_at r = None \<and> \<not> claimed s (o_hash r) then r\<lparr>o_released_at := Some now\<rparr> else r) (s_objects s)\<rparr>"

definition collectable :: "int \<Rightarrow> store \<Rightarrow> object_row \<Rightarrow> bool" where
  "collectable before s r \<longleftrightarrow> \<not> claimed s (o_hash r) \<and> opt_lt (o_released_at r) before"

definition q_CollectUnreferencedObjects :: "int \<Rightarrow> store \<Rightarrow> nat \<times> store" where
  "q_CollectUnreferencedObjects before s =
     (length (filter (collectable before s) (s_objects s)),
      s\<lparr>s_objects := filter (\<lambda>r. \<not> collectable before s r) (s_objects s)\<rparr>)"

definition q_OrphanedLogRefs :: "store \<Rightarrow> object_ref_row list" where
  "q_OrphanedLogRefs s = filter (\<lambda>r. f_owner_kind r = OwnerLog \<and>
     \<not> list_ex (\<lambda>(i, _). i = f_owner_id r) (s_logs s)) (s_refs s)"

definition q_OrphanedInstanceRefs :: "store \<Rightarrow> object_ref_row list" where
  "q_OrphanedInstanceRefs s = filter (\<lambda>r. f_owner_kind r = OwnerInstance \<and>
     \<not> list_ex (\<lambda>i. r_id i = f_owner_id r) (s_rows s)) (s_refs s)"

subsection \<open>Operations\<close>

text \<open>The hash sets are Go maps; a list gives the order one iteration visits them in.\<close>

definition claimObjects :: "owner_kind \<Rightarrow> string \<Rightarrow> pending_object list \<Rightarrow> string list \<Rightarrow> int \<Rightarrow> store \<Rightarrow> store" where
  "claimObjects k own pending referenced now s =
     fold (\<lambda>h. q_PutObjectRef h k own now) referenced
       (fold (\<lambda>ob. q_PutObject ob now) pending s)"

definition applyContextObjectDiff ::
  "string \<Rightarrow> pending_object list \<Rightarrow> string list \<Rightarrow> string list \<Rightarrow> int \<Rightarrow> store \<Rightarrow> store" where
  "applyContextObjectDiff inst pending loaded referenced now s =
     fold (\<lambda>h s. if h \<in> set referenced then s else q_DropObjectRef h OwnerInstance inst s) loaded
       (claimObjects OwnerInstance inst pending referenced now s)"

definition retireOrphanedLogRefs :: "store \<Rightarrow> store" where
  "retireOrphanedLogRefs s =
     fold (\<lambda>orph. q_DropObjectRef (f_hash orph) OwnerLog (f_owner_id orph)) (q_OrphanedLogRefs s) s"

definition retireOrphanedInstanceRefs :: "store \<Rightarrow> store" where
  "retireOrphanedInstanceRefs s =
     fold (\<lambda>orph. q_DropObjectRef (f_hash orph) OwnerInstance (f_owner_id orph)) (q_OrphanedInstanceRefs s) s"

definition CollectObjects :: "int \<Rightarrow> int \<Rightarrow> store \<Rightarrow> nat \<times> store" where
  "CollectObjects grace now s =
     (let s = retireOrphanedInstanceRefs (retireOrphanedLogRefs s);
          s = q_MarkObjectReleased now (q_ClearObjectRelease s)
      in q_CollectUnreferencedObjects (now - grace) s)"

subsection \<open>What the statements keep\<close>

lemma fold_keeps: "(\<And>x s. P s \<Longrightarrow> P (f x s)) \<Longrightarrow> P s \<Longrightarrow> P (fold f xs s)"
  by (induction xs arbitrary: s) auto

lemma fold_same: "(\<And>x s. g (f x s) = g s) \<Longrightarrow> g (fold f xs s) = g s"
  by (induction xs arbitrary: s) auto

lemma put_rows [row_simps, simp]:
  "s_rows (q_PutObject ob now s) = s_rows s" "s_signals (q_PutObject ob now s) = s_signals s"
  "s_refs (q_PutObject ob now s) = s_refs s" "s_logs (q_PutObject ob now s) = s_logs s"
  "s_audit (q_PutObject ob now s) = s_audit s"
  by (simp_all add: q_PutObject_def)

lemma putref_rows [row_simps, simp]:
  "s_rows (q_PutObjectRef h k own now s) = s_rows s" "s_signals (q_PutObjectRef h k own now s) = s_signals s"
  "s_objects (q_PutObjectRef h k own now s) = s_objects s" "s_logs (q_PutObjectRef h k own now s) = s_logs s"
  "s_audit (q_PutObjectRef h k own now s) = s_audit s"
  by (simp_all add: q_PutObjectRef_def)

lemma dropref_rows [row_simps, simp]:
  "s_rows (q_DropObjectRef h k own s) = s_rows s" "s_signals (q_DropObjectRef h k own s) = s_signals s"
  "s_objects (q_DropObjectRef h k own s) = s_objects s" "s_logs (q_DropObjectRef h k own s) = s_logs s"
  "s_audit (q_DropObjectRef h k own s) = s_audit s"
  by (simp_all add: q_DropObjectRef_def)

lemma diff_rows [row_simps, simp]:
  "s_rows (applyContextObjectDiff inst pending loaded referenced now s) = s_rows s"
  "s_signals (applyContextObjectDiff inst pending loaded referenced now s) = s_signals s"
  "s_logs (applyContextObjectDiff inst pending loaded referenced now s) = s_logs s"
  "s_audit (applyContextObjectDiff inst pending loaded referenced now s) = s_audit s"
  by (simp_all add: applyContextObjectDiff_def claimObjects_def fold_same [of s_rows]
      fold_same [of s_signals] fold_same [of s_logs] fold_same [of s_audit])

lemma stored_iff: "stored s h \<longleftrightarrow> h \<in> set (map o_hash (s_objects s))"
  by (auto simp: stored_def list_ex_iff)

lemma stored_put: "stored (q_PutObject ob now s) h \<longleftrightarrow> h = po_Hash ob \<or> stored s h"
proof -
  have "map o_hash (map (\<lambda>r. if o_hash r = po_Hash ob then r\<lparr>o_size := po_Size ob, o_released_at := None\<rparr> else r) obs)
      = map o_hash obs" for obs :: "object_row list"
    by simp
  moreover have "list_ex (\<lambda>r. o_hash r = po_Hash ob) (s_objects s) \<longleftrightarrow> stored s (po_Hash ob)"
    by (simp add: stored_def)
  ultimately show ?thesis
    unfolding q_PutObject_def by (auto simp: stored_iff simp del: set_map map_map split: if_splits)
qed

lemma stored_puts: "stored (fold (\<lambda>ob. q_PutObject ob now) obs s) h \<longleftrightarrow> h \<in> po_Hash ` set obs \<or> stored s h"
  by (induction obs arbitrary: s) (auto simp: stored_put)

lemma claims_putref:
  "(h, k, own) \<in> (\<lambda>r. (f_hash r, f_owner_kind r, f_owner_id r)) ` set (s_refs (q_PutObjectRef h' k' own' now s)) \<longleftrightarrow>
   (h, k, own) = (h', k', own') \<or> (h, k, own) \<in> (\<lambda>r. (f_hash r, f_owner_kind r, f_owner_id r)) ` set (s_refs s)"
proof -
  have "list_ex (ref_is h' k' own') (s_refs s) \<longleftrightarrow>
    (h', k', own') \<in> (\<lambda>r. (f_hash r, f_owner_kind r, f_owner_id r)) ` set (s_refs s)"
    by (force simp: list_ex_iff ref_is_def)
  then show ?thesis by (auto simp: q_PutObjectRef_def)
qed

text \<open>The claims table as the set of its keys.\<close>

definition claims :: "store \<Rightarrow> (string \<times> owner_kind \<times> string) set" where
  "claims s = (\<lambda>r. (f_hash r, f_owner_kind r, f_owner_id r)) ` set (s_refs s)"

lemma claims_PutObjectRef [simp]: "claims (q_PutObjectRef h k own now s) = insert (h, k, own) (claims s)"
  by (simp add: claims_def set_eq_iff claims_putref del: image_iff)

lemma claims_DropObjectRef [simp]: "claims (q_DropObjectRef h k own s) = claims s - {(h, k, own)}"
  by (auto simp: claims_def q_DropObjectRef_def ref_is_def)

lemma claims_PutObject [simp]: "claims (q_PutObject ob now s) = claims s"
  by (simp add: claims_def)

lemma claimed_iff: "claimed s h \<longleftrightarrow> (\<exists>k own. (h, k, own) \<in> claims s)"
  by (force simp: claimed_def claims_def list_ex_iff)

lemma claims_claimObjects:
  "claims (claimObjects k own pending referenced now s) = (\<lambda>h. (h, k, own)) ` set referenced \<union> claims s"
proof -
  have "claims (fold (\<lambda>h. q_PutObjectRef h k own now) hs t) = (\<lambda>h. (h, k, own)) ` set hs \<union> claims t" for hs t
    by (induction hs arbitrary: t) auto
  moreover have "claims (fold (\<lambda>ob. q_PutObject ob now) obs t) = claims t" for obs t
    by (rule fold_same) simp
  ultimately show ?thesis by (simp add: claimObjects_def)
qed

lemma claims_diff:
  "claims (applyContextObjectDiff inst pending loaded referenced now s) =
     (\<lambda>h. (h, OwnerInstance, inst)) ` set referenced \<union>
     (claims s - (\<lambda>h. (h, OwnerInstance, inst)) ` (set loaded - set referenced))"
proof -
  have "claims (fold (\<lambda>h s. if h \<in> R then s else q_DropObjectRef h OwnerInstance inst s) hs t) =
        claims t - (\<lambda>h. (h, OwnerInstance, inst)) ` (set hs - R)" for hs t R
    by (induction hs arbitrary: t) auto
  then show ?thesis by (auto simp: applyContextObjectDiff_def claims_claimObjects)
qed

lemma stored_diff:
  "stored (applyContextObjectDiff inst pending loaded referenced now s) h \<longleftrightarrow>
     h \<in> po_Hash ` set pending \<or> stored s h"
proof -
  have a: "s_objects (fold (\<lambda>h s. if h \<in> R then s else q_DropObjectRef h OwnerInstance inst s) hs t) = s_objects t" for hs t R
    by (rule fold_same) simp
  have b: "s_objects (fold (\<lambda>h. q_PutObjectRef h k own now) hs t) = s_objects t" for hs t k own
    by (rule fold_same) simp
  show ?thesis
    using stored_puts [of now pending s h]
    by (simp add: stored_def applyContextObjectDiff_def claimObjects_def a b)
qed

lemma claims_drops:
  "claims (fold (\<lambda>orph. q_DropObjectRef (f_hash orph) k (f_owner_id orph)) os s) =
     claims s - (\<lambda>orph. (f_hash orph, k, f_owner_id orph)) ` set os"
  by (induction os arbitrary: s) auto

lemma claims_retire_log:
  "claims (retireOrphanedLogRefs s) = {(h, k, own). (h, k, own) \<in> claims s \<and> (k = OwnerLog \<longrightarrow> own \<in> fst ` set (s_logs s))}"
  by (auto simp: retireOrphanedLogRefs_def claims_drops q_OrphanedLogRefs_def list_ex_iff)
    (force simp: claims_def)+

lemma claims_retire_inst:
  "claims (retireOrphanedInstanceRefs s) =
     {(h, k, own). (h, k, own) \<in> claims s \<and> (k = OwnerInstance \<longrightarrow> own \<in> r_id ` set (s_rows s))}"
  by (auto simp: retireOrphanedInstanceRefs_def claims_drops q_OrphanedInstanceRefs_def list_ex_iff)
    (force simp: claims_def)+

lemma retire_keeps [simp]:
  "s_objects (retireOrphanedLogRefs s) = s_objects s" "s_rows (retireOrphanedLogRefs s) = s_rows s"
  "s_logs (retireOrphanedLogRefs s) = s_logs s"
  "s_objects (retireOrphanedInstanceRefs s) = s_objects s" "s_rows (retireOrphanedInstanceRefs s) = s_rows s"
  "s_logs (retireOrphanedInstanceRefs s) = s_logs s"
  by (simp_all add: retireOrphanedLogRefs_def retireOrphanedInstanceRefs_def fold_same [of s_objects]
      fold_same [of s_rows] fold_same [of s_logs])

subsection \<open>The sweep\<close>

text \<open>A claim is live while its owner exists.\<close>

definition live_claims :: "store \<Rightarrow> (string \<times> owner_kind \<times> string) set" where
  "live_claims s = {(h, k, own). (h, k, own) \<in> claims s \<and>
     (case k of OwnerLog \<Rightarrow> own \<in> fst ` set (s_logs s) | OwnerInstance \<Rightarrow> own \<in> r_id ` set (s_rows s))}"

lemma claims_retire: "claims (retireOrphanedInstanceRefs (retireOrphanedLogRefs s)) = live_claims s"
  by (auto simp: claims_retire_inst claims_retire_log live_claims_def split: owner_kind.splits)
    (metis (full_types) owner_kind.exhaust)+

lemma claims_refs: "s_refs s = s_refs t \<Longrightarrow> claims s = claims t"
  by (simp add: claims_def)

lemma claimed_refs: "s_refs s = s_refs t \<Longrightarrow> claimed s h = claimed t h"
  by (simp add: claimed_def)

definition live :: "store \<Rightarrow> string \<Rightarrow> bool" where
  "live s h \<longleftrightarrow> (\<exists>k own. (h, k, own) \<in> live_claims s)"

definition swept :: "int \<Rightarrow> store \<Rightarrow> object_row \<Rightarrow> object_row" where
  "swept now s r =
     (if live s (o_hash r) then r\<lparr>o_released_at := None\<rparr>
      else if o_released_at r = None then r\<lparr>o_released_at := Some now\<rparr> else r)"

lemma collect_objects:
  "s_objects (snd (CollectObjects grace now s)) =
     filter (\<lambda>r. live s (o_hash r) \<or> \<not> opt_lt (o_released_at r) (now - grace)) (map (swept now s) (s_objects s))"
proof -
  define t where "t = retireOrphanedInstanceRefs (retireOrphanedLogRefs s)"
  have c: "claimed t h = live s h" for h
    by (simp add: t_def claimed_iff claims_retire live_def)
  have o: "s_objects t = s_objects s" by (simp add: t_def)
  have cc: "claimed (q_ClearObjectRelease t) h = live s h" for h
    using c by (simp add: q_ClearObjectRelease_def claimed_def)
  have cm: "claimed (q_MarkObjectReleased now (q_ClearObjectRelease t)) h = live s h" for h
    using cc by (simp add: q_MarkObjectReleased_def claimed_def)
  have "s_objects (q_MarkObjectReleased now (q_ClearObjectRelease t)) = map (swept now s) (s_objects s)"
    unfolding q_MarkObjectReleased_def
    by (auto simp: cc) (auto simp: q_ClearObjectRelease_def c o swept_def)
  then show ?thesis
    by (simp add: CollectObjects_def q_CollectUnreferencedObjects_def collectable_def cm Let_def flip: t_def)
qed

lemma collect_rows [simp]:
  "s_rows (snd (CollectObjects grace now s)) = s_rows s" "s_logs (snd (CollectObjects grace now s)) = s_logs s"
  by (simp_all add: CollectObjects_def Let_def q_CollectUnreferencedObjects_def q_MarkObjectReleased_def
      q_ClearObjectRelease_def)

lemma collect_claims: "claims (snd (CollectObjects grace now s)) = live_claims s"
  unfolding claims_retire [symmetric]
  by (rule claims_refs) (simp add: CollectObjects_def Let_def q_CollectUnreferencedObjects_def
      q_MarkObjectReleased_def q_ClearObjectRelease_def)

lemma swept_hash [simp]: "o_hash (swept now s r) = o_hash r" "o_content (swept now s r) = o_content r"
  by (simp_all add: swept_def)

text \<open>
  C31: a sweep deletes an object only if no existing instance or log row claims it and it was
  already marked unclaimed more than the grace period ago; so content an owner still claims
  survives with its mark cleared, and content found unclaimed for the first time survives too.
\<close>

theorem sweep_keeps_claimed_and_recent:
  assumes "0 \<le> grace" and "ob \<in> set (s_objects s)"
    and "live s (o_hash ob) \<or> \<not> opt_lt (o_released_at ob) (now - grace)"
  shows "\<exists>ob' \<in> set (s_objects (snd (CollectObjects grace now s))).
           o_hash ob' = o_hash ob \<and> o_content ob' = o_content ob \<and>
           (live s (o_hash ob) \<longrightarrow> o_released_at ob' = None) \<and>
           (o_released_at ob = None \<and> \<not> live s (o_hash ob) \<longrightarrow> o_released_at ob' = Some now)"
  using assms unfolding collect_objects
  by (intro bexI [of _ "swept now s ob"]) (auto simp: swept_def opt_lt_def)

definition sweep_example :: store where
  "sweep_example = \<lparr>s_rows = [], s_signals = [],
     s_objects = [\<lparr>o_hash = ''a'', o_content = ''x'', o_size = 1, o_created_at = 0, o_released_at = Some 5\<rparr>],
     s_refs = [\<lparr>f_hash = ''a'', f_owner_kind = OwnerLog, f_owner_id = ''l'', f_created_at = 0\<rparr>],
     s_logs = [(''l'', ''r'')], s_audit = []\<rparr>"

theorem sweep_keeps_claimed_and_recent_witness:
  "\<exists>ob' \<in> set (s_objects (snd (CollectObjects 10 100 sweep_example))). o_hash ob' = ''a'' \<and> o_released_at ob' = None"
proof -
  have l: "live sweep_example ''a''"
    by (auto simp: live_def live_claims_def claims_def sweep_example_def)
  then show ?thesis
    using sweep_keeps_claimed_and_recent [of 10 "hd (s_objects sweep_example)" sweep_example 100]
    by (auto simp: sweep_example_def)
qed

text \<open>Every claim on an instance's content is on content that is stored.\<close>

definition claims_stored :: "store \<Rightarrow> bool" where
  "claims_stored s \<longleftrightarrow> (\<forall>h k own. (h, k, own) \<in> claims s \<longrightarrow> stored s h)"

lemma claims_stored_collect: "claims_stored s \<Longrightarrow> claims_stored (snd (CollectObjects grace now s))"
proof -
  assume a: "claims_stored s"
  have "stored (snd (CollectObjects grace now s)) h" if "(h, k, own) \<in> live_claims s" for h k own
  proof -
    from that a have "stored s h" by (auto simp: live_claims_def claims_stored_def)
    moreover have "live s h" using that by (auto simp: live_def)
    ultimately show ?thesis by (auto simp: stored_def collect_objects list_ex_iff)
  qed
  then show ?thesis by (simp add: claims_stored_def collect_claims)
qed

lemma claims_stored_diff:
  assumes "claims_stored s"
    and "\<forall>h \<in> set referenced. h \<in> po_Hash ` set pending \<or> stored s h"
  shows "claims_stored (applyContextObjectDiff inst pending loaded referenced now s)"
  using assms by (auto simp: claims_stored_def claims_diff stored_diff)

end
