(* ===== verification/Instances.thy ===== *)
theory Instances
  imports Objects
begin

text \<open>
  An instance in memory and the writes that save it (\<open>internal/db/db_instances.go\<close>): the encoded
  state goes into the row, its objects are claimed and released, and the signal it consumed is
  deleted, all in the transaction whose fenced UPDATE must match the row.
\<close>

subsection \<open>ProcessInstance\<close>

text \<open>
  \<open>i_cols\<close>, \<open>i_pending\<close> and \<open>i_referenced\<close> are what \<open>encodeState\<close> returns on \<open>State\<close>: the value
  columns, the content to write and the hashes the value references. \<open>i_loaded\<close> is
  \<open>LoadedObjectHashes\<close>.
\<close>

record inst =
  i_ID :: string
  i_ProcessName :: string
  i_ProcessVersion :: int
  i_Task :: string
  i_NextReplayable :: bool
  i_ParentID :: string
  i_RootID :: string
  i_SpawnTaskID :: string
  i_ParentTaskEpoch :: int
  i_CallStack :: "string list"
  i_RetryCount :: int
  i_WakeAt :: "int option"
  i_Status :: status
  i_Phase :: phase
  i_ErrorMessage :: string
  i_ErrorCode :: string
  i_WorkerID :: "string option"
  i_LeaseExpiresAt :: "int option"
  i_LeaseEpoch :: int
  i_TaskEpoch :: int
  i_ExternalClaimEpoch :: int
  i_cols :: state_cols
  i_pending :: "pending_object list"
  i_referenced :: "string list"
  i_loaded :: "string list"
  i_ConsumedSignalID :: string
  i_ReclaimedExpired :: bool

definition ref_hashes :: "state_cols \<Rightarrow> string list" where
  "ref_hashes c = map ref_hash (c_Objects c)"

text \<open>
  \<open>toInstance\<close>: a freshly read instance references exactly what its row declares and has
  nothing to write.
\<close>

definition toInstance :: "row \<Rightarrow> inst" where
  "toInstance r = \<lparr>
     i_ID = r_id r, i_ProcessName = r_process_name r, i_ProcessVersion = r_process_version r,
     i_Task = r_task r, i_NextReplayable = r_next_replayable r, i_ParentID = r_parent_id r,
     i_RootID = r_root_id r, i_SpawnTaskID = r_spawn_task_id r,
     i_ParentTaskEpoch = r_parent_task_epoch r, i_CallStack = r_call_stack r,
     i_RetryCount = r_retry_count r, i_WakeAt = r_wake_at r, i_Status = r_status r,
     i_Phase = r_phase r, i_ErrorMessage = r_error_message r, i_ErrorCode = r_error_code r,
     i_WorkerID = r_worker_id r, i_LeaseExpiresAt = r_lease_expires_at r,
     i_LeaseEpoch = r_lease_epoch r, i_TaskEpoch = r_task_epoch r,
     i_ExternalClaimEpoch = r_external_claim_epoch r, i_cols = r_cols r, i_pending = [],
     i_referenced = ref_hashes (r_cols r), i_loaded = ref_hashes (r_cols r),
     i_ConsumedSignalID = [], i_ReclaimedExpired = False\<rparr>"

subsection \<open>Saving\<close>

definition q_DeleteSignal :: "string \<Rightarrow> store \<Rightarrow> store" where
  "q_DeleteSignal i s = s\<lparr>s_signals := filter (\<lambda>g. g_id g \<noteq> i) (s_signals s)\<rparr>"

definition persistState :: "inst \<Rightarrow> int \<Rightarrow> store \<Rightarrow> state_cols \<times> store" where
  "persistState i now s =
     (let s = applyContextObjectDiff (i_ID i) (i_pending i) (i_loaded i) (i_referenced i) now s;
          s = (if i_ConsumedSignalID i \<noteq> [] then q_DeleteSignal (i_ConsumedSignalID i) s else s)
      in (i_cols i, s))"

definition fenceWorker :: "inst \<Rightarrow> string" where
  "fenceWorker i = coalesce_str (i_WorkerID i)"

definition updateInstanceParams :: "inst \<Rightarrow> state_cols \<Rightarrow> int \<Rightarrow> update_params" where
  "updateInstanceParams i cols now = \<lparr>
     u_ID = i_ID i, u_Task = i_Task i, u_NextReplayable = i_NextReplayable i,
     u_TaskEpoch = i_TaskEpoch i, u_Cols = cols, u_RetryCount = i_RetryCount i,
     u_WakeAt = i_WakeAt i, u_Phase = i_Phase i, u_UpdatedAt = now,
     u_LeaseEpoch = i_LeaseEpoch i, u_WorkerID = fenceWorker i, u_Status = i_Status i,
     u_ErrorMessage = i_ErrorMessage i, u_ErrorCode = i_ErrorCode i\<rparr>"

text \<open>\<open>progressParams\<close> binds the same fields; the progress statement ignores the last three.\<close>

definition progressParams :: "inst \<Rightarrow> state_cols \<Rightarrow> int \<Rightarrow> update_params" where
  "progressParams i cols now = updateInstanceParams i cols now"

definition requireFenced :: "nat \<times> store \<Rightarrow> (db_error, store) result" where
  "requireFenced w = (case w of (n, s) \<Rightarrow> if n = 0 then Inl ErrLeaseLost else Inr s)"

definition write_inst :: "inst \<Rightarrow> int \<Rightarrow> store \<Rightarrow> (db_error, store) result" where
  "write_inst i now s =
     (case persistState i now s of (cols, s) \<Rightarrow>
        requireFenced (q_UpdateInstance (updateInstanceParams i cols now) s))"

definition UpdateInstance :: "inst \<Rightarrow> int \<Rightarrow> store \<Rightarrow> (db_error, unit) result \<times> store" where
  "UpdateInstance i now =
     withTx (\<lambda>s. case write_inst i now s of Inl e \<Rightarrow> Inl e | Inr s \<Rightarrow> Inr ((), s))"

definition write_progress :: "inst \<Rightarrow> int \<Rightarrow> store \<Rightarrow> (db_error, store) result" where
  "write_progress i now s =
     (case persistState i now s of (cols, s) \<Rightarrow>
        requireFenced (q_UpdateInstanceProgress (progressParams i cols now) s))"

definition UpdateInstanceProgress :: "inst \<Rightarrow> int \<Rightarrow> store \<Rightarrow> (db_error, unit) result \<times> store" where
  "UpdateInstanceProgress i now =
     withTx (\<lambda>s. case write_progress i now s of Inl e \<Rightarrow> Inl e | Inr s \<Rightarrow> Inr ((), s))"

definition insertInstanceParams :: "inst \<Rightarrow> state_cols \<Rightarrow> status \<Rightarrow> int \<Rightarrow> int \<Rightarrow> row" where
  "insertInstanceParams i cols st createdAt updatedAt = \<lparr>
     r_id = i_ID i, r_process_name = i_ProcessName i, r_process_version = i_ProcessVersion i,
     r_parent_id = i_ParentID i, r_root_id = [], r_spawn_task_id = i_SpawnTaskID i,
     r_parent_task_epoch = i_ParentTaskEpoch i, r_call_stack = i_CallStack i,
     r_created_at = createdAt, r_superseded_at = None, r_task = i_Task i,
     r_next_replayable = i_NextReplayable i, r_task_epoch = i_TaskEpoch i, r_cols = cols,
     r_retry_count = i_RetryCount i, r_wake_at = i_WakeAt i, r_status = st, r_phase = i_Phase i,
     r_error_message = i_ErrorMessage i, r_error_code = i_ErrorCode i, r_updated_at = updatedAt,
     r_worker_id = None, r_lease_expires_at = None, r_lease_epoch = 0,
     r_external_worker_id = None, r_external_lease_expires_at = None, r_external_claim_epoch = 0\<rparr>"

definition SaveInstance :: "inst \<Rightarrow> int \<Rightarrow> store \<Rightarrow> (db_error, unit) result \<times> store" where
  "SaveInstance i now =
     withTx (\<lambda>s. case persistState i now s of (cols, s) \<Rightarrow>
       (case q_InsertInstance (insertInstanceParams i cols (i_Status i) now now) s of
          Inl e \<Rightarrow> Inl e | Inr s \<Rightarrow> Inr ((), s)))"

subsection \<open>What a write does to the rows\<close>

lemma upd_rows [simp]:
  "s_rows (upd P f s) = map (\<lambda>r. if P r then f r else r) (s_rows s)"
  "s_signals (upd P f s) = s_signals s" "s_objects (upd P f s) = s_objects s"
  "s_refs (upd P f s) = s_refs s" "s_logs (upd P f s) = s_logs s" "s_audit (upd P f s) = s_audit s"
  by (simp_all add: upd_def)

lemma persistState_rows [simp]:
  "fst (persistState i now s) = i_cols i"
  "s_rows (snd (persistState i now s)) = s_rows s"
  "s_audit (snd (persistState i now s)) = s_audit s"
  "s_logs (snd (persistState i now s)) = s_logs s"
  by (simp_all add: persistState_def Let_def q_DeleteSignal_def)

lemma rows_matching_0: "rows_matching P s = 0 \<longleftrightarrow> (\<forall>r \<in> set (s_rows s). \<not> P r)"
  by (simp add: rows_matching_def filter_empty_conv)

lemma rows_matching_cong: "s_rows s = s_rows t \<Longrightarrow> rows_matching P s = rows_matching P t"
  by (simp add: rows_matching_def)

definition inst_fence :: "inst \<Rightarrow> row \<Rightarrow> bool" where
  "inst_fence i r \<longleftrightarrow> r_id r = i_ID i \<and> r_lease_epoch r = i_LeaseEpoch i \<and>
     coalesce_str (r_worker_id r) = fenceWorker i"

lemma fence_params [simp]:
  "fence (updateInstanceParams i cols now) = inst_fence i"
  "fence (progressParams i cols now) = inst_fence i"
  by (auto simp: fence_def inst_fence_def updateInstanceParams_def progressParams_def fun_eq_iff)

lemma write_inst_error: "write_inst i now s = Inl e \<Longrightarrow> e = ErrLeaseLost \<and> (\<forall>r \<in> set (s_rows s). \<not> inst_fence i r)"
  by (auto simp: write_inst_def requireFenced_def q_UpdateInstance_def rows_matching_0
      split: prod.splits if_splits dest: arg_cong [of _ _ snd])
    (metis persistState_rows(2) snd_conv)

lemma write_inst_ok:
  "write_inst i now s = Inr s' \<Longrightarrow>
     (\<exists>r \<in> set (s_rows s). inst_fence i r) \<and>
     s_rows s' = map (\<lambda>r. if inst_fence i r then set_update (updateInstanceParams i (i_cols i) now) r else r) (s_rows s)"
  by (cases "persistState i now s")
    (use persistState_rows [of i now s] in
      \<open>auto simp: write_inst_def requireFenced_def q_UpdateInstance_def rows_matching_0 split: if_splits\<close>)

end
