(* ===== verification/Lease.thy ===== *)
theory Lease
  imports Instances "HOL-Library.Product_Lexorder"
begin

text \<open>
  Leasing (\<open>internal/db/db_claim.go\<close>): the claim that hands runnable rows to a worker and moves
  their \<open>lease_epoch\<close>, and the chunked renewal of what a worker holds. Postgres claims under
  \<open>FOR UPDATE SKIP LOCKED\<close>, so the ids another transaction has locked are an argument; SQLite's
  single writer has none.
\<close>

subsection \<open>Claiming\<close>

definition SkipTakeover :: int where "SkipTakeover = 0"

definition claimable :: "int \<Rightarrow> int \<Rightarrow> row \<Rightarrow> bool" where
  "claimable now cutoff r \<longleftrightarrow>
     r_status r \<in> {StatusRunning, StatusPausing, StatusCancelling} \<and>
     r_phase r \<noteq> PhaseChildren \<and>
     (r_status r \<in> {StatusPausing, StatusCancelling} \<or> opt_le (r_wake_at r) now \<or>
      (r_phase r \<noteq> PhaseExternal \<and> r_wake_at r = None)) \<and>
     (r_worker_id r = None \<or> opt_le (r_lease_expires_at r) cutoff)"

definition claim_candidates :: "string list \<Rightarrow> nat \<Rightarrow> int \<Rightarrow> int \<Rightarrow> row list \<Rightarrow> row list" where
  "claim_candidates locked limit now cutoff rows =
     take limit (sort_key (\<lambda>r. (r_created_at r, r_id r))
       (filter (\<lambda>r. claimable now cutoff r \<and> r_id r \<notin> set locked) rows))"

definition ClaimInstances ::
  "string list \<Rightarrow> string \<Rightarrow> int \<Rightarrow> nat \<Rightarrow> int \<Rightarrow> int \<Rightarrow> store \<Rightarrow> inst list \<times> store" where
  "ClaimInstances locked workerID leaseDur limit takeover now s =
     (let leaseExpiry = now + leaseDur;
          cand = claim_candidates locked limit now takeover (s_rows s)
      in if cand = [] then ([], s)
         else (map (\<lambda>r. (toInstance (set_grant workerID leaseExpiry r))
                          \<lparr>i_ReclaimedExpired := (r_worker_id r \<noteq> None)\<rparr>) cand,
               q_GrantLeases workerID leaseExpiry (map r_id cand) s))"

subsection \<open>Renewal\<close>

definition renewChunkSize :: nat where "renewChunkSize = 100"

definition renewable :: "string list \<Rightarrow> string \<Rightarrow> int \<Rightarrow> row \<Rightarrow> bool" where
  "renewable ids worker newExpiry r \<longleftrightarrow>
     r_id r \<in> set ids \<and> r_worker_id r = Some worker \<and> opt_lt (r_lease_expires_at r) newExpiry"

definition set_expiry :: "int \<Rightarrow> row \<Rightarrow> row" where
  "set_expiry newExpiry r = r\<lparr>r_lease_expires_at := Some newExpiry\<rparr>"

definition renew_pick :: "string list \<Rightarrow> string \<Rightarrow> int \<Rightarrow> nat \<Rightarrow> row list \<Rightarrow> row list" where
  "renew_pick ids worker newExpiry chunk rows =
     take chunk (sort_key (\<lambda>r. case r_lease_expires_at r of None \<Rightarrow> 0 | Some v \<Rightarrow> v)
       (filter (renewable ids worker newExpiry) rows))"

definition q_RenewWorkerLeasesChunk :: "string list \<Rightarrow> string \<Rightarrow> int \<Rightarrow> nat \<Rightarrow> store \<Rightarrow> nat \<times> store" where
  "q_RenewWorkerLeasesChunk ids worker newExpiry chunk s =
     (let hit = (\<lambda>r. r_id r \<in> r_id ` set (renew_pick ids worker newExpiry chunk (s_rows s)))
      in (rows_matching hit s, upd hit (set_expiry newExpiry) s))"

lemma set_renew_pick: "set (renew_pick ids w e n rows) \<subseteq> {r \<in> set rows. renewable ids w e r}"
  by (auto simp: renew_pick_def dest: in_set_takeD)

lemma renewable_set_expiry [simp]: "\<not> renewable ids w e (set_expiry e r)"
  by (simp add: renewable_def set_expiry_def opt_lt_def)

lemma set_expiry_id [simp]: "r_id (set_expiry e r) = r_id r"
  by (simp add: set_expiry_def)

lemma chunk_decreases:
  assumes "fst (q_RenewWorkerLeasesChunk ids w e n s) \<noteq> 0"
  shows "rows_matching (renewable ids w e) (snd (q_RenewWorkerLeasesChunk ids w e n s))
       < rows_matching (renewable ids w e) s"
proof -
  let ?hit = "\<lambda>r. r_id r \<in> r_id ` set (renew_pick ids w e n (s_rows s))"
  have 1: "rows_matching (renewable ids w e) (upd ?hit (set_expiry e) s)
         = length (filter (\<lambda>r. \<not> ?hit r \<and> renewable ids w e r) (s_rows s))"
  proof -
    have "length (filter (renewable ids w e) (map (\<lambda>r. if H r then set_expiry e r else r) rs))
        = length (filter (\<lambda>r. \<not> H r \<and> renewable ids w e r) rs)" for H rs
      by (induction rs) auto
    then show ?thesis by (simp add: rows_matching_def)
  qed
  have "renew_pick ids w e n (s_rows s) \<noteq> []"
    using assms by (auto simp: q_RenewWorkerLeasesChunk_def Let_def rows_matching_0)
  then obtain r where r: "r \<in> set (renew_pick ids w e n (s_rows s))"
    by (meson list.set_sel(1))
  then have r': "r \<in> set (s_rows s)" "renewable ids w e r" using set_renew_pick by blast+
  have "length (filter (\<lambda>r. \<not> ?hit r) (filter (renewable ids w e) (s_rows s)))
      < length (filter (renewable ids w e) (s_rows s))"
    by (rule length_filter_less [of r]) (use r r' in auto)
  then have "length (filter (\<lambda>r. \<not> ?hit r \<and> renewable ids w e r) (s_rows s))
      < length (filter (renewable ids w e) (s_rows s))"
    by (simp add: conj_commute)
  then show ?thesis using 1 by (simp add: q_RenewWorkerLeasesChunk_def Let_def rows_matching_def)
qed

lemma chunk_decreases_pair:
  "(k, s') = q_RenewWorkerLeasesChunk ids w e n s \<Longrightarrow> k = 0 \<or>
     rows_matching (renewable ids w e) s' < rows_matching (renewable ids w e) s"
  by (metis chunk_decreases fst_conv snd_conv)

function renew_loop :: "string list \<Rightarrow> string \<Rightarrow> int \<Rightarrow> store \<Rightarrow> store" where
  "renew_loop ids worker newExpiry s =
     (case q_RenewWorkerLeasesChunk ids worker newExpiry renewChunkSize s of (n, s') \<Rightarrow>
        if n < renewChunkSize then s' else renew_loop ids worker newExpiry s')"
  by pat_completeness auto
termination
  by (relation "measure (\<lambda>(ids, w, e, s). rows_matching (renewable ids w e) s)")
    (auto simp: renewChunkSize_def dest!: chunk_decreases_pair)

definition RenewWorkerLeases :: "string \<Rightarrow> string list \<Rightarrow> int \<Rightarrow> int \<Rightarrow> store \<Rightarrow> int \<times> store" where
  "RenewWorkerLeases workerID ids leaseDur now s = (now, renew_loop ids workerID (now + leaseDur) s)"

text \<open>The lease columns never lie between chunks: a chunk renews rows the bulk update would.\<close>

lemma chunk_rows:
  assumes "distinct (map r_id (s_rows s))"
  shows "s_rows (snd (q_RenewWorkerLeasesChunk ids w e n s)) =
     map (\<lambda>r. if r \<in> set (renew_pick ids w e n (s_rows s)) then set_expiry e r else r) (s_rows s)"
    and "fst (q_RenewWorkerLeasesChunk ids w e n s) = length (renew_pick ids w e n (s_rows s))"
proof -
  let ?P = "renew_pick ids w e n (s_rows s)"
  have eq: "r_id r \<in> r_id ` set ?P \<longleftrightarrow> r \<in> set ?P" if "r \<in> set (s_rows s)" for r
    using that set_renew_pick [of ids w e n "s_rows s"] assms
    by (auto simp: distinct_map inj_on_def subset_iff)
  then show "s_rows (snd (q_RenewWorkerLeasesChunk ids w e n s)) =
     map (\<lambda>r. if r \<in> set ?P then set_expiry e r else r) (s_rows s)"
    by (simp add: q_RenewWorkerLeasesChunk_def Let_def)
  have d: "distinct (s_rows s)" using assms by (simp add: distinct_map)
  then have "distinct ?P" by (simp add: renew_pick_def distinct_take)
  moreover have "filter (\<lambda>r. r_id r \<in> r_id ` set ?P) (s_rows s) = filter (\<lambda>r. r \<in> set ?P) (s_rows s)"
    using eq by (auto intro: filter_cong)
  moreover have "set (filter (\<lambda>r. r \<in> set ?P) (s_rows s)) = set ?P"
    using set_renew_pick [of ids w e n "s_rows s"] by auto
  ultimately have "length (filter (\<lambda>r. r_id r \<in> r_id ` set ?P) (s_rows s)) = length ?P"
    using d distinct_card [of ?P] distinct_card [of "filter (\<lambda>r. r \<in> set ?P) (s_rows s)"] by simp
  then show "fst (q_RenewWorkerLeasesChunk ids w e n s) = length ?P"
    unfolding q_RenewWorkerLeasesChunk_def Let_def rows_matching_def fst_conv .
qed

definition bulk_renew :: "string list \<Rightarrow> string \<Rightarrow> int \<Rightarrow> row list \<Rightarrow> row list" where
  "bulk_renew ids w e rows = map (\<lambda>r. if renewable ids w e r then set_expiry e r else r) rows"

lemma renew_loop_bulk:
  "distinct (map r_id (s_rows s)) \<Longrightarrow> s_rows (renew_loop ids w e s) = bulk_renew ids w e (s_rows s)"
proof (induction ids w e s rule: renew_loop.induct)
  case (1 ids w e s)
  let ?P = "renew_pick ids w e renewChunkSize (s_rows s)"
  obtain n s' where q: "q_RenewWorkerLeasesChunk ids w e renewChunkSize s = (n, s')" by fastforce
  have rows: "s_rows s' = map (\<lambda>r. if r \<in> set ?P then set_expiry e r else r) (s_rows s)"
    and n: "n = length ?P"
    using chunk_rows [OF "1.prems", of ids w e renewChunkSize] q by auto
  show ?case
  proof (cases "n < renewChunkSize")
    case True
    then have "set ?P = {r \<in> set (s_rows s). renewable ids w e r}"
      using n by (auto simp: renew_pick_def min_def split: if_splits)
    then show ?thesis using True q rows by (simp add: bulk_renew_def)
  next
    case False
    have "map r_id (s_rows s') = map r_id (s_rows s)" using rows by simp
    then have "s_rows (renew_loop ids w e s') = bulk_renew ids w e (s_rows s')"
      using "1.IH" [OF q [symmetric] False] "1.prems" by simp
    also have "\<dots> = bulk_renew ids w e (s_rows s)"
      using set_renew_pick [of ids w e renewChunkSize "s_rows s"] rows by (auto simp: bulk_renew_def)
    finally show ?thesis using False q by simp
  qed
qed

declare renew_loop.simps [simp del]

text \<open>
  C28: renewing in chunks of 100 always terminates and leaves the table exactly as one bulk UPDATE
  of every listed row this worker holds would, touching no other row and no other column.
\<close>

theorem renew_chunked_is_bulk:
  assumes "distinct (map r_id (s_rows s))"
  shows "RenewWorkerLeases w ids dur now s =
     (now, s\<lparr>s_rows := bulk_renew ids w (now + dur) (s_rows s)\<rparr>)"
proof -
  have "renew_loop ids w e s = s\<lparr>s_rows := s_rows (renew_loop ids w e s)\<rparr>" for e
  proof (induction ids w e s rule: renew_loop.induct)
    case (1 ids w e s)
    obtain n s' where q: "q_RenewWorkerLeasesChunk ids w e renewChunkSize s = (n, s')" by fastforce
    then have s': "s' = s\<lparr>s_rows := s_rows s'\<rparr>"
      by (auto simp: q_RenewWorkerLeasesChunk_def Let_def upd_def)
    show ?case
    proof (cases "n < renewChunkSize")
      case True
      then show ?thesis using s' q by (simp add: renew_loop.simps [of ids w e s])
    next
      case False
      then have "renew_loop ids w e s' = s'\<lparr>s_rows := s_rows (renew_loop ids w e s')\<rparr>"
        using "1.IH" [OF q [symmetric] False] by simp
      then have "renew_loop ids w e s' = s\<lparr>s_rows := s_rows (renew_loop ids w e s')\<rparr>"
        by (subst (asm) (2) s') simp
      then show ?thesis using False q by (simp add: renew_loop.simps [of ids w e s])
    qed
  qed
  then show ?thesis
    using renew_loop_bulk [OF assms, of ids w "now + dur"] by (metis RenewWorkerLeases_def)
qed

subsection \<open>The fence\<close>

definition row_at :: "store \<Rightarrow> string \<Rightarrow> row option" where
  "row_at s i = find_row (s_rows s) i"

lemma find_row_Some: "find_row rows i = Some r \<Longrightarrow> r \<in> set rows \<and> r_id r = i"
  by (auto simp: find_row_def find_Some_iff)

lemma find_row_distinct:
  "distinct (map r_id rows) \<Longrightarrow> find_row rows i = Some r \<longleftrightarrow> r \<in> set rows \<and> r_id r = i"
  by (induction rows) (auto simp: find_row_def)

lemma find_row_map:
  "(\<And>r. r_id (f r) = r_id r) \<Longrightarrow> find_row (map f rows) i = map_option f (find_row rows i)"
  by (induction rows) (auto simp: find_row_def)

lemma candidates_sub: "set (claim_candidates locked limit now cutoff rows) \<subseteq>
     {r \<in> set rows. claimable now cutoff r \<and> r_id r \<notin> set locked}"
  by (auto simp: claim_candidates_def dest: in_set_takeD)

lemma claim_rows:
  "s_rows (snd (ClaimInstances locked w dur limit cutoff now s)) =
     map (\<lambda>r. if r_id r \<in> r_id ` set (claim_candidates locked limit now cutoff (s_rows s))
              then set_grant w (now + dur) r else r) (s_rows s)"
  by (auto simp: ClaimInstances_def Let_def q_GrantLeases_def image_def)

text \<open>
  C27: a claim hands out at most \<open>limit\<close> rows, each of them runnable, and never one whose lease is
  still running at the cutoff: every row it grants was unheld, or its lease had expired by the
  cutoff. The grant it returns carries the epoch it wrote, one above the row's old epoch.
\<close>

theorem claim_grants_only_free_rows:
  assumes "distinct (map r_id (s_rows s))" and "i \<in> set (fst (ClaimInstances locked w dur limit cutoff now s))"
  shows "\<exists>r. row_at s (i_ID i) = Some r \<and> claimable now cutoff r \<and>
           (r_worker_id r \<noteq> None \<longrightarrow> opt_le (r_lease_expires_at r) cutoff) \<and>
           i_LeaseEpoch i = r_lease_epoch r + 1 \<and> i_WorkerID i = Some w \<and>
           i_ReclaimedExpired i = (r_worker_id r \<noteq> None) \<and>
           row_at (snd (ClaimInstances locked w dur limit cutoff now s)) (i_ID i) = Some (set_grant w (now + dur) r) \<and>
           length (fst (ClaimInstances locked w dur limit cutoff now s)) \<le> limit"
proof -
  let ?C = "claim_candidates locked limit now cutoff (s_rows s)"
  from assms(2) obtain r where r: "r \<in> set ?C" and
    i: "i = (toInstance (set_grant w (now + dur) r))\<lparr>i_ReclaimedExpired := (r_worker_id r \<noteq> None)\<rparr>"
    by (auto simp: ClaimInstances_def Let_def split: if_splits)
  have c: "r \<in> set (s_rows s)" "claimable now cutoff r" using r candidates_sub by blast+
  have f: "find_row (s_rows s) (r_id r) = Some r" using find_row_distinct [OF assms(1)] c by blast
  have "find_row (s_rows (snd (ClaimInstances locked w dur limit cutoff now s))) (r_id r)
      = Some (set_grant w (now + dur) r)"
    unfolding claim_rows
    by (subst find_row_map) (use r in \<open>auto simp: f set_grant_def\<close>)
  moreover have "length ?C \<le> limit" by (simp add: claim_candidates_def)
  ultimately show ?thesis
    using f c by (auto simp: row_at_def i toInstance_def set_grant_def claimable_def ClaimInstances_def Let_def)
qed

end
