(* ===== verification/Lifecycle.thy ===== *)
theory Lifecycle
  imports Lease
begin

text \<open>
  The tree verbs (\<open>internal/db/db_lifecycle.go\<close>): a child that stops wakes or settles its
  ancestors, a failure poisons them and pauses the rest, and an operator pauses, cancels, resumes
  or retries a whole tree. Each is one transaction on the store.
\<close>

subsection \<open>Audit\<close>

definition logInstances :: "string list \<Rightarrow> event \<Rightarrow> store \<Rightarrow> store" where
  "logInstances ids ev s = s\<lparr>s_audit := s_audit s @ map (\<lambda>i. (i, ev)) ids\<rparr>"

type_synonym settled_row = "string \<times> status \<times> string"

definition logSettled :: "settled_row list \<Rightarrow> store \<Rightarrow> store" where
  "logSettled rows s = fold (\<lambda>(i, st, msg) s.
     if st = StatusPausing then logInstances [i] EventPaused s
     else if st = StatusCancelling then logInstances [i] EventCancelled s
     else if st = StatusFailing then logInstances [i] EventInstanceSettled s
     else s) rows s"

subsection \<open>Settling up\<close>

text \<open>
  The loop climbs one parent per round; \<open>None\<close> is running out of rounds. A tree is no deeper than
  the table is long, so \<open>settleUp\<close> gives it one round per row and one more.
\<close>

fun settle_loop :: "nat \<Rightarrow> string \<Rightarrow> string \<Rightarrow> int \<Rightarrow> int \<Rightarrow> settled_row list \<Rightarrow> store
    \<Rightarrow> (settled_row list \<times> store) option" where
  "settle_loop 0 parentID spawnTask epoch now settled s = None"
| "settle_loop (Suc n) parentID spawnTask epoch now settled s =
     (if parentID = [] then Some (settled, s)
      else (case find_row (s_rows s) parentID of
        None \<Rightarrow> Some (settled, s)
      | Some p \<Rightarrow>
          if r_phase p \<noteq> PhaseChildren then Some (settled, s)
          else
            (let active = q_CountActiveSiblings parentID spawnTask epoch s;
                 s1 = (if active = 0 then q_WakeParent parentID now s else s)
             in
             if \<not> Draining (r_status p) then Some (settled, s1)
             else if active > 0 \<and> q_CountBusySiblings parentID spawnTask epoch s1 > 0
             then Some (settled, s1)
             else settle_loop n (r_parent_id p) (r_spawn_task_id p) (r_parent_task_epoch p) now
                    (settled @ [(parentID, r_status p, r_error_message p)])
                    (q_SettleDrained parentID now s1))))"

definition settleUp :: "inst \<Rightarrow> int \<Rightarrow> store \<Rightarrow> settled_row list tx" where
  "settleUp child now s =
     (case settle_loop (length (s_rows s) + 2) (i_ParentID child) (i_SpawnTaskID child)
             (i_ParentTaskEpoch child) now [] s of
        None \<Rightarrow> Inl ErrInternal | Some r \<Rightarrow> Inr r)"

subsection \<open>Lock scopes\<close>

datatype lock_scope = LockParent | LockStack | LockLive

fun scope_rank :: "lock_scope \<Rightarrow> nat" where
  "scope_rank LockParent = 0"
| "scope_rank LockStack = 1"
| "scope_rank LockLive = 2"

lemma scope_rank_inj: "scope_rank a = scope_rank b \<Longrightarrow> a = b"
  by (cases a; cases b) auto

instantiation lock_scope :: linorder
begin

definition less_eq_lock_scope :: "lock_scope \<Rightarrow> lock_scope \<Rightarrow> bool" where
  "less_eq_lock_scope a b \<longleftrightarrow> scope_rank a \<le> scope_rank b"

definition less_lock_scope :: "lock_scope \<Rightarrow> lock_scope \<Rightarrow> bool" where
  "less_lock_scope a b \<longleftrightarrow> scope_rank a < scope_rank b"

instance
  by standard (auto simp: less_eq_lock_scope_def less_lock_scope_def intro: scope_rank_inj)

end

text \<open>
  A body may ask, before its first write, to run again under a wider scope. SQLite's single writer
  holds everything, so it starts at the widest.
\<close>

datatype 'a child_body = Widen lock_scope | Done "'a tx"

function child_loop :: "lock_scope \<Rightarrow> (lock_scope \<Rightarrow> store \<Rightarrow> 'a child_body) \<Rightarrow> store \<Rightarrow> 'a tx" where
  "child_loop scope body s =
     (case body scope s of
        Done r \<Rightarrow> r
      | Widen w \<Rightarrow> if w > scope then child_loop w body s else Inl ErrInternal)"
  by pat_completeness auto
termination
proof (relation "measure (\<lambda>(scope, _, _). 2 - scope_rank scope)")
  fix scope w :: lock_scope assume "scope < w"
  then show "((w, body, s), (scope, body, s)) \<in> measure (\<lambda>(scope, _, _). 2 - scope_rank scope)" for body s
    by (cases scope; cases w) (auto simp: less_lock_scope_def)
qed simp

declare child_loop.simps [simp del]

definition withChildTx :: "bool \<Rightarrow> lock_scope \<Rightarrow> (lock_scope \<Rightarrow> store \<Rightarrow> 'a child_body) \<Rightarrow> store
    \<Rightarrow> (db_error, 'a) result \<times> store" where
  "withChildTx postgres scope body =
     withTx (child_loop (if \<not> postgres then LockLive else scope) body)"

subsection \<open>A child stops\<close>

definition finish_body :: "inst \<Rightarrow> int \<Rightarrow> lock_scope \<Rightarrow> store \<Rightarrow> settled_row list child_body" where
  "finish_body child now held s =
     (case find_row (s_rows s) (i_ParentID child) of
        Some p \<Rightarrow>
          if Draining (r_status p) \<and> held < LockStack then Widen LockStack
          else Done (case write_inst child now s of Inl e \<Rightarrow> Inl e | Inr s \<Rightarrow> settleUp child now s)
      | None \<Rightarrow> Done (case write_inst child now s of Inl e \<Rightarrow> Inl e | Inr s \<Rightarrow> settleUp child now s))"

definition FinishChild :: "bool \<Rightarrow> inst \<Rightarrow> int \<Rightarrow> store \<Rightarrow> (db_error, unit) result \<times> store" where
  "FinishChild postgres child now s =
     (if i_ParentID child = [] then UpdateInstance child now s
      else (case withChildTx postgres LockParent (finish_body child now) s of
              (Inl e, s') \<Rightarrow> (Inl e, s')
            | (Inr settled, s') \<Rightarrow> (Inr (), logSettled settled s')))"

definition poisonable :: "status \<Rightarrow> bool" where
  "poisonable st \<longleftrightarrow> st \<in> {StatusRunning, StatusPausing, StatusPaused}"

text \<open>The result carries the rows the poison paused and the rows that settled.\<close>

definition fail_tail :: "inst \<Rightarrow> bool \<Rightarrow> int \<Rightarrow> store \<Rightarrow> ((string \<times> status) list \<times> settled_row list) tx" where
  "fail_tail child poisons now s =
     (case write_inst child now s of
        Inl e \<Rightarrow> Inl e
      | Inr s1 \<Rightarrow>
          if i_CallStack child = [] then Inr (([], []), s1)
          else
            (let s2 = q_FailAncestors (i_ErrorMessage child) (i_ErrorCode child) now (i_CallStack child) s1;
                 (paused, s3) = (if poisons then q_PauseTree (hd (i_CallStack child)) now s2 else ([], s2))
             in (case settleUp child now s3 of
                   Inl e \<Rightarrow> Inl e
                 | Inr (settled, s4) \<Rightarrow> Inr ((paused, settled), s4))))"

definition fail_body :: "inst \<Rightarrow> int \<Rightarrow> lock_scope \<Rightarrow> store
    \<Rightarrow> ((string \<times> status) list \<times> settled_row list) child_body" where
  "fail_body child now held s =
     (case i_CallStack child of
        [] \<Rightarrow> Done (fail_tail child False now s)
      | root # _ \<Rightarrow>
          (case q_GetInstanceStatus root s of
             None \<Rightarrow> Done (Inl ErrInternal)
           | Some st \<Rightarrow>
               if poisonable st \<and> held < LockLive then Widen LockLive
               else Done (fail_tail child (poisonable st) now s)))"

definition log_poisoned :: "(string \<times> status) list \<Rightarrow> store \<Rightarrow> store" where
  "log_poisoned rows s = fold (\<lambda>(i, st).
     logInstances [i] (if st = StatusPausing then EventPausing else EventPaused)) rows s"

definition FailInstanceAndAncestors :: "bool \<Rightarrow> inst \<Rightarrow> int \<Rightarrow> store \<Rightarrow> (db_error, unit) result \<times> store" where
  "FailInstanceAndAncestors postgres child now s =
     (case withChildTx postgres LockStack (fail_body child now) s of
        (Inl e, s') \<Rightarrow> (Inl e, s')
      | (Inr (paused, settled), s') \<Rightarrow> (Inr (), logSettled settled (log_poisoned paused s')))"

subsection \<open>Pause and cancel\<close>

record lifecycle_result =
  lr_Outcome :: outcome
  lr_Status :: status
  lr_Instances :: nat

definition lifecycleResult :: "string \<Rightarrow> outcome \<Rightarrow> nat \<Rightarrow> store \<Rightarrow> (db_error, lifecycle_result) result" where
  "lifecycleResult i oc written s =
     (case find_row (s_rows s) i of
        None \<Rightarrow> Inl ErrNotFound
      | Some r \<Rightarrow> Inr \<lparr>lr_Outcome = oc, lr_Status = r_status r, lr_Instances = written\<rparr>)"

definition requireRoot :: "row \<Rightarrow> (db_error, unit) result" where
  "requireRoot r = (if r_parent_id r = [] then Inr () else Inl ErrInvalid)"

definition refuseInTransition :: "status \<Rightarrow> (db_error, unit) result" where
  "refuseInTransition st =
     (if st \<in> {StatusPausing, StatusFailing, StatusCancelling} then Inl ErrConflict else Inr ())"

record stop_verb =
  v_draining :: status
  v_stopped :: status
  v_requested :: event
  v_stoppedEvent :: event
  v_drainingEvent :: event
  v_update :: "string \<Rightarrow> int \<Rightarrow> store \<Rightarrow> (string \<times> status) list \<times> store"

definition stop_body :: "string \<Rightarrow> stop_verb \<Rightarrow> int \<Rightarrow> store \<Rightarrow> (status \<times> (string \<times> status) list) tx" where
  "stop_body i v now s =
     (case q_GetInstanceStatus i s of
        None \<Rightarrow> Inl ErrInternal
      | Some st \<Rightarrow>
          if Terminal st then Inr ((st, []), s)
          else (case (if st \<noteq> v_draining v then refuseInTransition st else Inr ()) of
                  Inl e \<Rightarrow> Inl e
                | Inr _ \<Rightarrow> (case v_update v i now s of (rows, s') \<Rightarrow> Inr ((st, rows), s'))))"

definition stopTree :: "string \<Rightarrow> stop_verb \<Rightarrow> int \<Rightarrow> store \<Rightarrow> (db_error, lifecycle_result) result \<times> store" where
  "stopTree i v now s =
     (case find_row (s_rows s) i of
        None \<Rightarrow> (Inl ErrNotFound, s)
      | Some r \<Rightarrow>
          (case requireRoot r of
             Inl e \<Rightarrow> (Inl e, s)
           | Inr _ \<Rightarrow>
               (case withTx (stop_body i v now) s of
                  (Inl e, s') \<Rightarrow> (Inl e, s')
                | (Inr (rootStatus, rows), s') \<Rightarrow>
                    if rows = [] then
                      (lifecycleResult i (if rootStatus = v_draining v then OutcomeAccepted else OutcomeUnchanged) 0 s', s')
                    else
                      (let draining = map fst (filter (\<lambda>(_, st). st = v_draining v) rows);
                           stopped = map fst (filter (\<lambda>(_, st). st \<noteq> v_draining v) rows);
                           s'' = logInstances draining (v_drainingEvent v)
                                  (logInstances stopped (v_stoppedEvent v)
                                    (logInstances [i] (v_requested v) s'))
                       in (lifecycleResult i (if draining \<noteq> [] then OutcomeAccepted else OutcomeApplied)
                             (length rows) s'', s'')))))"

definition pause_verb :: stop_verb where
  "pause_verb = \<lparr>v_draining = StatusPausing, v_stopped = StatusPaused,
     v_requested = EventPauseRequested, v_stoppedEvent = EventPaused, v_drainingEvent = EventPausing,
     v_update = q_PauseTree\<rparr>"

definition cancel_verb :: stop_verb where
  "cancel_verb = \<lparr>v_draining = StatusCancelling, v_stopped = StatusCancelled,
     v_requested = EventCancelRequested, v_stoppedEvent = EventCancelled, v_drainingEvent = EventCancelling,
     v_update = q_CancelTree\<rparr>"

definition PauseProcess :: "string \<Rightarrow> int \<Rightarrow> store \<Rightarrow> (db_error, lifecycle_result) result \<times> store" where
  "PauseProcess i = stopTree i pause_verb"

definition CancelProcess :: "string \<Rightarrow> int \<Rightarrow> store \<Rightarrow> (db_error, lifecycle_result) result \<times> store" where
  "CancelProcess i = stopTree i cancel_verb"

subsection \<open>Resume\<close>

definition tree_ids :: "(row \<Rightarrow> bool) \<Rightarrow> string \<Rightarrow> store \<Rightarrow> string list" where
  "tree_ids P root s = map r_id (sort_key r_id (filter (\<lambda>r. r_root_id r = root \<and> P r) (s_rows s)))"

definition updateStatusIn :: "string list \<Rightarrow> status \<Rightarrow> int \<Rightarrow> store \<Rightarrow> store" where
  "updateStatusIn ids st now s = (if ids = [] then s else q_SetStatusIn st now ids s)"

definition resume_body :: "string \<Rightarrow> int \<Rightarrow> store \<Rightarrow> string list tx" where
  "resume_body i now s =
     (let resumed = tree_ids (\<lambda>r. r_status r = StatusPaused) i s in
      case q_GetInstanceStatus i s of
        None \<Rightarrow> Inl ErrInternal
      | Some st \<Rightarrow>
          (case refuseInTransition st of
             Inl e \<Rightarrow> Inl e
           | Inr _ \<Rightarrow>
               if st = StatusFailed \<and> resumed \<noteq> [] then Inl ErrConflict
               else if resumed = [] then (if Terminal st then Inl ErrConflict else Inr ([], s))
               else Inr (resumed, updateStatusIn resumed StatusRunning now s)))"

definition ResumeProcess :: "string \<Rightarrow> int \<Rightarrow> store \<Rightarrow> (db_error, lifecycle_result) result \<times> store" where
  "ResumeProcess i now s =
     (case find_row (s_rows s) i of
        None \<Rightarrow> (Inl ErrNotFound, s)
      | Some r \<Rightarrow>
          (case requireRoot r of
             Inl e \<Rightarrow> (Inl e, s)
           | Inr _ \<Rightarrow>
               (case withTx (resume_body i now) s of
                  (Inl e, s') \<Rightarrow> (Inl e, s')
                | (Inr resumed, s') \<Rightarrow>
                    if resumed = [] then (lifecycleResult i OutcomeUnchanged 0 s', s')
                    else (let s'' = logInstances resumed EventResumed s' in
                          (lifecycleResult i OutcomeApplied (length resumed) s'', s'')))))"

end
