(* ===== verification/Spawn.thy ===== *)
theory Spawn
  imports Lifecycle
begin

text \<open>
  Spawning a batch and retrying a failed tree (\<open>internal/db/db_lifecycle.go\<close>):
  \<open>SpawnChildrenAndWait\<close>, \<open>RespawnSlotsAndWait\<close> and \<open>RetryProcess\<close>.
\<close>

subsection \<open>Spawning\<close>

definition parkParentWaiting :: "inst \<Rightarrow> status \<Rightarrow> int \<Rightarrow> store \<Rightarrow> (db_error, store) result" where
  "parkParentWaiting parent st now s =
     (case persistState parent now s of (cols, s) \<Rightarrow>
        requireFenced (q_UpdateInstance
          ((updateInstanceParams parent cols now)
             \<lparr>u_WakeAt := None, u_Status := st, u_Phase := PhaseChildren\<rparr>) s))"

text \<open>\<open>created_at = now + i\<close> gives siblings a strict spawn order.\<close>

fun insert_children :: "inst list \<Rightarrow> status \<Rightarrow> int \<Rightarrow> store \<Rightarrow> (db_error, store) result" where
  "insert_children [] st ts s = Inr s"
| "insert_children (c # cs) st ts s =
     (case persistState c ts s of (cols, s) \<Rightarrow>
        (case q_InsertInstance (insertInstanceParams c cols st ts ts) s of
           Inl e \<Rightarrow> Inl e
         | Inr s \<Rightarrow> insert_children cs st (ts + 1) s))"

definition spawn_body :: "inst \<Rightarrow> inst list \<Rightarrow> int \<Rightarrow> store \<Rightarrow> unit tx" where
  "spawn_body parent children now s =
     (case find_row (s_rows s) (i_ID parent) of
        None \<Rightarrow> Inl ErrInternal
      | Some p \<Rightarrow>
          if r_phase p \<noteq> PhaseNone then Inl ErrInternal
          else (case insert_children children (r_status p) now s of
                  Inl e \<Rightarrow> Inl e
                | Inr s \<Rightarrow> (case parkParentWaiting parent (r_status p) now s of
                               Inl e \<Rightarrow> Inl e | Inr s \<Rightarrow> Inr ((), s))))"

definition SpawnChildrenAndWait :: "inst \<Rightarrow> inst list \<Rightarrow> int \<Rightarrow> store \<Rightarrow> (db_error, unit) result \<times> store" where
  "SpawnChildrenAndWait parent children now s =
     (if children = [] then (Inr (), s) else withTx (spawn_body parent children now) s)"

definition respawn_body :: "inst \<Rightarrow> string list \<Rightarrow> inst list \<Rightarrow> int \<Rightarrow> store \<Rightarrow> unit tx" where
  "respawn_body parent retired children now s =
     (case find_row (s_rows s) (i_ID parent) of
        None \<Rightarrow> Inl ErrInternal
      | Some p \<Rightarrow>
          if r_phase p \<noteq> PhaseCollecting then Inl ErrInternal
          else (case insert_children children (r_status p) now
                       (fold (\<lambda>i. q_SupersedeInstance i now) retired s) of
                  Inl e \<Rightarrow> Inl e
                | Inr s \<Rightarrow> (case parkParentWaiting parent (r_status p) now s of
                               Inl e \<Rightarrow> Inl e | Inr s \<Rightarrow> Inr ((), s))))"

definition RespawnSlotsAndWait :: "inst \<Rightarrow> string list \<Rightarrow> inst list \<Rightarrow> int \<Rightarrow> store
    \<Rightarrow> (db_error, unit) result \<times> store" where
  "RespawnSlotsAndWait parent retired children now s =
     (if children = [] then (Inr (), s) else withTx (respawn_body parent retired children now) s)"

subsection \<open>Retry\<close>

text \<open>
  \<open>process_definitions\<close> as the retry reads it: name, version and the tasks with their
  \<open>only_once\<close> flag.
\<close>

type_synonym def_table = "((string \<times> int) \<times> (string \<times> bool) list) list"

definition loadTask :: "def_table \<Rightarrow> row \<Rightarrow> (db_error, bool) result" where
  "loadTask defs node =
     (if r_task node = [] then Inr False
      else (case map_of defs (r_process_name node, r_process_version node) of
              None \<Rightarrow> Inl ErrInternal
            | Some tasks \<Rightarrow>
                (case map_of tasks (r_task node) of
                   None \<Rightarrow> Inl ErrInternal | Some onlyOnce \<Rightarrow> Inr onlyOnce)))"

text \<open>
  The walk works on a copy of the tree's rows, \<open>v_nodes\<close>, and remembers the ids it revived and
  the node whose batch holds a raised slot.
\<close>

record revive_state =
  v_nodes :: "row list"
  v_dirty :: "string list"
  v_overridden :: string

definition set_revived :: "bool \<Rightarrow> phase \<Rightarrow> row \<Rightarrow> row" where
  "set_revived hasBatch ph node = node\<lparr>
     r_status := StatusRunning,
     r_phase := ph,
     r_error_message := [],
     r_task_epoch := (if hasBatch then r_task_epoch node else r_task_epoch node + 1),
     r_wake_at := (if r_retry_count node > 0 then None else r_wake_at node)\<rparr>"

definition mark_revived :: "string \<Rightarrow> bool \<Rightarrow> phase \<Rightarrow> revive_state \<Rightarrow> revive_state" where
  "mark_revived i hasBatch ph v = v\<lparr>
     v_nodes := map (\<lambda>r. if r_id r = i then set_revived hasBatch ph r else r) (v_nodes v),
     v_dirty := v_dirty v @ [i]\<rparr>"

definition batch_kids :: "row \<Rightarrow> row list \<Rightarrow> string list" where
  "batch_kids node nodes =
     map r_id (filter (in_batch (r_id node) (r_task node) (r_task_epoch node)) nodes)"

definition node_status :: "revive_state \<Rightarrow> string \<Rightarrow> status option" where
  "node_status v i = map_option r_status (find_row (v_nodes v) i)"

text \<open>
  \<open>revive\<close> with one unit of fuel per level of the tree, \<open>None\<close> when it runs out; the loop over a
  batch takes the function that revives one child.
\<close>

fun revive_kids :: "(string \<Rightarrow> revive_state \<Rightarrow> (db_error, revive_state) result option) \<Rightarrow> string
    \<Rightarrow> string list \<Rightarrow> bool \<Rightarrow> revive_state \<Rightarrow> (db_error, bool \<times> revive_state) result option" where
  "revive_kids rec nid [] anyActive v = Some (Inr (anyActive, v))"
| "revive_kids rec nid (k # ks) anyActive v =
     (if node_status v k = Some StatusRaised then revive_kids rec nid ks anyActive (v\<lparr>v_overridden := nid\<rparr>)
      else (case rec k v of
              None \<Rightarrow> None
            | Some (Inl e) \<Rightarrow> Some (Inl e)
            | Some (Inr v) \<Rightarrow>
                revive_kids rec nid ks
                  (anyActive \<or> (case node_status v k of None \<Rightarrow> False | Some st \<Rightarrow> \<not> Terminal st)) v))"

fun revive :: "nat \<Rightarrow> def_table \<Rightarrow> bool \<Rightarrow> string \<Rightarrow> revive_state
    \<Rightarrow> (db_error, revive_state) result option" where
  "revive 0 defs force nid v = None"
| "revive (Suc f) defs force nid v =
     (case find_row (v_nodes v) nid of
        None \<Rightarrow> Some (Inl ErrInternal)
      | Some node \<Rightarrow>
          if r_status node \<noteq> StatusFailed then Some (Inr v)
          else if r_task node = [] then Some (Inr (mark_revived nid False PhaseNone v))
          else
            (case batch_kids node (v_nodes v) of
               [] \<Rightarrow>
                 if force then Some (Inr (mark_revived nid False PhaseNone v))
                 else (case loadTask defs node of
                         Inl e \<Rightarrow> Some (Inl e)
                       | Inr onlyOnce \<Rightarrow>
                           if onlyOnce then Some (Inl ErrConflict)
                           else Some (Inr (mark_revived nid False PhaseNone v)))
             | kids \<Rightarrow>
                 (case revive_kids (revive f defs force) nid kids False v of
                    None \<Rightarrow> None
                  | Some (Inl e) \<Rightarrow> Some (Inl e)
                  | Some (Inr (anyActive, v)) \<Rightarrow>
                      Some (Inr (mark_revived nid True
                        (if anyActive then PhaseChildren else PhaseCollecting) v)))))"

definition engineStateWithOverride :: "engine_state \<Rightarrow> bool \<Rightarrow> engine_state" where
  "engineStateWithOverride es set_it = (if set_it then es\<lparr>es_retry_override := True\<rparr> else es)"

text \<open>The write of one revived node: its columns as read, less the reported fault.\<close>

definition revive_params :: "string \<Rightarrow> int \<Rightarrow> row \<Rightarrow> row \<Rightarrow> update_params" where
  "revive_params overridden now raw node = \<lparr>
     u_ID = r_id node, u_Task = r_task raw, u_NextReplayable = r_next_replayable raw,
     u_TaskEpoch = r_task_epoch node,
     u_Cols = (r_cols raw)\<lparr>c_ErrorData := [],
        c_EngineState := engineStateWithOverride (c_EngineState (r_cols raw)) (r_id node = overridden)\<rparr>,
     u_RetryCount = r_retry_count node, u_WakeAt = r_wake_at node, u_Phase = r_phase node,
     u_UpdatedAt = now, u_LeaseEpoch = r_lease_epoch raw,
     u_WorkerID = coalesce_str (r_worker_id raw), u_Status = r_status node,
     u_ErrorMessage = [], u_ErrorCode = []\<rparr>"

definition write_revived :: "row list \<Rightarrow> revive_state \<Rightarrow> int \<Rightarrow> string \<Rightarrow> store \<Rightarrow> store" where
  "write_revived raws v now i s =
     (case (find_row raws i, find_row (v_nodes v) i) of
        (Some raw, Some node) \<Rightarrow> snd (q_UpdateInstance (revive_params (v_overridden v) now raw node) s)
      | _ \<Rightarrow> s)"

definition retry_body :: "def_table \<Rightarrow> bool \<Rightarrow> string \<Rightarrow> int \<Rightarrow> store \<Rightarrow> (string list \<times> string list) tx" where
  "retry_body defs force i now s =
     (let nodes = sort_key r_id (filter (\<lambda>r. r_root_id r = i \<and> r_superseded_at r = None) (s_rows s)) in
      case revive (length nodes + 1) defs force i \<lparr>v_nodes = nodes, v_dirty = [], v_overridden = []\<rparr> of
        None \<Rightarrow> Inl ErrInternal
      | Some (Inl e) \<Rightarrow> Inl e
      | Some (Inr v) \<Rightarrow>
          (let resumed = map r_id (filter (\<lambda>r. r_status r = StatusPaused) (v_nodes v));
               s1 = updateStatusIn resumed StatusRunning now s
           in Inr ((v_dirty v, resumed), fold (write_revived nodes v now) (v_dirty v) s1)))"

text \<open>
  \<open>RetryProcess\<close> reads the root before its transaction begins and does not re-check the status
  under the lock, so the two reads may see different stores.
\<close>

definition retry_precheck :: "string \<Rightarrow> store \<Rightarrow> (db_error, unit) result" where
  "retry_precheck i s =
     (case find_row (s_rows s) i of
        None \<Rightarrow> Inl ErrNotFound
      | Some r \<Rightarrow>
          (case requireRoot r of
             Inl e \<Rightarrow> Inl e
           | Inr _ \<Rightarrow> if r_status r \<noteq> StatusFailed then Inl ErrConflict else Inr ()))"

definition RetryProcess :: "def_table \<Rightarrow> string \<Rightarrow> bool \<Rightarrow> int \<Rightarrow> store \<Rightarrow> store
    \<Rightarrow> (db_error, lifecycle_result) result \<times> store" where
  "RetryProcess defs i force now seen s =
     (case retry_precheck i seen of
        Inl e \<Rightarrow> (Inl e, s)
      | Inr _ \<Rightarrow>
          (case withTx (retry_body defs force i now) s of
             (Inl e, s') \<Rightarrow> (Inl e, s')
           | (Inr (dirty, resumed), s') \<Rightarrow>
               (let s'' = logInstances resumed EventResumed s' in
                (lifecycleResult i OutcomeApplied (length dirty + length resumed) s'', s''))))"

end
