(* ===== verification/Tree.thy ===== *)
theory Tree
  imports Spawn
begin

text \<open>
  The invariant of the instance trees: what a parent, its children and their root may be at the
  same time. Its parts say that busy work always has a parent parked on it, that a parked parent
  always has something left to wait for, and that a tree moves as its root says.
\<close>

subsection \<open>The invariant\<close>

definition child_of :: "row \<Rightarrow> row \<Rightarrow> bool" where
  "child_of p c \<longleftrightarrow> r_parent_id c = r_id p"

definition root_of :: "row \<Rightarrow> row \<Rightarrow> bool" where
  "root_of q r \<longleftrightarrow> r_root_id r = r_id q"

definition batch_of :: "row \<Rightarrow> row \<Rightarrow> bool" where
  "batch_of p c \<longleftrightarrow> r_spawn_task_id c = r_task p \<and> r_parent_task_epoch c = r_task_epoch p"

text \<open>Identity, parent, root and call stack agree; a call stack is the path from the root.\<close>

definition wf_rows :: "row list \<Rightarrow> bool" where
  "wf_rows rows \<longleftrightarrow> distinct (map r_id rows) \<and>
     (\<forall>r \<in> set rows. r_id r \<noteq> [] \<and>
        (if r_parent_id r = [] then r_call_stack r = [] \<and> r_root_id r = r_id r
         else r_spawn_task_id r \<noteq> [] \<and>
              (\<exists>p \<in> set rows. child_of p r \<and> r_call_stack r = r_call_stack p @ [r_id p] \<and>
                 r_root_id r = r_root_id p)))"

fun tree_ok :: "status \<Rightarrow> status \<Rightarrow> bool" where
  "tree_ok StatusRunning st \<longleftrightarrow> st \<in> {StatusRunning, StatusCompleted, StatusRaised}"
| "tree_ok StatusPausing st \<longleftrightarrow> st \<in> {StatusPausing, StatusPaused, StatusCompleted, StatusRaised}"
| "tree_ok StatusPaused st \<longleftrightarrow> st \<in> {StatusPaused, StatusCompleted, StatusRaised}"
| "tree_ok StatusFailing st \<longleftrightarrow>
     st \<in> {StatusFailing, StatusFailed, StatusPausing, StatusPaused, StatusCompleted, StatusRaised}"
| "tree_ok StatusFailed st \<longleftrightarrow> st \<in> {StatusFailed, StatusPaused, StatusCompleted, StatusRaised}"
| "tree_ok StatusCancelling st \<longleftrightarrow>
     st \<in> {StatusCancelling, StatusCancelled, StatusFailed, StatusCompleted, StatusRaised}"
| "tree_ok StatusCancelled st \<longleftrightarrow> st \<in> {StatusCancelled, StatusFailed, StatusCompleted, StatusRaised}"
| "tree_ok _ st \<longleftrightarrow> st \<in> {StatusCompleted, StatusRaised}"

text \<open>The statuses a row may have under a root of the given status are \<open>tree_ok\<close>.

  What a child's status says of its parent.\<close>

definition edge_ok :: "row \<Rightarrow> row \<Rightarrow> bool" where
  "edge_ok p c \<longleftrightarrow>
     (Busy (r_status c) \<longrightarrow> r_phase p = PhaseChildren \<and> batch_of p c \<and> Busy (r_status p)) \<and>
     (r_status c = StatusFailing \<longrightarrow> r_status p = StatusFailing) \<and>
     (r_status c = StatusPaused \<longrightarrow> batch_of p c \<and>
        (r_phase p = PhaseChildren \<and> \<not> Terminal (r_status p) \<or> r_status p = StatusFailed)) \<and>
     (r_status c = StatusFailed \<longrightarrow> batch_of p c \<and>
        (r_status p \<in> {StatusFailing, StatusFailed, StatusCancelled} \<or>
         (r_status p = StatusCancelling \<and> r_phase p = PhaseChildren))) \<and>
     (r_status c = StatusCancelled \<longrightarrow>
        r_status p = StatusCancelled \<or> (r_status p = StatusCancelling \<and> r_phase p = PhaseChildren))"

definition node_ok :: "row \<Rightarrow> bool" where
  "node_ok r \<longleftrightarrow>
     (r_worker_id r \<noteq> None \<longrightarrow>
        r_status r \<in> {StatusRunning, StatusPausing, StatusCancelling} \<and> r_phase r \<noteq> PhaseChildren) \<and>
     (r_status r = StatusFailing \<longrightarrow> r_phase r = PhaseChildren) \<and>
     (r_superseded_at r \<noteq> None \<longrightarrow> r_status r = StatusRaised)"

text \<open>A parked parent has a live child in its batch, and a draining one a busy child.\<close>

definition wait_ok :: "row set \<Rightarrow> row \<Rightarrow> bool" where
  "wait_ok R p \<longleftrightarrow>
     (r_phase p = PhaseChildren \<and> \<not> Terminal (r_status p) \<longrightarrow>
        (\<exists>k \<in> R. child_of p k \<and> batch_of p k \<and> \<not> Terminal (r_status k) \<and>
           (Draining (r_status p) \<longrightarrow> Busy (r_status k))))"

definition edges_ok :: "row set \<Rightarrow> bool" where
  "edges_ok R \<longleftrightarrow> (\<forall>p \<in> R. \<forall>c \<in> R. child_of p c \<longrightarrow> edge_ok p c)"

definition roots_ok :: "row set \<Rightarrow> bool" where
  "roots_ok R \<longleftrightarrow> (\<forall>q \<in> R. \<forall>r \<in> R. root_of q r \<longrightarrow> tree_ok (r_status q) (r_status r))"

text \<open>The invariant, with the parents in \<open>hole\<close> excused from having something to wait for.\<close>

definition tree_inv_but :: "string set \<Rightarrow> row list \<Rightarrow> bool" where
  "tree_inv_but hole rows \<longleftrightarrow> wf_rows rows \<and> edges_ok (set rows) \<and> roots_ok (set rows) \<and>
     (\<forall>r \<in> set rows. node_ok r) \<and> (\<forall>p \<in> set rows. r_id p \<notin> hole \<longrightarrow> wait_ok (set rows) p)"

abbreviation tree_inv :: "row list \<Rightarrow> bool" where
  "tree_inv rows \<equiv> tree_inv_but {} rows"

lemma wf_id: "wf_rows rows \<Longrightarrow> r \<in> set rows \<Longrightarrow> r_id r \<noteq> []"
  by (simp add: wf_rows_def)

lemma wf_distinct: "wf_rows rows \<Longrightarrow> distinct (map r_id rows)"
  by (simp add: wf_rows_def)

lemma wf_root: "wf_rows rows \<Longrightarrow> r \<in> set rows \<Longrightarrow> r_parent_id r = [] \<Longrightarrow> r_call_stack r = [] \<and> r_root_id r = r_id r"
  by (auto simp: wf_rows_def)

lemma wf_parent:
  assumes "wf_rows rows" "r \<in> set rows" "r_parent_id r \<noteq> []"
  obtains p where "p \<in> set rows" "child_of p r" "r_call_stack r = r_call_stack p @ [r_id p]"
    "r_root_id r = r_root_id p"
  using assms unfolding wf_rows_def by (auto split: if_splits)

lemma wf_spawn: "wf_rows rows \<Longrightarrow> r \<in> set rows \<Longrightarrow> r_parent_id r \<noteq> [] \<Longrightarrow> r_spawn_task_id r \<noteq> []"
  by (auto simp: wf_rows_def)

lemma distinct_ids_inj:
  "distinct (map r_id rows) \<Longrightarrow> r \<in> set rows \<Longrightarrow> r' \<in> set rows \<Longrightarrow> r_id r = r_id r' \<Longrightarrow> r = r'"
  by (auto simp: distinct_map dest: inj_onD)

lemma wf_inj: "wf_rows rows \<Longrightarrow> r \<in> set rows \<Longrightarrow> r' \<in> set rows \<Longrightarrow> r_id r = r_id r' \<Longrightarrow> r = r'"
  using distinct_ids_inj wf_distinct by blast

lemma tree_invD:
  assumes "tree_inv_but h rows"
  shows "wf_rows rows"
    and "p \<in> set rows \<Longrightarrow> c \<in> set rows \<Longrightarrow> child_of p c \<Longrightarrow> edge_ok p c"
    and "q \<in> set rows \<Longrightarrow> r \<in> set rows \<Longrightarrow> root_of q r \<Longrightarrow> tree_ok (r_status q) (r_status r)"
    and "r \<in> set rows \<Longrightarrow> node_ok r"
    and "p \<in> set rows \<Longrightarrow> r_id p \<notin> h \<Longrightarrow> wait_ok (set rows) p"
  using assms by (simp_all add: tree_inv_but_def edges_ok_def roots_ok_def)

subsection \<open>Updates that keep the shape\<close>

text \<open>The columns no statement but the insert writes.\<close>

definition same_place :: "row \<Rightarrow> row \<Rightarrow> bool" where
  "same_place r r' \<longleftrightarrow> r_id r' = r_id r \<and> r_parent_id r' = r_parent_id r \<and> r_root_id r' = r_root_id r \<and>
     r_call_stack r' = r_call_stack r \<and> r_spawn_task_id r' = r_spawn_task_id r \<and>
     r_parent_task_epoch r' = r_parent_task_epoch r"

lemma same_place_refl [simp]: "same_place r r"
  by (simp add: same_place_def)

lemma same_place_child: "same_place p p' \<Longrightarrow> same_place c c' \<Longrightarrow> child_of p' c' \<longleftrightarrow> child_of p c"
  by (simp add: same_place_def child_of_def)

lemma same_place_root: "same_place q q' \<Longrightarrow> same_place r r' \<Longrightarrow> root_of q' r' \<longleftrightarrow> root_of q r"
  by (simp add: same_place_def root_of_def)

lemma wf_map:
  assumes "wf_rows rows" and same: "\<And>r. r \<in> set rows \<Longrightarrow> same_place r (g r)"
  shows "wf_rows (map g rows)"
proof -
  have ids: "map r_id (map g rows) = map r_id rows"
    using same by (auto simp: same_place_def)
  moreover have "\<forall>r' \<in> set (map g rows). r_id r' \<noteq> [] \<and>
        (if r_parent_id r' = [] then r_call_stack r' = [] \<and> r_root_id r' = r_id r'
         else r_spawn_task_id r' \<noteq> [] \<and>
              (\<exists>p \<in> set (map g rows). child_of p r' \<and> r_call_stack r' = r_call_stack p @ [r_id p] \<and>
                 r_root_id r' = r_root_id p))"
  proof
    fix r' assume "r' \<in> set (map g rows)"
    then obtain r where r: "r \<in> set rows" "r' = g r" by auto
    note sp = same [OF r(1)]
    show "r_id r' \<noteq> [] \<and> (if r_parent_id r' = [] then r_call_stack r' = [] \<and> r_root_id r' = r_id r'
         else r_spawn_task_id r' \<noteq> [] \<and>
              (\<exists>p \<in> set (map g rows). child_of p r' \<and> r_call_stack r' = r_call_stack p @ [r_id p] \<and>
                 r_root_id r' = r_root_id p))"
    proof (cases "r_parent_id r = []")
      case True
      then show ?thesis using assms(1) r sp by (auto simp: wf_rows_def same_place_def)
    next
      case False
      then obtain p where p: "p \<in> set rows" "child_of p r" "r_call_stack r = r_call_stack p @ [r_id p]"
        "r_root_id r = r_root_id p" using wf_parent [OF assms(1) r(1)] by metis
      then show ?thesis using r sp same [OF p(1)] False wf_id [OF assms(1) r(1)] wf_spawn [OF assms(1) r(1) False]
        by (auto simp: same_place_def child_of_def intro!: bexI [of _ p])
    qed
  qed
  moreover have "distinct (map r_id (map g rows))"
    unfolding ids by (rule wf_distinct [OF assms(1)])
  ultimately show ?thesis unfolding wf_rows_def by (intro conjI)
qed

lemma tree_inv_map:
  assumes inv: "tree_inv_but h rows"
    and same: "\<And>r. r \<in> set rows \<Longrightarrow> same_place r (g r)"
    and edge: "\<And>p c. p \<in> set rows \<Longrightarrow> c \<in> set rows \<Longrightarrow> child_of p c \<Longrightarrow> edge_ok p c \<Longrightarrow> edge_ok (g p) (g c)"
    and root: "\<And>q r. q \<in> set rows \<Longrightarrow> r \<in> set rows \<Longrightarrow> root_of q r \<Longrightarrow> tree_ok (r_status q) (r_status r)
                \<Longrightarrow> tree_ok (r_status (g q)) (r_status (g r))"
    and node: "\<And>r. r \<in> set rows \<Longrightarrow> node_ok r \<Longrightarrow> node_ok (g r)"
    and wait: "\<And>p. p \<in> set rows \<Longrightarrow> r_id p \<notin> h' \<Longrightarrow> wait_ok (g ` set rows) (g p)"
  shows "tree_inv_but h' (map g rows)"
proof -
  note D = tree_invD [OF inv]
  have e: "edge_ok (g p) (g c)" if "p \<in> set rows" "c \<in> set rows" "child_of (g p) (g c)" for p c
    using edge [OF that(1,2)] D(2) [OF that(1,2)] that(3)
      same_place_child [OF same [OF that(1)] same [OF that(2)]] by simp
  have r: "tree_ok (r_status (g q)) (r_status (g c))" if "q \<in> set rows" "c \<in> set rows" "root_of (g q) (g c)" for q c
    using root [OF that(1,2)] D(3) [OF that(1,2)] that(3)
      same_place_root [OF same [OF that(1)] same [OF that(2)]] by simp
  have w: "wait_ok (g ` set rows) (g p)" if "p \<in> set rows" "r_id (g p) \<notin> h'" for p
    using that wait same [of p] by (simp add: same_place_def)
  show ?thesis
    unfolding tree_inv_but_def edges_ok_def roots_ok_def set_map
    using e r w node [OF _ D(4)] wf_map [OF D(1) same] by simp
qed

text \<open>
  An update that moves neither status, task nor epoch, and neither starts nor ends a wait for
  children, keeps every relation.
\<close>

definition same_shape :: "row \<Rightarrow> row \<Rightarrow> bool" where
  "same_shape r r' \<longleftrightarrow> same_place r r' \<and> r_status r' = r_status r \<and>
     (r_phase r' = PhaseChildren \<longleftrightarrow> r_phase r = PhaseChildren) \<and> r_task r' = r_task r \<and> r_task_epoch r' = r_task_epoch r"

lemma tree_inv_same_shape:
  assumes "tree_inv_but h rows" and "\<And>r. r \<in> set rows \<Longrightarrow> same_shape r (g r)"
    and "\<And>r. r \<in> set rows \<Longrightarrow> node_ok r \<Longrightarrow> node_ok (g r)"
  shows "tree_inv_but h (map g rows)"
proof (rule tree_inv_map [OF assms(1)])
  fix p assume p: "p \<in> set rows" "r_id p \<notin> h"
  then have "wait_ok (set rows) p" using assms(1) by (simp add: tree_inv_but_def)
  then show "wait_ok (g ` set rows) (g p)"
    using assms(2) p by (fastforce simp: wait_ok_def same_shape_def same_place_def child_of_def batch_of_def)
qed (use assms in \<open>auto simp: same_shape_def edge_ok_def batch_of_def same_place_def\<close>)

subsection \<open>Ancestors\<close>

lemma parent_in_stack:
  "wf_rows rows \<Longrightarrow> c \<in> set rows \<Longrightarrow> p \<in> set rows \<Longrightarrow> child_of p c \<Longrightarrow>
     r_call_stack c = r_call_stack p @ [r_id p] \<and> r_root_id c = r_root_id p"
  using wf_parent [of rows c] wf_inj [of rows _ p] wf_id [of rows p]
  by (metis child_of_def)

lemma not_own_child: "wf_rows rows \<Longrightarrow> r \<in> set rows \<Longrightarrow> \<not> child_of r r"
  using parent_in_stack [of rows r r] by auto

text \<open>A property that passes from a child to its parent holds of every ancestor.\<close>

lemma ancestors_all:
  assumes wf: "wf_rows rows"
    and up: "\<And>p c. p \<in> set rows \<Longrightarrow> c \<in> set rows \<Longrightarrow> child_of p c \<Longrightarrow> Q c \<Longrightarrow> Q p"
  shows "r \<in> set rows \<Longrightarrow> Q r \<Longrightarrow> a \<in> set rows \<Longrightarrow> r_id a \<in> set (r_call_stack r) \<Longrightarrow> Q a"
proof (induction "length (r_call_stack r)" arbitrary: r rule: less_induct)
  case less
  then have "r_parent_id r \<noteq> []" using wf_root [OF wf less.prems(1)] by auto
  then obtain p where p: "p \<in> set rows" "child_of p r" "r_call_stack r = r_call_stack p @ [r_id p]"
    using wf_parent [OF wf less.prems(1)] by metis
  then have "Q p" using up less.prems by blast
  then show ?case
    using less.hyps [of p] less.prems p wf_inj [OF wf less.prems(3) p(1)] by auto
qed

lemma root_exists:
  assumes wf: "wf_rows rows"
  shows "r \<in> set rows \<Longrightarrow> \<exists>q \<in> set rows. root_of q r \<and> r_parent_id q = [] \<and>
     (if r_call_stack r = [] then q = r else r_id q = hd (r_call_stack r))"
proof (induction "length (r_call_stack r)" arbitrary: r rule: less_induct)
  case less
  show ?case
  proof (cases "r_parent_id r = []")
    case True
    then show ?thesis using wf_root [OF wf less.prems] less.prems by (auto simp: root_of_def)
  next
    case False
    then obtain p where p: "p \<in> set rows" "child_of p r" "r_call_stack r = r_call_stack p @ [r_id p]"
      "r_root_id r = r_root_id p" using wf_parent [OF wf less.prems] by metis
    with less.hyps [of p] obtain q where "q \<in> set rows" "root_of q p" "r_parent_id q = []"
      "if r_call_stack p = [] then q = p else r_id q = hd (r_call_stack p)" by auto
    then show ?thesis using p by (intro bexI [of _ q]) (auto simp: root_of_def split: if_splits)
  qed
qed

text \<open>Below an ancestor there is a child on the path.\<close>

lemma child_on_path:
  assumes wf: "wf_rows rows"
  shows "r \<in> set rows \<Longrightarrow> a \<in> set rows \<Longrightarrow> r_id a \<in> set (r_call_stack r) \<Longrightarrow>
     \<exists>k \<in> set rows. child_of a k \<and> (k = r \<or> r_id k \<in> set (r_call_stack r))"
proof (induction "length (r_call_stack r)" arbitrary: r rule: less_induct)
  case less
  then have "r_parent_id r \<noteq> []" using wf_root [OF wf less.prems(1)] by auto
  then obtain p where p: "p \<in> set rows" "child_of p r" "r_call_stack r = r_call_stack p @ [r_id p]"
    using wf_parent [OF wf less.prems(1)] by metis
  show ?case
  proof (cases "r_id a = r_id p")
    case True
    then show ?thesis using p less.prems wf_inj [OF wf less.prems(2) p(1)] by auto
  next
    case False
    then show ?thesis using less.hyps [of p] less.prems p by fastforce
  qed
qed

lemma stack_member:
  assumes wf: "wf_rows rows"
  shows "r \<in> set rows \<Longrightarrow> i \<in> set (r_call_stack r) \<Longrightarrow> \<exists>a \<in> set rows. r_id a = i \<and> r_root_id a = r_root_id r"
proof (induction "length (r_call_stack r)" arbitrary: r rule: less_induct)
  case less
  then have "r_parent_id r \<noteq> []" using wf_root [OF wf less.prems(1)] by auto
  then obtain p where p: "p \<in> set rows" "child_of p r" "r_call_stack r = r_call_stack p @ [r_id p]"
    "r_root_id r = r_root_id p" using wf_parent [OF wf less.prems(1)] by metis
  then show ?case using less.hyps [of p] less.prems by auto
qed

subsection \<open>Leaves\<close>

text \<open>
  A leaf is a busy row that waits for no children: the kind a worker may hold. Everything below it
  has concluded.
\<close>

definition leaf :: "row \<Rightarrow> bool" where
  "leaf x \<longleftrightarrow> r_status x \<in> {StatusRunning, StatusPausing, StatusCancelling} \<and> r_phase x \<noteq> PhaseChildren"

definition concluded :: "status \<Rightarrow> bool" where
  "concluded st \<longleftrightarrow> st \<in> {StatusCompleted, StatusRaised}"

lemma leaf_Busy: "leaf x \<Longrightarrow> Busy (r_status x)"
  by (auto simp: leaf_def)

lemma tree_ok_refl [simp]: "tree_ok st st"
  by (cases st) auto

lemma tree_ok_concluded [simp]: "concluded st \<Longrightarrow> tree_ok q st"
  by (cases q) (auto simp: concluded_def)

lemma edge_concluded [simp]: "concluded (r_status c) \<Longrightarrow> edge_ok p c"
  by (auto simp: edge_ok_def concluded_def)

lemma not_concluded_up:
  assumes "edge_ok p c" "\<not> concluded (r_status c)"
  shows "\<not> concluded (r_status p)" "leaf p \<Longrightarrow> False"
  using assms by (cases "r_status c"; auto simp: edge_ok_def concluded_def leaf_def)+

lemma leaf_children:
  "tree_inv_but h rows \<Longrightarrow> x \<in> set rows \<Longrightarrow> leaf x \<Longrightarrow> c \<in> set rows \<Longrightarrow> child_of x c \<Longrightarrow> concluded (r_status c)"
  using tree_invD(2) not_concluded_up(2) by blast

lemma below_concluded:
  assumes inv: "tree_inv_but h rows" and x: "x \<in> set rows" and kids: "\<And>c. c \<in> set rows \<Longrightarrow> child_of x c \<Longrightarrow> \<not> Q c"
    and up: "\<And>p c. p \<in> set rows \<Longrightarrow> c \<in> set rows \<Longrightarrow> child_of p c \<Longrightarrow> edge_ok p c \<Longrightarrow> Q c \<Longrightarrow> Q p"
    and r: "r \<in> set rows" "r_id x \<in> set (r_call_stack r)"
  shows "\<not> Q r"
proof
  assume Q: "Q r"
  note wf = tree_invD(1) [OF inv]
  obtain k where k: "k \<in> set rows" "child_of x k" "k = r \<or> r_id k \<in> set (r_call_stack r)"
    using child_on_path [OF wf r(1) x r(2)] by blast
  have "Q k"
    using k(3) ancestors_all [OF wf, of Q r k] up tree_invD(2) [OF inv] Q r(1) k(1) by blast
  then show False using kids k by blast
qed

lemma root_above:
  assumes "wf_rows rows" "q \<in> set rows" "r \<in> set rows" "root_of q r" "r \<noteq> q"
  shows "r_id q \<in> set (r_call_stack r)" "r_parent_id q = []"
proof -
  obtain q' where q': "q' \<in> set rows" "root_of q' r" "r_parent_id q' = []"
    "if r_call_stack r = [] then q' = r else r_id q' = hd (r_call_stack r)"
    using root_exists [OF assms(1,3)] by blast
  then have "q' = q" using wf_inj [OF assms(1) q'(1) assms(2)] assms(4) by (simp add: root_of_def)
  then show "r_id q \<in> set (r_call_stack r)" "r_parent_id q = []"
    using q' assms(5) by (auto split: if_splits)
qed

lemma leaf_tree:
  assumes inv: "tree_inv_but h rows" and x: "x \<in> set rows" "leaf x" and r: "r \<in> set rows" "root_of x r" "r \<noteq> x"
  shows "concluded (r_status r)"
proof -
  have "\<not> \<not> concluded (r_status r)"
  proof (rule below_concluded [OF inv x(1) _ _ r(1), of "\<lambda>c. \<not> concluded (r_status c)"])
    show "r_id x \<in> set (r_call_stack r)" using root_above(1) [OF tree_invD(1) [OF inv] x(1) r] .
    show "\<not> \<not> concluded (r_status c)" if "c \<in> set rows" "child_of x c" for c
      using leaf_children [OF inv x that] by simp
    show "\<not> concluded (r_status p)" if "edge_ok p c" "\<not> concluded (r_status c)" for p c
      using not_concluded_up(1) [OF that] .
  qed
  then show ?thesis by simp
qed

definition put_row :: "row \<Rightarrow> row list \<Rightarrow> row list" where
  "put_row x' rows = map (\<lambda>r. if r_id r = r_id x' then x' else r) rows"

lemma put_row_fence:
  assumes "distinct (map r_id rows)" "x \<in> set rows" "P x" "\<And>r. P r \<Longrightarrow> r_id r = r_id x" "r_id (f x) = r_id x"
  shows "map (\<lambda>r. if P r then f r else r) rows = put_row (f x) rows"
  unfolding put_row_def
proof (rule map_cong [OF refl])
  fix r assume "r \<in> set rows"
  then have "P r \<longleftrightarrow> r = x" "r_id r = r_id x \<longleftrightarrow> r = x"
    using assms(2-4) distinct_ids_inj [OF assms(1), of r x] by blast+
  then show "(if P r then f r else r) = (if r_id r = r_id (f x) then f x else r)"
    using assms(5) by simp
qed

text \<open>One row changes its status and phase; its batch and the rest of the table stay.\<close>

lemma tree_inv_put:
  assumes inv: "tree_inv_but h rows" and x: "x \<in> set rows" and x': "same_place x x'" "node_ok x'"
    and below: "\<And>c. c \<in> set rows \<Longrightarrow> child_of x c \<Longrightarrow> edge_ok x' c"
    and above: "\<And>p. p \<in> set rows \<Longrightarrow> child_of p x \<Longrightarrow> edge_ok p x'"
    and root: "\<And>q. q \<in> set rows \<Longrightarrow> root_of q x \<Longrightarrow> q \<noteq> x \<Longrightarrow> tree_ok (r_status q) (r_status x')"
    and tree: "\<And>r. r \<in> set rows \<Longrightarrow> root_of x r \<Longrightarrow> r \<noteq> x \<Longrightarrow> tree_ok (r_status x') (r_status r)"
    and wait: "r_id x \<notin> h' \<Longrightarrow> wait_ok (set rows) x'"
    and h: "h \<subseteq> insert (r_id x) h'"
      "r_parent_id x = [] \<or> r_parent_id x \<in> h' \<or>
        ((\<not> Terminal (r_status x) \<longrightarrow> \<not> Terminal (r_status x')) \<and> (Busy (r_status x) \<longrightarrow> Busy (r_status x')))"
  shows "tree_inv_but h' (put_row x' rows)"
proof -
  note wf = tree_invD(1) [OF inv]
  define g where "g = (\<lambda>r. if r = x then x' else r)"
  have g: "put_row x' rows = map g rows"
    unfolding put_row_def g_def
  proof (rule map_cong [OF refl])
    fix r assume "r \<in> set rows"
    then have "r_id r = r_id x \<longleftrightarrow> r = x" using wf_inj [OF wf, of r x] x by blast
    then show "(if r_id r = r_id x' then x' else r) = (if r = x then x' else r)"
      using x'(1) by (simp add: same_place_def)
  qed
  have sp: "same_place r (g r)" for r using x'(1) by (simp add: g_def)
  have keep: "child_of p (g k) \<longleftrightarrow> child_of p k" "batch_of p (g k) \<longleftrightarrow> batch_of p k" for p k
    using sp [of k] by (simp_all add: child_of_def batch_of_def same_place_def)
  show ?thesis unfolding g
  proof (rule tree_inv_map [OF inv sp])
    fix p c assume pc: "p \<in> set rows" "c \<in> set rows" "child_of p c" "edge_ok p c"
    then have "\<not> (p = x \<and> c = x)" using not_own_child [OF wf x] by blast
    then show "edge_ok (g p) (g c)" using pc below [of c] above [of p] by (auto simp: g_def)
  next
    fix q r assume "q \<in> set rows" "r \<in> set rows" "root_of q r" "tree_ok (r_status q) (r_status r)"
    then show "tree_ok (r_status (g q)) (r_status (g r))"
      using root [of q] tree [of r] by (auto simp: g_def)
  next
    fix p assume p: "p \<in> set rows" "r_id p \<notin> h'"
    have alive: "\<not> Terminal (r_status (g k)) \<and> (Busy (r_status k) \<longrightarrow> Busy (r_status (g k)))"
      if "k \<in> set rows" "child_of p k" "\<not> Terminal (r_status k)" "p \<noteq> x" for k
      using that h(2) p wf_id [OF wf p(1)] by (auto simp: g_def child_of_def)
    have w: "wait_ok (set rows) (g p)"
      using wait p tree_invD(5) [OF inv p(1)] h(1) wf_inj [OF wf p(1) x]
      by (cases "p = x") (auto simp: g_def)
    show "wait_ok (g ` set rows) (g p)"
      unfolding wait_ok_def
    proof
      assume "r_phase (g p) = PhaseChildren \<and> \<not> Terminal (r_status (g p))"
      then obtain k where k: "k \<in> set rows" "child_of (g p) k" "batch_of (g p) k" "\<not> Terminal (r_status k)"
        "Draining (r_status (g p)) \<longrightarrow> Busy (r_status k)" using w unfolding wait_ok_def by blast
      have "child_of p k" using k(2) sp [of p] by (simp add: child_of_def same_place_def)
      moreover have "g k = k" if "p = x" using calculation not_own_child [OF wf x] that by (auto simp: g_def)
      ultimately have "\<not> Terminal (r_status (g k)) \<and> (Busy (r_status k) \<longrightarrow> Busy (r_status (g k)))"
        using alive [OF k(1)] k(4) by (cases "p = x") auto
      then show "\<exists>k \<in> g ` set rows. child_of (g p) k \<and> batch_of (g p) k \<and> \<not> Terminal (r_status k) \<and>
          (Draining (r_status (g p)) \<longrightarrow> Busy (r_status k))"
        using k keep by blast
    qed
  qed (use x' in \<open>auto simp: g_def\<close>)
qed


text \<open>Every write of a leaf is one such update.\<close>

lemma tree_inv_leaf:
  assumes inv: "tree_inv_but h rows" and x: "x \<in> set rows" "leaf x"
    and x': "same_place x x'" "node_ok x'" "r_phase x' \<noteq> PhaseChildren \<or> Terminal (r_status x')"
    and par: "\<And>p. p \<in> set rows \<Longrightarrow> child_of p x \<Longrightarrow> edge_ok p x'"
    and root: "\<And>q. q \<in> set rows \<Longrightarrow> root_of q x \<Longrightarrow> q \<noteq> x \<Longrightarrow> tree_ok (r_status q) (r_status x')"
    and h: "h \<subseteq> h'" "Busy (r_status x') \<or> r_parent_id x = [] \<or> r_parent_id x \<in> h'"
  shows "tree_inv_but h' (put_row x' rows)"
proof (rule tree_inv_put [OF inv x(1) x'(1,2) _ par root])
  fix c assume "c \<in> set rows" "child_of x c"
  then show "edge_ok x' c" using leaf_children [OF inv x] by simp
next
  fix r assume "r \<in> set rows" "root_of x r" "r \<noteq> x"
  then show "tree_ok (r_status x') (r_status r)" using leaf_tree [OF inv x] by simp
qed (use h x' leaf_Busy [OF x(2)] in \<open>auto simp: wait_ok_def dest: Busy_not_Terminal\<close>)

end
