(* ===== verification/Tree_Settle.thy ===== *)
theory Tree_Settle
  imports Tree
begin

text \<open>
  Settling up restores the invariant: after a child stops, its parent may have nothing left to
  wait for; the climb wakes it, or settles it and moves the question to the grandparent.
\<close>

lemma hole_nil: "tree_inv_but {[]} rows \<longleftrightarrow> tree_inv rows"
  using wf_id [of rows] by (auto simp: tree_inv_but_def)

lemma hole_mono: "tree_inv_but h rows \<Longrightarrow> h \<subseteq> h' \<Longrightarrow> tree_inv_but h' rows"
  by (auto simp: tree_inv_but_def)

lemma hole_filled:
  "tree_inv_but {r_id p} rows \<Longrightarrow> p \<in> set rows \<Longrightarrow> wait_ok (set rows) p \<Longrightarrow> tree_inv rows"
  using wf_inj [of rows _ p] unfolding tree_inv_but_def by (metis empty_iff insert_iff)

text \<open>A parent the climb stands on: parked on the batch the child belongs to.\<close>

definition parked :: "row list \<Rightarrow> string \<Rightarrow> string \<Rightarrow> int \<Rightarrow> row \<Rightarrow> bool" where
  "parked rows pid task epoch p \<longleftrightarrow> p \<in> set rows \<and> r_id p = pid \<and> r_phase p = PhaseChildren \<and>
     Busy (r_status p) \<and> r_task p = task \<and> r_task_epoch p = epoch"

lemma parked_batch:
  "parked rows pid task epoch p \<Longrightarrow> in_batch pid task epoch c \<longleftrightarrow> child_of p c \<and> batch_of p c"
  by (auto simp: parked_def in_batch_def child_of_def batch_of_def)

lemma active_iff: "r_status c \<notin> {StatusCompleted, StatusFailed, StatusRaised, StatusCancelled} \<longleftrightarrow> \<not> Terminal (r_status c)"
  by (cases "r_status c") auto

lemma busy_iff: "r_status c \<in> {StatusRunning, StatusPausing, StatusFailing, StatusCancelling} \<longleftrightarrow> Busy (r_status c)"
  by (cases "r_status c") auto

lemma count_active_0:
  "parked (s_rows s) pid task epoch p \<Longrightarrow> q_CountActiveSiblings pid task epoch s = 0 \<longleftrightarrow>
     (\<forall>c \<in> set (s_rows s). child_of p c \<longrightarrow> batch_of p c \<longrightarrow> Terminal (r_status c))"
  unfolding q_CountActiveSiblings_def rows_matching_0 active_iff by (auto simp: parked_batch)

lemma count_busy_0:
  "parked (s_rows s) pid task epoch p \<Longrightarrow> q_CountBusySiblings pid task epoch s = 0 \<longleftrightarrow>
     (\<forall>c \<in> set (s_rows s). child_of p c \<longrightarrow> batch_of p c \<longrightarrow> \<not> Busy (r_status c))"
  unfolding q_CountBusySiblings_def rows_matching_0 busy_iff by (auto simp: parked_batch)

text \<open>The parent of a parked, draining row is itself parked on it.\<close>

lemma parked_up:
  assumes "tree_inv_but h rows" "p \<in> set rows" "Busy (r_status p)" "r_parent_id p \<noteq> []"
  shows "\<exists>pp. parked rows (r_parent_id p) (r_spawn_task_id p) (r_parent_task_epoch p) pp"
proof -
  obtain pp where pp: "pp \<in> set rows" "child_of pp p"
    using wf_parent [OF tree_invD(1) [OF assms(1)] assms(2,4)] by metis
  then have "edge_ok pp p" using tree_invD(2) [OF assms(1)] assms(2) by blast
  then show ?thesis using pp assms(3)
    by (intro exI [of _ pp]) (auto simp: parked_def edge_ok_def child_of_def batch_of_def)
qed

text \<open>Under a busy parent, a child outside the batch has concluded.\<close>

lemma live_child_in_batch:
  assumes "tree_inv_but h rows" "p \<in> set rows" "Busy (r_status p)" "c \<in> set rows" "child_of p c"
    "\<not> Terminal (r_status c)"
  shows "batch_of p c"
  using tree_invD(2) [OF assms(1,2,4,5)] assms(3,6) by (cases "r_status c") (auto simp: edge_ok_def)

lemma wake_running:
  assumes inv: "tree_inv_but {r_id p} rows" and p: "p \<in> set rows" "r_phase p = PhaseChildren" "r_status p = StatusRunning"
    and none: "\<And>c. c \<in> set rows \<Longrightarrow> child_of p c \<Longrightarrow> batch_of p c \<Longrightarrow> Terminal (r_status c)"
  shows "tree_inv (put_row (set_woken now p) rows)"
proof (rule tree_inv_put [OF inv p(1)])
  fix c assume c: "c \<in> set rows" "child_of p c"
  have "Terminal (r_status c)"
    using none [OF c] live_child_in_batch [OF inv p(1) _ c] p(3) by auto
  then have "concluded (r_status c)"
    using tree_invD(2) [OF inv p(1) c] p(3) by (cases "r_status c") (auto simp: edge_ok_def concluded_def)
  then show "edge_ok (set_woken now p) c" by simp
next
  fix pp assume "pp \<in> set rows" "child_of pp p"
  then show "edge_ok pp (set_woken now p)"
    using tree_invD(2) [OF inv _ p(1)] by (auto simp: edge_ok_def set_woken_def batch_of_def)
next
  fix q assume "q \<in> set rows" "root_of q p" "q \<noteq> p"
  then show "tree_ok (r_status q) (r_status (set_woken now p))"
    using tree_invD(3) [OF inv _ p(1)] by (simp add: set_woken_def)
next
  fix r assume "r \<in> set rows" "root_of p r" "r \<noteq> p"
  then show "tree_ok (r_status (set_woken now p)) (r_status r)"
    using tree_invD(3) [OF inv p(1)] by (simp add: set_woken_def)
qed (use p tree_invD(4) [OF inv p(1)] in
      \<open>auto simp: set_woken_def same_place_def node_ok_def wait_ok_def\<close>)

definition set_settled :: "bool \<Rightarrow> int \<Rightarrow> row \<Rightarrow> row" where
  "set_settled woken now p = set_drained now (if woken then set_woken now p else p)"

lemma set_settled_simps [simp]:
  "r_status (set_settled w now p) = drained_status (r_status p)"
  "r_worker_id (set_settled w now p) = r_worker_id p"
  "r_superseded_at (set_settled w now p) = r_superseded_at p"
  "r_task (set_settled w now p) = r_task p" "r_task_epoch (set_settled w now p) = r_task_epoch p"
  "same_place p (set_settled w now p)"
  by (simp_all add: set_settled_def set_drained_def set_woken_def same_place_def)

lemma set_settled_phase:
  "r_phase (set_settled w now p) =
     (if r_status p = StatusFailing then PhaseNone
      else if w then (if r_status p = StatusPausing \<or> r_status p = StatusRunning \<or> r_status p = StatusPaused
                      then PhaseCollecting else PhaseNone)
      else r_phase p)"
  by (auto simp: set_settled_def set_drained_def set_woken_def)

lemma busy_up: "edge_ok p c \<Longrightarrow> Busy (r_status c) \<Longrightarrow> Busy (r_status p)"
  by (simp add: edge_ok_def)

lemma no_busy_below:
  assumes inv: "tree_inv_but h rows" and p: "p \<in> set rows"
    and none: "\<And>c. c \<in> set rows \<Longrightarrow> child_of p c \<Longrightarrow> \<not> Busy (r_status c)"
    and r: "r \<in> set rows" "root_of p r" "r \<noteq> p"
  shows "\<not> Busy (r_status r)"
proof (rule below_concluded [OF inv p _ _ r(1), of "\<lambda>c. Busy (r_status c)"])
  show "r_id p \<in> set (r_call_stack r)" using root_above(1) [OF tree_invD(1) [OF inv] p r] .
qed (use none busy_up in auto)

lemma cancelling_root: "tree_ok q StatusCancelling \<Longrightarrow> q = StatusCancelling"
  by (cases q) auto

lemma same_root:
  assumes "wf_rows rows" "p \<in> set rows" "c \<in> set rows" "child_of p c" "root_of q p"
  shows "root_of q c"
  using parent_in_stack [OF assms(1,3,2,4)] assms(5) by (simp add: root_of_def)

lemma settle_step:
  assumes inv: "tree_inv_but {r_id p} rows" and p: "p \<in> set rows" "r_phase p = PhaseChildren" "Draining (r_status p)"
    and idle: "\<And>c. c \<in> set rows \<Longrightarrow> child_of p c \<Longrightarrow> batch_of p c \<Longrightarrow> \<not> Busy (r_status c)"
    and woken: "w \<longleftrightarrow> (\<forall>c \<in> set rows. child_of p c \<longrightarrow> batch_of p c \<longrightarrow> Terminal (r_status c))"
  shows "tree_inv_but {r_parent_id p} (put_row (set_settled w now p) rows)"
proof (rule tree_inv_put [OF inv p(1)])
  note wf = tree_invD(1) [OF inv]
  have busy: "Busy (r_status p)" using p(3) by (rule Draining_Busy)
  obtain q where q: "q \<in> set rows" "root_of q p" using root_exists [OF wf p(1)] by blast
  have cq: "r_status q = StatusCancelling" if "r_status p = StatusCancelling"
    using tree_invD(3) [OF inv q(1) p(1) q(2)] that cancelling_root by simp
  fix c assume c: "c \<in> set rows" "child_of p c"
  have nb: "\<not> Busy (r_status c)"
    using idle [OF c] live_child_in_batch [OF inv p(1) busy c] Busy_not_Terminal by blast
  have np: "r_status c \<noteq> StatusPaused" if "r_status p = StatusCancelling"
    using tree_invD(3) [OF inv q(1) c(1) same_root [OF wf p(1) c q(2)]] cq [OF that] by auto
  have "batch_of p c \<and> \<not> w" if "r_status c = StatusPaused"
    using live_child_in_batch [OF inv p(1) busy c] that woken c by auto
  then show "edge_ok (set_settled w now p) c"
    using tree_invD(2) [OF inv p(1) c] nb np p(2,3)
    by (cases "r_status c"; cases "r_status p")
      (auto simp: edge_ok_def set_settled_phase drained_status_def batch_of_def)
next
  note wf = tree_invD(1) [OF inv]
  obtain q where q: "q \<in> set rows" "root_of q p" using root_exists [OF wf p(1)] by blast
  fix pp assume pp: "pp \<in> set rows" "child_of pp p"
  have e: "edge_ok pp p" using tree_invD(2) [OF inv pp(1) p(1) pp(2)] .
  have "r_status pp = StatusCancelling" if "r_status p = StatusCancelling"
  proof -
    have "root_of q pp" using parent_in_stack [OF wf p(1) pp] q(2) by (simp add: root_of_def)
    then have "tree_ok StatusCancelling (r_status pp)"
      using tree_invD(3) [OF inv q(1)] pp p(1) q(2) that cancelling_root by metis
    then show ?thesis using e that by (cases "r_status pp") (auto simp: edge_ok_def)
  qed
  moreover have "batch_of pp (set_settled w now p) = batch_of pp p"
    using set_settled_simps(6) [of p w now] by (simp add: batch_of_def same_place_def)
  ultimately show "edge_ok pp (set_settled w now p)"
    using e p(3) Busy_not_Terminal by (cases "r_status p") (auto simp: edge_ok_def drained_status_def)
next
  fix q assume "q \<in> set rows" "root_of q p" "q \<noteq> p"
  then show "tree_ok (r_status q) (r_status (set_settled w now p))"
    using tree_invD(3) [OF inv _ p(1), of q] p(3)
    by (cases "r_status p"; cases "r_status q") (auto simp: drained_status_def)
next
  have busy: "Busy (r_status p)" using p(3) by (rule Draining_Busy)
  fix r assume r: "r \<in> set rows" "root_of p r" "r \<noteq> p"
  have "\<not> Busy (r_status r)"
  proof (rule no_busy_below [OF inv p(1) _ r])
    show "\<not> Busy (r_status c)" if "c \<in> set rows" "child_of p c" for c
      using idle [OF that] live_child_in_batch [OF inv p(1) busy that] Busy_not_Terminal by blast
  qed
  then show "tree_ok (r_status (set_settled w now p)) (r_status r)"
    using tree_invD(3) [OF inv p(1) r(1,2)] p(3)
    by (cases "r_status p"; cases "r_status r") (auto simp: drained_status_def)
next
  show "wait_ok (set rows) (set_settled w now p)"
    using woken p(2,3)
    by (cases "r_status p")
      (auto simp: wait_ok_def set_settled_phase drained_status_def child_of_def batch_of_def
        set_settled_def set_drained_def set_woken_def)
qed (use p tree_invD(4) [OF inv p(1)] in
      \<open>auto simp: node_ok_def set_settled_phase drained_status_def\<close>)


subsection \<open>The climb\<close>

lemma stack_shorter:
  assumes wf: "wf_rows rows"
  shows "r \<in> set rows \<Longrightarrow> a \<in> set rows \<Longrightarrow> r_id a \<in> set (r_call_stack r) \<Longrightarrow>
     length (r_call_stack a) < length (r_call_stack r)"
proof (induction "length (r_call_stack r)" arbitrary: r rule: less_induct)
  case less
  then have "r_parent_id r \<noteq> []" using wf_root [OF wf less.prems(1)] by auto
  then obtain p where p: "p \<in> set rows" "r_call_stack r = r_call_stack p @ [r_id p]"
    using wf_parent [OF wf less.prems(1)] by metis
  then show ?case
    using less.hyps [of p] less.prems wf_inj [OF wf less.prems(2) p(1)] by fastforce
qed

lemma stack_distinct:
  assumes wf: "wf_rows rows"
  shows "r \<in> set rows \<Longrightarrow> distinct (r_call_stack r @ [r_id r]) \<and> set (r_call_stack r) \<subseteq> r_id ` set rows"
proof (induction "length (r_call_stack r)" arbitrary: r rule: less_induct)
  case less
  have own: "r_id r \<notin> set (r_call_stack r)" using stack_shorter [OF wf less.prems less.prems] by auto
  show ?case
  proof (cases "r_parent_id r = []")
    case True
    then show ?thesis using wf_root [OF wf less.prems] by simp
  next
    case False
    then obtain p where p: "p \<in> set rows" "r_call_stack r = r_call_stack p @ [r_id p]"
      using wf_parent [OF wf less.prems] by metis
    then show ?thesis using less.hyps [of p] own by auto
  qed
qed

lemma depth_bound:
  assumes "wf_rows rows" "r \<in> set rows"
  shows "length (r_call_stack r) < length rows"
proof -
  have "length (r_call_stack r @ [r_id r]) = card (set (r_call_stack r @ [r_id r]))"
    using stack_distinct [OF assms] distinct_card by metis
  also have "\<dots> \<le> card (r_id ` set rows)"
    using stack_distinct [OF assms] assms(2) by (intro card_mono) auto
  also have "\<dots> \<le> length rows" by (metis card_image_le card_length finite_set le_trans)
  finally show ?thesis by simp
qed

lemma woken_rows:
  assumes "wf_rows (s_rows s)" "p \<in> set (s_rows s)"
  shows "s_rows (q_WakeParent (r_id p) now s) = put_row (set_woken now p) (s_rows s)"
  unfolding q_WakeParent_def upd_rows
  by (rule put_row_fence [OF wf_distinct [OF assms(1)] assms(2)]) (simp_all add: set_woken_def)

lemma settled_rows:
  assumes wf: "wf_rows (s_rows s)" and p: "p \<in> set (s_rows s)" "Draining (r_status p)"
  shows "s_rows (q_SettleDrained (r_id p) now (if w then q_WakeParent (r_id p) now s else s))
       = put_row (set_settled w now p) (s_rows s)"
proof -
  have "s_rows (q_SettleDrained (r_id p) now (if w then q_WakeParent (r_id p) now s else s)) =
     map (\<lambda>r. if r_id r = r_id p \<and> Draining (r_status r) then set_settled w now r
              else if w \<and> r_id r = r_id p then set_woken now r else r) (s_rows s)"
    by (auto simp: q_SettleDrained_def q_WakeParent_def set_settled_def set_woken_def Draining_def)
  also have "\<dots> = put_row (set_settled w now p) (s_rows s)"
    unfolding put_row_def
  proof (rule map_cong [OF refl])
    fix r assume "r \<in> set (s_rows s)"
    then have "r_id r = r_id p \<longleftrightarrow> r = p" using wf_inj [OF wf, of r p] p(1) by blast
    then show "(if r_id r = r_id p \<and> Draining (r_status r) then set_settled w now r
              else if w \<and> r_id r = r_id p then set_woken now r else r) =
        (if r_id r = r_id (set_settled w now p) then set_settled w now p else r)"
      using p(2) set_settled_simps(6) [of p w now] by (simp add: same_place_def)
  qed
  finally show ?thesis .
qed

lemma parked_put:
  "parked rows pid task epoch pp \<Longrightarrow> r_id x' \<noteq> pid \<Longrightarrow> parked (put_row x' rows) pid task epoch pp"
  by (auto simp: parked_def put_row_def)

lemma settle_loop_inv:
  "tree_inv_but {pid} (s_rows s) \<Longrightarrow>
   (if pid = [] then n > 0
    else \<exists>p. parked (s_rows s) pid task epoch p \<and> length (r_call_stack p) + 1 < n) \<Longrightarrow>
   \<exists>settled' s'. settle_loop n pid task epoch now settled s = Some (settled', s') \<and> tree_inv (s_rows s')"
proof (induction n pid task epoch now settled s rule: settle_loop.induct)
  case (2 n pid task epoch now settled s)
  show ?case
  proof (cases "pid = []")
    case True
    then show ?thesis using "2.prems" hole_nil by simp
  next
    case False
    let ?rows = "s_rows s"
    note inv = "2.prems"(1) note wf = tree_invD(1) [OF inv]
    from "2.prems"(2) False obtain p where pk: "parked ?rows pid task epoch p"
      and fuel: "length (r_call_stack p) < n" by auto
    then have p: "p \<in> set ?rows" "r_id p = pid" "r_phase p = PhaseChildren" "Busy (r_status p)"
      by (auto simp: parked_def)
    have f: "find_row ?rows pid = Some p" using find_row_distinct [OF wf_distinct [OF wf]] p by blast
    let ?w = "q_CountActiveSiblings pid task epoch s = 0"
    let ?s1 = "if ?w then q_WakeParent pid now s else s"
    have w: "?w \<longleftrightarrow> (\<forall>c \<in> set ?rows. child_of p c \<longrightarrow> batch_of p c \<longrightarrow> Terminal (r_status c))"
      by (rule count_active_0 [OF pk])
    have b: "q_CountBusySiblings pid task epoch ?s1 = 0 \<longleftrightarrow>
        (\<forall>c \<in> set ?rows. child_of p c \<longrightarrow> batch_of p c \<longrightarrow> \<not> Busy (r_status c))" if "\<not> ?w"
      using count_busy_0 [OF pk] that by simp
    show ?thesis
    proof (cases "Draining (r_status p)")
      case False
      then have run: "r_status p = StatusRunning" using p(4) by (cases "r_status p") auto
      have "tree_inv (s_rows ?s1)"
      proof (cases ?w)
        case True
        then show ?thesis
          using wake_running [of p ?rows now] inv p run w woken_rows [OF wf p(1)] by auto
      next
        case no: False
        then have "wait_ok (set ?rows) p" using w False by (auto simp: wait_ok_def)
        then show ?thesis using hole_filled inv p no by auto
      qed
      then show ?thesis using False f p \<open>pid \<noteq> []\<close> by (simp add: Let_def)
    next
      case True
      show ?thesis
      proof (cases "\<not> ?w \<and> q_CountBusySiblings pid task epoch ?s1 > 0")
        case stay: True
        then have "wait_ok (set ?rows) p" using b Busy_not_Terminal by (auto simp: wait_ok_def)
        then have "tree_inv ?rows" using hole_filled inv p by auto
        moreover have "q_CountBusySiblings pid task epoch s > 0" using stay by (auto split: if_splits)
        ultimately show ?thesis using True stay f p \<open>pid \<noteq> []\<close> by (simp add: Let_def)
      next
        case settle: False
        let ?s2 = "q_SettleDrained pid now ?s1"
        have idle: "\<not> Busy (r_status c)" if "c \<in> set ?rows" "child_of p c" "batch_of p c" for c
          using settle b w that Busy_not_Terminal by blast
        have rows2: "s_rows ?s2 = put_row (set_settled ?w now p) ?rows"
          using settled_rows [OF wf p(1) True, of now ?w] unfolding p(2) .
        have inv2: "tree_inv_but {r_parent_id p} (s_rows ?s2)"
          unfolding rows2 using settle_step [OF _ p(1,3) True idle w] inv p(2) by simp
        have "if r_parent_id p = [] then n > 0
          else \<exists>pp. parked (s_rows ?s2) (r_parent_id p) (r_spawn_task_id p) (r_parent_task_epoch p) pp \<and>
                  length (r_call_stack pp) + 1 < n"
        proof (cases "r_parent_id p = []")
          case True
          then show ?thesis using fuel by simp
        next
          case np: False
          then obtain pp where pp: "parked ?rows (r_parent_id p) (r_spawn_task_id p) (r_parent_task_epoch p) pp"
            using parked_up [OF inv p(1,4)] by blast
          then have "r_call_stack p = r_call_stack pp @ [r_id pp]"
            using parent_in_stack [OF wf p(1)] by (auto simp: parked_def child_of_def)
          moreover have "r_id p \<noteq> r_parent_id p" using not_own_child [OF wf p(1)] by (auto simp: child_of_def)
          ultimately show ?thesis
            using np pp fuel parked_put [OF pp, of "set_settled ?w now p"] set_settled_simps(6) [of p ?w now]
            unfolding rows2 by (auto simp: same_place_def)
        qed
        from "2.IH" [OF \<open>pid \<noteq> []\<close> f _ refl refl _ _ inv2 this] show ?thesis
          using True settle f p \<open>pid \<noteq> []\<close> by (cases ?w) (simp_all add: Let_def)
      qed
    qed
  qed
qed (auto split: if_splits)

end
