(* ===== verification/Tree_Stop.thy ===== *)
theory Tree_Stop
  imports Tree_Settle
begin

text \<open>
  The verbs that move a whole tree at once keep the invariant: pause and cancel split it into rows
  that stop and rows that drain, resume sets every paused row running.
\<close>

subsection \<open>Recolouring a tree\<close>

text \<open>In a running or paused tree, every row has the root's status or has concluded.\<close>

definition hit :: "row \<Rightarrow> row \<Rightarrow> bool" where
  "hit q r \<longleftrightarrow> root_of q r \<and> r_status r = r_status q"

lemma uniform_tree:
  assumes "tree_inv_but h rows" "q \<in> set rows" "r_status q \<in> {StatusRunning, StatusPaused}" "r \<in> set rows" "root_of q r"
  shows "hit q r \<or> concluded (r_status r)"
  using tree_invD(3) [OF assms(1,2,4,5)] assms(3,5) by (auto simp: hit_def concluded_def)

lemma hit_up:
  assumes inv: "tree_inv_but h rows" and q: "q \<in> set rows" "r_status q \<in> {StatusRunning, StatusPaused}"
    and pc: "p \<in> set rows" "c \<in> set rows" "child_of p c" "hit q c"
  shows "hit q p" "r_phase p = PhaseChildren" "batch_of p c"
proof -
  note e = tree_invD(2) [OF inv pc(1,2,3)]
  have r: "root_of q p"
    using parent_in_stack [OF tree_invD(1) [OF inv] pc(2,1,3)] pc(4) by (simp add: hit_def root_of_def)
  have "\<not> concluded (r_status c)" using pc(4) q(2) by (auto simp: hit_def concluded_def)
  then have "\<not> concluded (r_status p)" using not_concluded_up(1) [OF e] by blast
  then show h: "hit q p" using uniform_tree [OF inv q pc(1) r] by blast
  show "r_phase p = PhaseChildren" "batch_of p c"
    using e pc(4) q(2) h by (auto simp: edge_ok_def hit_def)
qed

lemma tree_recolor:
  assumes inv: "tree_inv rows" and q: "q \<in> set rows" "r_status q \<in> {StatusRunning, StatusPaused}"
    and N1: "\<And>p c. p \<in> set rows \<Longrightarrow> c \<in> set rows \<Longrightarrow> child_of p c \<Longrightarrow> hit q p \<Longrightarrow> hit q c \<Longrightarrow>
        (Busy (new c) \<longrightarrow> Busy (new p)) \<and> (new c = StatusPaused \<longrightarrow> \<not> Terminal (new p)) \<and>
        (new c = StatusCancelled \<longrightarrow> new p \<in> {StatusCancelled, StatusCancelling})"
    and N2: "\<And>r. r \<in> set rows \<Longrightarrow> hit q r \<Longrightarrow> tree_ok (new q) (new r) \<and> new r \<notin> {StatusFailing, StatusFailed} \<and>
        (r_worker_id r \<noteq> None \<longrightarrow> new r \<in> {StatusRunning, StatusPausing, StatusCancelling})"
    and N4: "\<And>p. p \<in> set rows \<Longrightarrow> hit q p \<Longrightarrow> r_phase p = PhaseChildren \<Longrightarrow> \<not> Terminal (new p) \<Longrightarrow>
        \<exists>k \<in> set rows. child_of p k \<and> hit q k \<and> \<not> Terminal (new k) \<and> (Draining (new p) \<longrightarrow> Busy (new k))"
  shows "tree_inv (map (\<lambda>r. if hit q r then set_status (new r) now r else r) rows)"
proof -
  note wf = tree_invD(1) [OF inv]
  define g where "g = (\<lambda>r. if hit q r then set_status (new r) now r else r)"
  have gs [simp]: "r_status (g r) = (if hit q r then new r else r_status r)" "r_phase (g r) = r_phase r"
    "r_worker_id (g r) = r_worker_id r" "r_superseded_at (g r) = r_superseded_at r"
    "child_of (g p) (g r) = child_of p r" "batch_of (g p) (g r) = batch_of p r" "same_place r (g r)" for p r
    by (simp_all add: g_def set_status_def child_of_def batch_of_def same_place_def)
  have "tree_inv (map g rows)"
  proof (rule tree_inv_map [OF inv])
    fix p c assume pc: "p \<in> set rows" "c \<in> set rows" "child_of p c" "edge_ok p c"
    show "edge_ok (g p) (g c)"
    proof (cases "hit q c")
      case True
      note up = hit_up [OF inv q pc(1-3) True]
      then show ?thesis using N1 [OF pc(1-3) up(1) True] N2 [OF pc(2) True] True up by (auto simp: edge_ok_def)
    next
      case False
      show ?thesis
      proof (cases "hit q p")
        case True
        then have "root_of q c"
          using parent_in_stack [OF wf pc(2,1,3)] by (simp add: hit_def root_of_def)
        then have "concluded (r_status c)" using uniform_tree [OF inv q pc(2)] False by blast
        then show ?thesis using False by simp
      next
        case np: False
        then show ?thesis using pc(4) False gs(6) [of p c] by (simp add: edge_ok_def)
      qed
    qed
  next
    fix q' r assume r: "q' \<in> set rows" "r \<in> set rows" "root_of q' r" "tree_ok (r_status q') (r_status r)"
    show "tree_ok (r_status (g q')) (r_status (g r))"
    proof (cases "root_of q r")
      case True
      then have "q' = q" using wf_inj [OF wf r(1) q(1)] r(3) by (simp add: root_of_def)
      moreover have "hit q q"
        using root_above(2) [OF wf q(1) r(2) True] wf_root [OF wf q(1)] True
        by (cases "r = q") (auto simp: hit_def root_of_def)
      ultimately show ?thesis
        using N2 [OF r(2)] uniform_tree [OF inv q r(2) True] by auto
    next
      case False
      then have "\<not> hit q r" "\<not> hit q q'"
        using r(3) root_above(2) [OF wf r(1,2,3)] wf_root [OF wf r(1)]
        by (cases "r = q'"; auto simp: hit_def root_of_def)+
      then show ?thesis using r(4) by simp
    qed
  next
    fix r assume "r \<in> set rows" "node_ok r"
    then show "node_ok (g r)" using N2 [of r] q(2) by (auto simp: node_ok_def hit_def)
  next
    fix p assume p: "p \<in> set rows"
    show "wait_ok (g ` set rows) (g p)"
      unfolding wait_ok_def
    proof
      assume a: "r_phase (g p) = PhaseChildren \<and> \<not> Terminal (r_status (g p))"
      have "\<exists>k \<in> set rows. child_of p k \<and> batch_of p k \<and> \<not> Terminal (r_status (g k)) \<and>
          (Draining (r_status (g p)) \<longrightarrow> Busy (r_status (g k)))"
      proof (cases "hit q p")
        case True
        then show ?thesis using N4 [OF p True] a hit_up(3) [OF inv q p] by auto
      next
        case False
        then obtain k where k: "k \<in> set rows" "child_of p k" "batch_of p k" "\<not> Terminal (r_status k)"
          "Draining (r_status p) \<longrightarrow> Busy (r_status k)"
          using tree_invD(5) [OF inv p] a unfolding wait_ok_def by auto
        moreover have "\<not> hit q k" using hit_up(1) [OF inv q p k(1,2)] False by blast
        ultimately show ?thesis using False by (intro bexI [of _ k]) simp_all
      qed
      then show "\<exists>k \<in> g ` set rows. child_of (g p) k \<and> batch_of (g p) k \<and> \<not> Terminal (r_status k) \<and>
          (Draining (r_status (g p)) \<longrightarrow> Busy (r_status k))"
        using gs(5,6) by blast
    qed
  qed simp_all
  then show ?thesis unfolding g_def .
qed


subsection \<open>Pause and cancel\<close>

definition drains :: "row list \<Rightarrow> string \<Rightarrow> row \<Rightarrow> bool" where
  "drains rows root r \<longleftrightarrow> r_worker_id r \<noteq> None \<or> above_held rows root (r_id r)"

lemma above_held_iff:
  "above_held rows root i \<longleftrightarrow> (\<exists>h \<in> set rows. r_root_id h = root \<and> r_worker_id h \<noteq> None \<and> i \<in> set (r_call_stack h))"
  by (auto simp: above_held_def list_ex_iff)

lemma stack_closed:
  assumes "wf_rows rows" "r \<in> set rows" "c \<in> set rows" "r_id c \<in> set (r_call_stack r)" "p \<in> set rows" "child_of p c"
  shows "r_id p \<in> set (r_call_stack r)"
  using assms(2,4)
proof (induction "length (r_call_stack r)" arbitrary: r rule: less_induct)
  case less
  then have "r_parent_id r \<noteq> []" using wf_root [OF assms(1) less.prems(1)] by auto
  then obtain pr where pr: "pr \<in> set rows" "r_call_stack r = r_call_stack pr @ [r_id pr]"
    using wf_parent [OF assms(1) less.prems(1)] by metis
  show ?case
  proof (cases "r_id c = r_id pr")
    case True
    then have "c = pr" using wf_inj [OF assms(1,3) pr(1)] by blast
    then show ?thesis using parent_in_stack [OF assms(1,3,5,6)] pr by simp
  next
    case False
    then show ?thesis using less.hyps [of pr] less.prems pr by auto
  qed
qed

lemma drains_up:
  assumes wf: "wf_rows rows" and pc: "p \<in> set rows" "c \<in> set rows" "child_of p c" "r_root_id c = root" "drains rows root c"
  shows "drains rows root p"
proof -
  have "above_held rows root (r_id p)"
  proof (cases "r_worker_id c = None")
    case False
    then show ?thesis using pc parent_in_stack [OF wf pc(2,1,3)] by (auto simp: above_held_iff intro!: bexI [of _ c])
  next
    case True
    then obtain h where "h \<in> set rows" "r_root_id h = root" "r_worker_id h \<noteq> None" "r_id c \<in> set (r_call_stack h)"
      using pc(5) by (auto simp: drains_def above_held_iff)
    then show ?thesis using stack_closed [OF wf _ pc(2) _ pc(1,3)] by (auto simp: above_held_iff)
  qed
  then show ?thesis by (simp add: drains_def)
qed

lemma held_hit:
  assumes "tree_inv_but h rows" "q \<in> set rows" "r_status q \<in> {StatusRunning, StatusPaused}"
    and "r \<in> set rows" "root_of q r" "r_worker_id r \<noteq> None"
  shows "hit q r" "r_status q = StatusRunning"
  using uniform_tree [OF assms(1-5)] tree_invD(4) [OF assms(1,4)] assms(3,6)
  by (auto simp: node_ok_def hit_def concluded_def)

lemma drains_below:
  assumes inv: "tree_inv_but h rows" and q: "q \<in> set rows" "r_status q \<in> {StatusRunning, StatusPaused}"
    and p: "p \<in> set rows" "hit q p" "r_phase p = PhaseChildren" "drains rows (r_id q) p"
  shows "\<exists>k \<in> set rows. child_of p k \<and> hit q k \<and> drains rows (r_id q) k"
proof -
  note wf = tree_invD(1) [OF inv]
  have "r_worker_id p = None" using tree_invD(4) [OF inv p(1)] p(3) by (auto simp: node_ok_def)
  then obtain h where h: "h \<in> set rows" "r_root_id h = r_id q" "r_worker_id h \<noteq> None" "r_id p \<in> set (r_call_stack h)"
    using p(4) by (auto simp: drains_def above_held_iff)
  obtain k where k: "k \<in> set rows" "child_of p k" "k = h \<or> r_id k \<in> set (r_call_stack h)"
    using child_on_path [OF wf h(1) p(1) h(4)] by blast
  have hh: "hit q h" using held_hit [OF inv q h(1) _ h(3)] h(2) by (simp add: root_of_def)
  have "hit q k"
    using k(3) hh ancestors_all [OF wf, of "hit q" h k] hit_up(1) [OF inv q] h(1) k(1) by blast
  moreover have "drains rows (r_id q) k"
    using k(3) h by (auto simp: drains_def above_held_iff)
  ultimately show ?thesis using k by blast
qed

lemma drains_root:
  assumes wf: "wf_rows rows" and "q \<in> set rows" "r \<in> set rows" "root_of q r" "drains rows (r_id q) r"
  shows "drains rows (r_id q) q"
proof (cases "r = q")
  case False
  have "above_held rows (r_id q) (r_id q)"
  proof (cases "r_worker_id r = None")
    case True
    then obtain h where h: "h \<in> set rows" "r_root_id h = r_id q" "r_worker_id h \<noteq> None" "r_id r \<in> set (r_call_stack h)"
      using assms(5) by (auto simp: drains_def above_held_iff)
    moreover have "h \<noteq> q" using h(4) root_above [OF assms(1-4) False] wf_root [OF wf assms(2)] by auto
    ultimately show ?thesis
      using root_above(1) [OF wf assms(2) h(1)] by (auto simp: above_held_iff root_of_def)
  next
    case held: False
    then show ?thesis
      using root_above(1) [OF assms(1-4) False] assms(3,4) by (auto simp: above_held_iff root_of_def)
  qed
  then show ?thesis by (simp add: drains_def)
qed (use assms in simp)

lemma tree_inv_stop:
  assumes inv: "tree_inv rows" and q: "q \<in> set rows" "r_status q \<in> {StatusRunning, StatusPaused}" "root_of q q"
    and v: "(d, st) \<in> {(StatusPausing, StatusPaused), (StatusCancelling, StatusCancelled)}"
  shows "tree_inv (map (\<lambda>r. if hit q r then set_status (if drains rows (r_id q) r then d else st) now r else r) rows)"
proof (rule tree_recolor [OF inv q(1,2)])
  note wf = tree_invD(1) [OF inv]
  fix p c assume pc: "p \<in> set rows" "c \<in> set rows" "child_of p c" "hit q p" "hit q c"
  then have "drains rows (r_id q) c \<Longrightarrow> drains rows (r_id q) p"
    using drains_up [OF wf pc(1-3)] by (simp add: hit_def root_of_def)
  then show "(Busy (if drains rows (r_id q) c then d else st) \<longrightarrow> Busy (if drains rows (r_id q) p then d else st)) \<and>
     ((if drains rows (r_id q) c then d else st) = StatusPaused \<longrightarrow>
        \<not> Terminal (if drains rows (r_id q) p then d else st)) \<and>
     ((if drains rows (r_id q) c then d else st) = StatusCancelled \<longrightarrow>
        (if drains rows (r_id q) p then d else st) \<in> {StatusCancelled, StatusCancelling})"
    using v by auto
next
  note wf = tree_invD(1) [OF inv]
  fix r assume r: "r \<in> set rows" "hit q r"
  then have "drains rows (r_id q) r \<Longrightarrow> drains rows (r_id q) q"
    using drains_root [OF wf q(1) r(1)] by (simp add: hit_def)
  then show "tree_ok (if drains rows (r_id q) q then d else st) (if drains rows (r_id q) r then d else st) \<and>
     (if drains rows (r_id q) r then d else st) \<notin> {StatusFailing, StatusFailed} \<and>
     (r_worker_id r \<noteq> None \<longrightarrow>
        (if drains rows (r_id q) r then d else st) \<in> {StatusRunning, StatusPausing, StatusCancelling})"
    using v by (auto simp: drains_def)
next
  fix p assume p: "p \<in> set rows" "hit q p" "r_phase p = PhaseChildren" "\<not> Terminal (if drains rows (r_id q) p then d else st)"
  show "\<exists>k \<in> set rows. child_of p k \<and> hit q k \<and> \<not> Terminal (if drains rows (r_id q) k then d else st) \<and>
     (Draining (if drains rows (r_id q) p then d else st) \<longrightarrow> Busy (if drains rows (r_id q) k then d else st))"
  proof (cases "drains rows (r_id q) p")
    case True
    then show ?thesis using drains_below [OF inv q(1,2) p(1-3)] v by force
  next
    case False
    have "\<not> Terminal (r_status p)" using p(2) q(2) by (auto simp: hit_def)
    then obtain k where k: "k \<in> set rows" "child_of p k" "batch_of p k" "\<not> Terminal (r_status k)"
      using tree_invD(5) [OF inv p(1)] p(3) unfolding wait_ok_def by auto
    moreover have "hit q k"
    proof -
      have "root_of q k" using parent_in_stack [OF tree_invD(1) [OF inv] k(1) p(1) k(2)] p(2)
        by (simp add: hit_def root_of_def)
      then show ?thesis using uniform_tree [OF inv q(1,2) k(1)] k(4) by (auto simp: concluded_def)
    qed
    moreover have "st = StatusPaused" "d = StatusPausing" using False p(4) v by auto
    ultimately show ?thesis using False by (intro bexI [of _ k]) auto
  qed
qed


subsection \<open>The verbs\<close>

lemma map_hit_cong:
  assumes "\<And>r. r \<in> set rows \<Longrightarrow> P r \<longleftrightarrow> hit q r" "\<And>r. r \<in> set rows \<Longrightarrow> hit q r \<Longrightarrow> f r = f' r"
  shows "map (\<lambda>r. if P r then f r else r) rows = map (\<lambda>r. if hit q r then f' r else r) rows"
  using assms by simp

lemma no_hit: "(\<And>r. r \<in> set rows \<Longrightarrow> \<not> P r) \<Longrightarrow> map (\<lambda>r. if P r then f r else r) rows = rows"
  by (simp add: map_idI)

lemma stop_rows_eq:
  "s_rows (snd (stop_rows P d st root now s)) =
     map (\<lambda>r. if r_root_id r = root \<and> P r then set_status (if drains (s_rows s) root r then d else st) now r else r) (s_rows s)"
  by (simp add: stop_rows_def Let_def split_status_def drains_def)

lemma root_row:
  assumes "wf_rows rows" "find_row rows i = Some q" "r_parent_id q = []"
  shows "q \<in> set rows" "r_id q = i" "root_of q q"
  using find_row_Some [OF assms(2)] wf_root [OF assms(1) _ assms(3)] by (auto simp: root_of_def)

lemma pause_tree_inv:
  assumes inv: "tree_inv (s_rows s)" and q: "q \<in> set (s_rows s)" "root_of q q"
  shows "tree_inv (s_rows (snd (q_PauseTree (r_id q) now s)))"
proof (cases "r_status q = StatusRunning")
  case True
  then have "s_rows (snd (q_PauseTree (r_id q) now s)) =
    map (\<lambda>r. if hit q r then set_status (if drains (s_rows s) (r_id q) r then StatusPausing else StatusPaused) now r
             else r) (s_rows s)"
    unfolding q_PauseTree_def stop_rows_eq by (intro map_hit_cong) (auto simp: hit_def root_of_def)
  then show ?thesis using tree_inv_stop [OF inv q(1) _ q(2)] True by simp
next
  case False
  have "\<not> (r_root_id r = r_id q \<and> r_status r = StatusRunning)" if "r \<in> set (s_rows s)" for r
    using tree_invD(3) [OF inv q(1) that] False by (cases "r_status q") (auto simp: root_of_def)
  then show ?thesis using inv unfolding q_PauseTree_def stop_rows_eq by (simp add: no_hit)
qed

lemma cancel_tree_inv:
  assumes inv: "tree_inv (s_rows s)" and q: "q \<in> set (s_rows s)" "root_of q q"
    and st: "r_status q \<in> {StatusRunning, StatusPaused, StatusCancelling}"
  shows "tree_inv (s_rows (snd (q_CancelTree (r_id q) now s)))"
proof (cases "r_status q = StatusCancelling")
  case False
  then have st': "r_status q \<in> {StatusRunning, StatusPaused}" using st by simp
  have "r_root_id r = r_id q \<and> r_status r \<in> {StatusRunning, StatusPaused} \<longleftrightarrow> hit q r" if "r \<in> set (s_rows s)" for r
    using uniform_tree [OF inv q(1) st' that] st' by (auto simp: hit_def root_of_def concluded_def)
  then have "s_rows (snd (q_CancelTree (r_id q) now s)) =
    map (\<lambda>r. if hit q r then set_status (if drains (s_rows s) (r_id q) r then StatusCancelling else StatusCancelled) now r
             else r) (s_rows s)"
    unfolding q_CancelTree_def stop_rows_eq by (intro map_hit_cong) auto
  then show ?thesis using tree_inv_stop [OF inv q(1) st' q(2)] by simp
next
  case True
  have "\<not> (r_root_id r = r_id q \<and> r_status r \<in> {StatusRunning, StatusPaused})" if "r \<in> set (s_rows s)" for r
    using tree_invD(3) [OF inv q(1) that] True by (auto simp: root_of_def)
  then show ?thesis using inv unfolding q_CancelTree_def stop_rows_eq by (simp add: no_hit)
qed

lemma logged_rows [simp]: "s_rows (logInstances ids ev s) = s_rows s"
  by (simp add: logInstances_def)

text \<open>An operation keeps the invariant if it keeps it whether or not it succeeds.\<close>

lemma stopTree_inv:
  assumes inv: "tree_inv (s_rows s)"
    and upd: "\<And>q. q \<in> set (s_rows s) \<Longrightarrow> root_of q q \<Longrightarrow>
      r_status q \<in> {StatusRunning, StatusPaused, v_draining v} \<Longrightarrow> tree_inv (s_rows (snd (v_update v (r_id q) now s)))"
  shows "tree_inv (s_rows (snd (stopTree i v now s)))"
proof -
  have "tree_inv (s_rows s')" if "find_row (s_rows s) i = Some q" "r_parent_id q = []" "stop_body i v now s = Inr (x, s')" for q x s'
  proof -
    note root = root_row [OF tree_invD(1) [OF inv] that(1,2)]
    show ?thesis
    proof (cases "Terminal (r_status q)")
      case True
      then show ?thesis using that inv by (auto simp: stop_body_def q_GetInstanceStatus_def)
    next
      case False
      then have st: "r_status q \<in> {StatusRunning, StatusPaused, v_draining v}"
        using that by (cases "r_status q")
          (auto simp: stop_body_def q_GetInstanceStatus_def refuseInTransition_def split: if_splits)
      have "s' = snd (v_update v i now s)"
        using that False by (auto simp: stop_body_def q_GetInstanceStatus_def split: if_splits sum.splits prod.splits)
      then show ?thesis using upd [OF root(1,3) st] root(2) by simp
    qed
  qed
  then show ?thesis using inv
    by (auto simp: stopTree_def requireRoot_def Let_def split: option.splits sum.splits prod.splits)
qed

lemma PauseProcess_inv: "tree_inv (s_rows s) \<Longrightarrow> tree_inv (s_rows (snd (PauseProcess i now s)))"
  unfolding PauseProcess_def by (rule stopTree_inv) (simp_all add: pause_verb_def pause_tree_inv)

lemma CancelProcess_inv: "tree_inv (s_rows s) \<Longrightarrow> tree_inv (s_rows (snd (CancelProcess i now s)))"
  unfolding CancelProcess_def by (rule stopTree_inv) (simp_all add: cancel_verb_def cancel_tree_inv)

text \<open>Resuming: the paused rows of a tree, whose root is paused.\<close>

lemma resume_tree_inv:
  assumes inv: "tree_inv (s_rows s)" and q: "q \<in> set (s_rows s)" "root_of q q" "r_status q = StatusPaused"
  shows "tree_inv (map (\<lambda>r. if hit q r then set_status StatusRunning now r else r) (s_rows s))"
proof (rule tree_recolor [OF inv q(1)])
  fix p assume p: "p \<in> set (s_rows s)" "hit q p" "r_phase p = PhaseChildren"
  have "\<not> Terminal (r_status p)" using p(2) q(3) by (auto simp: hit_def)
  then obtain k where k: "k \<in> set (s_rows s)" "child_of p k" "\<not> Terminal (r_status k)"
    using tree_invD(5) [OF inv p(1)] p(3) unfolding wait_ok_def by auto
  moreover have "root_of q k" using parent_in_stack [OF tree_invD(1) [OF inv] k(1) p(1) k(2)] p(2)
    by (simp add: hit_def root_of_def)
  ultimately have "hit q k" using uniform_tree [OF inv q(1) _ k(1)] q(3) by (auto simp: concluded_def)
  then show "\<exists>k \<in> set (s_rows s). child_of p k \<and> hit q k \<and> \<not> Terminal StatusRunning \<and>
      (Draining StatusRunning \<longrightarrow> Busy StatusRunning)" using k by auto
qed (use q in simp_all)

lemma set_tree_ids: "set (tree_ids P root s) = r_id ` {r \<in> set (s_rows s). r_root_id r = root \<and> P r}"
  by (auto simp: tree_ids_def)

lemma resume_rows:
  assumes wf: "wf_rows (s_rows s)"
  shows "s_rows (updateStatusIn (tree_ids P root s) st now s) =
     map (\<lambda>r. if r_root_id r = root \<and> P r then set_status st now r else r) (s_rows s)"
proof -
  have "r_id r \<in> set (tree_ids P root s) \<longleftrightarrow> r_root_id r = root \<and> P r" if "r \<in> set (s_rows s)" for r
    using that wf_inj [OF wf that] unfolding set_tree_ids by blast
  then show ?thesis
    by (cases "tree_ids P root s = []") (simp_all add: updateStatusIn_def q_SetStatusIn_def no_hit)
qed

lemma resume_body_inv:
  assumes inv: "tree_inv (s_rows s)" and q: "find_row (s_rows s) i = Some q" "r_parent_id q = []"
    and ok: "resume_body i now s = Inr (resumed, s')"
  shows "tree_inv (s_rows s')"
proof -
  note wf = tree_invD(1) [OF inv]
  note root = root_row [OF wf q]
  let ?ids = "tree_ids (\<lambda>r. r_status r = StatusPaused) i s"
  have ok': "s' = (if ?ids = [] then s else updateStatusIn ?ids StatusRunning now s)"
    and st: "r_status q \<notin> {StatusPausing, StatusFailing, StatusCancelling}" "?ids \<noteq> [] \<Longrightarrow> r_status q \<noteq> StatusFailed"
    using ok q(1) by (auto simp: resume_body_def Let_def q_GetInstanceStatus_def refuseInTransition_def split: if_splits)
  show ?thesis
  proof (cases "?ids = []")
    case True
    then show ?thesis using ok' inv by simp
  next
    case False
    then obtain r where r: "r \<in> set (s_rows s)" "r_root_id r = i" "r_status r = StatusPaused"
      using set_tree_ids [of "\<lambda>r. r_status r = StatusPaused" i s] by (cases ?ids) auto
    then have "r_status q = StatusPaused"
      using tree_invD(3) [OF inv root(1) r(1)] root(2) st False by (cases "r_status q") (auto simp: root_of_def)
    moreover from this have "map (\<lambda>r. if r_root_id r = i \<and> r_status r = StatusPaused then set_status StatusRunning now r else r) (s_rows s)
      = map (\<lambda>r. if hit q r then set_status StatusRunning now r else r) (s_rows s)"
      using root(2) by (auto simp: hit_def root_of_def)
    ultimately show ?thesis
      using resume_tree_inv [OF inv root(1,3)] False ok' by (simp add: resume_rows [OF wf] del: map_eq_conv)
  qed
qed

lemma ResumeProcess_inv: "tree_inv (s_rows s) \<Longrightarrow> tree_inv (s_rows (snd (ResumeProcess i now s)))"
  using resume_body_inv
  by (auto simp: ResumeProcess_def requireRoot_def Let_def split: option.splits sum.splits prod.splits)

end
