(* ===== verification/Tree_Writes.thy ===== *)
theory Tree_Writes
  imports Tree_Stop
begin

text \<open>
  The writes a lease holder makes keep the invariant: a checkpoint, a root's conclusion, a child
  that stops and a child that fails. A write whose lease is gone changes nothing.
\<close>

subsection \<open>A lease holder's instance\<close>

text \<open>
  What the engine passes in: an instance read off its row by a claim, so it names a worker and
  agrees with the row on the columns nothing rewrites.
\<close>

definition engine_inst :: "row list \<Rightarrow> inst \<Rightarrow> bool" where
  "engine_inst rows i \<longleftrightarrow> (\<exists>w. i_WorkerID i = Some w \<and> w \<noteq> []) \<and>
     (\<forall>x \<in> set rows. r_id x = i_ID i \<longrightarrow> i_ParentID i = r_parent_id x \<and> i_SpawnTaskID i = r_spawn_task_id x \<and>
        i_ParentTaskEpoch i = r_parent_task_epoch x \<and> i_CallStack i = r_call_stack x)"

lemma fenced_leaf:
  assumes "tree_inv_but h rows" "engine_inst rows i" "x \<in> set rows" "inst_fence i x"
  shows "leaf x"
proof -
  have "r_worker_id x \<noteq> None"
    using assms(2,4) by (auto simp: engine_inst_def inst_fence_def fenceWorker_def coalesce_str_def split: option.splits)
  then show ?thesis using tree_invD(4) [OF assms(1,3)] by (auto simp: node_ok_def leaf_def)
qed

abbreviation written :: "inst \<Rightarrow> int \<Rightarrow> row \<Rightarrow> row" where
  "written i now x \<equiv> set_update (updateInstanceParams i (i_cols i) now) x"

lemma written_simps [simp]:
  "r_status (written i now x) = kept_status (r_status x) (i_Status i)"
  "r_phase (written i now x) = i_Phase i" "r_worker_id (written i now x) = None"
  "r_superseded_at (written i now x) = r_superseded_at x" "same_place x (written i now x)"
  "r_id (written i now x) = r_id x" "batch_of p (written i now x) = batch_of p x"
  by (simp_all add: set_update_def updateInstanceParams_def same_place_def batch_of_def)

lemma write_inst_put:
  assumes "wf_rows (s_rows s)" "write_inst i now s = Inr s'"
  obtains x where "x \<in> set (s_rows s)" "inst_fence i x" "s_rows s' = put_row (written i now x) (s_rows s)"
proof -
  obtain x where x: "x \<in> set (s_rows s)" "inst_fence i x"
    and rows: "s_rows s' = map (\<lambda>r. if inst_fence i r then written i now r else r) (s_rows s)"
    using write_inst_ok [OF assms(2)] by blast
  have "map (\<lambda>r. if inst_fence i r then written i now r else r) (s_rows s) = put_row (written i now x) (s_rows s)"
    by (rule put_row_fence [where P = "inst_fence i", OF wf_distinct [OF assms(1)] x]) (use x in \<open>auto simp: inst_fence_def\<close>)
  then show ?thesis using that x rows by simp
qed

lemma leaf_kept: "leaf x \<Longrightarrow> kept_status (r_status x) StatusRunning = r_status x"
  by (auto simp: leaf_def kept_status_def)

lemma kept_other: "new \<noteq> StatusRunning \<Longrightarrow> kept_status old new = new"
  by (simp add: kept_status_def)

subsection \<open>Checkpoints and a root's conclusion\<close>

lemma leaf_not_superseded:
  "tree_inv_but h rows \<Longrightarrow> x \<in> set rows \<Longrightarrow> leaf x \<Longrightarrow> r_superseded_at x = None"
  using tree_invD(4) [of h rows x] by (auto simp: node_ok_def leaf_def)

lemma same_status_edge:
  assumes "edge_ok p x" "leaf x" "r_status x' = r_status x" "same_place x x'"
  shows "edge_ok p x'"
  using assms by (auto simp: edge_ok_def leaf_def batch_of_def same_place_def)

lemma leaf_same_status:
  assumes inv: "tree_inv rows" and x: "x \<in> set rows" "leaf x"
    and x': "same_place x x'" "r_status x' = r_status x" "r_phase x' \<noteq> PhaseChildren" "r_worker_id x' = None"
      "r_superseded_at x' = r_superseded_at x"
  shows "tree_inv (put_row x' rows)"
proof (rule tree_inv_leaf [OF inv x x'(1)])
  show "node_ok x'" using x' x(2) leaf_not_superseded [OF inv x] by (auto simp: node_ok_def leaf_def)
  show "edge_ok p x'" if "p \<in> set rows" "child_of p x" for p
    using same_status_edge [OF tree_invD(2) [OF inv that(1) x(1) that(2)] x(2) x'(2,1)] .
  show "tree_ok (r_status q) (r_status x')" if "q \<in> set rows" "root_of q x" "q \<noteq> x" for q
    using tree_invD(3) [OF inv that(1) x(1) that(2)] x'(2) by simp
qed (use x' leaf_Busy [OF x(2)] in auto)

lemma UpdateInstance_inv:
  assumes inv: "tree_inv (s_rows s)" and i: "engine_inst (s_rows s) i" "i_Phase i \<noteq> PhaseChildren"
    and st: "i_Status i = StatusRunning \<or> (i_ParentID i = [] \<and> i_Status i \<noteq> StatusFailing)"
  shows "tree_inv (s_rows (snd (UpdateInstance i now s)))"
proof (cases "write_inst i now s")
  case (Inl e)
  then show ?thesis using inv by (simp add: UpdateInstance_def withTx_def)
next
  case (Inr s')
  note wf = tree_invD(1) [OF inv]
  obtain x where x: "x \<in> set (s_rows s)" "inst_fence i x" and rows: "s_rows s' = put_row (written i now x) (s_rows s)"
    using write_inst_put [OF wf Inr] by blast
  note lf = fenced_leaf [OF inv i(1) x]
  have "tree_inv (s_rows s')"
  proof (cases "i_Status i = StatusRunning")
    case True
    then show ?thesis unfolding rows using i(2)
      by (intro leaf_same_status [OF inv x(1) lf]) (simp_all add: leaf_kept [OF lf])
  next
    case False
    then have root: "r_parent_id x = []" "i_Status i \<noteq> StatusFailing"
      using st i(1) x by (auto simp: engine_inst_def inst_fence_def)
    show ?thesis unfolding rows
    proof (rule tree_inv_leaf [OF inv x(1) lf])
      show "node_ok (written i now x)"
        using root False leaf_not_superseded [OF inv x(1) lf] by (simp add: node_ok_def kept_other)
      show "edge_ok p (written i now x)" if "p \<in> set (s_rows s)" "child_of p x" for p
        using that root(1) wf_id [OF wf that(1)] by (simp add: child_of_def)
      show "tree_ok (r_status q) (r_status (written i now x))" if "q \<in> set (s_rows s)" "root_of q x" "q \<noteq> x" for q
        using root_above(1) [OF wf that(1) x(1) that(2)] that(3) wf_root [OF wf x(1) root(1)] by auto
    qed (use root i(2) in auto)
  qed
  then show ?thesis using Inr by (simp add: UpdateInstance_def withTx_def)
qed

lemma UpdateInstanceProgress_inv:
  assumes inv: "tree_inv (s_rows s)" and i: "engine_inst (s_rows s) i" "i_Phase i \<noteq> PhaseChildren"
  shows "tree_inv (s_rows (snd (UpdateInstanceProgress i now s)))"
proof (cases "write_progress i now s")
  case (Inl e)
  then show ?thesis using inv by (simp add: UpdateInstanceProgress_def withTx_def)
next
  case (Inr s')
  note wf = tree_invD(1) [OF inv]
  let ?f = "set_progress (progressParams i (i_cols i) now)"
  obtain x where x: "x \<in> set (s_rows s)" "inst_fence i x"
    and rows: "s_rows s' = map (\<lambda>r. if inst_fence i r then ?f r else r) (s_rows s)"
    using Inr persistState_rows [of i now s]
    by (cases "persistState i now s")
      (auto simp: write_progress_def requireFenced_def q_UpdateInstanceProgress_def rows_matching_0 split: if_splits)
  note lf = fenced_leaf [OF inv i(1) x]
  have "map (\<lambda>r. if inst_fence i r then ?f r else r) (s_rows s) = put_row (?f x) (s_rows s)"
    by (rule put_row_fence [where P = "inst_fence i", OF wf_distinct [OF wf] x]) (use x in \<open>auto simp: inst_fence_def set_progress_def\<close>)
  then have "tree_inv (s_rows s')" unfolding rows using i(2)
    by (auto simp: set_progress_def progressParams_def updateInstanceParams_def same_place_def
        intro!: leaf_same_status [OF inv x(1) lf])
  then show ?thesis using Inr by (simp add: UpdateInstanceProgress_def withTx_def)
qed

subsection \<open>A child stops\<close>

text \<open>The statuses a child is finished with, and the ones only a claim of a draining row lands.\<close>

definition finish_ok :: "row list \<Rightarrow> inst \<Rightarrow> bool" where
  "finish_ok rows i \<longleftrightarrow> i_Phase i \<noteq> PhaseChildren \<and>
     (i_Status i \<in> {StatusCompleted, StatusRaised} \<or>
      (i_Status i = StatusPaused \<and> (\<forall>x \<in> set rows. inst_fence i x \<longrightarrow> r_status x = StatusPausing)) \<or>
      (i_Status i = StatusCancelled \<and> (\<forall>x \<in> set rows. inst_fence i x \<longrightarrow> r_status x = StatusCancelling)))"

lemma cancelling_parent:
  assumes inv: "tree_inv_but h rows" and c: "c \<in> set rows" "r_status c = StatusCancelling"
    and p: "p \<in> set rows" "child_of p c"
  shows "r_status p = StatusCancelling" "r_phase p = PhaseChildren"
proof -
  note wf = tree_invD(1) [OF inv]
  obtain q where q: "q \<in> set rows" "root_of q p" using root_exists [OF wf p(1)] by blast
  have "r_status q = StatusCancelling"
    using tree_invD(3) [OF inv q(1) c(1) same_root [OF wf p(1) c(1) p(2) q(2)]] c(2) cancelling_root by simp
  then have "tree_ok StatusCancelling (r_status p)" using tree_invD(3) [OF inv q(1) p(1) q(2)] by simp
  then show "r_status p = StatusCancelling" "r_phase p = PhaseChildren"
    using tree_invD(2) [OF inv p(1) c(1) p(2)] c(2) by (auto simp: edge_ok_def)
qed

lemma finish_written:
  assumes inv: "tree_inv rows" and i: "engine_inst rows i" "finish_ok rows i" and x: "x \<in> set rows" "inst_fence i x"
  shows "tree_inv_but {r_parent_id x} (put_row (written i now x) rows)"
proof -
  note lf = fenced_leaf [OF inv i(1) x]
  have st: "i_Status i \<in> {StatusCompleted, StatusRaised} \<or> (i_Status i = StatusPaused \<and> r_status x = StatusPausing) \<or>
      (i_Status i = StatusCancelled \<and> r_status x = StatusCancelling)"
    using i(2) x by (auto simp: finish_ok_def)
  then have nr: "i_Status i \<noteq> StatusRunning" by auto
  show ?thesis
  proof (rule tree_inv_leaf [OF inv x(1) lf])
    show "node_ok (written i now x)"
      using st nr leaf_not_superseded [OF inv x(1) lf] by (auto simp: node_ok_def kept_other)
    show "edge_ok p (written i now x)" if p: "p \<in> set rows" "child_of p x" for p
      using st tree_invD(2) [OF inv p(1) x(1) p(2)] cancelling_parent [OF inv x(1) _ p]
        Busy_not_Terminal [of "r_status p"]
      by (elim disjE) (auto simp: edge_ok_def kept_other)
    show "tree_ok (r_status q) (r_status (written i now x))" if q: "q \<in> set rows" "root_of q x" "q \<noteq> x" for q
      using st tree_invD(3) [OF inv q(1) x(1) q(2)]
      by (elim disjE; cases "r_status q") (auto simp: kept_other)
  qed (use i(2) in \<open>auto simp: finish_ok_def\<close>)
qed

text \<open>After any write that leaves only the parent in doubt, settling up restores the invariant.\<close>

lemma settleUp_inv:
  assumes inv: "tree_inv_but {pid} (s_rows s)" and i: "i_ParentID i = pid"
    and pk: "pid \<noteq> [] \<Longrightarrow> \<exists>p. parked (s_rows s) pid (i_SpawnTaskID i) (i_ParentTaskEpoch i) p"
  shows "\<exists>settled s'. settleUp i now s = Inr (settled, s') \<and> tree_inv (s_rows s')"
proof -
  have "if pid = [] then length (s_rows s) + 2 > 0
    else \<exists>p. parked (s_rows s) pid (i_SpawnTaskID i) (i_ParentTaskEpoch i) p \<and>
           length (r_call_stack p) + 1 < length (s_rows s) + 2"
    using pk depth_bound [OF tree_invD(1) [OF inv]] by (fastforce simp: parked_def)
  from settle_loop_inv [OF inv this, of now "[]"] show ?thesis
    using i by (auto simp: settleUp_def)
qed

lemma logSettled_rows [simp]: "s_rows (logSettled rows s) = s_rows s"
  unfolding logSettled_def by (rule fold_same) (auto split: prod.splits)

lemma finish_tail:
  assumes inv: "tree_inv (s_rows s)" and i: "engine_inst (s_rows s) i" "finish_ok (s_rows s) i"
    and w: "write_inst i now s = Inr s1"
  shows "\<exists>settled s'. settleUp i now s1 = Inr (settled, s') \<and> tree_inv (s_rows s')"
proof -
  note wf = tree_invD(1) [OF inv]
  obtain x where x: "x \<in> set (s_rows s)" "inst_fence i x" and rows: "s_rows s1 = put_row (written i now x) (s_rows s)"
    using write_inst_put [OF wf w] by blast
  have pl: "i_ParentID i = r_parent_id x" "i_SpawnTaskID i = r_spawn_task_id x" "i_ParentTaskEpoch i = r_parent_task_epoch x"
    using i(1) x by (auto simp: engine_inst_def inst_fence_def)
  show ?thesis
  proof (rule settleUp_inv [OF _ pl(1)])
    show "tree_inv_but {r_parent_id x} (s_rows s1)" unfolding rows by (rule finish_written [OF inv i x])
    assume "r_parent_id x \<noteq> []"
    then obtain p where p: "parked (s_rows s) (r_parent_id x) (r_spawn_task_id x) (r_parent_task_epoch x) p"
      using parked_up [OF inv x(1) leaf_Busy [OF fenced_leaf [OF inv i(1) x]]] by blast
    moreover have "r_id x \<noteq> r_parent_id x" using not_own_child [OF wf x(1)] by (auto simp: child_of_def)
    ultimately show "\<exists>p. parked (s_rows s1) (r_parent_id x) (i_SpawnTaskID i) (i_ParentTaskEpoch i) p"
      unfolding rows pl using parked_put by (metis written_simps(6))
  qed
qed


text \<open>Widening the lock reruns the same body, so the scope a dialect starts at does not show.\<close>

lemma scope_less [simp]:
  "LockParent < LockStack" "\<not> LockStack < LockStack" "\<not> LockLive < LockStack"
  "LockParent < LockLive" "LockStack < LockLive" "\<not> LockLive < (LockLive :: lock_scope)"
  by (simp_all add: less_lock_scope_def)

lemma finish_loop:
  "child_loop sc (finish_body i now) s =
     (case write_inst i now s of Inl e \<Rightarrow> Inl e | Inr s \<Rightarrow> settleUp i now s)"
  by (cases sc) (simp_all add: child_loop.simps finish_body_def split: option.splits sum.splits)

lemma fail_loop:
  "child_loop sc (fail_body i now) s =
     (case i_CallStack i of
        [] \<Rightarrow> fail_tail i False now s
      | root # _ \<Rightarrow>
          (case q_GetInstanceStatus root s of
             None \<Rightarrow> Inl ErrInternal | Some st \<Rightarrow> fail_tail i (poisonable st) now s))"
  by (cases sc) (simp_all add: child_loop.simps fail_body_def split: list.splits option.splits)

lemma FinishChild_cases:
  assumes inv: "tree_inv (s_rows s)" and i: "engine_inst (s_rows s) i" "finish_ok (s_rows s) i" "i_ParentID i \<noteq> []"
  shows "(\<exists>s'. FinishChild pg i now s = (Inr (), s') \<and> tree_inv (s_rows s')) \<or>
         FinishChild pg i now s = (Inl ErrLeaseLost, s)"
proof (cases "write_inst i now s")
  case (Inl e)
  then show ?thesis
    using i(3) write_inst_error [OF Inl] by (simp add: FinishChild_def withChildTx_def withTx_def finish_loop)
next
  case (Inr s1)
  obtain settled s' where "settleUp i now s1 = Inr (settled, s')" "tree_inv (s_rows s')"
    using finish_tail [OF inv i(1,2) Inr] by blast
  then show ?thesis using i(3) Inr by (auto simp: FinishChild_def withChildTx_def withTx_def finish_loop)
qed

lemma FinishChild_inv:
  assumes inv: "tree_inv (s_rows s)" and i: "engine_inst (s_rows s) i" "finish_ok (s_rows s) i"
  shows "tree_inv (s_rows (snd (FinishChild pg i now s)))"
proof (cases "i_ParentID i = []")
  case True
  then have "i_Status i = StatusRunning \<or> (i_ParentID i = [] \<and> i_Status i \<noteq> StatusFailing)" "i_Phase i \<noteq> PhaseChildren"
    using i(2) by (auto simp: finish_ok_def)
  then show ?thesis using UpdateInstance_inv [OF inv i(1)] True by (simp add: FinishChild_def)
next
  case False
  then show ?thesis using FinishChild_cases [OF inv i False, of pg now] inv by auto
qed

subsection \<open>A child fails\<close>

text \<open>
  The failing child's ancestors: a pausing or failing stack, with the leaf still busy below it,
  turns failing as a whole.
\<close>

definition fail_stack :: "string list \<Rightarrow> string \<Rightarrow> string \<Rightarrow> int \<Rightarrow> row \<Rightarrow> row" where
  "fail_stack ids msg code now r =
     (if r_id r \<in> set ids \<and> r_status r \<in> {StatusRunning, StatusPausing, StatusPaused}
      then set_failing msg code now r else r)"

lemma fail_stack_simps [simp]:
  "same_place r (fail_stack ids msg code now r)" "r_phase (fail_stack ids msg code now r) = r_phase r"
  "r_worker_id (fail_stack ids msg code now r) = r_worker_id r"
  "r_superseded_at (fail_stack ids msg code now r) = r_superseded_at r"
  "child_of (fail_stack ids msg code now p) (fail_stack ids msg code now r) = child_of p r"
  "batch_of (fail_stack ids msg code now p) (fail_stack ids msg code now r) = batch_of p r"
  "r_status (fail_stack ids msg code now r) =
     (if r_id r \<in> set ids \<and> r_status r \<in> {StatusRunning, StatusPausing, StatusPaused} then StatusFailing else r_status r)"
  by (auto simp: fail_stack_def set_failing_def same_place_def child_of_def batch_of_def)

lemma busy_ancestor:
  assumes inv: "tree_inv_but h rows" and x: "x \<in> set rows" "Busy (r_status x)"
    and a: "a \<in> set rows" "r_id a \<in> set (r_call_stack x)"
  shows "Busy (r_status a)" "r_phase a = PhaseChildren" "r_root_id a = r_root_id x"
proof -
  note wf = tree_invD(1) [OF inv]
  have up: "Busy (r_status p)" if "p \<in> set rows" "c \<in> set rows" "child_of p c" "Busy (r_status c)" for p c
    using tree_invD(2) [OF inv that(1-3)] that(4) by (simp add: edge_ok_def)
  show "Busy (r_status a)" using ancestors_all [OF wf, of "\<lambda>r. Busy (r_status r)"] up x a by blast
  obtain k where k: "k \<in> set rows" "child_of a k" "k = x \<or> r_id k \<in> set (r_call_stack x)"
    using child_on_path [OF wf x(1) a] by blast
  have "Busy (r_status k)" using k(3) x(2) ancestors_all [OF wf, of "\<lambda>r. Busy (r_status r)"] up x(1) k(1) by blast
  then show "r_phase a = PhaseChildren" using tree_invD(2) [OF inv a(1) k(1,2)] by (simp add: edge_ok_def)
  show "r_root_id a = r_root_id x" using stack_member [OF wf x(1) a(2)] wf_inj [OF wf _ a(1)] by blast
qed

lemma stack_draining:
  assumes inv: "tree_inv_but h rows" and x: "x \<in> set rows" "Busy (r_status x)"
    and q: "q \<in> set rows" "root_of q x" "r_status q \<in> {StatusPausing, StatusFailing}"
    and a: "a \<in> set rows" "r_id a \<in> set (r_call_stack x)"
  shows "r_status a \<in> {StatusPausing, StatusFailing}"
proof -
  note anc = busy_ancestor [OF inv x a]
  have "root_of q a" using anc(3) q(2) by (simp add: root_of_def)
  then show ?thesis using tree_invD(3) [OF inv q(1) a(1)] q(3) anc(1) by (cases "r_status a") auto
qed

lemma fail_stack_inv:
  assumes inv: "tree_inv rows" and x: "x \<in> set rows" "Busy (r_status x)" "r_call_stack x \<noteq> []"
    and q: "q \<in> set rows" "root_of q x" "r_status q \<in> {StatusPausing, StatusFailing}"
  shows "tree_inv (map (fail_stack (r_call_stack x) msg code now) rows)"
proof -
  note wf = tree_invD(1) [OF inv]
  let ?A = "\<lambda>r. r_id r \<in> set (r_call_stack x)"
  let ?g = "fail_stack (r_call_stack x) msg code now"
  note anc = busy_ancestor [OF inv x(1,2)]
  note drain = stack_draining [OF inv x(1,2) q]
  have st: "r_status (?g r) = (if ?A r then StatusFailing else r_status r)" if "r \<in> set rows" for r
    using drain [OF that] by auto
  have up: "?A p" if "p \<in> set rows" "c \<in> set rows" "child_of p c" "?A c" for p c
    using stack_closed [OF wf x(1) that(2,4,1,3)] .
  have qA: "?A q" using root_above(1) [OF wf q(1) x(1) q(2)] x(3) wf_root [OF wf x(1)]
    root_exists [OF wf x(1)] wf_inj [OF wf q(1)] q(2) by (metis root_of_def list.set_sel(1))
  show ?thesis
  proof (rule tree_inv_map [OF inv])
    fix p c assume pc: "p \<in> set rows" "c \<in> set rows" "child_of p c" "edge_ok p c"
    show "edge_ok (?g p) (?g c)"
    proof (cases "?A c")
      case True
      then show ?thesis
        using up [OF pc(1-3)] st [OF pc(1)] st [OF pc(2)] anc(1) [OF pc(2) True] pc(4) by (simp add: edge_ok_def)
    next
      case False
      then show ?thesis
        using st [OF pc(1)] st [OF pc(2)] drain [OF pc(1)] pc(4) by (cases "?A p") (auto simp: edge_ok_def)
    qed
  next
    fix q' r assume r: "q' \<in> set rows" "r \<in> set rows" "root_of q' r" "tree_ok (r_status q') (r_status r)"
    show "tree_ok (r_status (?g q')) (r_status (?g r))"
    proof (cases "root_of q r")
      case True
      then have "q' = q" using wf_inj [OF wf r(1) q(1)] r(3) by (simp add: root_of_def)
      then show ?thesis using st [OF r(1)] st [OF r(2)] qA r(4) q(3) by auto
    next
      case False
      then have "\<not> ?A r" using anc(3) [OF r(2)] q(2) by (auto simp: root_of_def)
      moreover have "\<not> ?A q'"
        using anc(3) [OF r(1)] q(2) False r(3) root_above(2) [OF wf r(1-3)] wf_root [OF wf r(1)]
        by (cases "r = q'") (auto simp: root_of_def)
      ultimately show ?thesis using st [OF r(1)] st [OF r(2)] r(4) by simp
    qed
  next
    fix r assume "r \<in> set rows" "node_ok r"
    then show "node_ok (?g r)" using st [of r] anc(2) [of r] drain [of r] by (auto simp: node_ok_def)
  next
    fix p assume p: "p \<in> set rows"
    show "wait_ok (?g ` set rows) (?g p)"
      unfolding wait_ok_def
    proof
      assume a: "r_phase (?g p) = PhaseChildren \<and> \<not> Terminal (r_status (?g p))"
      have "\<not> Terminal (r_status p)" using a st [OF p] drain [OF p] by (auto split: if_splits)
      then obtain k where k: "k \<in> set rows" "child_of p k" "batch_of p k" "\<not> Terminal (r_status k)"
        "Draining (r_status p) \<longrightarrow> Busy (r_status k)"
        using tree_invD(5) [OF inv p] a unfolding wait_ok_def by auto
      have "\<not> Terminal (r_status (?g k)) \<and> (Draining (r_status (?g p)) \<longrightarrow> Busy (r_status (?g k)))"
        using st [OF p] st [OF k(1)] drain [OF p] k(4,5) up [OF p k(1,2)] by auto
      then show "\<exists>k \<in> ?g ` set rows. child_of (?g p) k \<and> batch_of (?g p) k \<and> \<not> Terminal (r_status k) \<and>
          (Draining (r_status (?g p)) \<longrightarrow> Busy (r_status k))"
        using k by (intro bexI [of _ "?g k"]) (simp_all del: fail_stack_simps(7))
    qed
  qed simp_all
qed


lemma fail_written:
  assumes inv: "tree_inv rows" and x: "x \<in> set rows" "leaf x" and i: "i_Status i = StatusFailed" "i_Phase i \<noteq> PhaseChildren"
    and par: "\<And>p. p \<in> set rows \<Longrightarrow> child_of p x \<Longrightarrow> r_status p \<in> {StatusFailing, StatusCancelling}"
    and q: "\<And>q. q \<in> set rows \<Longrightarrow> root_of q x \<Longrightarrow> q \<noteq> x \<Longrightarrow> r_status q \<in> {StatusFailing, StatusCancelling}"
  shows "tree_inv_but {r_parent_id x} (put_row (written i now x) rows)"
proof (rule tree_inv_leaf [OF inv x])
  show "node_ok (written i now x)"
    using i leaf_not_superseded [OF inv x] by (simp add: node_ok_def kept_other)
  show "edge_ok p (written i now x)" if p: "p \<in> set rows" "child_of p x" for p
    using par [OF p] tree_invD(2) [OF inv p(1) x(1) p(2)] leaf_Busy [OF x(2)] i by (auto simp: edge_ok_def kept_other)
  show "tree_ok (r_status r) (r_status (written i now x))" if "r \<in> set rows" "root_of r x" "r \<noteq> x" for r
    using q [OF that] i by (auto simp: kept_other)
qed (use i in \<open>auto simp: kept_other\<close>)

text \<open>
  The failure's three statements commute with pausing the tree first: the child's write and the
  stack's status override what the pause wrote on them, and nothing else was held because of them.
\<close>

definition pause_row :: "(row \<Rightarrow> bool) \<Rightarrow> string \<Rightarrow> int \<Rightarrow> row \<Rightarrow> row" where
  "pause_row D root now r =
     (if r_root_id r = root \<and> r_status r = StatusRunning
      then set_status (if D r then StatusPausing else StatusPaused) now r else r)"

definition poison_rows :: "inst \<Rightarrow> int \<Rightarrow> bool \<Rightarrow> row list \<Rightarrow> row list" where
  "poison_rows i now poisons rows =
     map (fail_stack (i_CallStack i) (i_ErrorMessage i) (i_ErrorCode i) now)
       (if poisons then map (pause_row (drains rows (hd (i_CallStack i))) (hd (i_CallStack i)) now) rows else rows)"

lemma pause_row_place [simp]: "same_place r (pause_row D root now r)" "r_id (pause_row D root now r) = r_id r"
  by (simp_all add: pause_row_def set_status_def same_place_def)

lemma PauseTree_rows: "s_rows (snd (q_PauseTree root now s)) = map (pause_row (drains (s_rows s) root) root now) (s_rows s)"
  by (simp add: q_PauseTree_def stop_rows_eq pause_row_def)

lemma drains_after:
  assumes wf: "wf_rows rows" and x: "x \<in> set rows" and r: "r \<in> set rows" "r \<noteq> x" "r_id r \<notin> set (r_call_stack x)"
    and y: "same_place x y" "r_worker_id y = None"
  shows "drains (map (fail_stack ids msg code now) (put_row y rows)) root r \<longleftrightarrow> drains rows root r"
proof -
  have "above_held (map (fail_stack ids msg code now) (put_row y rows)) root (r_id r) \<longleftrightarrow> above_held rows root (r_id r)"
    (is "?l = ?r")
  proof
    assume ?l
    then show ?r using y by (auto simp: above_held_iff put_row_def fail_stack_def set_failing_def split: if_splits)
  next
    assume ?r
    then obtain h where h: "h \<in> set rows" "r_root_id h = root" "r_worker_id h \<noteq> None" "r_id r \<in> set (r_call_stack h)"
      by (auto simp: above_held_iff)
    then have "h \<noteq> x" using r(3) by auto
    then have "r_id h \<noteq> r_id y" using wf_inj [OF wf h(1) x] y(1) by (auto simp: same_place_def)
    then have "fail_stack ids msg code now h \<in> set (map (fail_stack ids msg code now) (put_row y rows))"
      using h(1) by (auto simp: put_row_def)
    then show ?l using h(2-4) unfolding above_held_iff
      by (intro bexI [of _ "fail_stack ids msg code now h"])
        (auto simp: fail_stack_def set_failing_def)
  qed
  then show ?thesis by (simp add: drains_def)
qed


lemma fail_stack_id: "r_id r \<notin> set ids \<Longrightarrow> fail_stack ids msg code now r = r"
  by (simp add: fail_stack_def)

lemma fail_stack_over: "st \<in> {StatusPausing, StatusPaused} \<Longrightarrow> r_status r = StatusRunning \<Longrightarrow>
    fail_stack ids msg code now (set_status st now r) = (if r_id r \<in> set ids then fail_stack ids msg code now r else set_status st now r)"
  by (auto simp: fail_stack_def set_failing_def set_status_def)

lemma FailAncestors_rows: "s_rows (q_FailAncestors msg code now ids s) = map (fail_stack ids msg code now) (s_rows s)"
  by (simp add: q_FailAncestors_def fail_stack_def)

lemma fail_stack_rid [simp]: "r_id (fail_stack ids msg code now r) = r_id r"
  by (simp add: fail_stack_def set_failing_def)

lemma poison_commute:
  assumes D: "r_id r \<notin> set ids \<Longrightarrow> r_id r \<noteq> r_id y \<Longrightarrow> D' r = D r"
    and y: "r_id y \<notin> set ids" "r_status y = StatusFailed"
  shows "pause_row D' root now (fail_stack ids msg code now (if r_id r = r_id y then y else r)) =
    (let r' = fail_stack ids msg code now (pause_row D root now r) in if r_id r' = r_id y then y else r')"
  using assms
  by (cases "r_id r = r_id y"; cases "r_id r \<in> set ids")
    (auto simp: Let_def pause_row_def fail_stack_def set_failing_def set_status_def)

lemma poison_rows_eq:
  assumes wf: "wf_rows rows" and x: "x \<in> set rows" and i: "i_CallStack i = r_call_stack x" "i_Status i = StatusFailed"
    and rows1: "s_rows s1 = put_row (written i now x) rows"
  defines "s2 \<equiv> q_FailAncestors (i_ErrorMessage i) (i_ErrorCode i) now (i_CallStack i) s1"
  shows "s_rows (snd (if poisons then q_PauseTree (hd (i_CallStack i)) now s2 else ([], s2)))
       = put_row (written i now x) (poison_rows i now poisons rows)"
proof -
  let ?FS = "fail_stack (i_CallStack i) (i_ErrorMessage i) (i_ErrorCode i) now" and ?y = "written i now x"
  let ?root = "hd (i_CallStack i)"
  have ids: "r_id ?y \<notin> set (i_CallStack i)" "r_status ?y = StatusFailed"
    using stack_distinct [OF wf x] i by (auto simp: kept_other)
  have s2: "s_rows s2 = map ?FS (put_row ?y rows)"
    by (simp add: s2_def FailAncestors_rows rows1)
  have "drains (s_rows s2) ?root r = drains rows ?root r"
    if "r \<in> set rows" "r_id r \<notin> set (i_CallStack i)" "r_id r \<noteq> r_id ?y" for r
    unfolding s2
    by (rule drains_after [OF wf x that(1)]) (use that i(1) in auto)
  then have "pause_row (drains (s_rows s2) ?root) ?root now (?FS (if r_id r = r_id ?y then ?y else r)) =
    (let r' = ?FS (pause_row (drains rows ?root) ?root now r) in if r_id r' = r_id ?y then ?y else r')"
    if "r \<in> set rows" for r
    using that by (intro poison_commute ids)
  then have "map (pause_row (drains (s_rows s2) ?root) ?root now) (map ?FS (put_row ?y rows)) =
      put_row ?y (map ?FS (map (pause_row (drains rows ?root) ?root now) rows))"
    by (simp add: put_row_def Let_def)
  moreover have "map ?FS (put_row ?y rows) = put_row ?y (map ?FS rows)"
    using ids by (auto simp: put_row_def fail_stack_id)
  ultimately show ?thesis using s2 by (simp add: poison_rows_def PauseTree_rows)
qed


lemma written_over: "i_Status i \<noteq> StatusRunning \<Longrightarrow> written i now (set_status st now x) = written i now x"
  by (simp add: set_update_def set_status_def kept_status_def updateInstanceParams_def)

text \<open>What the failure makes of the table before the child's own write.\<close>

lemma poison_stack_inv:
  fixes now :: int and s :: store
  assumes inv: "tree_inv (s_rows s)" and x: "x \<in> set (s_rows s)" "leaf x" "r_call_stack x \<noteq> []" "r_worker_id x \<noteq> None"
    and q: "q \<in> set (s_rows s)" "root_of q x" "r_id q \<in> set (r_call_stack x)" "r_id q = hd (r_call_stack x)" "r_parent_id q = []"
    and i: "i_CallStack i = r_call_stack x"
  defines "rows' \<equiv> poison_rows i now (poisonable (r_status q)) (s_rows s)"
  shows "tree_inv rows' \<and> (\<exists>x1 \<in> set rows'. same_place x x1 \<and> leaf x1 \<and>
      (x1 = x \<or> (\<exists>st. x1 = set_status st now x)) \<and>
      (\<forall>p \<in> set rows'. r_id p \<in> set (r_call_stack x) \<longrightarrow> r_status p \<in> {StatusFailing, StatusCancelling}))"
proof -
  note wf = tree_invD(1) [OF inv]
  note bx = leaf_Busy [OF x(2)]
  let ?FS = "fail_stack (r_call_stack x) (i_ErrorMessage i) (i_ErrorCode i) now"
  have xA: "r_id x \<notin> set (r_call_stack x)" using stack_distinct [OF wf x(1)] by simp
  have bq: "Busy (r_status q)" using busy_ancestor(1) [OF inv x(1) bx q(1,3)] .
  show ?thesis
  proof (cases "r_status q = StatusCancelling")
    case True
    have st: "r_status a = StatusCancelling" if "a \<in> set (s_rows s)" "r_id a \<in> set (r_call_stack x)" for a
      using busy_ancestor [OF inv x(1) bx that] tree_invD(3) [OF inv q(1) that(1)] q(2) True
      by (cases "r_status a") (auto simp: root_of_def)
    then have "rows' = s_rows s"
      using True i by (auto simp: rows'_def poison_rows_def poisonable_def fail_stack_def intro!: map_idI)
    then show ?thesis using inv x st by (auto intro!: bexI [of _ x])
  next
    case False
    define P where "P = pause_row (drains (s_rows s) (r_id q)) (r_id q) now"
    define rp where "rp = (if poisonable (r_status q) then map P (s_rows s) else s_rows s)"
    define g where "g = (if poisonable (r_status q) then P else id)"
    have rp: "rp = map g (s_rows s)" by (simp add: rp_def g_def)
    have gp: "same_place r (g r)" for r by (simp add: g_def P_def)
    have rows': "rows' = map ?FS rp"
      using i q(4) by (simp add: rows'_def poison_rows_def rp_def P_def)
    have invp: "tree_inv rp"
      using pause_tree_inv [OF inv q(1)] wf_root [OF wf q(1,5)] inv
      by (simp add: rp_def P_def PauseTree_rows root_of_def)
    have dx: "drains (s_rows s) (r_id q) x" using x(4) by (simp add: drains_def)
    have x1: "g x \<in> set rp" "leaf (g x)" "g x = x \<or> (\<exists>st. g x = set_status st now x)"
      using x(1,2) dx by (auto simp: rp g_def P_def pause_row_def leaf_def set_status_def)
    have q1: "g q \<in> set rp" "root_of (g q) (g x)" "r_status (g q) \<in> {StatusPausing, StatusFailing}"
      using q(1,2) bq False drains_root [OF wf q(1) x(1) q(2) dx] same_place_root [OF gp gp] wf_root [OF wf q(1,5)]
      by (auto simp: rp) (cases "r_status q"; auto simp: g_def P_def pause_row_def poisonable_def set_status_def)
    have cs: "r_call_stack (g x) = r_call_stack x" "r_id (g x) = r_id x"
      using gp [of x] by (simp_all add: same_place_def)
    have "tree_inv rows'"
      unfolding rows' using fail_stack_inv [OF invp x1(1) leaf_Busy [OF x1(2)] _ q1] x(3) cs by simp
    moreover have "?FS (g x) = g x" using xA cs(2) by (simp add: fail_stack_id)
    then have "g x \<in> set rows'" unfolding rows' using x1(1) by (metis imageI set_map)
    moreover have "r_status p \<in> {StatusFailing, StatusCancelling}"
      if pa: "p \<in> set rows'" "r_id p \<in> set (r_call_stack x)" for p
    proof -
      obtain p1 where p1: "p1 \<in> set rp" "p = ?FS p1" using pa(1) by (auto simp: rows')
      then show ?thesis using stack_draining [OF invp x1(1) leaf_Busy [OF x1(2)] q1 p1(1)] pa(2) cs(1) by auto
    qed
    ultimately show ?thesis using gp [of x] x1(2,3) by blast
  qed
qed

lemma poison_rows_inv:
  fixes now :: int and s :: store
  assumes inv: "tree_inv (s_rows s)" and x: "x \<in> set (s_rows s)" "leaf x" "r_call_stack x \<noteq> []" "r_worker_id x \<noteq> None"
    and i: "i_CallStack i = r_call_stack x" "i_Status i = StatusFailed" "i_Phase i \<noteq> PhaseChildren"
    and q: "find_row (s_rows s) (hd (r_call_stack x)) = Some q"
  defines "rows' \<equiv> put_row (written i now x) (poison_rows i now (poisonable (r_status q)) (s_rows s))"
  shows "tree_inv_but {r_parent_id x} rows' \<and>
     (\<exists>p. parked rows' (r_parent_id x) (r_spawn_task_id x) (r_parent_task_epoch x) p)"
proof -
  note wf = tree_invD(1) [OF inv]
  let ?P = "poison_rows i now (poisonable (r_status q)) (s_rows s)"
  obtain q' where q': "q' \<in> set (s_rows s)" "root_of q' x" "r_parent_id q' = []" "r_id q' = hd (r_call_stack x)"
    using root_exists [OF wf x(1)] x(3) by auto
  have "q' = q" using find_row_Some [OF q] wf_inj [OF wf q'(1)] q'(4) by auto
  then obtain x1 where inv1: "tree_inv ?P" and x1: "x1 \<in> set ?P" "same_place x x1" "leaf x1"
      "x1 = x \<or> (\<exists>st. x1 = set_status st now x)"
    and st: "\<And>p. p \<in> set ?P \<Longrightarrow> r_id p \<in> set (r_call_stack x) \<Longrightarrow> r_status p \<in> {StatusFailing, StatusCancelling}"
    using poison_stack_inv [where q = q and now = now, OF inv x _ _ _ _ _ i(1)] q' x(3) by auto
  have w: "written i now x1 = written i now x" using x1(4) written_over [of i now _ x] i(2) by auto
  note wf1 = tree_invD(1) [OF inv1]
  have stack: "r_call_stack x1 = r_call_stack x" "r_parent_id x1 = r_parent_id x" using x1(2) by (simp_all add: same_place_def)
  have "tree_inv_but {r_parent_id x1} (put_row (written i now x1) ?P)"
  proof (rule fail_written [OF inv1 x1(1,3) i(2,3)])
    show "r_status p \<in> {StatusFailing, StatusCancelling}" if "p \<in> set ?P" "child_of p x1" for p
      using st [OF that(1)] parent_in_stack [OF wf1 x1(1) that] stack by simp
    show "r_status r \<in> {StatusFailing, StatusCancelling}" if "r \<in> set ?P" "root_of r x1" "r \<noteq> x1" for r
      using st [OF that(1)] root_above(1) [OF wf1 that(1) x1(1) that(2)] that(3) stack by auto
  qed
  moreover have "\<exists>p. parked ?P (r_parent_id x) (r_spawn_task_id x) (r_parent_task_epoch x) p"
    using parked_up [OF inv1 x1(1) leaf_Busy [OF x1(3)]] x1(2) x(3) wf_root [OF wf x(1)]
    by (auto simp: same_place_def)
  moreover have "r_id (written i now x) \<noteq> r_parent_id x"
    using not_own_child [OF wf x(1)] by (auto simp: child_of_def)
  ultimately show ?thesis using w stack parked_put unfolding rows'_def by metis
qed


text \<open>A failure the engine reports: the status it writes, on a row it holds.\<close>

definition fail_ok :: "inst \<Rightarrow> bool" where
  "fail_ok i \<longleftrightarrow> i_Status i = StatusFailed \<and> i_Phase i \<noteq> PhaseChildren"

lemma log_poisoned_rows [simp]: "s_rows (log_poisoned rows s) = s_rows s"
  unfolding log_poisoned_def by (rule fold_same) (auto split: prod.splits)

lemma fail_tail_root:
  assumes inv: "tree_inv (s_rows s)" and i: "engine_inst (s_rows s) i" "fail_ok i" "i_CallStack i = []"
    and w: "write_inst i now s = Inr s1"
  shows "tree_inv (s_rows s1)"
proof -
  obtain x where x: "x \<in> set (s_rows s)" "inst_fence i x"
    using write_inst_put [OF tree_invD(1) [OF inv] w] by blast
  have "i_ParentID i = []"
    using i(1,3) x wf_parent [OF tree_invD(1) [OF inv] x(1)] by (force simp: engine_inst_def inst_fence_def)
  then have "tree_inv (s_rows (snd (UpdateInstance i now s)))"
    using UpdateInstance_inv [OF inv i(1)] i(2) by (simp add: fail_ok_def)
  then show ?thesis using w by (simp add: UpdateInstance_def withTx_def)
qed

lemma fail_tail_inv:
  assumes inv: "tree_inv (s_rows s)" and i: "engine_inst (s_rows s) i" "fail_ok i" "i_CallStack i \<noteq> []"
    and q: "q_GetInstanceStatus (hd (i_CallStack i)) s = Some st" and w: "write_inst i now s = Inr s1"
  shows "\<exists>res s'. fail_tail i (poisonable st) now s = Inr (res, s') \<and> tree_inv (s_rows s')"
proof -
  note wf = tree_invD(1) [OF inv]
  obtain x where x: "x \<in> set (s_rows s)" "inst_fence i x" and rows: "s_rows s1 = put_row (written i now x) (s_rows s)"
    using write_inst_put [OF wf w] by blast
  have pl: "i_ParentID i = r_parent_id x" "i_SpawnTaskID i = r_spawn_task_id x"
      "i_ParentTaskEpoch i = r_parent_task_epoch x" "i_CallStack i = r_call_stack x"
    using i(1) x by (auto simp: engine_inst_def inst_fence_def)
  have held: "r_worker_id x \<noteq> None"
    using i(1) x by (auto simp: engine_inst_def inst_fence_def fenceWorker_def coalesce_str_def split: option.splits)
  obtain q0 where q0: "find_row (s_rows s) (hd (r_call_stack x)) = Some q0" "st = r_status q0"
    using q pl(4) by (auto simp: q_GetInstanceStatus_def)
  have f: "i_Status i = StatusFailed" "i_Phase i \<noteq> PhaseChildren" using i(2) by (simp_all add: fail_ok_def)
  let ?s2 = "q_FailAncestors (i_ErrorMessage i) (i_ErrorCode i) now (i_CallStack i) s1"
  obtain paused s3 where s3: "(if poisonable st then q_PauseTree (hd (i_CallStack i)) now ?s2 else ([], ?s2)) = (paused, s3)"
    by fastforce
  have rows3: "s_rows s3 = put_row (written i now x) (poison_rows i now (poisonable st) (s_rows s))"
    using poison_rows_eq [OF wf x(1) pl(4) f(1) rows, of "poisonable st"] s3 by simp
  note P = poison_rows_inv [OF inv x(1) fenced_leaf [OF inv i(1) x] _ held pl(4) f q0(1), of now]
  have "\<exists>settled s'. settleUp i now s3 = Inr (settled, s') \<and> tree_inv (s_rows s')"
    using P i(3) pl q0(2) rows3 by (intro settleUp_inv [of "r_parent_id x"]) simp_all
  then show ?thesis using w i(3) s3 by (auto simp: fail_tail_def Let_def)
qed

lemma root_status:
  assumes wf: "wf_rows (s_rows s)" and x: "x \<in> set (s_rows s)" "r_call_stack x \<noteq> []"
  shows "\<exists>st. q_GetInstanceStatus (hd (r_call_stack x)) s = Some st"
proof -
  obtain q where "q \<in> set (s_rows s)" "r_id q = hd (r_call_stack x)"
    using root_exists [OF wf x(1)] x(2) by auto
  then have "find_row (s_rows s) (hd (r_call_stack x)) = Some q"
    using find_row_distinct [OF wf_distinct [OF wf]] by blast
  then show ?thesis by (simp add: q_GetInstanceStatus_def)
qed

lemma FailInstanceAndAncestors_cases:
  assumes inv: "tree_inv (s_rows s)" and i: "engine_inst (s_rows s) i" "fail_ok i"
    and row: "\<exists>x \<in> set (s_rows s). r_id x = i_ID i"
  shows "(\<exists>s'. FailInstanceAndAncestors pg i now s = (Inr (), s') \<and> tree_inv (s_rows s')) \<or>
         FailInstanceAndAncestors pg i now s = (Inl ErrLeaseLost, s)"
proof (cases "write_inst i now s")
  case (Inl e)
  then have "fail_tail i p now s = Inl ErrLeaseLost" for p
    using write_inst_error [OF Inl] by (simp add: fail_tail_def)
  moreover have "\<exists>st. q_GetInstanceStatus (hd (i_CallStack i)) s = Some st" if "i_CallStack i \<noteq> []"
    using row i(1) root_status [OF tree_invD(1) [OF inv]] that by (fastforce simp: engine_inst_def)
  ultimately show ?thesis
    by (cases "i_CallStack i") (auto simp: FailInstanceAndAncestors_def withChildTx_def withTx_def fail_loop)
next
  case (Inr s1)
  show ?thesis
  proof (cases "i_CallStack i = []")
    case True
    then show ?thesis
      using fail_tail_root [OF inv i True Inr] Inr
      by (auto simp: FailInstanceAndAncestors_def withChildTx_def withTx_def fail_loop fail_tail_def)
  next
    case False
    obtain x where x: "x \<in> set (s_rows s)" "inst_fence i x"
      using write_inst_put [OF tree_invD(1) [OF inv] Inr] by blast
    then have "r_call_stack x = i_CallStack i" using i(1) by (auto simp: engine_inst_def inst_fence_def)
    then obtain st where st: "q_GetInstanceStatus (hd (i_CallStack i)) s = Some st"
      using root_status [OF tree_invD(1) [OF inv] x(1)] False by auto
    then show ?thesis
      using fail_tail_inv [OF inv i False st Inr] False
      by (cases "i_CallStack i") (auto simp: FailInstanceAndAncestors_def withChildTx_def withTx_def fail_loop)
  qed
qed

end
