(* ===== verification/Tree_Spawn.thy ===== *)
theory Tree_Spawn
  imports Tree_Writes
begin

text \<open>
  Inserting, leasing and pruning keep the invariant: a batch is inserted with its parent's park, a
  new root starts a tree of its own, a claim or renewal touches only lease columns, and retention
  removes whole trees.
\<close>

subsection \<open>Inserting\<close>

lemma append_row:
  assumes inv: "tree_inv_but h rows" and fresh: "r_id k \<notin> r_id ` set rows" "r_id k \<noteq> []"
    and place: "if r_parent_id k = [] then r_call_stack k = [] \<and> r_root_id k = r_id k
      else r_spawn_task_id k \<noteq> [] \<and> (\<exists>p \<in> set rows. child_of p k \<and> r_call_stack k = r_call_stack p @ [r_id p] \<and>
             r_root_id k = r_root_id p \<and> edge_ok p k)"
    and root: "\<And>q. q \<in> set rows \<Longrightarrow> root_of q k \<Longrightarrow> tree_ok (r_status q) (r_status k)"
    and k: "node_ok k" "r_phase k \<noteq> PhaseChildren"
    and hole: "\<And>p. p \<in> set rows \<Longrightarrow> r_id p \<in> h - h' \<Longrightarrow> wait_ok (set (rows @ [k])) p"
  shows "tree_inv_but h' (rows @ [k])"
proof -
  note wf = tree_invD(1) [OF inv]
  have up: "\<not> child_of k c" if "c \<in> set rows" for c
  proof
    assume c: "child_of k c"
    then have "r_parent_id c \<noteq> []" using fresh(2) by (simp add: child_of_def)
    then show False using wf_parent [OF wf that] fresh(1) c by (metis child_of_def imageI)
  qed
  have rt: "\<not> root_of k r" if "r \<in> set rows" for r
    using root_exists [OF wf that] fresh(1) by (auto simp: root_of_def)
  have self: "\<not> child_of k k"
    using place fresh by (auto simp: child_of_def split: if_splits)
  have par: "edge_ok p k" if "p \<in> set rows" "child_of p k" for p
  proof -
    have "r_parent_id k \<noteq> []" using that wf_id [OF wf that(1)] by (simp add: child_of_def)
    then obtain p' where p': "p' \<in> set rows" "child_of p' k" "edge_ok p' k" using place by auto
    then have "p' = p" using wf_inj [OF wf p'(1) that(1)] that(2) by (simp add: child_of_def)
    then show ?thesis using p' by simp
  qed
  have kroot: "root_of k k \<Longrightarrow> tree_ok (r_status k) (r_status k)" by simp
  have w: "wait_ok (set (rows @ [k])) p" if "p \<in> set rows" "r_id p \<notin> h'" for p
  proof (cases "r_id p \<in> h")
    case True
    then show ?thesis using hole that by simp
  next
    case False
    then show ?thesis using tree_invD(5) [OF inv that(1)] by (auto simp: wait_ok_def)
  qed
  have "wf_rows (rows @ [k])"
  proof -
    have "distinct (map r_id (rows @ [k]))" using wf_distinct [OF wf] fresh(1) by auto
    moreover have "r_id r \<noteq> [] \<and> (if r_parent_id r = [] then r_call_stack r = [] \<and> r_root_id r = r_id r
         else r_spawn_task_id r \<noteq> [] \<and> (\<exists>p \<in> set (rows @ [k]). child_of p r \<and>
                 r_call_stack r = r_call_stack p @ [r_id p] \<and> r_root_id r = r_root_id p))" if "r \<in> set (rows @ [k])" for r
    proof (cases "r = k")
      case True
      then show ?thesis using place fresh(2) by (auto split: if_splits)
    next
      case False
      then have r: "r \<in> set rows" using that by simp
      then show ?thesis using wf_id [OF wf r] wf_root [OF wf r] wf_parent [OF wf r] wf_spawn [OF wf r] by (cases "r_parent_id r = []") auto
    qed
    ultimately show ?thesis unfolding wf_rows_def by blast
  qed
  then show ?thesis
    using tree_invD(2-4) [OF inv] up rt self par kroot root w k
    by (auto simp: tree_inv_but_def edges_ok_def roots_ok_def wait_ok_def)
qed

lemma inserted_row:
  assumes "q_InsertInstance r s = Inr s'"
  obtains k where "s_rows s' = s_rows s @ [k]" "r_id k \<notin> r_id ` set (s_rows s)"
    "k = r\<lparr>r_root_id := derive_root (s_rows s) r, r_superseded_at := None, r_worker_id := None,
           r_lease_expires_at := None, r_lease_epoch := 0, r_external_worker_id := None,
           r_external_lease_expires_at := None, r_external_claim_epoch := 0\<rparr>"
proof -
  have "find_row (s_rows s) (r_id r) = None" using assms by (auto simp: q_InsertInstance_def split: if_splits)
  then have "r_id r \<notin> r_id ` set (s_rows s)" by (auto simp: find_row_def find_None_iff)
  then show ?thesis using assms that by (auto simp: q_InsertInstance_def split: if_splits)
qed

lemma SaveInstance_inv:
  assumes inv: "tree_inv (s_rows s)" and i: "i_ParentID i = []" "i_CallStack i = []" "i_ID i \<noteq> []"
    "i_Status i \<noteq> StatusFailing" "i_Phase i \<noteq> PhaseChildren"
  shows "tree_inv (s_rows (snd (SaveInstance i now s)))"
proof -
  obtain cols s0 where p: "persistState i now s = (cols, s0)" by fastforce
  then have rows0: "s_rows s0 = s_rows s" using persistState_rows(2) [of i now s] by simp
  let ?r = "insertInstanceParams i cols (i_Status i) now now"
  show ?thesis
  proof (cases "q_InsertInstance ?r s0")
    case (Inl e)
    then show ?thesis using p inv by (simp add: SaveInstance_def withTx_def)
  next
    case (Inr s')
    obtain k where k: "s_rows s' = s_rows s0 @ [k]" "r_id k \<notin> r_id ` set (s_rows s0)"
      "k = ?r\<lparr>r_root_id := derive_root (s_rows s0) ?r, r_superseded_at := None, r_worker_id := None,
           r_lease_expires_at := None, r_lease_epoch := 0, r_external_worker_id := None,
           r_external_lease_expires_at := None, r_external_claim_epoch := 0\<rparr>"
      using inserted_row [OF Inr] by blast
    have "find_row (s_rows s) [] = None"
      using wf_id [OF tree_invD(1) [OF inv]] by (auto simp: find_row_def find_None_iff)
    then have "r_root_id k = r_id k" using k(3) rows0 i(1) by (simp add: derive_root_def insertInstanceParams_def)
    moreover have fresh: "\<And>q. q \<in> set (s_rows s) \<Longrightarrow> r_id q \<noteq> r_id k" using k(2) rows0 by (metis imageI)
    ultimately have "tree_inv (s_rows s @ [k])"
      using i k(2,3) rows0
      by (intro append_row [OF inv]) (auto simp: insertInstanceParams_def node_ok_def root_of_def)
    then show ?thesis using p Inr k(1) rows0 by (simp add: SaveInstance_def withTx_def)
  qed
qed


subsection \<open>Spawning a batch\<close>

text \<open>A child as the engine builds it for the batch of a parent row about to park.\<close>

definition batch_child :: "row \<Rightarrow> inst \<Rightarrow> inst \<Rightarrow> bool" where
  "batch_child x parent c \<longleftrightarrow> i_ID c \<noteq> [] \<and> i_ParentID c = r_id x \<and> i_CallStack c = r_call_stack x @ [r_id x] \<and>
     i_Task parent \<noteq> [] \<and> i_SpawnTaskID c = i_Task parent \<and> i_ParentTaskEpoch c = i_TaskEpoch parent \<and> i_Phase c \<noteq> PhaseChildren"

definition parked_row :: "inst \<Rightarrow> int \<Rightarrow> row \<Rightarrow> row" where
  "parked_row parent now x = set_update ((updateInstanceParams parent (i_cols parent) now)
     \<lparr>u_WakeAt := None, u_Status := r_status x, u_Phase := PhaseChildren\<rparr>) x"

lemma parked_row_simps [simp]:
  "r_status (parked_row parent now x) = r_status x" "r_phase (parked_row parent now x) = PhaseChildren"
  "r_worker_id (parked_row parent now x) = None" "r_superseded_at (parked_row parent now x) = r_superseded_at x"
  "r_id (parked_row parent now x) = r_id x" "r_root_id (parked_row parent now x) = r_root_id x"
  "r_call_stack (parked_row parent now x) = r_call_stack x"
  "r_task (parked_row parent now x) = i_Task parent" "r_task_epoch (parked_row parent now x) = i_TaskEpoch parent"
  "same_place x (parked_row parent now x)"
  by (auto simp: parked_row_def set_update_def updateInstanceParams_def same_place_def kept_status_def)

lemma park_leaf:
  assumes inv: "tree_inv rows" and x: "x \<in> set rows" "leaf x"
  shows "tree_inv_but {r_id x} (put_row (parked_row parent now x) rows)"
proof (rule tree_inv_put [OF inv x(1)])
  show "edge_ok (parked_row parent now x) c" if "c \<in> set rows" "child_of x c" for c
    using leaf_children [OF inv x that] by simp
  show "edge_ok p (parked_row parent now x)" if "p \<in> set rows" "child_of p x" for p
    using same_status_edge [OF tree_invD(2) [OF inv that(1) x(1) that(2)] x(2)] by simp
  show "tree_ok (r_status q) (r_status (parked_row parent now x))" if "q \<in> set rows" "root_of q x" "q \<noteq> x" for q
    using tree_invD(3) [OF inv that(1) x(1) that(2)] by simp
  show "tree_ok (r_status (parked_row parent now x)) (r_status r)" if "r \<in> set rows" "root_of x r" "r \<noteq> x" for r
    using leaf_tree [OF inv x that] by simp
qed (use leaf_not_superseded [OF inv x] x(2) in \<open>auto simp: node_ok_def leaf_def\<close>)

lemma put_row_append: "r_id k \<noteq> r_id y \<Longrightarrow> put_row y (rows @ [k]) = put_row y rows @ [k]"
  by (simp add: put_row_def)

lemma put_row_mem: "x \<in> set rows \<Longrightarrow> r_id y = r_id x \<Longrightarrow> y \<in> set (put_row y rows)"
  by (force simp: put_row_def image_iff)

lemma put_row_ids: "r_id ` set (put_row y rows) = r_id ` set rows"
  by (auto simp: put_row_def image_iff) metis

lemma find_row_append: "find_row rows i = Some x \<Longrightarrow> find_row (rows @ ks) i = Some x"
  by (induction rows) (auto simp: find_row_def)

lemma insert_child:
  fixes now :: int and parent :: inst and x :: row
  defines "y \<equiv> parked_row parent now x"
  assumes inv: "tree_inv_but h (put_row y (s_rows s))" and h: "h \<subseteq> {r_id x}"
    and x: "find_row (s_rows s) (r_id x) = Some x" "leaf x" and c: "batch_child x parent c"
    and ins: "q_InsertInstance (insertInstanceParams c cols (r_status x) ts ts) s = Inr s'"
  shows "tree_inv (put_row y (s_rows s')) \<and> find_row (s_rows s') (r_id x) = Some x"
proof -
  let ?r = "insertInstanceParams c cols (r_status x) ts ts"
  obtain k where k: "s_rows s' = s_rows s @ [k]" "r_id k \<notin> r_id ` set (s_rows s)"
      "k = ?r\<lparr>r_root_id := derive_root (s_rows s) ?r, r_superseded_at := None, r_worker_id := None,
           r_lease_expires_at := None, r_lease_epoch := 0, r_external_worker_id := None,
           r_external_lease_expires_at := None, r_external_claim_epoch := 0\<rparr>"
    using inserted_row [OF ins] by blast
  have kf: "r_id k = i_ID c" "r_parent_id k = r_id x" "r_call_stack k = r_call_stack x @ [r_id x]"
    "r_root_id k = r_root_id x" "r_status k = r_status x" "r_phase k \<noteq> PhaseChildren" "r_worker_id k = None"
    "r_superseded_at k = None" "r_spawn_task_id k = i_Task parent" "r_parent_task_epoch k = i_TaskEpoch parent"
    using k(3) c x(1) by (simp_all add: insertInstanceParams_def batch_child_def derive_root_def)
  have xm: "x \<in> set (s_rows s)" using find_row_Some [OF x(1)] by blast
  have ym: "y \<in> set (put_row y (s_rows s))" using put_row_mem [OF xm] by (simp add: y_def)
  have idx: "r_id x \<noteq> []" using wf_id [OF tree_invD(1) [OF inv] ym] by (simp add: y_def)
  have kx: "r_id k \<noteq> r_id y" using k(2) xm by (auto simp: y_def)
  have e: "child_of y k" "batch_of y k" "edge_ok y k"
    using kf x(2) by (auto simp: y_def child_of_def batch_of_def edge_ok_def leaf_def)
  have "tree_inv (put_row y (s_rows s) @ [k])"
  proof (rule append_row [OF inv])
    show "r_id k \<notin> r_id ` set (put_row y (s_rows s))" "r_id k \<noteq> []"
      using k(2) c kf(1) by (simp_all add: put_row_ids batch_child_def)
    show "if r_parent_id k = [] then r_call_stack k = [] \<and> r_root_id k = r_id k
      else r_spawn_task_id k \<noteq> [] \<and> (\<exists>p \<in> set (put_row y (s_rows s)). child_of p k \<and>
             r_call_stack k = r_call_stack p @ [r_id p] \<and> r_root_id k = r_root_id p \<and> edge_ok p k)"
      using kf idx e ym c by (auto simp: batch_child_def y_def intro!: bexI [of _ y])
    show "tree_ok (r_status q) (r_status k)" if "q \<in> set (put_row y (s_rows s))" "root_of q k" for q
      using tree_invD(3) [OF inv that(1) ym] that(2) kf by (simp add: y_def root_of_def)
    show "node_ok k" using kf x(2) by (auto simp: node_ok_def leaf_def)
    show "wait_ok (set (put_row y (s_rows s) @ [k])) p" if "p \<in> set (put_row y (s_rows s))" "r_id p \<in> h - {}" for p
    proof -
      have "p = y" using wf_inj [OF tree_invD(1) [OF inv] that(1) ym] that(2) h by (auto simp: y_def)
      then show ?thesis using e kf(5) leaf_Busy [OF x(2)] Busy_not_Terminal
        by (auto simp: wait_ok_def y_def)
    qed
  qed (rule kf)
  then show ?thesis
    using k(1) put_row_append [OF kx] find_row_append [OF x(1)] by simp
qed

lemma insert_children_inv:
  fixes now :: int and parent :: inst
  defines "y \<equiv> \<lambda>x. parked_row parent now x"
  shows "insert_children cs (r_status x) ts s = Inr s' \<Longrightarrow> tree_inv_but h (put_row (y x) (s_rows s)) \<Longrightarrow>
    h \<subseteq> {r_id x} \<Longrightarrow> (cs = [] \<Longrightarrow> h = {}) \<Longrightarrow> find_row (s_rows s) (r_id x) = Some x \<Longrightarrow> leaf x \<Longrightarrow>
    \<forall>c \<in> set cs. batch_child x parent c \<Longrightarrow>
    tree_inv (put_row (y x) (s_rows s')) \<and> find_row (s_rows s') (r_id x) = Some x"
proof (induction cs arbitrary: ts s h)
  case Nil
  then show ?case by simp
next
  case (Cons c cs)
  obtain cols s0 where p: "persistState c ts s = (cols, s0)" by fastforce
  then have rows0: "s_rows s0 = s_rows s" using persistState_rows(2) [of c ts s] by simp
  obtain s1 where s1: "q_InsertInstance (insertInstanceParams c cols (r_status x) ts ts) s0 = Inr s1"
    and rest: "insert_children cs (r_status x) (ts + 1) s1 = Inr s'"
    using Cons.prems(1) p by (auto split: sum.splits)
  have "tree_inv (put_row (y x) (s_rows s1)) \<and> find_row (s_rows s1) (r_id x) = Some x"
    using insert_child [OF _ Cons.prems(3) _ Cons.prems(6) _ s1, where parent = parent and now = now]
      Cons.prems rows0 unfolding y_def by auto
  then show ?case using Cons.IH [OF rest, of "{}"] Cons.prems(6,7) by simp
qed

lemma park_rows:
  assumes d: "distinct (map r_id (s_rows s))" and park: "parkParentWaiting parent st now s = Inr s'"
    and x: "find_row (s_rows s) (i_ID parent) = Some x" "st = r_status x"
  shows "inst_fence parent x" "s_rows s' = put_row (parked_row parent now x) (s_rows s)"
proof -
  obtain cols s0 where p: "persistState parent now s = (cols, s0)" by fastforce
  then have c0: "cols = i_cols parent" and rows0: "s_rows s0 = s_rows s"
    using persistState_rows(1,2) [of parent now s] by simp_all
  let ?P = "(updateInstanceParams parent (i_cols parent) now)\<lparr>u_WakeAt := None, u_Status := st, u_Phase := PhaseChildren\<rparr>"
  have f: "fence ?P = inst_fence parent"
    by (auto simp: fence_def inst_fence_def updateInstanceParams_def fun_eq_iff)
  have ok: "\<exists>r \<in> set (s_rows s). inst_fence parent r"
    and rows: "s_rows s' = map (\<lambda>r. if inst_fence parent r then set_update ?P r else r) (s_rows s)"
    using park p c0 rows0 f
    by (auto simp: parkParentWaiting_def requireFenced_def q_UpdateInstance_def rows_matching_0 split: if_splits)
  have xm: "x \<in> set (s_rows s)" "r_id x = i_ID parent" using find_row_Some [OF x(1)] by auto
  from ok obtain r where r: "r \<in> set (s_rows s)" "inst_fence parent r" by blast
  then have "r = x" using distinct_ids_inj [OF d r(1) xm(1)] xm(2) by (simp add: inst_fence_def)
  then show fx: "inst_fence parent x" using r by simp
  have "map (\<lambda>r. if inst_fence parent r then set_update ?P r else r) (s_rows s) = put_row (set_update ?P x) (s_rows s)"
    by (rule put_row_fence [where P = "inst_fence parent", OF d xm(1) fx])
      (use xm in \<open>auto simp: inst_fence_def set_update_def\<close>)
  then show "s_rows s' = put_row (parked_row parent now x) (s_rows s)" using rows x(2) by (simp add: parked_row_def)
qed


lemma insert_children_keeps:
  "insert_children cs st ts s = Inr s' \<Longrightarrow> distinct (map r_id (s_rows s)) \<Longrightarrow>
     distinct (map r_id (s_rows s')) \<and> (find_row (s_rows s) i = Some x \<longrightarrow> find_row (s_rows s') i = Some x)"
proof (induction cs arbitrary: ts s)
  case (Cons c cs)
  obtain cols s0 where p: "persistState c ts s = (cols, s0)" by fastforce
  then have rows0: "s_rows s0 = s_rows s" using persistState_rows(2) [of c ts s] by simp
  obtain s1 where s1: "q_InsertInstance (insertInstanceParams c cols st ts ts) s0 = Inr s1"
    and rest: "insert_children cs st (ts + 1) s1 = Inr s'"
    using Cons.prems(1) p by (auto split: sum.splits)
  obtain k where "s_rows s1 = s_rows s0 @ [k]" "r_id k \<notin> r_id ` set (s_rows s0)" using inserted_row [OF s1] by blast
  then show ?case using Cons.IH [OF rest] Cons.prems(2) rows0 find_row_append [of "s_rows s" i x "[k]"] by auto
qed simp

lemma spawn_tail:
  assumes inv: "tree_inv (s_rows s)" and w: "i_WorkerID parent = Some w" "w \<noteq> []"
    and x: "find_row (s_rows s) (i_ID parent) = Some x" and cs: "cs \<noteq> []" "\<forall>c \<in> set cs. batch_child x parent c"
    and ins: "insert_children cs (r_status x) now s = Inr s1" and park: "parkParentWaiting parent (r_status x) now s1 = Inr s2"
  shows "tree_inv (s_rows s2)"
proof -
  have xm: "x \<in> set (s_rows s)" "r_id x = i_ID parent" using find_row_Some [OF x] by auto
  have s1: "distinct (map r_id (s_rows s1))" "find_row (s_rows s1) (i_ID parent) = Some x"
    using insert_children_keeps [OF ins wf_distinct [OF tree_invD(1) [OF inv]]] x by auto
  note p = park_rows [OF s1(1) park s1(2) refl]
  have "r_worker_id x \<noteq> None"
    using p(1) w by (auto simp: inst_fence_def fenceWorker_def coalesce_str_def split: option.splits)
  then have leaf: "leaf x" using tree_invD(4) [OF inv xm(1)] by (auto simp: node_ok_def leaf_def)
  show ?thesis unfolding p(2)
    using insert_children_inv [OF ins, of "{r_id x}" parent now] park_leaf [OF inv xm(1) leaf] x xm(2) leaf cs by auto
qed

definition spawn_ok :: "row list \<Rightarrow> inst \<Rightarrow> inst list \<Rightarrow> bool" where
  "spawn_ok rows parent cs \<longleftrightarrow> (\<exists>w. i_WorkerID parent = Some w \<and> w \<noteq> []) \<and>
     (\<forall>x \<in> set rows. r_id x = i_ID parent \<longrightarrow> (\<forall>c \<in> set cs. batch_child x parent c))"

lemma SpawnChildrenAndWait_inv:
  assumes inv: "tree_inv (s_rows s)" and ok: "spawn_ok (s_rows s) parent cs"
  shows "tree_inv (s_rows (snd (SpawnChildrenAndWait parent cs now s)))"
proof (cases "cs = []")
  case False
  have "tree_inv (s_rows s')" if body: "spawn_body parent cs now s = Inr ((), s')" for s'
  proof -
    obtain x s1 where x: "find_row (s_rows s) (i_ID parent) = Some x"
      and ins: "insert_children cs (r_status x) now s = Inr s1" "parkParentWaiting parent (r_status x) now s1 = Inr s'"
      using body by (auto simp: spawn_body_def split: option.splits if_splits sum.splits)
    then show ?thesis
      using spawn_tail [OF inv _ _ x False _ ins] ok find_row_Some [OF x] by (auto simp: spawn_ok_def)
  qed
  then show ?thesis using False inv by (auto simp: SpawnChildrenAndWait_def withTx_def split: sum.splits)
qed (use inv in \<open>simp add: SpawnChildrenAndWait_def\<close>)

lemma supersede_rows:
  "s_rows (fold (\<lambda>i. q_SupersedeInstance i now) ids s) =
     map (\<lambda>r. if r_id r \<in> set ids then r\<lparr>r_superseded_at := Some now\<rparr> else r) (s_rows s)"
  by (induction ids arbitrary: s) (auto simp: q_SupersedeInstance_def)

lemma RespawnSlotsAndWait_inv:
  assumes inv: "tree_inv (s_rows s)" and ok: "spawn_ok (s_rows s) parent cs"
    and raised: "\<forall>r \<in> set (s_rows s). r_id r \<in> set retired \<longrightarrow> r_status r = StatusRaised"
  shows "tree_inv (s_rows (snd (RespawnSlotsAndWait parent retired cs now s)))"
proof (cases "cs = []")
  case False
  let ?s0 = "fold (\<lambda>i. q_SupersedeInstance i now) retired s"
  let ?g = "\<lambda>r. if r_id r \<in> set retired then r\<lparr>r_superseded_at := Some now\<rparr> else r"
  have inv0: "tree_inv (s_rows ?s0)" unfolding supersede_rows
    by (rule tree_inv_same_shape [OF inv]) (use raised in \<open>auto simp: same_shape_def same_place_def node_ok_def\<close>)
  have "tree_inv (s_rows s')" if body: "respawn_body parent retired cs now s = Inr ((), s')" for s'
  proof -
    obtain x s1 where x: "find_row (s_rows s) (i_ID parent) = Some x"
      and ins: "insert_children cs (r_status x) now ?s0 = Inr s1" "parkParentWaiting parent (r_status x) now s1 = Inr s'"
      using body by (auto simp: respawn_body_def split: option.splits if_splits sum.splits)
    have x0: "find_row (s_rows ?s0) (i_ID parent) = Some (?g x)"
      unfolding supersede_rows by (subst find_row_map) (simp_all add: x)
    have "\<forall>c \<in> set cs. batch_child (?g x) parent c"
      using ok find_row_Some [OF x] by (auto simp: spawn_ok_def batch_child_def)
    then show ?thesis
      using spawn_tail [OF inv0 _ _ x0 False, of _ now s1 s'] ins ok by (auto simp: spawn_ok_def split: if_splits)
  qed
  then show ?thesis using False inv by (auto simp: RespawnSlotsAndWait_def withTx_def split: sum.splits)
qed (use inv in \<open>simp add: RespawnSlotsAndWait_def\<close>)

subsection \<open>Leases\<close>

lemma ClaimInstances_inv:
  assumes inv: "tree_inv (s_rows s)"
  shows "tree_inv (s_rows (snd (ClaimInstances locked w dur limit cutoff now s)))"
  unfolding claim_rows
proof (rule tree_inv_same_shape [OF inv])
  fix r assume r: "r \<in> set (s_rows s)" "node_ok r"
  let ?C = "claim_candidates locked limit now cutoff (s_rows s)"
  have "claimable now cutoff r" if m: "r_id r \<in> r_id ` set ?C"
  proof -
    obtain c where c: "c \<in> set ?C" "r_id r = r_id c" using m by blast
    then have "c \<in> set (s_rows s)" "claimable now cutoff c" using candidates_sub by blast+
    then show ?thesis using wf_inj [OF tree_invD(1) [OF inv] r(1)] c(2) by blast
  qed
  then show "node_ok (if r_id r \<in> r_id ` set ?C then set_grant w (now + dur) r else r)"
    using r by (auto simp: node_ok_def set_grant_def claimable_def)
qed (auto simp: same_shape_def same_place_def set_grant_def)

lemma RenewWorkerLeases_inv:
  assumes inv: "tree_inv (s_rows s)"
  shows "tree_inv (s_rows (snd (RenewWorkerLeases w ids dur now s)))"
  unfolding RenewWorkerLeases_def snd_conv renew_loop_bulk [OF wf_distinct [OF tree_invD(1) [OF inv]]] bulk_renew_def
  by (rule tree_inv_same_shape [OF inv]) (auto simp: same_shape_def same_place_def set_expiry_def node_ok_def)

end
