(* ===== verification/Tree_Retry.thy ===== *)
theory Tree_Retry
  imports Tree_Spawn
begin

text \<open>
  Retrying keeps the invariant: the walk from a failed root reaches every failed row below it,
  because a failed row is always in the batch its failed parent stopped at, and it reconstructs
  each parent's wait from what its batch now holds.
\<close>

subsection \<open>A failed tree\<close>

definition failed_tree :: "row list \<Rightarrow> row \<Rightarrow> bool" where
  "failed_tree rows q \<longleftrightarrow> tree_inv rows \<and> q \<in> set rows \<and> r_parent_id q = [] \<and> r_status q = StatusFailed"

definition tree_nodes :: "row list \<Rightarrow> row \<Rightarrow> row list" where
  "tree_nodes rows q = sort_key r_id (filter (\<lambda>r. r_root_id r = r_id q \<and> r_superseded_at r = None) rows)"

lemma set_tree_nodes: "set (tree_nodes rows q) = {r \<in> set rows. root_of q r \<and> r_superseded_at r = None}"
  by (auto simp: tree_nodes_def root_of_def)

lemma failed_treeD:
  assumes "failed_tree rows q"
  shows "tree_inv rows" "wf_rows rows" "q \<in> set rows" "r_parent_id q = []" "r_status q = StatusFailed" "root_of q q"
  using assms tree_invD(1) wf_root by (auto simp: failed_tree_def root_of_def)

lemma node_statuses:
  assumes "failed_tree rows q" "r \<in> set rows" "root_of q r"
  shows "r_status r \<in> {StatusFailed, StatusPaused, StatusCompleted, StatusRaised}"
  using tree_invD(3) [OF failed_treeD(1,3) assms(2,3)] assms failed_treeD(5) by fastforce

lemma live_in_nodes:
  assumes "failed_tree rows q" "r \<in> set rows" "root_of q r" "r_status r \<in> {StatusFailed, StatusPaused}"
  shows "r \<in> set (tree_nodes rows q)"
  using assms tree_invD(4) [OF failed_treeD(1) [OF assms(1)] assms(2)]
  by (auto simp: set_tree_nodes node_ok_def)

lemma nodes_distinct: "wf_rows rows \<Longrightarrow> distinct (map r_id (tree_nodes rows q))"
proof -
  assume "wf_rows rows"
  then have "inj_on r_id (set rows)" "distinct rows" using wf_distinct by (auto simp: distinct_map)
  then show ?thesis
    by (auto simp: distinct_map tree_nodes_def intro: inj_on_subset)
qed

text \<open>The parent of a failed row failed in the batch the row belongs to; of a paused row, likewise or paused.\<close>

lemma failed_parent:
  assumes ft: "failed_tree rows q" and r: "r \<in> set rows" "root_of q r" "p \<in> set rows" "child_of p r"
    and st: "r_status r \<in> {StatusFailed, StatusPaused}"
  shows "batch_of p r" "root_of q p"
    "r_status p = StatusFailed \<or> (r_status r = StatusPaused \<and> r_status p = StatusPaused \<and> r_phase p = PhaseChildren)"
proof -
  note inv = failed_treeD(1) [OF ft]
  show root: "root_of q p"
    using parent_in_stack [OF failed_treeD(2) [OF ft] r(1,3,4)] r(2) by (simp add: root_of_def)
  have e: "edge_ok p r" using tree_invD(2) [OF inv r(3,1,4)] .
  show "batch_of p r" using e st by (auto simp: edge_ok_def)
  show "r_status p = StatusFailed \<or> (r_status r = StatusPaused \<and> r_status p = StatusPaused \<and> r_phase p = PhaseChildren)"
    using e st node_statuses [OF ft r(3) root] by (auto simp: edge_ok_def)
qed

definition failed_ids :: "row list \<Rightarrow> row \<Rightarrow> string set" where
  "failed_ids N x = r_id ` {r \<in> set N. r_status r = StatusFailed \<and> (r = x \<or> r_id x \<in> set (r_call_stack r))}"

lemma failed_ancestor:
  assumes ft: "failed_tree rows q" and r: "r \<in> set rows" "root_of q r" "r_status r = StatusFailed"
    and x: "x \<in> set rows" "r_id x \<in> set (r_call_stack r)"
  shows "r_status x = StatusFailed"
proof -
  have "root_of q x \<and> r_status x = StatusFailed"
  proof (rule ancestors_all [OF failed_treeD(2) [OF ft], of "\<lambda>r. root_of q r \<and> r_status r = StatusFailed" r x])
    fix p c assume "p \<in> set rows" "c \<in> set rows" "child_of p c" "root_of q c \<and> r_status c = StatusFailed"
    then show "root_of q p \<and> r_status p = StatusFailed"
      using failed_parent(2,3) [OF ft, of c p] by auto
  qed (use r x in auto)
  then show ?thesis by blast
qed

lemma failed_ids_none:
  assumes "failed_tree rows q" "x \<in> set rows" "r_status x \<noteq> StatusFailed"
  shows "failed_ids (tree_nodes rows q) x = {}"
  using assms failed_ancestor [OF assms(1)] by (fastforce simp: failed_ids_def set_tree_nodes)

definition kid_of :: "row \<Rightarrow> row \<Rightarrow> bool" where
  "kid_of x k \<longleftrightarrow> in_batch (r_id x) (r_task x) (r_task_epoch x) k"

lemma kid_of_iff: "kid_of x k \<longleftrightarrow> child_of x k \<and> batch_of x k"
  by (auto simp: kid_of_def in_batch_def child_of_def batch_of_def)

lemma failed_ids_kids:
  assumes ft: "failed_tree rows q" and x: "x \<in> set (tree_nodes rows q)" "r_status x = StatusFailed"
  shows "failed_ids (tree_nodes rows q) x =
     insert (r_id x) (\<Union>k \<in> {k \<in> set (tree_nodes rows q). kid_of x k}. failed_ids (tree_nodes rows q) k)"
    (is "?l = insert _ ?r")
proof
  note wf = failed_treeD(2) [OF ft]
  have xr: "x \<in> set rows" "root_of q x" using x(1) by (auto simp: set_tree_nodes)
  show "?l \<subseteq> insert (r_id x) ?r"
  proof
    fix i assume "i \<in> ?l"
    then obtain r where r: "r \<in> set (tree_nodes rows q)" "r_status r = StatusFailed"
      "r = x \<or> r_id x \<in> set (r_call_stack r)" "i = r_id r" by (auto simp: failed_ids_def)
    have rr: "r \<in> set rows" "root_of q r" using r(1) by (auto simp: set_tree_nodes)
    show "i \<in> insert (r_id x) ?r"
    proof (cases "r = x")
      case False
      then obtain k where k: "k \<in> set rows" "child_of x k" "k = r \<or> r_id k \<in> set (r_call_stack r)"
        using child_on_path [OF wf rr(1) xr(1)] r(3) by blast
      have kf: "r_status k = StatusFailed" "root_of q k"
        using k(3) r(2) failed_ancestor [OF ft rr r(2) k(1)] parent_in_stack [OF wf k(1) xr(1) k(2)] xr(2)
        by (auto simp: root_of_def)
      then have "k \<in> set (tree_nodes rows q)" "kid_of x k"
        using live_in_nodes [OF ft k(1)] failed_parent(1) [OF ft k(1) kf(2) xr(1) k(2)] k(2) by (auto simp: kid_of_iff)
      moreover have "i \<in> failed_ids (tree_nodes rows q) k" using r k(3) by (auto simp: failed_ids_def)
      ultimately show ?thesis by blast
    qed (use r in simp)
  qed
  show "insert (r_id x) ?r \<subseteq> ?l"
  proof
    fix i assume "i \<in> insert (r_id x) ?r"
    then consider "i = r_id x" | k where "k \<in> set (tree_nodes rows q)" "kid_of x k" "i \<in> failed_ids (tree_nodes rows q) k"
      by blast
    then show "i \<in> ?l"
    proof cases
      case 1
      then show ?thesis using x by (auto simp: failed_ids_def)
    next
      case (2 k)
      then obtain r where r: "r \<in> set (tree_nodes rows q)" "r_status r = StatusFailed"
        "r = k \<or> r_id k \<in> set (r_call_stack r)" "i = r_id r" by (auto simp: failed_ids_def)
      have kr: "k \<in> set rows" "r \<in> set rows" using 2(1) r(1) by (auto simp: set_tree_nodes)
      have "r_id x \<in> set (r_call_stack r)"
        using r(3) parent_in_stack [OF wf kr(1) xr(1)] stack_closed [OF wf kr(2,1) _ xr(1)] 2(2)
        by (auto simp: kid_of_iff)
      then show ?thesis using r by (auto simp: failed_ids_def)
    qed
  qed
qed


subsection \<open>What the walk does\<close>

definition has_kid :: "row list \<Rightarrow> row \<Rightarrow> bool" where
  "has_kid N r \<longleftrightarrow> r_task r \<noteq> [] \<and> (\<exists>k \<in> set N. kid_of r k)"

definition live_kid :: "row list \<Rightarrow> row \<Rightarrow> bool" where
  "live_kid N r \<longleftrightarrow> (\<exists>k \<in> set N. kid_of r k \<and> r_status k \<in> {StatusFailed, StatusPaused})"

definition revived :: "row list \<Rightarrow> row \<Rightarrow> row" where
  "revived N r = set_revived (has_kid N r)
     (if \<not> has_kid N r then PhaseNone else if live_kid N r then PhaseChildren else PhaseCollecting) r"

definition walked :: "row list \<Rightarrow> string set \<Rightarrow> row \<Rightarrow> row" where
  "walked N D r = (if r_id r \<in> D then revived N r else r)"

definition walk_ok :: "row list \<Rightarrow> revive_state \<Rightarrow> bool" where
  "walk_ok N v \<longleftrightarrow> v_nodes v = map (walked N (set (v_dirty v))) N \<and> distinct (v_dirty v) \<and>
     set (v_dirty v) \<subseteq> r_id ` {r \<in> set N. r_status r = StatusFailed} \<and>
     (\<forall>x \<in> set N. r_id x \<in> set (v_dirty v) \<longrightarrow> failed_ids N x \<subseteq> set (v_dirty v))"

lemma walked_simps [simp]:
  "r_id (walked N D r) = r_id r" "in_batch i t e (walked N D r) = in_batch i t e r"
  "r_status (walked N D r) = (if r_id r \<in> D then StatusRunning else r_status r)"
  by (simp_all add: walked_def revived_def set_revived_def in_batch_def)

lemma walk_find:
  "walk_ok N v \<Longrightarrow> distinct (map r_id N) \<Longrightarrow> x \<in> set N \<Longrightarrow>
     find_row (v_nodes v) (r_id x) = Some (walked N (set (v_dirty v)) x)"
  unfolding walk_ok_def by (simp add: find_row_map find_row_distinct [THEN iffD2])

lemma walk_status:
  "walk_ok N v \<Longrightarrow> distinct (map r_id N) \<Longrightarrow> x \<in> set N \<Longrightarrow>
     node_status v (r_id x) = Some (if r_id x \<in> set (v_dirty v) then StatusRunning else r_status x)"
  by (simp add: node_status_def walk_find)

text \<open>The outcome of a walk that adds the given ids.\<close>

definition walk_post :: "row list \<Rightarrow> revive_state \<Rightarrow> string set \<Rightarrow> revive_state \<Rightarrow> bool" where
  "walk_post N v S v' \<longleftrightarrow> walk_ok N v' \<and> set (v_dirty v') = set (v_dirty v) \<union> S"

lemma mark_revived_ok:
  assumes N: "distinct (map r_id N)" and v: "walk_ok N v" and x: "x \<in> set N" "r_status x = StatusFailed" "r_id x \<notin> set (v_dirty v)"
    and ids: "failed_ids N x \<subseteq> insert (r_id x) (set (v_dirty v))"
    and ph: "hb = has_kid N x" "ph = (if \<not> has_kid N x then PhaseNone else if live_kid N x then PhaseChildren else PhaseCollecting)"
  shows "walk_post N v {r_id x} (mark_revived (r_id x) hb ph v)"
proof -
  let ?D = "set (v_dirty v)"
  have "v_nodes (mark_revived (r_id x) hb ph v) = map (walked N (insert (r_id x) ?D)) N"
    unfolding mark_revived_def using v x
  proof (simp add: walk_ok_def, intro ballI)
    fix r assume r: "r \<in> set N"
    have "r = x" if "r_id r = r_id x" using distinct_ids_inj [OF N r x(1) that] .
    then show "(r_id r = r_id x \<longrightarrow> set_revived hb ph (walked N ?D r) = walked N (insert (r_id x) ?D) r) \<and>
        (r_id r \<noteq> r_id x \<longrightarrow> walked N ?D r = walked N (insert (r_id x) ?D) r)"
      using x(3) ph by (auto simp: walked_def revived_def)
  qed
  moreover have "failed_ids N y \<subseteq> insert (r_id x) ?D" if "y \<in> set N" "r_id y \<in> insert (r_id x) ?D" for y
    using that v ids distinct_ids_inj [OF N that(1) x(1)] by (auto simp: walk_ok_def)
  ultimately show ?thesis
    using v x unfolding walk_post_def walk_ok_def by (auto simp: mark_revived_def)
qed

lemma revive_kids_spec:
  assumes ft: "failed_tree rows q"
  defines "N \<equiv> tree_nodes rows q"
  assumes rec: "\<And>k v. k \<in> set K \<Longrightarrow> walk_ok N v \<Longrightarrow> \<exists>res. rec (r_id k) v = Some res \<and>
      (\<forall>v'. res = Inr v' \<longrightarrow> walk_post N v (failed_ids N k) v')" and K: "set K \<subseteq> set N"
  shows "walk_ok N v \<Longrightarrow> \<exists>res. revive_kids rec nid (map r_id K) act v = Some res \<and>
     (\<forall>act' v'. res = Inr (act', v') \<longrightarrow> walk_post N v (\<Union>k \<in> set K. failed_ids N k) v' \<and>
        (act' \<longleftrightarrow> act \<or> (\<exists>k \<in> set K. r_status k \<in> {StatusFailed, StatusPaused})))"
  using rec K
proof (induction K arbitrary: act v)
  case Nil
  then show ?case by (simp add: walk_post_def)
next
  case (Cons k K)
  note wf = failed_treeD(2) [OF ft]
  have dN: "distinct (map r_id N)" unfolding N_def by (rule nodes_distinct [OF wf])
  have k: "k \<in> set N" "k \<in> set rows" "root_of q k" using Cons.prems(3) by (auto simp: N_def set_tree_nodes)
  have st: "r_status k \<in> {StatusFailed, StatusPaused, StatusCompleted, StatusRaised}" using node_statuses [OF ft k(2,3)] .
  show ?case
  proof (cases "node_status v (r_id k) = Some StatusRaised")
    case True
    then have "r_status k = StatusRaised" using walk_status [OF Cons.prems(1) dN k(1)] by (auto split: if_splits)
    moreover then have "failed_ids N k = {}" using failed_ids_none [OF ft k(2)] by (simp add: N_def)
    moreover have "walk_ok N (v\<lparr>v_overridden := nid\<rparr>)" using Cons.prems(1) by (simp add: walk_ok_def)
    ultimately show ?thesis
      using True Cons.IH [of "v\<lparr>v_overridden := nid\<rparr>" act] Cons.prems(2,3) by (simp add: walk_post_def)
  next
    case False
    obtain res where res: "rec (r_id k) v = Some res" "\<And>v'. res = Inr v' \<Longrightarrow> walk_post N v (failed_ids N k) v'"
      using Cons.prems(1,2) by (meson list.set_intros(1))
    show ?thesis
    proof (cases res)
      case (Inl e)
      then show ?thesis using False res(1) by simp
    next
      case (Inr v1)
      have p1: "walk_post N v (failed_ids N k) v1" using res(2) Inr .
      have w1: "walk_ok N v1" using p1 by (simp add: walk_post_def)
      let ?a = "act \<or> (case node_status v1 (r_id k) of None \<Rightarrow> False | Some st \<Rightarrow> \<not> Terminal st)"
      have fk: "r_status k = StatusFailed \<Longrightarrow> r_id k \<in> set (v_dirty v1)"
        using p1 k(1) by (auto simp: walk_post_def failed_ids_def)
      have nf: "r_status k \<noteq> StatusFailed \<Longrightarrow> r_id k \<notin> set (v_dirty v1)"
      proof
        assume nk: "r_status k \<noteq> StatusFailed" and "r_id k \<in> set (v_dirty v1)"
        then obtain r where "r \<in> set N" "r_status r = StatusFailed" "r_id r = r_id k"
          using p1 by (force simp: walk_post_def walk_ok_def)
        then show False using distinct_ids_inj [OF dN _ k(1)] nk by blast
      qed
      have a: "?a \<longleftrightarrow> act \<or> r_status k \<in> {StatusFailed, StatusPaused}"
      proof -
        have "r_id k \<in> set (v_dirty v1) \<longleftrightarrow> r_status k = StatusFailed" using fk nf by blast
        then have "node_status v1 (r_id k) = Some (if r_status k = StatusFailed then StatusRunning else r_status k)"
          using walk_status [OF w1 dN k(1)] by simp
        then show ?thesis using st by auto
      qed
      have "\<exists>res. revive_kids rec nid (map r_id K) ?a v1 = Some res \<and>
         (\<forall>act' v'. res = Inr (act', v') \<longrightarrow> walk_post N v1 (\<Union>k \<in> set K. failed_ids N k) v' \<and>
           (act' \<longleftrightarrow> ?a \<or> (\<exists>k \<in> set K. r_status k \<in> {StatusFailed, StatusPaused})))"
        by (rule Cons.IH [OF w1]) (use Cons.prems(2,3) in auto)
      then obtain res2 where r2: "revive_kids rec nid (map r_id K) ?a v1 = Some res2"
        "\<And>act' v'. res2 = Inr (act', v') \<Longrightarrow> walk_post N v1 (\<Union>k \<in> set K. failed_ids N k) v' \<and>
           (act' \<longleftrightarrow> ?a \<or> (\<exists>k \<in> set K. r_status k \<in> {StatusFailed, StatusPaused}))"
        by blast
      have "revive_kids rec nid (map r_id (k # K)) act v = Some res2"
        using False res(1) Inr r2(1) by simp
      moreover have "walk_post N v (\<Union>k \<in> set (k # K). failed_ids N k) v' \<and>
          (act' \<longleftrightarrow> act \<or> (\<exists>k \<in> set (k # K). r_status k \<in> {StatusFailed, StatusPaused}))"
        if "res2 = Inr (act', v')" for act' v'
        using r2(2) [OF that] p1 a unfolding walk_post_def by auto
      ultimately show ?thesis by blast
    qed
  qed
qed


lemma batch_kids_walk:
  "walk_ok N v \<Longrightarrow> batch_kids x (v_nodes v) = map r_id (filter (kid_of x) N)"
  by (simp add: batch_kids_def walk_ok_def filter_map kid_of_def [abs_def] comp_def)

lemma own_not_below:
  assumes ft: "failed_tree rows q" and x: "x \<in> set (tree_nodes rows q)" and k: "k \<in> set (tree_nodes rows q)" "kid_of x k"
  shows "r_id x \<notin> failed_ids (tree_nodes rows q) k"
proof
  note wf = failed_treeD(2) [OF ft]
  have xr: "x \<in> set rows" "k \<in> set rows" "child_of x k" using x k by (auto simp: set_tree_nodes kid_of_iff)
  assume "r_id x \<in> failed_ids (tree_nodes rows q) k"
  then obtain r where r: "r \<in> set rows" "r_id r = r_id x" "r = k \<or> r_id k \<in> set (r_call_stack r)"
    by (auto simp: failed_ids_def set_tree_nodes)
  then have "r = x" using wf_inj [OF wf r(1) xr(1)] by blast
  then show False
    using r(3) xr not_own_child [OF wf xr(1)] stack_shorter [OF wf xr(1,2)] parent_in_stack [OF wf xr(2,1,3)] by auto
qed

lemma no_kids_ids:
  assumes "failed_tree rows q" "x \<in> set (tree_nodes rows q)" "r_status x = StatusFailed"
    "\<And>k. k \<in> set (tree_nodes rows q) \<Longrightarrow> \<not> kid_of x k"
  shows "failed_ids (tree_nodes rows q) x = {r_id x}" "\<not> has_kid (tree_nodes rows q) x"
  using failed_ids_kids [OF assms(1-3)] assms(4) by (auto simp: has_kid_def)

lemma revive_spec:
  assumes ft: "failed_tree rows q"
  defines "N \<equiv> tree_nodes rows q"
  shows "x \<in> set N \<Longrightarrow> walk_ok N v \<Longrightarrow> 1 \<le> f \<Longrightarrow>
    (\<And>r. r \<in> set N \<Longrightarrow> r_status r = StatusFailed \<Longrightarrow> r = x \<or> r_id x \<in> set (r_call_stack r) \<Longrightarrow>
       length (r_call_stack r) + 2 \<le> length (r_call_stack x) + f) \<Longrightarrow>
    \<exists>res. revive f defs force (r_id x) v = Some res \<and> (\<forall>v'. res = Inr v' \<longrightarrow> walk_post N v (failed_ids N x) v')"
proof (induction f arbitrary: x v)
  case (Suc f)
  note wf = failed_treeD(2) [OF ft]
  have dN: "distinct (map r_id N)" unfolding N_def by (rule nodes_distinct [OF wf])
  let ?D = "set (v_dirty v)"
  have x: "x \<in> set rows" "root_of q x" using Suc.prems(1) by (auto simp: N_def set_tree_nodes)
  have find: "find_row (v_nodes v) (r_id x) = Some (walked N ?D x)" by (rule walk_find [OF Suc.prems(2) dN Suc.prems(1)])
  show ?case
  proof (cases "r_id x \<in> ?D \<or> r_status x \<noteq> StatusFailed")
    case True
    then have "failed_ids N x \<subseteq> ?D"
      using Suc.prems(1,2) failed_ids_none [OF ft x(1)] by (auto simp: walk_ok_def N_def)
    moreover have "r_status (walked N ?D x) \<noteq> StatusFailed" using True by auto
    ultimately show ?thesis using find Suc.prems(2) by (auto simp: walk_post_def)
  next
    case False
    then have xf: "r_status x = StatusFailed" "r_id x \<notin> ?D" and w: "walked N ?D x = x" by (auto simp: walked_def)
    let ?K = "filter (kid_of x) N"
    note bk = batch_kids_walk [OF Suc.prems(2), of x]
    have lone: "\<exists>v'. walk_post N v (failed_ids N x) (mark_revived (r_id x) False PhaseNone v)" if "?K = []"
    proof -
      have nk: "\<not> kid_of x k" if "k \<in> set N" for k using \<open>?K = []\<close> that by (auto simp: filter_empty_conv)
      note ids = no_kids_ids [OF ft Suc.prems(1) [unfolded N_def] xf(1)]
      show ?thesis
        using mark_revived_ok [OF dN Suc.prems(2,1) xf, of False PhaseNone] ids nk by (simp add: N_def)
    qed
    show ?thesis
    proof (cases "?K = []")
      case True
      then show ?thesis
        using find w xf bk lone [OF True] by (auto split: sum.splits)
    next
      case kids: False
      then obtain k0 where k0: "k0 \<in> set N" "kid_of x k0" by (auto simp: filter_empty_conv)
      then have "k0 \<in> set rows" "r_parent_id k0 = r_id x" "r_spawn_task_id k0 = r_task x"
        by (auto simp: N_def set_tree_nodes kid_of_iff child_of_def batch_of_def)
      then have task: "r_task x \<noteq> []" using wf_spawn [OF wf] wf_id [OF wf x(1)] by metis
      have hk: "has_kid N x" using k0 task by (auto simp: has_kid_def)
      have f1: "1 \<le> f" using Suc.prems(4) [OF Suc.prems(1) xf(1)] by simp
      have "\<exists>res. revive_kids (revive f defs force) (r_id x) (map r_id ?K) False v = Some res \<and>
         (\<forall>act' v'. res = Inr (act', v') \<longrightarrow> walk_post N v (\<Union>k \<in> set ?K. failed_ids N k) v' \<and>
           (act' \<longleftrightarrow> False \<or> (\<exists>k \<in> set ?K. r_status k \<in> {StatusFailed, StatusPaused})))"
        unfolding N_def
      proof (rule revive_kids_spec [OF ft], unfold N_def [symmetric])
        fix k v assume k: "k \<in> set ?K" and v: "walk_ok N v"
        then have kr: "k \<in> set N" "k \<in> set rows" "child_of x k" by (auto simp: N_def set_tree_nodes kid_of_iff)
        have cs: "r_call_stack k = r_call_stack x @ [r_id x]" using parent_in_stack [OF wf kr(2) x(1) kr(3)] by blast
        show "\<exists>res. revive f defs force (r_id k) v = Some res \<and> (\<forall>v'. res = Inr v' \<longrightarrow> walk_post N v (failed_ids N k) v')"
        proof (rule Suc.IH [OF kr(1) v f1])
          fix r assume r: "r \<in> set N" "r_status r = StatusFailed" "r = k \<or> r_id k \<in> set (r_call_stack r)"
          then have rr: "r \<in> set rows" by (simp add: N_def set_tree_nodes)
          have "r_id x \<in> set (r_call_stack r)"
            using r(3) cs stack_closed [OF wf rr kr(2) _ x(1) kr(3)] by auto
          then show "length (r_call_stack r) + 2 \<le> length (r_call_stack k) + f"
            using Suc.prems(4) [OF r(1,2)] cs by simp
        qed
      qed (use Suc.prems(2) in auto)
      then obtain res where res: "revive_kids (revive f defs force) (r_id x) (map r_id ?K) False v = Some res"
        "\<And>act' v'. res = Inr (act', v') \<Longrightarrow> walk_post N v (\<Union>k \<in> set ?K. failed_ids N k) v' \<and>
           (act' \<longleftrightarrow> (\<exists>k \<in> set ?K. r_status k \<in> {StatusFailed, StatusPaused}))" by auto
      have bk': "\<exists>i is. batch_kids x (v_nodes v) = i # is" using bk kids by (cases "batch_kids x (v_nodes v)") auto
      show ?thesis
      proof (cases res)
        case (Inl e)
        then show ?thesis using find w xf task bk bk' res(1) by auto
      next
        case (Inr av)
        obtain act v1 where av: "av = (act, v1)" by fastforce
        have p: "walk_post N v (\<Union>k \<in> set ?K. failed_ids N k) v1" "act \<longleftrightarrow> live_kid N x"
          using res(2) [of act v1] Inr av by (auto simp: live_kid_def)
        have nx: "r_id x \<notin> set (v_dirty v1)"
          using p(1) xf(2) own_not_below [OF ft Suc.prems(1) [unfolded N_def]] by (auto simp: walk_post_def N_def)
        have ids: "failed_ids N x = insert (r_id x) (\<Union>k \<in> set ?K. failed_ids N k)"
          using failed_ids_kids [OF ft Suc.prems(1) [unfolded N_def] xf(1)] by (simp add: N_def)
        have "walk_post N v1 {r_id x} (mark_revived (r_id x) True (if act then PhaseChildren else PhaseCollecting) v1)"
          using p ids hk by (intro mark_revived_ok [OF dN _ Suc.prems(1) xf(1) nx]) (auto simp: walk_post_def)
        then have "walk_post N v (failed_ids N x) (mark_revived (r_id x) True (if act then PhaseChildren else PhaseCollecting) v1)"
          using p(1) ids by (auto simp: walk_post_def)
        then show ?thesis using find w xf task bk bk' res(1) Inr av by auto
      qed
    qed
  qed
qed simp


subsection \<open>What the retry writes\<close>

definition revive_row :: "row list \<Rightarrow> string \<Rightarrow> int \<Rightarrow> row \<Rightarrow> row" where
  "revive_row N overridden now r = set_update (revive_params overridden now r (revived N r)) r"

lemma revive_row_simps [simp]:
  "r_status (revive_row N ov now r) = kept_status (r_status r) StatusRunning"
  "r_phase (revive_row N ov now r) =
     (if \<not> has_kid N r then PhaseNone else if live_kid N r then PhaseChildren else PhaseCollecting)"
  "r_worker_id (revive_row N ov now r) = None" "r_superseded_at (revive_row N ov now r) = r_superseded_at r"
  "r_task (revive_row N ov now r) = r_task r"
  "r_task_epoch (revive_row N ov now r) = (if has_kid N r then r_task_epoch r else r_task_epoch r + 1)"
  "r_id (revive_row N ov now r) = r_id r" "same_place r (revive_row N ov now r)"
  by (simp_all add: revive_row_def set_update_def revive_params_def revived_def set_revived_def same_place_def)

lemma write_revived_rows:
  assumes d: "distinct (map r_id (s_rows t))" "distinct (map r_id N)" and v: "walk_ok N v"
    and r: "r \<in> set (s_rows t)" "r \<in> set N" "r_id r \<in> set (v_dirty v)"
  shows "s_rows (write_revived N v now (r_id r) t) = put_row (revive_row N (v_overridden v) now r) (s_rows t)"
proof -
  have f: "find_row N (r_id r) = Some r" "find_row (v_nodes v) (r_id r) = Some (revived N r)"
    using find_row_distinct [OF d(2)] walk_find [OF v d(2) r(2)] r by (auto simp: walked_def)
  let ?p = "revive_params (v_overridden v) now r (revived N r)"
  have fence: "fence ?p r" "\<And>x. fence ?p x \<Longrightarrow> r_id x = r_id r"
    by (simp_all add: fence_def revive_params_def revived_def set_revived_def)
  have "map (\<lambda>x. if fence ?p x then set_update ?p x else x) (s_rows t) = put_row (set_update ?p r) (s_rows t)"
    by (rule put_row_fence [where P = "fence ?p", OF d(1) r(1) fence(1) fence(2)])
      (auto simp: set_update_def)
  then show ?thesis
    by (simp add: write_revived_def f q_UpdateInstance_def revive_row_def)
qed

lemma fold_write_revived:
  assumes d: "distinct (map r_id N)" and v: "walk_ok N v"
  shows "distinct (map r_id (s_rows t)) \<Longrightarrow> distinct D \<Longrightarrow> set D \<subseteq> set (v_dirty v) \<Longrightarrow>
    (\<forall>i \<in> set D. \<exists>r. r \<in> set N \<and> r \<in> set (s_rows t) \<and> r_id r = i) \<Longrightarrow>
    s_rows (fold (write_revived N v now) D t) =
      map (\<lambda>r. if r_id r \<in> set D then revive_row N (v_overridden v) now r else r) (s_rows t)"
proof (induction D arbitrary: t)
  case (Cons i D)
  let ?F = "revive_row N (v_overridden v) now"
  let ?t = "write_revived N v now i t"
  obtain r where r: "r \<in> set N" "r \<in> set (s_rows t)" "r_id r = i" using Cons.prems(4) by auto
  have rows: "s_rows ?t = map (\<lambda>x. if r_id x = i then ?F x else x) (s_rows t)"
  proof -
    have "r_id r \<in> set (v_dirty v)" using r(3) Cons.prems(3) by simp
    then have "s_rows (write_revived N v now (r_id r) t) = put_row (?F r) (s_rows t)"
      by (rule write_revived_rows [OF Cons.prems(1) d v r(2,1)])
    then have "s_rows ?t = put_row (?F r) (s_rows t)" by (simp only: r(3))
    also have "\<dots> = map (\<lambda>x. if r_id x = i then ?F x else x) (s_rows t)"
      unfolding put_row_def
    proof (rule map_cong [OF refl])
      fix x assume x: "x \<in> set (s_rows t)"
      show "(if r_id x = r_id (?F r) then ?F r else x) = (if r_id x = i then ?F x else x)"
      proof (cases "r_id x = i")
        case True
        then have "x = r" by (intro distinct_ids_inj [OF Cons.prems(1) x r(2)]) (simp add: r(3))
        then show ?thesis using r(3) by simp
      qed (simp add: r(3))
    qed
    finally show ?thesis .
  qed
  have ids: "map r_id (s_rows ?t) = map r_id (s_rows t)" using rows by simp
  have keep: "\<exists>r. r \<in> set N \<and> r \<in> set (s_rows ?t) \<and> r_id r = j" if j: "j \<in> set D" for j
  proof -
    have "\<exists>y. y \<in> set N \<and> y \<in> set (s_rows t) \<and> r_id y = j" using Cons.prems(4) j by (meson list.set_intros(2))
    then obtain y where y: "y \<in> set N" "y \<in> set (s_rows t)" "r_id y = j" by blast
    then have "r_id y \<noteq> i" using Cons.prems(2) j by auto
    then have "y \<in> set (s_rows ?t)" using y(2) unfolding rows by (force simp: image_iff)
    then show ?thesis using y by blast
  qed
  have "s_rows (fold (write_revived N v now) D ?t) =
      map (\<lambda>r. if r_id r \<in> set D then ?F r else r) (s_rows ?t)"
    by (rule Cons.IH) (use Cons.prems(1-3) ids keep in auto)
  then show ?case using rows Cons.prems(2) by auto
qed simp

text \<open>The table after a retry: failed rows revived, paused rows running.\<close>

definition retried :: "row list \<Rightarrow> row \<Rightarrow> string \<Rightarrow> int \<Rightarrow> row \<Rightarrow> row" where
  "retried N q ov now r =
     (if root_of q r \<and> r_status r = StatusFailed then revive_row N ov now r
      else if root_of q r \<and> r_status r = StatusPaused then set_status StatusRunning now r else r)"

lemma failed_ids_root:
  assumes ft: "failed_tree rows q" and r: "r \<in> set rows"
  shows "r_id r \<in> failed_ids (tree_nodes rows q) q \<longleftrightarrow> root_of q r \<and> r_status r = StatusFailed"
proof
  assume "r_id r \<in> failed_ids (tree_nodes rows q) q"
  then obtain y where "y \<in> set rows" "root_of q y" "r_status y = StatusFailed" "r_id y = r_id r"
    by (auto simp: failed_ids_def set_tree_nodes)
  then show "root_of q r \<and> r_status r = StatusFailed" using wf_inj [OF failed_treeD(2) [OF ft] _ r] by blast
next
  assume a: "root_of q r \<and> r_status r = StatusFailed"
  then have "r \<in> set (tree_nodes rows q)" using live_in_nodes [OF ft r] by simp
  moreover have "r = q \<or> r_id q \<in> set (r_call_stack r)"
    using root_above(1) [OF failed_treeD(2) [OF ft] failed_treeD(3) [OF ft] r] a by blast
  ultimately show "r_id r \<in> failed_ids (tree_nodes rows q) q" using a by (auto simp: failed_ids_def)
qed

lemma failed_depth:
  assumes ft: "failed_tree rows q" and r: "r \<in> set (tree_nodes rows q)" "r_status r = StatusFailed"
  shows "length (r_call_stack r) < length (tree_nodes rows q)"
proof -
  note wf = failed_treeD(2) [OF ft]
  have rr: "r \<in> set rows" "root_of q r" using r by (auto simp: set_tree_nodes)
  have "set (r_call_stack r @ [r_id r]) \<subseteq> r_id ` set (tree_nodes rows q)"
  proof
    fix i assume i: "i \<in> set (r_call_stack r @ [r_id r])"
    show "i \<in> r_id ` set (tree_nodes rows q)"
    proof (cases "i = r_id r")
      case False
      then obtain a where a: "a \<in> set rows" "r_id a = i" "r_root_id a = r_root_id r"
        using stack_member [OF wf rr(1)] i by auto
      then have "r_status a = StatusFailed" using failed_ancestor [OF ft rr r(2) a(1)] False i by auto
      then have "a \<in> set (tree_nodes rows q)" using live_in_nodes [OF ft a(1)] a(3) rr(2) by (simp add: root_of_def)
      then show ?thesis using a(2) by blast
    qed (use r in simp)
  qed
  then have "card (set (r_call_stack r @ [r_id r])) \<le> card (r_id ` set (tree_nodes rows q))"
    by (intro card_mono) auto
  also have "\<dots> \<le> length (tree_nodes rows q)" by (metis card_image_le card_length finite_set le_trans)
  finally show ?thesis using distinct_card [OF conjunct1 [OF stack_distinct [OF wf rr(1)]]] by simp
qed

lemma retry_body_nodes:
  "retry_body defs force (r_id q) now s =
     (case revive (length (tree_nodes (s_rows s) q) + 1) defs force (r_id q)
         \<lparr>v_nodes = tree_nodes (s_rows s) q, v_dirty = [], v_overridden = []\<rparr> of
        None \<Rightarrow> Inl ErrInternal
      | Some (Inl e) \<Rightarrow> Inl e
      | Some (Inr v) \<Rightarrow>
          Inr ((v_dirty v, map r_id (filter (\<lambda>r. r_status r = StatusPaused) (v_nodes v))),
            fold (write_revived (tree_nodes (s_rows s) q) v now) (v_dirty v)
              (updateStatusIn (map r_id (filter (\<lambda>r. r_status r = StatusPaused) (v_nodes v))) StatusRunning now s)))"
  unfolding retry_body_def tree_nodes_def Let_def by (rule refl)

lemma retry_rows:
  assumes ft: "failed_tree (s_rows s) q"
  shows "(\<exists>e. retry_body defs force (r_id q) now s = Inl e) \<or>
    (\<exists>res s' ov. retry_body defs force (r_id q) now s = Inr (res, s') \<and>
       s_rows s' = map (retried (tree_nodes (s_rows s) q) q ov now) (s_rows s))"
proof -
  let ?rows = "s_rows s" and ?N = "tree_nodes (s_rows s) q"
  note wf = failed_treeD(2) [OF ft]
  have dN: "distinct (map r_id ?N)" by (rule nodes_distinct [OF wf])
  let ?v0 = "\<lparr>v_nodes = ?N, v_dirty = [], v_overridden = []\<rparr>"
  have v0: "walk_ok ?N ?v0" by (simp add: walk_ok_def walked_def map_idI)
  have q: "q \<in> set ?N" using live_in_nodes [OF ft failed_treeD(3) [OF ft] failed_treeD(6) [OF ft]] failed_treeD(5) [OF ft] by simp
  have "\<exists>res. revive (length ?N + 1) defs force (r_id q) ?v0 = Some res \<and>
      (\<forall>v'. res = Inr v' \<longrightarrow> walk_post ?N ?v0 (failed_ids ?N q) v')"
  proof (rule revive_spec [OF ft q v0])
    show "1 \<le> length ?N + 1" by simp
    fix r assume "r \<in> set ?N" "r_status r = StatusFailed"
    then show "length (r_call_stack r) + 2 \<le> length (r_call_stack q) + (length ?N + 1)"
      using failed_depth [OF ft] by fastforce
  qed
  then obtain res where res: "revive (length ?N + 1) defs force (r_id q) ?v0 = Some res"
    "\<And>v'. res = Inr v' \<Longrightarrow> walk_post ?N ?v0 (failed_ids ?N q) v'" by blast
  show ?thesis
  proof (cases res)
    case (Inl e)
    then show ?thesis unfolding retry_body_nodes res(1) by simp
  next
    case (Inr v)
    have v: "walk_ok ?N v" "set (v_dirty v) = failed_ids ?N q" using res(2) [OF Inr] by (auto simp: walk_post_def)
    let ?resumed = "map r_id (filter (\<lambda>r. r_status r = StatusPaused) (v_nodes v))"
    let ?s1 = "updateStatusIn ?resumed StatusRunning now s"
    have vn: "v_nodes v = map (walked ?N (set (v_dirty v))) ?N" using v(1) by (simp add: walk_ok_def)
    have dirty: "r_id r \<in> set (v_dirty v) \<longleftrightarrow> root_of q r \<and> r_status r = StatusFailed" if "r \<in> set ?rows" for r
      using failed_ids_root [OF ft that] v(2) by simp
    have resumed: "r_id r \<in> set ?resumed \<longleftrightarrow> root_of q r \<and> r_status r = StatusPaused" if r: "r \<in> set ?rows" for r
    proof
      assume "r_id r \<in> set ?resumed"
      then obtain y where y: "y \<in> set ?N" "r_status (walked ?N (set (v_dirty v)) y) = StatusPaused" "r_id y = r_id r"
        unfolding vn by auto
      then have "y = r" using wf_inj [OF wf _ r] by (auto simp: set_tree_nodes)
      then show "root_of q r \<and> r_status r = StatusPaused" using y by (auto simp: set_tree_nodes split: if_splits)
    next
      assume a: "root_of q r \<and> r_status r = StatusPaused"
      then have "r \<in> set ?N" using live_in_nodes [OF ft r] by simp
      moreover have "r_status (walked ?N (set (v_dirty v)) r) = StatusPaused" using a dirty [OF r] by simp
      ultimately show "r_id r \<in> set ?resumed" unfolding vn by (force simp: filter_map)
    qed
    have rows1: "s_rows ?s1 = map (\<lambda>r. if r_id r \<in> set ?resumed then set_status StatusRunning now r else r) ?rows"
      by (simp add: updateStatusIn_def q_SetStatusIn_def) (auto simp: filter_empty_conv intro!: map_idI [symmetric])
    have ids1: "map r_id (s_rows ?s1) = map r_id ?rows" unfolding rows1 by (simp add: set_status_def)
    have "s_rows (fold (write_revived ?N v now) (v_dirty v) ?s1) =
        map (\<lambda>r. if r_id r \<in> set (v_dirty v) then revive_row ?N (v_overridden v) now r else r) (s_rows ?s1)"
    proof (rule fold_write_revived [OF dN v(1)])
      show "distinct (map r_id (s_rows ?s1))" unfolding ids1 by (rule wf_distinct [OF wf])
      show "\<forall>i \<in> set (v_dirty v). \<exists>r. r \<in> set ?N \<and> r \<in> set (s_rows ?s1) \<and> r_id r = i"
      proof
        fix i assume "i \<in> set (v_dirty v)"
        then obtain r where r: "r \<in> set ?N" "r_status r = StatusFailed" "r_id r = i"
          using v(2) by (auto simp: failed_ids_def)
        then have rr: "r \<in> set ?rows" by (simp add: set_tree_nodes)
        then have "r \<in> set (s_rows ?s1)" unfolding rows1 using resumed [OF rr] r(2) by (force simp: image_iff)
        then show "\<exists>r. r \<in> set ?N \<and> r \<in> set (s_rows ?s1) \<and> r_id r = i" using r by blast
      qed
    qed (use v(1) in \<open>auto simp: walk_ok_def\<close>)
    also have "\<dots> = map (retried ?N q (v_overridden v) now) ?rows"
      unfolding rows1 map_map
    proof (rule map_cong [OF refl])
      fix r assume r: "r \<in> set ?rows"
      show "((\<lambda>r. if r_id r \<in> set (v_dirty v) then revive_row ?N (v_overridden v) now r else r) \<circ>
          (\<lambda>r. if r_id r \<in> set ?resumed then set_status StatusRunning now r else r)) r = retried ?N q (v_overridden v) now r"
        unfolding comp_def resumed [OF r] using dirty [OF r] by (auto simp: retried_def set_status_def)
    qed
    finally show ?thesis unfolding retry_body_nodes res(1) Inr by auto
  qed
qed


subsection \<open>Retrying keeps the invariant\<close>

lemma retried_simps [simp]:
  "\<not> root_of q r \<Longrightarrow> retried N q ov now r = r"
  "concluded (r_status r) \<Longrightarrow> retried N q ov now r = r"
  "same_place r (retried N q ov now r)"
proof -
  have "same_place r (set_status StatusRunning now r)" by (simp add: same_place_def set_status_def)
  then show "same_place r (retried N q ov now r)" by (simp add: retried_def del: revive_row_simps(1-7))
qed (auto simp: retried_def concluded_def)

lemma retried_live:
  "root_of q r \<Longrightarrow> r_status r = StatusFailed \<Longrightarrow> retried N q ov now r = revive_row N ov now r"
  "root_of q r \<Longrightarrow> r_status r = StatusPaused \<Longrightarrow> retried N q ov now r = set_status StatusRunning now r"
  by (simp_all add: retried_def)

lemma set_status_simps [simp]:
  "r_status (set_status st now r) = st" "r_phase (set_status st now r) = r_phase r"
  "r_task (set_status st now r) = r_task r" "r_task_epoch (set_status st now r) = r_task_epoch r"
  "r_worker_id (set_status st now r) = r_worker_id r" "r_superseded_at (set_status st now r) = r_superseded_at r"
  by (simp_all add: set_status_def)

lemma node_cases:
  assumes "failed_tree rows q" "r \<in> set rows" "root_of q r"
  obtains "r_status r = StatusFailed" | "r_status r = StatusPaused" | "concluded (r_status r)"
  using node_statuses [OF assms] by (auto simp: concluded_def)

lemma retried_status:
  assumes "failed_tree rows q" "r \<in> set rows" "root_of q r"
  shows "r_status (retried N q ov now r) = (if concluded (r_status r) then r_status r else StatusRunning)"
  using node_cases [OF assms]
  by cases (auto simp: retried_live [OF assms(3)] concluded_def kept_status_def)

lemma retried_edge:
  fixes ov :: string and now :: int
  assumes ft: "failed_tree rows q" and pc: "p \<in> set rows" "c \<in> set rows" "child_of p c" "edge_ok p c"
  defines "g \<equiv> retried (tree_nodes rows q) q ov now"
  shows "edge_ok (g p) (g c)"
proof -
  let ?N = "tree_nodes rows q"
  note wf = failed_treeD(2) [OF ft]
  have up: "r_root_id c = r_root_id p" using parent_in_stack [OF wf pc(2,1,3)] by blast
  show ?thesis
  proof (cases "root_of q c \<and> \<not> concluded (r_status c)")
    case False
    then have "g c = c" "\<not> root_of q c \<Longrightarrow> g p = p" using up by (auto simp: g_def root_of_def)
    then show ?thesis using False pc(4) by auto
  next
    case True
    then have rc: "root_of q c" "r_status c \<in> {StatusFailed, StatusPaused}"
      using node_cases [OF ft pc(2)] by blast+
    note par = failed_parent [OF ft pc(2) rc(1) pc(1,3) rc(2)]
    have "c \<in> set ?N" using live_in_nodes [OF ft pc(2) rc] .
    moreover have "r_task p \<noteq> []"
      using par(1) wf_spawn [OF wf pc(2)] pc(3) wf_id [OF wf pc(1)] by (auto simp: batch_of_def child_of_def)
    ultimately have kid: "has_kid ?N p" "live_kid ?N p"
      using par(1) pc(3) rc(2) by (auto simp: has_kid_def live_kid_def kid_of_iff)
    have gc: "r_status (g c) = StatusRunning"
      using retried_status [OF ft pc(2) rc(1)] True by (simp add: g_def)
    have "same_place c (g c)" by (simp add: g_def)
    moreover have "r_status (g p) = StatusRunning \<and> r_phase (g p) = PhaseChildren \<and> r_task (g p) = r_task p \<and>
        r_task_epoch (g p) = r_task_epoch p"
      using par(3) kid by (auto simp: g_def retried_live [OF par(2)] kept_status_def)
    ultimately show ?thesis using gc par(1) by (auto simp: edge_ok_def batch_of_def same_place_def)
  qed
qed

lemma retried_wait:
  fixes ov :: string and now :: int
  assumes ft: "failed_tree rows q" and p: "p \<in> set rows"
  defines "g \<equiv> retried (tree_nodes rows q) q ov now"
  shows "wait_ok (g ` set rows) (g p)"
proof -
  let ?N = "tree_nodes rows q"
  note wf = failed_treeD(2) [OF ft]
  have sp: "same_place r (g r)" for r by (simp add: g_def)
  have kid: "child_of (g p) (g k) \<longleftrightarrow> child_of p k" for k
    using sp [of p] sp [of k] by (simp add: child_of_def same_place_def)
  have w: "wait_ok (set rows) p" using tree_invD(5) [OF failed_treeD(1) [OF ft] p] by simp
  show ?thesis unfolding wait_ok_def
  proof
    assume a: "r_phase (g p) = PhaseChildren \<and> \<not> Terminal (r_status (g p))"
    have "\<exists>k \<in> set rows. child_of p k \<and> batch_of (g p) (g k) \<and> \<not> Terminal (r_status (g k)) \<and>
        (Draining (r_status (g p)) \<longrightarrow> Busy (r_status (g k)))"
    proof (cases "root_of q p")
      case False
      then have gp: "g p = p" by (simp add: g_def)
      then obtain k where k: "k \<in> set rows" "child_of p k" "batch_of p k" "\<not> Terminal (r_status k)"
        "Draining (r_status p) \<longrightarrow> Busy (r_status k)" using w a by (auto simp: wait_ok_def)
      then have "g k = k" using parent_in_stack [OF wf k(1) p k(2)] False by (simp add: g_def root_of_def)
      then show ?thesis using k gp by (intro bexI [of _ k]) auto
    next
      case True
      show ?thesis
      proof -
        have "\<exists>k \<in> set rows. child_of p k \<and> batch_of p k \<and> r_status k \<in> {StatusFailed, StatusPaused} \<and>
            r_task (g p) = r_task p \<and> r_task_epoch (g p) = r_task_epoch p \<and> r_status (g p) = StatusRunning"
          using node_cases [OF ft p True]
        proof cases
          case 1
          then have "has_kid ?N p" "live_kid ?N p"
            using a by (auto simp: g_def retried_live [OF True] split: if_splits)
          then show ?thesis using 1
            by (auto simp: live_kid_def g_def retried_live [OF True] kid_of_iff set_tree_nodes kept_status_def)
        next
          case 2
          then obtain k where k: "k \<in> set rows" "child_of p k" "batch_of p k" "\<not> Terminal (r_status k)"
            using w a by (auto simp: g_def retried_live [OF True] wait_ok_def)
          moreover have "root_of q k" using parent_in_stack [OF wf k(1) p k(2)] True by (simp add: root_of_def)
          ultimately show ?thesis using node_statuses [OF ft k(1)] 2
            by (intro bexI [of _ k]) (auto simp: g_def retried_live [OF True])
        next
          case 3
          then show ?thesis using a by (auto simp: g_def concluded_def)
        qed
        then obtain k where k: "k \<in> set rows" "child_of p k" "batch_of p k" "r_status k \<in> {StatusFailed, StatusPaused}"
          "r_task (g p) = r_task p" "r_task_epoch (g p) = r_task_epoch p" "r_status (g p) = StatusRunning" by blast
        have "root_of q k" using parent_in_stack [OF wf k(1) p k(2)] True by (simp add: root_of_def)
        then have "r_status (g k) = StatusRunning"
          using retried_status [OF ft k(1)] k(4) by (auto simp: g_def concluded_def)
        then show ?thesis using k sp [of k] by (intro bexI [of _ k]) (auto simp: batch_of_def same_place_def)
      qed
    qed
    then show "\<exists>k \<in> g ` set rows. child_of (g p) k \<and> batch_of (g p) k \<and> \<not> Terminal (r_status k) \<and>
        (Draining (r_status (g p)) \<longrightarrow> Busy (r_status k))" using kid by blast
  qed
qed

lemma retried_inv:
  assumes ft: "failed_tree rows q"
  shows "tree_inv (map (retried (tree_nodes rows q) q ov now) rows)"
proof (rule tree_inv_map [OF failed_treeD(1) [OF ft]])
  let ?g = "retried (tree_nodes rows q) q ov now"
  note wf = failed_treeD(2) [OF ft]
  fix q' r assume r: "q' \<in> set rows" "r \<in> set rows" "root_of q' r" "tree_ok (r_status q') (r_status r)"
  show "tree_ok (r_status (?g q')) (r_status (?g r))"
  proof (cases "root_of q r")
    case True
    then have "r_id q' = r_id q" using r(3) by (simp add: root_of_def)
    then have "q' = q" using wf_inj [OF wf r(1) failed_treeD(3) [OF ft]] by blast
    then show ?thesis
      using retried_status [OF ft r(2) True] retried_status [OF ft failed_treeD(3) [OF ft] failed_treeD(6) [OF ft]]
        failed_treeD(5) [OF ft] by (auto simp: concluded_def)
  next
    case False
    then have "q' \<noteq> q" using r(3) by (auto simp: root_of_def)
    have "r_parent_id q' = []"
      using root_above(2) [OF wf r(1,2,3)] root_exists [OF wf r(2)] wf_inj [OF wf r(1)] r(3)
      by (metis root_of_def)
    then have "\<not> root_of q q'"
      using wf_root [OF wf r(1)] \<open>q' \<noteq> q\<close> wf_inj [OF wf r(1) failed_treeD(3) [OF ft]] by (auto simp: root_of_def)
    then show ?thesis using False r(4) by simp
  qed
next
  fix r assume r: "r \<in> set rows" "node_ok r"
  show "node_ok (retried (tree_nodes rows q) q ov now r)"
    using r(2) by (auto simp: retried_def node_ok_def kept_status_def)
qed (use retried_edge [OF ft] retried_wait [OF ft] in auto)


text \<open>A retry whose two reads of the root agree keeps the invariant, whether or not it succeeds.\<close>

lemma RetryProcess_inv:
  assumes inv: "tree_inv (s_rows s)" and seen: "find_row (s_rows seen) i = find_row (s_rows s) i"
    and out: "RetryProcess defs i force now seen s = (res, s')"
  shows "tree_inv (s_rows s')"
proof (cases "retry_precheck i seen")
  case (Inl e)
  then show ?thesis using out inv by (simp add: RetryProcess_def)
next
  case (Inr u)
  then obtain q where q: "find_row (s_rows s) i = Some q" "r_parent_id q = []" "r_status q = StatusFailed"
    using seen by (auto simp: retry_precheck_def requireRoot_def split: option.splits sum.splits if_splits)
  have mem: "q \<in> set (s_rows s)" "r_id q = i"
    using find_row_distinct [OF wf_distinct [OF tree_invD(1) [OF inv]]] q(1) by auto
  have ft: "failed_tree (s_rows s) q" using inv q mem by (simp add: failed_tree_def)
  consider e where "retry_body defs force i now s = Inl e"
    | b t ov where "retry_body defs force i now s = Inr (b, t)"
        "s_rows t = map (retried (tree_nodes (s_rows s) q) q ov now) (s_rows s)"
    using retry_rows [OF ft, of defs force now] mem(2) by blast
  then show ?thesis
  proof cases
    case 1
    then show ?thesis using out inv Inr by (simp add: RetryProcess_def withTx_def)
  next
    case (2 b t ov)
    then have "s_rows s' = s_rows t"
      using out Inr by (auto simp: RetryProcess_def withTx_def Let_def split: prod.splits)
    then show ?thesis using 2(2) retried_inv [OF ft] by simp
  qed
qed

end
