(* ===== verification/External.thy ===== *)
theory External
  imports Lifecycle
begin

text \<open>
  External tasks (\<open>internal/db/db_signals.go\<close>, \<open>db_external.go\<close>, \<open>db_external_claim.go\<close>): a
  task parks its instance until an outcome is delivered. Every outcome is buffered as a signal and,
  when nobody is mid-flight on the row, the row is un-parked so that the engine consumes it. The
  work itself is leased to external workers through columns of its own.

  Where the sources read the clock several times in one operation, the model reads it once.
\<close>

subsection \<open>Signals\<close>

definition signals_for :: "string \<Rightarrow> string \<Rightarrow> store \<Rightarrow> signal list" where
  "signals_for i task s = filter (\<lambda>g. g_instance_id g = i \<and> g_task_id g = task) (s_signals s)"

definition q_PeekOldestSignal :: "string \<Rightarrow> string \<Rightarrow> store \<Rightarrow> signal option" where
  "q_PeekOldestSignal i task s =
     (case sort_key (\<lambda>g. (g_created_at g, g_seq g, g_id g)) (signals_for i task s) of
        [] \<Rightarrow> None | g # _ \<Rightarrow> Some g)"

definition q_CountBufferedSignals :: "string \<Rightarrow> string \<Rightarrow> store \<Rightarrow> nat" where
  "q_CountBufferedSignals i task s = length (signals_for i task s)"

definition q_InsertSignal :: "signal \<Rightarrow> store \<Rightarrow> (db_error, store) result" where
  "q_InsertSignal g s =
     (if g_id g \<in> g_id ` set (s_signals s) then Inl ErrInternal
      else Inr (s\<lparr>s_signals := s_signals s @ [g]\<rparr>))"

definition set_unparked :: "int \<Rightarrow> row \<Rightarrow> row" where
  "set_unparked now r = r\<lparr>r_phase := PhaseNone, r_wake_at := None, r_updated_at := now\<rparr>"

definition q_UnparkExternal :: "string \<Rightarrow> int \<Rightarrow> store \<Rightarrow> store" where
  "q_UnparkExternal i now = upd (\<lambda>r. r_id r = i) (set_unparked now)"

definition answered :: "store \<Rightarrow> row \<Rightarrow> bool" where
  "answered s r \<longleftrightarrow> list_ex (\<lambda>g. g_instance_id g = r_id r \<and> g_task_id g = r_task r) (s_signals s)"

definition q_UnparkAnsweredExternal :: "string list \<Rightarrow> int \<Rightarrow> store \<Rightarrow> string list \<times> store" where
  "q_UnparkAnsweredExternal ids now s =
     (let hit = (\<lambda>r. r_id r \<in> set ids \<and> r_phase r = PhaseExternal \<and>
                   r_status r \<in> {StatusRunning, StatusPaused, StatusPausing} \<and> answered s r)
      in (map r_id (filter hit (s_rows s)), upd hit (set_unparked now) s))"

text \<open>
  \<open>ArmExternalUnlessSignalled\<close>. Setting the external input changes the state, so \<open>encoded\<close> is what
  \<open>encodeState\<close> returns for the parked state: the columns, the content and the hashes.
\<close>

definition arm_body ::
  "inst \<Rightarrow> state_cols \<times> pending_object list \<times> string list \<Rightarrow> string \<Rightarrow> int option \<Rightarrow> int \<Rightarrow> store \<Rightarrow> bool tx" where
  "arm_body i encoded taskID wakeAt now s =
     (if find_row (s_rows s) (i_ID i) = None then Inl ErrNotFound
      else case q_PeekOldestSignal (i_ID i) taskID s of
        Some _ \<Rightarrow>
          (case write_progress (i\<lparr>i_Phase := PhaseNone, i_WakeAt := None\<rparr>) now s of
             Inl e \<Rightarrow> Inl e | Inr s' \<Rightarrow> Inr (False, s'))
      | None \<Rightarrow>
          (case encoded of (cols, pending, referenced) \<Rightarrow>
            (case write_inst (i\<lparr>i_Phase := PhaseExternal, i_WakeAt := wakeAt, i_cols := cols,
                                i_pending := pending, i_referenced := referenced\<rparr>) now s of
               Inl e \<Rightarrow> Inl e | Inr s' \<Rightarrow> Inr (True, s'))))"

definition ArmExternalUnlessSignalled ::
  "inst \<Rightarrow> state_cols \<times> pending_object list \<times> string list \<Rightarrow> string \<Rightarrow> int option \<Rightarrow> int \<Rightarrow> store
    \<Rightarrow> (db_error, bool) result \<times> store" where
  "ArmExternalUnlessSignalled i encoded taskID wakeAt now = withTx (arm_body i encoded taskID wakeAt now)"

definition live_at :: "string option \<Rightarrow> int option \<Rightarrow> int \<Rightarrow> bool" where
  "live_at worker expires now \<longleftrightarrow> worker \<noteq> None \<and> opt_gt expires now"

definition new_signal :: "string \<times> int \<Rightarrow> string \<Rightarrow> string \<Rightarrow> string \<Rightarrow> int \<Rightarrow> signal" where
  "new_signal mint i task outcome now =
     \<lparr>g_id = fst mint, g_seq = snd mint, g_instance_id = i, g_task_id = task, g_outcome = outcome, g_created_at = now\<rparr>"

text \<open>\<open>mint\<close> is what \<open>nextSignalID\<close> returns and \<open>outcome\<close> the marshalled outcome.\<close>

definition deliver_body :: "string \<Rightarrow> string \<Rightarrow> string \<times> int \<Rightarrow> string \<Rightarrow> int \<Rightarrow> store \<Rightarrow> bool tx" where
  "deliver_body i task mint outcome now s =
     (case find_row (s_rows s) i of
        None \<Rightarrow> Inl ErrNotFound
      | Some r \<Rightarrow>
          if r_status r \<notin> {StatusRunning, StatusPaused, StatusPausing} then Inl ErrConflict
          else
            (let armed = (r_phase r = PhaseExternal \<and> r_task r = task);
                 liveLeased = (live_at (r_worker_id r) (r_lease_expires_at r) now \<or>
                               live_at (r_external_worker_id r) (r_external_lease_expires_at r) now)
             in case q_InsertSignal (new_signal mint i task outcome now) s of
                  Inl e \<Rightarrow> Inl e
                | Inr s1 \<Rightarrow>
                    Inr (armed \<and> \<not> liveLeased,
                         if armed \<and> \<not> liveLeased then q_UnparkExternal i now s1 else s1)))"

definition DeliverSignal :: "string \<Rightarrow> string \<Rightarrow> string \<times> int \<Rightarrow> string \<Rightarrow> int \<Rightarrow> store
    \<Rightarrow> (db_error, bool) result \<times> store" where
  "DeliverSignal i task mint outcome now = withTx (deliver_body i task mint outcome now)"

subsection \<open>Answering a task\<close>

datatype claim_binding = Unclaimed | BoundToClaim int

fun claim_check :: "claim_binding \<Rightarrow> int \<Rightarrow> string option \<Rightarrow> int option \<Rightarrow> int \<Rightarrow> (db_error, unit) result" where
  "claim_check (BoundToClaim epoch) current worker expires now =
     (if epoch \<noteq> current then Inl ErrConflict else Inr ())"
| "claim_check Unclaimed current worker expires now =
     (if live_at worker expires now then Inl ErrConflict else Inr ())"

definition bufferOutcome :: "string \<Rightarrow> string \<Rightarrow> string \<times> int \<Rightarrow> string \<Rightarrow> int \<Rightarrow> store \<Rightarrow> (db_error, store) result" where
  "bufferOutcome i task mint outcome now = q_InsertSignal (new_signal mint i task outcome now)"

definition resolve_body ::
  "string \<Rightarrow> int \<Rightarrow> claim_binding \<Rightarrow> string \<times> int \<Rightarrow> string \<Rightarrow> int \<Rightarrow> store \<Rightarrow> unit tx" where
  "resolve_body i epoch claim mint outcome now s =
     (case find_row (s_rows s) i of
        None \<Rightarrow> Inl ErrNotFound
      | Some r \<Rightarrow>
          if \<not> AcceptsExternalOutcome (r_status r) \<or> r_phase r \<noteq> PhaseExternal then Inl ErrConflict
          else if live_at (r_worker_id r) (r_lease_expires_at r) now then Inl ErrConflict
          else if r_task_epoch r \<noteq> epoch then Inl ErrConflict
          else
            (case claim_check claim (r_external_claim_epoch r) (r_external_worker_id r)
                   (r_external_lease_expires_at r) now of
               Inl e \<Rightarrow> Inl e
             | Inr _ \<Rightarrow>
                 (case bufferOutcome i (r_task r) mint outcome now s of
                    Inl e \<Rightarrow> Inl e
                  | Inr s1 \<Rightarrow> Inr ((), q_UnparkExternal i now s1))))"

definition ResolveExternalTask ::
  "string \<Rightarrow> int \<Rightarrow> claim_binding \<Rightarrow> string \<times> int \<Rightarrow> string \<Rightarrow> int \<Rightarrow> store
    \<Rightarrow> (db_error, unit) result \<times> store" where
  "ResolveExternalTask i epoch claim mint outcome now = withTx (resolve_body i epoch claim mint outcome now)"

subsection \<open>The external queue\<close>

text \<open>The filters of a claim: empty or zero means any.\<close>

record claim_filter =
  cf_processName :: string
  cf_processVersion :: int
  cf_task :: string

definition claimableWhere :: "int \<Rightarrow> row \<Rightarrow> bool" where
  "claimableWhere now r \<longleftrightarrow> r_phase r = PhaseExternal \<and> r_status r = StatusRunning \<and>
     (r_external_worker_id r = None \<or> opt_le (r_external_lease_expires_at r) now) \<and>
     (r_wake_at r = None \<or> opt_gt (r_wake_at r) now)"

definition queue_where :: "int \<Rightarrow> claim_filter \<Rightarrow> row \<Rightarrow> bool" where
  "queue_where now f r \<longleftrightarrow> claimableWhere now r \<and>
     (cf_processName f \<noteq> [] \<longrightarrow> r_process_name r = cf_processName f) \<and>
     (cf_processVersion f \<noteq> 0 \<longrightarrow> r_process_version r = cf_processVersion f) \<and>
     (cf_task f \<noteq> [] \<longrightarrow> r_task r = cf_task f)"

definition queue_candidates :: "string list \<Rightarrow> int \<Rightarrow> nat \<Rightarrow> claim_filter \<Rightarrow> row list \<Rightarrow> row list" where
  "queue_candidates locked now limit f rows =
     take limit (sort_key (\<lambda>r. (r_updated_at r, r_id r))
       (filter (\<lambda>r. queue_where now f r \<and> r_id r \<notin> set locked) rows))"

definition set_ext_grant :: "string \<Rightarrow> int \<Rightarrow> row \<Rightarrow> row" where
  "set_ext_grant worker expiry r = r\<lparr>r_external_worker_id := Some worker,
     r_external_lease_expires_at := Some expiry, r_external_claim_epoch := r_external_claim_epoch r + 1\<rparr>"

definition q_GrantExternalLeases :: "string \<Rightarrow> int \<Rightarrow> string list \<Rightarrow> store \<Rightarrow> store" where
  "q_GrantExternalLeases worker expiry ids = upd (\<lambda>r. r_id r \<in> set ids) (set_ext_grant worker expiry)"

text \<open>A granted task: the row as written, and whether a lapsed claim was taken over.\<close>

type_synonym ext_task = "row \<times> bool"

text \<open>Postgres: one statement, whose two updates read the same snapshot of the candidates.\<close>

definition ClaimExternalTasks_pg ::
  "string list \<Rightarrow> string \<Rightarrow> int \<Rightarrow> nat \<Rightarrow> claim_filter \<Rightarrow> int \<Rightarrow> store \<Rightarrow> ext_task list \<times> store" where
  "ClaimExternalTasks_pg locked workerID leaseDur limit f now s =
     (let cand = queue_candidates locked now limit f (s_rows s);
          ans = map r_id (filter (answered s) cand);
          free = filter (\<lambda>r. \<not> answered s r) cand
      in (map (\<lambda>r. (set_ext_grant workerID (now + leaseDur) r, coalesce_str (r_external_worker_id r) \<noteq> [])) free,
          s\<lparr>s_rows := map (\<lambda>r. if r_id r \<in> set ans then set_unparked now r
                               else if r_id r \<in> set (map r_id free) then set_ext_grant workerID (now + leaseDur) r
                               else r) (s_rows s)\<rparr>))"

text \<open>SQLite: select, un-park what is answered, grant the rest, in one transaction.\<close>

definition ClaimExternalTasks_sqlite ::
  "string \<Rightarrow> int \<Rightarrow> nat \<Rightarrow> claim_filter \<Rightarrow> int \<Rightarrow> store \<Rightarrow> ext_task list \<times> store" where
  "ClaimExternalTasks_sqlite workerID leaseDur limit f now s =
     (let res = queue_candidates [] now limit f (s_rows s) in
      if res = [] then ([], s)
      else case q_UnparkAnsweredExternal (map r_id res) now s of (unparked, s1) \<Rightarrow>
        (let res1 = filter (\<lambda>r. r_id r \<notin> set unparked) res in
         if res1 = [] then ([], s1)
         else (map (\<lambda>r. (set_ext_grant workerID (now + leaseDur) r, r_external_worker_id r \<noteq> None)) res1,
               q_GrantExternalLeases workerID (now + leaseDur) (map r_id res1) s1)))"

record ext_claim =
  x_ID :: string
  x_TaskEpoch :: int
  x_ClaimEpoch :: int

datatype verdict = RenewRenewed | RenewLost | RenewCancelled

definition held_claim :: "string \<Rightarrow> ext_claim \<Rightarrow> row \<Rightarrow> bool" where
  "held_claim worker c r \<longleftrightarrow> r_id r = x_ID c \<and> r_external_worker_id r = Some worker \<and>
     r_task_epoch r = x_TaskEpoch c \<and> r_external_claim_epoch r = x_ClaimEpoch c"

definition renewable_claim :: "string \<Rightarrow> ext_claim \<Rightarrow> row \<Rightarrow> bool" where
  "renewable_claim worker c r \<longleftrightarrow> held_claim worker c r \<and> r_status r \<notin> {StatusCancelling, StatusCancelled}"

definition set_ext_expiry :: "int \<Rightarrow> row \<Rightarrow> row" where
  "set_ext_expiry expiry r = r\<lparr>r_external_lease_expires_at := Some expiry\<rparr>"

definition q_RenewExternalClaim :: "string \<Rightarrow> int \<Rightarrow> ext_claim \<Rightarrow> store \<Rightarrow> nat \<times> store" where
  "q_RenewExternalClaim worker expiry c s =
     (rows_matching (renewable_claim worker c) s, upd (renewable_claim worker c) (set_ext_expiry expiry) s)"

definition q_HeldExternalClaimStatus :: "string \<Rightarrow> ext_claim \<Rightarrow> store \<Rightarrow> status option" where
  "q_HeldExternalClaimStatus worker c s = map_option r_status (List.find (held_claim worker c) (s_rows s))"

definition renew_one :: "string \<Rightarrow> int \<Rightarrow> ext_claim \<Rightarrow> store \<Rightarrow> verdict \<times> store" where
  "renew_one worker expiry c s =
     (case q_RenewExternalClaim worker expiry c s of (n, s1) \<Rightarrow>
        if n = 1 then (RenewRenewed, s1)
        else (case q_HeldExternalClaimStatus worker c s1 of
                None \<Rightarrow> (RenewLost, s1)
              | Some st \<Rightarrow> (if st \<in> {StatusCancelling, StatusCancelled} then RenewCancelled else RenewLost, s1)))"

fun renew_claims :: "string \<Rightarrow> int \<Rightarrow> ext_claim list \<Rightarrow> store \<Rightarrow> verdict list \<times> store" where
  "renew_claims worker expiry [] s = ([], s)"
| "renew_claims worker expiry (c # cs) s =
     (case renew_one worker expiry c s of (v, s1) \<Rightarrow>
        (case renew_claims worker expiry cs s1 of (vs, s2) \<Rightarrow> (v # vs, s2)))"

text \<open>The claims are renewed in chunks, one transaction each.\<close>

function renew_chunks :: "nat \<Rightarrow> string \<Rightarrow> int \<Rightarrow> ext_claim list \<Rightarrow> store \<Rightarrow> verdict list \<times> store" where
  "renew_chunks n worker expiry cs s =
     (if cs = [] \<or> n = 0 then ([], s)
      else case renew_claims worker expiry (take n cs) s of (vs, s1) \<Rightarrow>
        (case renew_chunks n worker expiry (drop n cs) s1 of (ws, s2) \<Rightarrow> (vs @ ws, s2)))"
  by pat_completeness auto
termination
  by (relation "measure (\<lambda>(n, w, e, cs, s). length cs)") auto

definition RenewExternalClaims :: "string \<Rightarrow> ext_claim list \<Rightarrow> int \<Rightarrow> int \<Rightarrow> store \<Rightarrow> verdict list \<times> store" where
  "RenewExternalClaims worker cs leaseDur now =
     renew_chunks renewChunkSize worker (now + leaseDur) cs"

definition set_ext_free :: "row \<Rightarrow> row" where
  "set_ext_free r = r\<lparr>r_external_worker_id := None, r_external_lease_expires_at := None,
     r_external_claim_epoch := r_external_claim_epoch r + 1\<rparr>"

definition releasable :: "string \<Rightarrow> int \<Rightarrow> int \<Rightarrow> row \<Rightarrow> bool" where
  "releasable i taskEpoch claimEpoch r \<longleftrightarrow> r_id r = i \<and> r_task_epoch r = taskEpoch \<and>
     r_external_claim_epoch r = claimEpoch \<and> r_phase r = PhaseExternal \<and> r_external_worker_id r \<noteq> None"

definition ReleaseExternalClaim :: "string \<Rightarrow> int \<Rightarrow> int \<Rightarrow> int \<Rightarrow> store \<Rightarrow> (db_error, unit) result \<times> store" where
  "ReleaseExternalClaim i taskEpoch claimEpoch now =
     withTx (\<lambda>s. if rows_matching (releasable i taskEpoch claimEpoch) s = 0 then Inl ErrConflict
                 else Inr ((), snd (q_UnparkAnsweredExternal [i] now
                                      (upd (releasable i taskEpoch claimEpoch) set_ext_free s))))"

definition set_lost :: "int \<Rightarrow> row \<Rightarrow> row" where
  "set_lost now r = (set_ext_free r)\<lparr>r_cols := (r_cols r)\<lparr>c_ExternalLost := True\<rparr>, r_wake_at := Some now, r_updated_at := now\<rparr>"

definition loseable :: "string \<Rightarrow> int \<Rightarrow> row \<Rightarrow> bool" where
  "loseable i taskEpoch r \<longleftrightarrow> r_id r = i \<and> r_task_epoch r = taskEpoch \<and> r_phase r = PhaseExternal"

definition MarkExternalClaimLost :: "string \<Rightarrow> int \<Rightarrow> int \<Rightarrow> store \<Rightarrow> (db_error, unit) result \<times> store" where
  "MarkExternalClaimLost i taskEpoch now =
     withTx (\<lambda>s. if rows_matching (loseable i taskEpoch) s = 0 then Inl ErrConflict
                 else Inr ((), upd (loseable i taskEpoch) (set_lost now) s))"


subsection \<open>Delivery\<close>

lemma peek_None: "q_PeekOldestSignal i task s = None \<longleftrightarrow> signals_for i task s = []"
  by (auto simp: q_PeekOldestSignal_def split: list.splits dest: arg_cong [of _ _ set])

lemma find_row_upd:
  assumes "\<And>r. r_id (f r) = r_id r"
  shows "find_row (s_rows (upd P f s)) i = map_option (\<lambda>r. if P r then f r else r) (find_row (s_rows s) i)"
  unfolding upd_rows by (rule find_row_map) (simp add: assms)

lemma set_unparked_simps [simp]:
  "r_id (set_unparked now r) = r_id r" "r_phase (set_unparked now r) = PhaseNone"
  "r_task (set_unparked now r) = r_task r" "r_status (set_unparked now r) = r_status r"
  by (simp_all add: set_unparked_def)

text \<open>What an accepted answer requires and does.\<close>

definition may_answer :: "int \<Rightarrow> claim_binding \<Rightarrow> int \<Rightarrow> row \<Rightarrow> bool" where
  "may_answer epoch claim now r \<longleftrightarrow> AcceptsExternalOutcome (r_status r) \<and> r_phase r = PhaseExternal \<and>
     \<not> live_at (r_worker_id r) (r_lease_expires_at r) now \<and> r_task_epoch r = epoch \<and>
     (case claim of BoundToClaim e \<Rightarrow> e = r_external_claim_epoch r
      | Unclaimed \<Rightarrow> \<not> live_at (r_external_worker_id r) (r_external_lease_expires_at r) now)"

text \<open>
  C20: an answer to an external task is accepted exactly when the row is parked on that arming, in a
  status that still takes outcomes, with no engine lease running, and the handle names the current
  grant or, naming none, finds no live claim. Accepting it appends one signal for the waiting task
  and un-parks that row; refusing it changes nothing.
\<close>

theorem resolve_accepts_iff:
  assumes fresh: "fst mint \<notin> g_id ` set (s_signals s)"
  shows "ResolveExternalTask i epoch claim mint outcome now s =
    (case row_at s i of
       None \<Rightarrow> (Inl ErrNotFound, s)
     | Some r \<Rightarrow>
         if may_answer epoch claim now r
         then (Inr (), s\<lparr>s_signals := s_signals s @ [new_signal mint i (r_task r) outcome now],
                         s_rows := map (\<lambda>x. if r_id x = i then set_unparked now x else x) (s_rows s)\<rparr>)
         else (Inl ErrConflict, s))"
proof (cases "row_at s i")
  case (Some r)
  have chk: "claim_check claim a b c now = (if (case claim of BoundToClaim e \<Rightarrow> e = a | Unclaimed \<Rightarrow> \<not> live_at b c now)
      then Inr () else Inl ErrConflict)" for a b c
    by (cases claim) auto
  from Some fresh show ?thesis
    by (auto simp: ResolveExternalTask_def withTx_def resolve_body_def row_at_def may_answer_def chk
        bufferOutcome_def q_InsertSignal_def q_UnparkExternal_def new_signal_def upd_def)
qed (simp add: ResolveExternalTask_def withTx_def resolve_body_def row_at_def)

text \<open>
  C21: an external task is answered at most once per park: after an accepted answer every further
  answer to the same instance, under any handle and at any later time, is refused and changes
  nothing until the engine arms the row again.
\<close>

theorem resolve_once:
  assumes "ResolveExternalTask i epoch claim mint outcome now s = (Inr (), s')"
  shows "ResolveExternalTask i epoch' claim' mint' outcome' now' s' = (Inl ErrConflict, s')"
proof -
  obtain r s1 where r: "find_row (s_rows s) i = Some r" and s1: "bufferOutcome i (r_task r) mint outcome now s = Inr s1"
    and s': "s' = q_UnparkExternal i now s1"
    using assms by (auto simp: ResolveExternalTask_def resolve_body_def split: option.splits if_splits sum.splits)
  have "s_rows s1 = s_rows s" using s1 by (auto simp: bufferOutcome_def q_InsertSignal_def split: if_splits)
  then have "find_row (s_rows s') i = Some (set_unparked now r)"
    using r find_row_Some [OF r] unfolding s' q_UnparkExternal_def by (simp add: find_row_upd del: upd_rows)
  then show ?thesis by (simp add: ResolveExternalTask_def withTx_def resolve_body_def)
qed


subsection \<open>No signal is lost\<close>

lemma persistState_signals:
  "s_signals (snd (persistState i now s)) = filter (\<lambda>g. i_ConsumedSignalID i = [] \<or> g_id g \<noteq> i_ConsumedSignalID i) (s_signals s)"
  by (simp add: persistState_def Let_def q_DeleteSignal_def)

lemma write_signals:
  "write_inst i now s = Inr s' \<Longrightarrow> s_signals s' = s_signals (snd (persistState i now s))"
  "write_progress i now s = Inr s' \<Longrightarrow> s_signals s' = s_signals (snd (persistState i now s))"
  by (auto simp: write_inst_def write_progress_def requireFenced_def q_UpdateInstance_def
      q_UpdateInstanceProgress_def split: prod.splits if_splits)

lemma fenced_write:
  assumes d: "distinct (map r_id (s_rows s))" and r: "find_row (s_rows s) (i_ID i) = Some r" "inst_fence i r"
  shows "\<exists>s'. write_inst i now s = Inr s' \<and> find_row (s_rows s') (i_ID i) = Some (set_update (updateInstanceParams i (i_cols i) now) r)"
    and "\<exists>s'. write_progress i now s = Inr s' \<and> find_row (s_rows s') (i_ID i) = Some (set_progress (progressParams i (i_cols i) now) r)"
proof -
  obtain cols s0 where p: "persistState i now s = (cols, s0)" by fastforce
  then have p': "cols = i_cols i" "s_rows s0 = s_rows s" using persistState_rows(1,2) [of i now s] by auto
  have m: "rows_matching (inst_fence i) s0 \<noteq> 0" using find_row_Some [OF r(1)] r(2) p'(2) by (auto simp: rows_matching_0)
  have id: "r_id (set_update u x) = r_id x" "r_id (set_progress u x) = r_id x" for u x
    by (simp_all add: set_update_def set_progress_def)
  show "\<exists>s'. write_inst i now s = Inr s' \<and> find_row (s_rows s') (i_ID i) = Some (set_update (updateInstanceParams i (i_cols i) now) r)"
    using p p' m r by (simp add: write_inst_def requireFenced_def q_UpdateInstance_def find_row_upd id del: upd_rows)
  show "\<exists>s'. write_progress i now s = Inr s' \<and> find_row (s_rows s') (i_ID i) = Some (set_progress (progressParams i (i_cols i) now) r)"
    using p p' m r by (simp add: write_progress_def requireFenced_def q_UpdateInstanceProgress_def find_row_upd id del: upd_rows)
qed

text \<open>A row the engine can claim, with a signal to consume.\<close>

definition ready_with :: "signal \<Rightarrow> store \<Rightarrow> bool" where
  "ready_with g s \<longleftrightarrow> g \<in> set (s_signals s) \<and>
     (\<exists>r. row_at s (g_instance_id g) = Some r \<and> r_worker_id r = None \<and> r_phase r = PhaseNone \<and> r_wake_at r = None \<and>
        r_status r \<in> {StatusRunning, StatusPausing})"

lemma ready_claimable: "ready_with g s \<Longrightarrow> \<exists>r. row_at s (g_instance_id g) = Some r \<and> claimable now cutoff r"
  by (auto simp: ready_with_def claimable_def)

lemma deliver_row:
  assumes r: "find_row (s_rows s) i = Some r" "r_status r \<in> {StatusRunning, StatusPausing}"
    and m: "fst mint \<notin> g_id ` set (s_signals s)"
  shows "\<exists>d s'. DeliverSignal i task mint outcome now s = (Inr d, s') \<and>
    s_signals s' = s_signals s @ [new_signal mint i task outcome now] \<and>
    map r_id (s_rows s') = map r_id (s_rows s) \<and>
    find_row (s_rows s') i = Some (if d then set_unparked now r else r) \<and>
    (d \<longleftrightarrow> r_phase r = PhaseExternal \<and> r_task r = task \<and>
       \<not> live_at (r_worker_id r) (r_lease_expires_at r) now \<and>
       \<not> live_at (r_external_worker_id r) (r_external_lease_expires_at r) now)"
proof -
  have "q_InsertSignal (new_signal mint i task outcome now) s = Inr (s\<lparr>s_signals := s_signals s @ [new_signal mint i task outcome now]\<rparr>)"
    using m by (simp add: q_InsertSignal_def new_signal_def)
  then show ?thesis
    using r find_row_Some [OF r(1)]
    by (auto simp: DeliverSignal_def withTx_def deliver_body_def Let_def q_UnparkExternal_def find_row_upd
        simp del: upd_rows(1)) (simp_all add: comp_def)
qed

lemma arm_row:
  assumes d: "distinct (map r_id (s_rows s))" and r: "find_row (s_rows s) (i_ID i) = Some r" "inst_fence i r"
    and st: "i_Status i = StatusRunning" "r_status r \<in> {StatusRunning, StatusPausing}"
  shows "\<exists>a s' r'. ArmExternalUnlessSignalled i encoded task wake now s = (Inr a, s') \<and>
    (a \<longleftrightarrow> signals_for (i_ID i) task s = []) \<and>
    s_signals s' = filter (\<lambda>g. i_ConsumedSignalID i = [] \<or> g_id g \<noteq> i_ConsumedSignalID i) (s_signals s) \<and>
    find_row (s_rows s') (i_ID i) = Some r' \<and> r_status r' = r_status r \<and> r_worker_id r' = None \<and> r_task r' = i_Task i \<and>
    r_phase r' = (if a then PhaseExternal else PhaseNone) \<and> (\<not> a \<longrightarrow> r_wake_at r' = None) \<and>
    (r_external_worker_id r' = None \<or> (r_external_worker_id r' = r_external_worker_id r \<and>
       r_external_lease_expires_at r' = r_external_lease_expires_at r))"
proof (cases "signals_for (i_ID i) task s = []")
  case True
  obtain cols pending referenced where enc: "encoded = (cols, pending, referenced)" by (cases encoded) auto
  let ?i = "i\<lparr>i_Phase := PhaseExternal, i_WakeAt := wake, i_cols := cols, i_pending := pending, i_referenced := referenced\<rparr>"
  have "inst_fence ?i r" using r(2) by (simp add: inst_fence_def fenceWorker_def)
  then obtain s' where s': "write_inst ?i now s = Inr s'"
    "find_row (s_rows s') (i_ID i) = Some (set_update (updateInstanceParams ?i cols now) r)"
    using fenced_write(1) [OF d, of ?i r now] r(1) by auto
  have arm: "ArmExternalUnlessSignalled i encoded task wake now s = (Inr True, s')"
    using True r(1) s'(1) by (simp add: ArmExternalUnlessSignalled_def arm_body_def peek_None [THEN iffD2] enc)
  have sig: "s_signals s' = filter (\<lambda>g. i_ConsumedSignalID i = [] \<or> g_id g \<noteq> i_ConsumedSignalID i) (s_signals s)"
    using write_signals(1) [OF s'(1)] persistState_signals [of ?i now s] by simp
  show ?thesis
    using True st sig s'(2)
    by (intro exI [of _ True] exI [of _ s'] exI [of _ "set_update (updateInstanceParams ?i cols now) r"] conjI arm)
      (auto simp: set_update_def updateInstanceParams_def kept_status_def)
next
  case False
  then obtain g where g: "q_PeekOldestSignal (i_ID i) task s = Some g" using peek_None by fastforce
  let ?i = "i\<lparr>i_Phase := PhaseNone, i_WakeAt := None\<rparr>"
  have "inst_fence ?i r" using r(2) by (simp add: inst_fence_def fenceWorker_def)
  then obtain s' where s': "write_progress ?i now s = Inr s'"
    "find_row (s_rows s') (i_ID i) = Some (set_progress (progressParams ?i (i_cols i) now) r)"
    using fenced_write(2) [OF d, of ?i r now] r(1) by auto
  have arm: "ArmExternalUnlessSignalled i encoded task wake now s = (Inr False, s')"
    using g r(1) s'(1) by (simp add: ArmExternalUnlessSignalled_def arm_body_def)
  have sig: "s_signals s' = filter (\<lambda>g. i_ConsumedSignalID i = [] \<or> g_id g \<noteq> i_ConsumedSignalID i) (s_signals s)"
    using write_signals(2) [OF s'(1)] persistState_signals [of ?i now s] by simp
  show ?thesis
    using False sig s'(2)
    by (intro exI [of _ False] exI [of _ s'] exI [of _ "set_progress (progressParams ?i (i_cols i) now) r"] conjI arm)
      (auto simp: set_progress_def updateInstanceParams_def progressParams_def)
qed

text \<open>
  C22: whichever of the two comes first, parking a task and delivering its signal leave the signal
  buffered and the row un-parked and unleased, so the engine will claim it and consume it: a signal
  arriving while the engine is about to park is never lost.
\<close>

theorem no_lost_signal:
  assumes d: "distinct (map r_id (s_rows s))" and r: "row_at s (i_ID i) = Some r" "inst_fence i r"
    and st: "i_Status i = StatusRunning" "r_status r \<in> {StatusRunning, StatusPausing}"
    and task: "i_Task i = task" and m: "fst mint \<notin> g_id ` set (s_signals s)" "i_ConsumedSignalID i \<noteq> fst mint"
    and free: "\<not> live_at (r_external_worker_id r) (r_external_lease_expires_at r) t2"
  shows "ready_with (new_signal mint (i_ID i) task outcome t1)
           (snd (ArmExternalUnlessSignalled i encoded task wake t2 (snd (DeliverSignal (i_ID i) task mint outcome t1 s)))) \<and>
         ready_with (new_signal mint (i_ID i) task outcome t2)
           (snd (DeliverSignal (i_ID i) task mint outcome t2 (snd (ArmExternalUnlessSignalled i encoded task wake t1 s))))"
proof
  note r' = r(1) [unfolded row_at_def]
  obtain dl s1 where s1: "DeliverSignal (i_ID i) task mint outcome t1 s = (Inr dl, s1)"
    "s_signals s1 = s_signals s @ [new_signal mint (i_ID i) task outcome t1]"
    "map r_id (s_rows s1) = map r_id (s_rows s)" "find_row (s_rows s1) (i_ID i) = Some (if dl then set_unparked t1 r else r)"
    using deliver_row [OF r' st(2) m(1)] by blast
  let ?r = "if dl then set_unparked t1 r else r"
  have f: "inst_fence i ?r" "r_status ?r \<in> {StatusRunning, StatusPausing}"
    using r(2) st(2) by (auto simp: inst_fence_def set_unparked_def)
  have "signals_for (i_ID i) task s1 \<noteq> []" using s1(2) by (simp add: signals_for_def new_signal_def)
  then show "ready_with (new_signal mint (i_ID i) task outcome t1)
           (snd (ArmExternalUnlessSignalled i encoded task wake t2 (snd (DeliverSignal (i_ID i) task mint outcome t1 s))))"
    using arm_row [OF _ s1(4) f(1) st(1) f(2), of encoded task wake t2] d s1 m(2) f(2)
    by (fastforce simp: ready_with_def new_signal_def row_at_def)
next
  note r' = r(1) [unfolded row_at_def]
  obtain a s1 r1 where s1: "ArmExternalUnlessSignalled i encoded task wake t1 s = (Inr a, s1)"
    "s_signals s1 = filter (\<lambda>g. i_ConsumedSignalID i = [] \<or> g_id g \<noteq> i_ConsumedSignalID i) (s_signals s)"
    and r1: "find_row (s_rows s1) (i_ID i) = Some r1" "r_status r1 = r_status r" "r_worker_id r1 = None" "r_task r1 = i_Task i"
      "r_phase r1 = (if a then PhaseExternal else PhaseNone)" "\<not> a \<longrightarrow> r_wake_at r1 = None"
      "r_external_worker_id r1 = None \<or> (r_external_worker_id r1 = r_external_worker_id r \<and>
         r_external_lease_expires_at r1 = r_external_lease_expires_at r)"
    using arm_row [OF d r' r(2) st, of encoded task wake t1] by blast
  have "fst mint \<notin> g_id ` set (s_signals s1)" using m(1) s1(2) by auto
  then obtain dl s2 where s2: "DeliverSignal (i_ID i) task mint outcome t2 s1 = (Inr dl, s2)"
    "s_signals s2 = s_signals s1 @ [new_signal mint (i_ID i) task outcome t2]"
    "find_row (s_rows s2) (i_ID i) = Some (if dl then set_unparked t2 r1 else r1)"
    "dl \<longleftrightarrow> r_phase r1 = PhaseExternal \<and> r_task r1 = task \<and> \<not> live_at (r_worker_id r1) (r_lease_expires_at r1) t2 \<and>
       \<not> live_at (r_external_worker_id r1) (r_external_lease_expires_at r1) t2"
    using deliver_row [OF r1(1), of mint task outcome t2] st(2) r1(2) by auto
  have "dl \<longleftrightarrow> a" using s2(4) r1(3-7) task free by (auto simp: live_at_def)
  then show "ready_with (new_signal mint (i_ID i) task outcome t2)
           (snd (DeliverSignal (i_ID i) task mint outcome t2 (snd (ArmExternalUnlessSignalled i encoded task wake t1 s))))"
    using s1(1) s2 r1 st(2)
    by (auto simp: ready_with_def new_signal_def row_at_def set_unparked_def)
qed

end
