(* ===== verification/External_Queue.thy ===== *)
theory External_Queue
  imports External
begin

text \<open>
  The external queue: both dialects make the same claim, a claim never hands out an answered or
  held task, a renewal renews exactly what its worker holds, and a release voids its handle.
\<close>

subsection \<open>The two dialects\<close>

lemma candidates_where:
  "r \<in> set (queue_candidates locked now limit f rows) \<Longrightarrow> r \<in> set rows \<and> queue_where now f r \<and> r_id r \<notin> set locked"
  by (auto simp: queue_candidates_def dest: in_set_takeD)

lemma candidate_by_id:
  assumes "distinct (map r_id rows)" "r \<in> set rows"
  shows "r_id r \<in> r_id ` {c \<in> set (queue_candidates locked now limit f rows). P c} \<longleftrightarrow>
    r \<in> set (queue_candidates locked now limit f rows) \<and> P r"
proof
  assume "r_id r \<in> r_id ` {c \<in> set (queue_candidates locked now limit f rows). P c}"
  then obtain c where c: "c \<in> set (queue_candidates locked now limit f rows)" "P c" "r_id c = r_id r" by auto
  then have "c = r" using assms candidates_where [OF c(1)] by (auto simp: distinct_map dest: inj_onD)
  then show "r \<in> set (queue_candidates locked now limit f rows) \<and> P r" using c by blast
qed auto

text \<open>
  C23: with nothing locked by another transaction, the single Postgres statement and the
  SQLite select-then-update transaction grant the same tasks and leave the same table.
\<close>

theorem claim_dialects_agree:
  assumes d: "distinct (map r_id (s_rows s))" and named: "\<forall>r \<in> set (s_rows s). r_external_worker_id r \<noteq> Some []"
  shows "ClaimExternalTasks_pg [] w dur limit f now s = ClaimExternalTasks_sqlite w dur limit f now s"
proof -
  let ?C = "queue_candidates [] now limit f (s_rows s)"
  let ?free = "filter (\<lambda>r. \<not> answered s r) ?C"
  let ?hit = "\<lambda>r. r_id r \<in> set (map r_id ?C) \<and> r_phase r = PhaseExternal \<and>
      r_status r \<in> {StatusRunning, StatusPaused, StatusPausing} \<and> answered s r"
  have C: "r \<in> set (s_rows s)" "r_phase r = PhaseExternal" "r_status r = StatusRunning" if "r \<in> set ?C" for r
    using candidates_where [OF that] by (auto simp: queue_where_def claimableWhere_def)
  have mem: "r_id r \<in> r_id ` set ?C \<longleftrightarrow> r \<in> set ?C" if "r \<in> set (s_rows s)" for r
    using candidate_by_id [OF d that, of "[]" now limit f "\<lambda>_. True"] by simp
  have hit: "?hit r \<longleftrightarrow> r \<in> set ?C \<and> answered s r" if "r \<in> set (s_rows s)" for r
    using mem [OF that] C [of r] by auto
  have unp: "i \<in> set (map r_id (filter ?hit (s_rows s))) \<longleftrightarrow> i \<in> r_id ` {c \<in> set ?C. answered s c}" for i
    using hit C(1) by auto
  have res1: "filter (\<lambda>r. r_id r \<notin> set (map r_id (filter ?hit (s_rows s)))) ?C = ?free"
  proof (rule filter_cong [OF refl])
    fix r assume r: "r \<in> set ?C"
    show "r_id r \<notin> set (map r_id (filter ?hit (s_rows s))) \<longleftrightarrow> \<not> answered s r"
      unfolding unp using candidate_by_id [OF d C(1) [OF r], of "[]" now limit f "answered s"] r by simp
  qed
  have free: "r_id r \<in> set (map r_id ?free) \<longleftrightarrow> r \<in> set ?C \<and> \<not> answered s r" if "r \<in> set (s_rows s)" for r
    using candidate_by_id [OF d that, of "[]" now limit f "\<lambda>c. \<not> answered s c"] by simp
  have ans: "r_id r \<in> set (map r_id (filter (answered s) ?C)) \<longleftrightarrow> r \<in> set ?C \<and> answered s r" if "r \<in> set (s_rows s)" for r
    using candidate_by_id [OF d that, of "[]" now limit f "answered s"] by simp
  have names: "coalesce_str (r_external_worker_id r) \<noteq> [] \<longleftrightarrow> r_external_worker_id r \<noteq> None" if "r \<in> set ?C" for r
    using named C(1) [OF that] by (auto simp: coalesce_str_def split: option.splits)
  have tasks: "map (\<lambda>r. (set_ext_grant w (now + dur) r, coalesce_str (r_external_worker_id r) \<noteq> [])) ?free =
      map (\<lambda>r. (set_ext_grant w (now + dur) r, r_external_worker_id r \<noteq> None)) ?free"
    by (rule map_cong [OF refl]) (use names in auto)
  have rows: "map (\<lambda>r. if r_id r \<in> set (map r_id (filter (answered s) ?C)) then set_unparked now r
        else if r_id r \<in> set (map r_id ?free) then set_ext_grant w (now + dur) r else r) (s_rows s) =
      map (\<lambda>r. if r_id r \<in> set (map r_id ?free) then set_ext_grant w (now + dur) r else r)
        (map (\<lambda>r. if ?hit r then set_unparked now r else r) (s_rows s))"
    unfolding map_map
  proof (rule map_cong [OF refl])
    fix r assume r: "r \<in> set (s_rows s)"
    show "(if r_id r \<in> set (map r_id (filter (answered s) ?C)) then set_unparked now r
        else if r_id r \<in> set (map r_id ?free) then set_ext_grant w (now + dur) r else r) =
      ((\<lambda>r. if r_id r \<in> set (map r_id ?free) then set_ext_grant w (now + dur) r else r) \<circ>
       (\<lambda>r. if ?hit r then set_unparked now r else r)) r"
      unfolding comp_def hit [OF r] ans [OF r] using free [OF r] by simp
  qed
  show ?thesis
  proof (cases "?C = []")
    case True
    then show ?thesis by (simp add: ClaimExternalTasks_pg_def ClaimExternalTasks_sqlite_def Let_def)
  next
    case False
    have q: "q_UnparkAnsweredExternal (map r_id ?C) now s = (map r_id (filter ?hit (s_rows s)), upd ?hit (set_unparked now) s)"
      by (simp add: q_UnparkAnsweredExternal_def Let_def)
    show ?thesis
      unfolding ClaimExternalTasks_pg_def ClaimExternalTasks_sqlite_def Let_def q case_prod_conv res1 tasks rows
      using False by (auto simp: q_GrantExternalLeases_def upd_def comp_def simp del: set_map map_map)
  qed
qed


subsection \<open>What a claim hands out\<close>

text \<open>The columns the external queue may write; everything else of a row is the engine's.\<close>

definition queue_columns :: "row \<Rightarrow> row \<Rightarrow> bool" where
  "queue_columns r r' \<longleftrightarrow> r' = r\<lparr>r_external_worker_id := r_external_worker_id r',
     r_external_lease_expires_at := r_external_lease_expires_at r', r_external_claim_epoch := r_external_claim_epoch r'\<rparr>"


subsection \<open>Renewal and release\<close>

lemma renew_claims_append:
  "renew_claims w e (cs @ ds) s =
     (case renew_claims w e cs s of (vs, s1) \<Rightarrow> (case renew_claims w e ds s1 of (ws, s2) \<Rightarrow> (vs @ ws, s2)))"
  by (induction cs arbitrary: s) (auto split: prod.splits)

declare renew_chunks.simps [simp del]

lemma renew_chunks_all: "0 < n \<Longrightarrow> renew_chunks n w e cs s = renew_claims w e cs s"
proof (induction n w e cs s rule: renew_chunks.induct)
  case (1 n w e cs s)
  show ?case
  proof (cases "cs = []")
    case True
    then show ?thesis by (simp add: renew_chunks.simps)
  next
    case False
    have "renew_claims w e cs s = renew_claims w e (take n cs @ drop n cs) s" by simp
    then show ?thesis
      using False "1.prems" "1.IH" unfolding renew_claims_append
      by (simp add: renew_chunks.simps [of n w e cs] split: prod.splits)
  qed
qed

definition verdict_of :: "string \<Rightarrow> store \<Rightarrow> ext_claim \<Rightarrow> verdict" where
  "verdict_of w s c = (case row_at s (x_ID c) of
     None \<Rightarrow> RenewLost
   | Some r \<Rightarrow> if \<not> held_claim w c r then RenewLost
               else if r_status r \<in> {StatusCancelling, StatusCancelled} then RenewCancelled else RenewRenewed)"

definition renewed_row :: "string \<Rightarrow> int \<Rightarrow> ext_claim list \<Rightarrow> row \<Rightarrow> row" where
  "renewed_row w e cs r = (if \<exists>c \<in> set cs. renewable_claim w c r then set_ext_expiry e r else r)"

lemma renew_one_spec:
  assumes d: "distinct (map r_id (s_rows s))"
  shows "renew_one w e c s = (verdict_of w s c, upd (renewable_claim w c) (set_ext_expiry e) s)"
proof -
  let ?s1 = "upd (renewable_claim w c) (set_ext_expiry e) s"
  have one: "find (held_claim w c) rows = (case find_row rows (x_ID c) of None \<Rightarrow> None
      | Some r \<Rightarrow> if held_claim w c r then Some r else None)" if "distinct (map r_id rows)" for rows
    using that
  proof (induction rows)
    case (Cons r rows)
    have "find (held_claim w c) rows = None" if "r_id r = x_ID c"
      unfolding find_None_conv using Cons.prems that by (metis distinct.simps(2) held_claim_def image_eqI list.simps(9) set_map)
    then show ?case using Cons by (auto simp: find_row_def) (simp add: held_claim_def)
  qed (simp add: find_row_def)
  have cnt: "length (filter (renewable_claim w c) rows) = (case find_row rows (x_ID c) of None \<Rightarrow> 0
      | Some r \<Rightarrow> if renewable_claim w c r then 1 else 0)" if "distinct (map r_id rows)" for rows
    using that
  proof (induction rows)
    case (Cons r rows)
    have "filter (renewable_claim w c) rows = []" if "r_id r = x_ID c"
      unfolding filter_empty_conv using Cons.prems that
      by (metis distinct.simps(2) held_claim_def image_eqI list.simps(9) renewable_claim_def set_map)
    then show ?case using Cons by (auto simp: find_row_def) (simp add: renewable_claim_def held_claim_def)
  qed (simp add: find_row_def)
  have keep: "r_id (set_ext_expiry e r) = r_id r" "held_claim w c (set_ext_expiry e r) = held_claim w c r"
    "r_status (set_ext_expiry e r) = r_status r" for r
    by (simp_all add: set_ext_expiry_def held_claim_def)
  have d1: "distinct (map r_id (s_rows ?s1))" using d by (simp add: comp_def if_distrib keep cong: if_cong)
  have f1: "find_row (s_rows ?s1) (x_ID c) = map_option (\<lambda>r. if renewable_claim w c r then set_ext_expiry e r else r) (find_row (s_rows s) (x_ID c))"
    by (rule find_row_upd) (rule keep)
  show ?thesis
    unfolding renew_one_def q_RenewExternalClaim_def case_prod_conv q_HeldExternalClaimStatus_def one [OF d1] f1
      rows_matching_def cnt [OF d] verdict_of_def row_at_def
    by (cases "find_row (s_rows s) (x_ID c)") (auto simp: keep renewable_claim_def)
qed

lemma verdict_after:
  "verdict_of w (upd (renewable_claim w c) (set_ext_expiry e) s) c' = verdict_of w s c'"
proof -
  have keep: "r_id (set_ext_expiry e r) = r_id r" "held_claim w c' (set_ext_expiry e r) = held_claim w c' r"
    "r_status (set_ext_expiry e r) = r_status r" for r
    by (simp_all add: set_ext_expiry_def held_claim_def)
  have "find_row (s_rows (upd (renewable_claim w c) (set_ext_expiry e) s)) (x_ID c') =
      map_option (\<lambda>r. if renewable_claim w c r then set_ext_expiry e r else r) (find_row (s_rows s) (x_ID c'))"
    by (rule find_row_upd) (rule keep)
  then show ?thesis
    by (cases "find_row (s_rows s) (x_ID c')") (simp_all add: verdict_of_def row_at_def keep del: upd_rows)
qed

lemma renew_claims_spec:
  "distinct (map r_id (s_rows s)) \<Longrightarrow>
     renew_claims w e cs s = (map (verdict_of w s) cs, s\<lparr>s_rows := map (renewed_row w e cs) (s_rows s)\<rparr>)"
proof (induction cs arbitrary: s)
  case Nil
  then show ?case by (simp add: renewed_row_def)
next
  case (Cons c cs)
  let ?s1 = "upd (renewable_claim w c) (set_ext_expiry e) s"
  have keep: "r_id (set_ext_expiry e r) = r_id r" "renewable_claim w c' (set_ext_expiry e r) = renewable_claim w c' r"
    "set_ext_expiry e (set_ext_expiry e r) = set_ext_expiry e r" for r c'
    by (simp_all add: set_ext_expiry_def held_claim_def renewable_claim_def)
  have d1: "distinct (map r_id (s_rows ?s1))" using Cons.prems by (simp add: comp_def if_distrib keep cong: if_cong)
  have rows: "map (renewed_row w e cs) (s_rows ?s1) = map (renewed_row w e (c # cs)) (s_rows s)"
    by (auto simp: renewed_row_def keep)
  have "renew_claims w e (c # cs) s = (verdict_of w s c # map (verdict_of w s) cs,
      ?s1\<lparr>s_rows := map (renewed_row w e cs) (s_rows ?s1)\<rparr>)"
    using Cons.IH [OF d1] verdict_after by (simp add: renew_one_spec [OF Cons.prems] del: upd_rows)
  then show ?case unfolding rows by (simp add: upd_def)
qed

text \<open>
  C25: renewing external claims, in however many chunks, answers each claim by what the table held
  at the start: \<open>renewed\<close> exactly when this worker still holds that grant of a tree that is not being
  cancelled, \<open>cancelled\<close> when it holds it and the tree is, \<open>lost\<close> otherwise. It moves the expiry of the
  renewed rows and nothing else: no claim epoch changes and no holder is cleared.
\<close>

theorem renew_verdicts:
  assumes "distinct (map r_id (s_rows s))"
  shows "RenewExternalClaims w cs dur now s =
    (map (verdict_of w s) cs, s\<lparr>s_rows := map (renewed_row w (now + dur) cs) (s_rows s)\<rparr>)"
  by (simp add: RenewExternalClaims_def renewChunkSize_def renew_chunks_all renew_claims_spec [OF assms])

text \<open>
  C26: releasing a claim hands the task back and voids the releaser's handle at once: the row has no
  holder, its claim epoch has moved, an answer bound to the released grant is refused, and a task
  that was answered while it was claimed goes to the engine instead of back to the queue.
\<close>

theorem release_voids_the_handle:
  assumes out: "ReleaseExternalClaim i te ce now s = (Inr (), s')" and r: "row_at s i = Some r"
    and d: "distinct (map r_id (s_rows s))"
  shows "\<exists>r'. row_at s' i = Some r' \<and> r_external_worker_id r' = None \<and> r_external_claim_epoch r' = ce + 1 \<and>
      \<not> may_answer te (BoundToClaim ce) t r' \<and>
      (answered s r \<and> AcceptsExternalOutcome (r_status r) \<longrightarrow> r_phase r' = PhaseNone \<and> r_wake_at r' = None) \<and>
      (\<not> answered s r \<longrightarrow> r_phase r' = PhaseExternal)"
proof -
  let ?s1 = "upd (releasable i te ce) set_ext_free s"
  have m: "rows_matching (releasable i te ce) s \<noteq> 0" and s': "s' = snd (q_UnparkAnsweredExternal [i] now ?s1)"
    using out by (auto simp: ReleaseExternalClaim_def split: if_splits)
  obtain x where x: "x \<in> set (s_rows s)" "releasable i te ce x" using m by (auto simp: rows_matching_0)
  then have "find_row (s_rows s) i = Some x" using find_row_distinct [OF d] by (simp add: releasable_def)
  then have rx: "r = x" "r_id r = i" using r x(2) by (auto simp: row_at_def releasable_def)
  have free: "r_id (set_ext_free y) = r_id y" "r_task (set_ext_free y) = r_task y" "r_status (set_ext_free y) = r_status y"
    "r_phase (set_ext_free y) = r_phase y" for y by (simp_all add: set_ext_free_def)
  have f1: "find_row (s_rows ?s1) i = Some (set_ext_free r)"
    using r x(2) rx by (simp add: find_row_upd free row_at_def del: upd_rows)
  have ans: "answered ?s1 (set_ext_free r) = answered s r" by (simp add: answered_def free)
  have ph: "r_phase r = PhaseExternal" "r_external_claim_epoch r = ce" using x(2) rx(1) by (auto simp: releasable_def)
  have f2: "find_row (s_rows s') i = Some (if r_status r \<in> {StatusRunning, StatusPaused, StatusPausing} \<and> answered s r
      then set_unparked now (set_ext_free r) else set_ext_free r)"
    unfolding s' q_UnparkAnsweredExternal_def Let_def snd_conv
    by (subst find_row_upd) (use f1 ans ph rx(2) in \<open>auto simp: free simp del: upd_rows\<close>)
  show ?thesis
    using f2 ph by (auto simp: row_at_def may_answer_def set_unparked_def set_ext_free_def AcceptsExternalOutcome_def)
qed

end
