(* ===== verification/Retention.thy ===== *)
theory Retention
  imports Lease
begin

text \<open>
  What removes and moves whole trees: the retention sweep (\<open>internal/db/db_retention.go\<close>) and the
  version upgrade's write (\<open>internal/db/db_upgrade.go\<close>).
\<close>

subsection \<open>The retention sweep\<close>

definition q_ConcludedRootsBefore :: "int \<Rightarrow> nat \<Rightarrow> store \<Rightarrow> string list" where
  "q_ConcludedRootsBefore before maxTrees s =
     map r_id (take maxTrees (sort_key (\<lambda>r. (r_updated_at r, r_id r))
       (filter (\<lambda>r. r_parent_id r = [] \<and>
          r_status r \<in> {StatusCompleted, StatusFailed, StatusRaised, StatusCancelled} \<and>
          r_updated_at r < before) (s_rows s))))"

definition q_DeleteSignalsOfTrees :: "string list \<Rightarrow> store \<Rightarrow> store" where
  "q_DeleteSignalsOfTrees roots s = s\<lparr>s_signals := filter (\<lambda>g.
     \<not> list_ex (\<lambda>r. r_id r = g_instance_id g \<and> r_root_id r \<in> set roots) (s_rows s)) (s_signals s)\<rparr>"

definition q_DeleteLogsOfTrees :: "string list \<Rightarrow> store \<Rightarrow> store" where
  "q_DeleteLogsOfTrees roots s = s\<lparr>s_logs := filter (\<lambda>(_, root). root \<notin> set roots) (s_logs s)\<rparr>"

definition q_DeleteTrees :: "string list \<Rightarrow> store \<Rightarrow> store" where
  "q_DeleteTrees roots s = s\<lparr>s_rows := filter (\<lambda>r. r_root_id r \<notin> set roots) (s_rows s)\<rparr>"

text \<open>The map \<open>trees\<close> of \<open>lockConcludedTrees\<close>, in the order its roots are first seen.\<close>

record tree_state =
  t_root :: string
  t_rootOld :: bool
  t_settled :: bool

definition scan_tree_row :: "int \<Rightarrow> row \<Rightarrow> tree_state \<Rightarrow> tree_state" where
  "scan_tree_row before r t = t\<lparr>
     t_settled := t_settled t \<and> \<not> Busy (r_status r),
     t_rootOld := (if r_id r = t_root t then Terminal (r_status r) \<and> r_updated_at r < before else t_rootOld t)\<rparr>"

fun scan_trees :: "int \<Rightarrow> row list \<Rightarrow> tree_state list \<Rightarrow> tree_state list" where
  "scan_trees before [] trees = trees"
| "scan_trees before (r # rows) trees =
     (if r_root_id r \<in> t_root ` set trees
      then scan_trees before rows (map (\<lambda>t. if t_root t = r_root_id r then scan_tree_row before r t else t) trees)
      else scan_trees before rows
             (trees @ [scan_tree_row before r \<lparr>t_root = r_root_id r, t_rootOld = False, t_settled = True\<rparr>]))"

definition lockConcludedTrees :: "string list \<Rightarrow> int \<Rightarrow> store \<Rightarrow> string list" where
  "lockConcludedTrees candidates before s =
     map t_root (filter (\<lambda>t. t_rootOld t \<and> t_settled t)
       (scan_trees before (sort_key r_id (filter (\<lambda>r. r_root_id r \<in> set candidates) (s_rows s))) []))"

definition pruneTrees :: "string list \<Rightarrow> int \<Rightarrow> store \<Rightarrow> nat \<times> store" where
  "pruneTrees candidates before s =
     (let pruned = lockConcludedTrees candidates before s in
      if pruned = [] then (0, s)
      else (length pruned, q_DeleteTrees pruned (q_DeleteLogsOfTrees pruned (q_DeleteSignalsOfTrees pruned s))))"

text \<open>The candidates are read before the lock, from a store that may have moved since.\<close>

definition PruneConcludedTrees :: "int \<Rightarrow> nat \<Rightarrow> store \<Rightarrow> store \<Rightarrow> nat \<times> store" where
  "PruneConcludedTrees before maxTrees seen s =
     (let candidates = q_ConcludedRootsBefore before maxTrees seen in
      if candidates = [] then (0, s) else pruneTrees candidates before s)"

subsection \<open>What the sweep takes\<close>

text \<open>A tree qualifies when its root concluded before the cutoff and none of its rows is busy.\<close>

definition prunable :: "int \<Rightarrow> row list \<Rightarrow> string \<Rightarrow> bool" where
  "prunable before rows root \<longleftrightarrow>
     (\<exists>q \<in> set rows. r_id q = root \<and> r_root_id q = root \<and> Terminal (r_status q) \<and> r_updated_at q < before) \<and>
     (\<forall>r \<in> set rows. r_root_id r = root \<longrightarrow> \<not> Busy (r_status r))"

definition scanned :: "int \<Rightarrow> row list \<Rightarrow> tree_state \<Rightarrow> bool" where
  "scanned before rows t \<longleftrightarrow>
     (t_settled t \<longleftrightarrow> (\<forall>r \<in> set rows. r_root_id r = t_root t \<longrightarrow> \<not> Busy (r_status r))) \<and>
     (t_rootOld t \<longleftrightarrow> (\<exists>q \<in> set rows. r_id q = t_root t \<and> r_root_id q = t_root t \<and> Terminal (r_status q) \<and> r_updated_at q < before))"

lemma scan_tree_row_root [simp]: "t_root (scan_tree_row before r t) = t_root t"
  by (simp add: scan_tree_row_def)

lemma scan_tree_row_step:
  assumes "scanned before seen t" "r_root_id r = t_root t" "\<forall>x \<in> set seen. r_id x \<noteq> r_id r"
  shows "scanned before (seen @ [r]) (scan_tree_row before r t)"
proof -
  have "t_settled (scan_tree_row before r t) \<longleftrightarrow> (\<forall>x \<in> set (seen @ [r]). r_root_id x = t_root t \<longrightarrow> \<not> Busy (r_status x))"
    using assms(1,2) by (auto simp: scanned_def scan_tree_row_def)
  moreover have "t_rootOld (scan_tree_row before r t) \<longleftrightarrow> (\<exists>q \<in> set (seen @ [r]). r_id q = t_root t \<and> r_root_id q = t_root t \<and>
      Terminal (r_status q) \<and> r_updated_at q < before)"
    using assms by (auto simp: scanned_def scan_tree_row_def)
  ultimately show ?thesis by (simp add: scanned_def)
qed

lemma scan_trees_spec:
  assumes "distinct (map r_id (seen @ rows))" "\<forall>t \<in> set trees. scanned before seen t"
    "t_root ` set trees = r_root_id ` set seen"
  shows "(\<forall>t \<in> set (scan_trees before rows trees). scanned before (seen @ rows) t) \<and>
     t_root ` set (scan_trees before rows trees) = r_root_id ` set (seen @ rows)"
  using assms
proof (induction rows arbitrary: seen trees)
  case (Cons r rows)
  have new: "\<forall>x \<in> set seen. r_id x \<noteq> r_id r" using Cons.prems(1) by (metis distinct_append distinct.simps(2) image_eqI in_set_conv_decomp list.simps(9) map_append set_map disjoint_iff list.set_intros(1))
  have other: "scanned before (seen @ [r]) t" if "scanned before seen t" "t_root t \<noteq> r_root_id r" for t
    using that by (auto simp: scanned_def)
  have d: "distinct (map r_id ((seen @ [r]) @ rows))" using Cons.prems(1) by simp
  show ?case
  proof (cases "r_root_id r \<in> t_root ` set trees")
    case True
    let ?trees = "map (\<lambda>t. if t_root t = r_root_id r then scan_tree_row before r t else t) trees"
    have s: "\<forall>t \<in> set ?trees. scanned before (seen @ [r]) t"
      using Cons.prems(2) scan_tree_row_step [OF _ _ new] other by auto
    have "map t_root ?trees = map t_root trees" by simp
    then have "t_root ` set ?trees = t_root ` set trees" by (metis set_map)
    then have "t_root ` set ?trees = r_root_id ` set (seen @ [r])" using True Cons.prems(3) by auto
    then show ?thesis using Cons.IH [OF d s] True by simp
  next
    case False
    let ?t0 = "\<lparr>t_root = r_root_id r, t_rootOld = False, t_settled = True\<rparr>"
    have "scanned before seen ?t0" using False Cons.prems(3) by (force simp: scanned_def image_iff)
    then have "scanned before (seen @ [r]) (scan_tree_row before r ?t0)"
      by (rule scan_tree_row_step) (use new in auto)
    moreover have "\<forall>t \<in> set trees. scanned before (seen @ [r]) t"
      using Cons.prems(2) other False by (metis image_eqI)
    ultimately have s: "\<forall>t \<in> set (trees @ [scan_tree_row before r ?t0]). scanned before (seen @ [r]) t" by simp
    have "t_root ` set (trees @ [scan_tree_row before r ?t0]) = r_root_id ` set (seen @ [r])"
      using Cons.prems(3) by auto
    then show ?thesis using Cons.IH [OF d s] False by simp
  qed
qed simp

lemma lockConcludedTrees_iff:
  assumes d: "distinct (map r_id (s_rows s))"
  shows "root \<in> set (lockConcludedTrees candidates before s) \<longleftrightarrow> root \<in> set candidates \<and> prunable before (s_rows s) root"
proof -
  let ?rows = "sort_key r_id (filter (\<lambda>r. r_root_id r \<in> set candidates) (s_rows s))"
  have "distinct (map r_id (filter (\<lambda>r. r_root_id r \<in> set candidates) (s_rows s)))"
    using d by (simp add: distinct_map_filter)
  then have d': "distinct (map r_id ([] @ ?rows))"
    by (metis append_Nil distinct_map distinct_sort set_sort)
  note S = scan_trees_spec [OF d', of "[]" before, simplified]
  have pr: "prunable before (s_rows s) root \<longleftrightarrow> prunable before ?rows root" if "root \<in> set candidates"
    using that by (auto simp: prunable_def)
  show ?thesis
  proof
    assume "root \<in> set (lockConcludedTrees candidates before s)"
    then obtain t where t: "t \<in> set (scan_trees before ?rows [])" "t_rootOld t" "t_settled t" "root = t_root t"
      by (auto simp: lockConcludedTrees_def)
    then have "prunable before ?rows root" using S by (auto simp: scanned_def prunable_def)
    moreover have "root \<in> set candidates" using calculation by (auto simp: prunable_def)
    ultimately show "root \<in> set candidates \<and> prunable before (s_rows s) root" using pr by blast
  next
    assume a: "root \<in> set candidates \<and> prunable before (s_rows s) root"
    then have p: "prunable before ?rows root" using pr by blast
    obtain q where "q \<in> set (s_rows s)" "r_root_id q = root" using a by (auto simp: prunable_def)
    then have "root \<in> r_root_id ` {x \<in> set (s_rows s). r_root_id x \<in> set candidates}" using a by blast
    then have "root \<in> t_root ` set (scan_trees before ?rows [])" using conjunct2 [OF S] by simp
    then obtain t where t: "t \<in> set (scan_trees before ?rows [])" "t_root t = root" by blast
    then have "t_rootOld t" "t_settled t" using S p by (auto simp: scanned_def prunable_def)
    then show "root \<in> set (lockConcludedTrees candidates before s)"
      using t by (force simp: lockConcludedTrees_def)
  qed
qed

definition pruned_roots :: "int \<Rightarrow> nat \<Rightarrow> store \<Rightarrow> store \<Rightarrow> string set" where
  "pruned_roots before maxTrees seen s =
     {root \<in> set (q_ConcludedRootsBefore before maxTrees seen). prunable before (s_rows s) root}"

lemma prune_rows:
  assumes d: "distinct (map r_id (s_rows s))"
  shows "s_rows (snd (PruneConcludedTrees before maxTrees seen s)) =
    filter (\<lambda>r. r_root_id r \<notin> pruned_roots before maxTrees seen s) (s_rows s)"
proof -
  let ?C = "q_ConcludedRootsBefore before maxTrees seen"
  have eq: "set (lockConcludedTrees ?C before s) = pruned_roots before maxTrees seen s"
    using lockConcludedTrees_iff [OF d] by (auto simp: pruned_roots_def)
  have "pruned_roots before maxTrees seen s = {}" if "?C = []" using that by (simp add: pruned_roots_def)
  moreover have "pruned_roots before maxTrees seen s = {}" if "lockConcludedTrees ?C before s = []" using that eq by simp
  ultimately show ?thesis
    using eq by (auto simp: PruneConcludedTrees_def pruneTrees_def Let_def q_DeleteTrees_def q_DeleteLogsOfTrees_def
        q_DeleteSignalsOfTrees_def)
qed

text \<open>
  C29: the retention sweep deletes whole trees and only trees that qualify under the lock: every row
  it deletes belongs to a tree whose root has concluded before the cutoff and in which nothing is
  busy, whatever the unlocked read had seen; every row of any other tree stays as it was; no signal
  of a deleted instance and no log row of a deleted tree remains; and it takes at most \<open>maxTrees\<close>.
\<close>

theorem prune_takes_concluded_trees:
  assumes d: "distinct (map r_id (s_rows s))"
    and out: "PruneConcludedTrees before maxTrees seen s = (n, s')"
  shows "(\<forall>r \<in> set (s_rows s). if r \<in> set (s_rows s') then \<not> (\<exists>x \<in> set (s_rows s) - set (s_rows s'). r_root_id x = r_root_id r)
            else prunable before (s_rows s) (r_root_id r)) \<and>
         set (s_rows s') \<subseteq> set (s_rows s) \<and>
         (\<forall>g \<in> set (s_signals s'). \<forall>r \<in> set (s_rows s) - set (s_rows s'). g_instance_id g \<noteq> r_id r) \<and>
         (\<forall>(i, root) \<in> set (s_logs s'). root \<notin> r_root_id ` (set (s_rows s) - set (s_rows s'))) \<and>
         card (r_root_id ` (set (s_rows s) - set (s_rows s'))) \<le> maxTrees"
proof -
  let ?C = "q_ConcludedRootsBefore before maxTrees seen"
  let ?P = "pruned_roots before maxTrees seen s"
  have rows: "s_rows s' = filter (\<lambda>r. r_root_id r \<notin> ?P) (s_rows s)" using prune_rows [OF d] out by (metis snd_conv)
  have gone: "set (s_rows s) - set (s_rows s') = {r \<in> set (s_rows s). r_root_id r \<in> ?P}" unfolding rows by auto
  have eq: "set (lockConcludedTrees ?C before s) = ?P"
    using lockConcludedTrees_iff [OF d] by (auto simp: pruned_roots_def)
  have sub: "r_root_id ` {r \<in> set (s_rows s). r_root_id r \<in> ?P} \<subseteq> ?P" by auto
  have "card ?P \<le> card (set ?C)" by (intro card_mono) (auto simp: pruned_roots_def)
  also have "\<dots> \<le> maxTrees"
    using card_length [of ?C] by (simp add: q_ConcludedRootsBefore_def)
  finally have bound: "card (r_root_id ` {r \<in> set (s_rows s). r_root_id r \<in> ?P}) \<le> maxTrees"
    using card_mono [OF _ sub] finite_subset [of ?P "set ?C"] by (force simp: pruned_roots_def)
  have sig: "g_instance_id g \<noteq> r_id r" if "g \<in> set (s_signals s')" "r \<in> set (s_rows s)" "r_root_id r \<in> ?P" for g r
    using that out eq
    by (auto simp: PruneConcludedTrees_def pruneTrees_def Let_def pruned_roots_def q_DeleteTrees_def q_DeleteLogsOfTrees_def
        q_DeleteSignalsOfTrees_def list_ex_iff split: if_splits)
  have log: "root \<notin> ?P" if "(i, root) \<in> set (s_logs s')" for i root
    using that out eq
    by (auto simp: PruneConcludedTrees_def pruneTrees_def Let_def pruned_roots_def q_DeleteTrees_def q_DeleteLogsOfTrees_def
        q_DeleteSignalsOfTrees_def split: if_splits)
  show ?thesis
    unfolding gone using bound sig log by (auto simp: rows pruned_roots_def)
qed


subsection \<open>Upgrading\<close>

text \<open>
  One instance's move. \<open>up_encoded\<close> is what \<open>encodeState\<close> returns for the migrated state
  (\<open>NewContext\<close>).
\<close>

record instance_upgrade =
  up_Instance :: inst
  up_ToVersion :: int
  up_encoded :: "state_cols \<times> pending_object list \<times> string list"

definition upgradeable :: "instance_upgrade \<Rightarrow> row \<Rightarrow> bool" where
  "upgradeable up r \<longleftrightarrow> r_id r = i_ID (up_Instance up) \<and>
     r_process_version r = i_ProcessVersion (up_Instance up) \<and> r_task r = i_Task (up_Instance up) \<and>
     r_status r \<in> {StatusPaused, StatusFailed} \<and> r_worker_id r = None"

definition set_upgraded :: "instance_upgrade \<Rightarrow> int \<Rightarrow> row \<Rightarrow> row" where
  "set_upgraded up now r =
     r\<lparr>r_process_version := up_ToVersion up, r_cols := fst (up_encoded up), r_updated_at := now\<rparr>"

definition q_UpgradeInstanceVersion :: "instance_upgrade \<Rightarrow> int \<Rightarrow> store \<Rightarrow> nat \<times> store" where
  "q_UpgradeInstanceVersion up now s =
     (rows_matching (upgradeable up) s, upd (upgradeable up) (set_upgraded up now) s)"

definition staged :: "instance_upgrade \<Rightarrow> inst" where
  "staged up = (case up_encoded up of (cols, pending, referenced) \<Rightarrow>
     (up_Instance up)\<lparr>i_cols := cols, i_pending := pending, i_referenced := referenced\<rparr>)"

fun upgrade_loop :: "instance_upgrade list \<Rightarrow> int \<Rightarrow> store \<Rightarrow> unit tx" where
  "upgrade_loop [] now s = Inr ((), s)"
| "upgrade_loop (up # ups) now s =
     (case persistState (staged up) now s of (_, s1) \<Rightarrow>
        (case q_UpgradeInstanceVersion up now s1 of (n, s2) \<Rightarrow>
           if n = 0 then Inl ErrUpgradeStale else upgrade_loop ups now s2))"

definition UpgradeInstances :: "instance_upgrade list \<Rightarrow> int \<Rightarrow> store \<Rightarrow> (db_error, unit) result \<times> store" where
  "UpgradeInstances ups now s = (if ups = [] then (Inr (), s) else withTx (upgrade_loop ups now) s)"

definition upgraded_rows :: "instance_upgrade list \<Rightarrow> int \<Rightarrow> row list \<Rightarrow> row list" where
  "upgraded_rows ups now rows =
     fold (\<lambda>up. map (\<lambda>r. if upgradeable up r then set_upgraded up now r else r)) ups rows"

lemma upgrade_loop_spec:
  "upgrade_loop ups now s = Inr ((), s') \<Longrightarrow> s_rows s' = upgraded_rows ups now (s_rows s)"
proof (induction ups arbitrary: s)
  case (Cons up ups)
  obtain c s1 where p: "persistState (staged up) now s = (c, s1)" by fastforce
  then have r1: "s_rows s1 = s_rows s" using persistState_rows(2) [of "staged up" now s] by simp
  then have "s_rows s' = upgraded_rows ups now (s_rows (upd (upgradeable up) (set_upgraded up now) s1))"
    using Cons p by (auto simp: q_UpgradeInstanceVersion_def split: if_splits simp del: upd_rows)
  then show ?case using r1 by (simp add: upgraded_rows_def)
qed (simp add: upgraded_rows_def)

lemma upgrade_loop_error: "upgrade_loop ups now s = Inl e \<Longrightarrow> e = ErrUpgradeStale"
  by (induction ups arbitrary: s) (auto split: prod.splits if_splits)

lemma upgrade_loop_ok:
  assumes "distinct (map (i_ID \<circ> up_Instance) ups)"
  shows "(\<exists>s'. upgrade_loop ups now s = Inr ((), s')) \<longleftrightarrow> (\<forall>up \<in> set ups. \<exists>r \<in> set (s_rows s). upgradeable up r)"
  using assms
proof (induction ups arbitrary: s)
  case (Cons up ups)
  obtain c s1 where p: "persistState (staged up) now s = (c, s1)" by fastforce
  then have r1: "s_rows s1 = s_rows s" using persistState_rows(2) [of "staged up" now s] by simp
  let ?s2 = "upd (upgradeable up) (set_upgraded up now) s1"
  have other: "(\<exists>r \<in> set (s_rows ?s2). upgradeable v r) \<longleftrightarrow> (\<exists>r \<in> set (s_rows s). upgradeable v r)" if "v \<in> set ups" for v
  proof -
    have "i_ID (up_Instance up) \<notin> (i_ID \<circ> up_Instance) ` set ups" using Cons.prems by simp
    then have "i_ID (up_Instance v) \<noteq> i_ID (up_Instance up)" using imageI [OF that, of "i_ID \<circ> up_Instance"] by auto
    then have "upgradeable v (if upgradeable up r then set_upgraded up now r else r) \<longleftrightarrow> upgradeable v r" for r
      by (auto simp: upgradeable_def set_upgraded_def)
    then show ?thesis unfolding upd_rows set_map r1 bex_simps(7) by simp
  qed
  have "(\<exists>s'. upgrade_loop ups now ?s2 = Inr ((), s')) \<longleftrightarrow> (\<forall>v \<in> set ups. \<exists>r \<in> set (s_rows ?s2). upgradeable v r)"
    using Cons by simp
  moreover have "rows_matching (upgradeable up) s1 = 0 \<longleftrightarrow> \<not> (\<exists>r \<in> set (s_rows s). upgradeable up r)"
    by (simp add: rows_matching_0 r1)
  ultimately show ?case using p other by (simp add: q_UpgradeInstanceVersion_def del: upd_rows)
qed simp

text \<open>
  C30: an upgrade moves all of its instances or none: it succeeds exactly when every instance is
  still paused or failed, unleased, and on the version and task its migration was computed from;
  then each of those rows carries its new version and migrated state and nothing else of any row
  changes; otherwise it reports that the instance moved and the store is untouched.
\<close>

theorem upgrade_all_or_nothing:
  assumes "distinct (map (i_ID \<circ> up_Instance) ups)"
  shows "if \<forall>up \<in> set ups. \<exists>r \<in> set (s_rows s). upgradeable up r
    then \<exists>s'. UpgradeInstances ups now s = (Inr (), s') \<and> s_rows s' = upgraded_rows ups now (s_rows s)
    else UpgradeInstances ups now s = (Inl ErrUpgradeStale, s)"
proof (cases "\<forall>up \<in> set ups. \<exists>r \<in> set (s_rows s). upgradeable up r")
  case True
  then obtain s' where "upgrade_loop ups now s = Inr ((), s')" using upgrade_loop_ok [OF assms] by blast
  then show ?thesis using upgrade_loop_spec True by (fastforce simp: UpgradeInstances_def withTx_def upgraded_rows_def)
next
  case False
  then have "\<not> (\<exists>s'. upgrade_loop ups now s = Inr ((), s'))" using upgrade_loop_ok [OF assms] by blast
  then obtain e where "upgrade_loop ups now s = Inl e" by (cases "upgrade_loop ups now s") auto
  then show ?thesis using False upgrade_loop_error by (auto simp: UpgradeInstances_def withTx_def)
qed

end
