(* ===== verification/Tree_System.thy ===== *)
theory Tree_System
  imports Tree_Retry External_Queue Retention
begin

text \<open>
  The store as a system: every operation of the database layer is a step, under the contract its
  caller keeps, and the tree invariant holds on every store the steps reach. The prelude's locale of
  step invariants is interpreted here.
\<close>

subsection \<open>The remaining operations keep the invariant\<close>

lemma upd_same_shape_inv:
  assumes inv: "tree_inv (s_rows s)" and shape: "\<And>r. r \<in> set (s_rows s) \<Longrightarrow> P r \<Longrightarrow> same_shape r (f r)"
    and same: "\<And>r. r_worker_id (f r) = r_worker_id r" "\<And>r. r_superseded_at (f r) = r_superseded_at r"
      "\<And>r. r_status (f r) = r_status r"
  shows "tree_inv (s_rows (upd P f s))"
  unfolding upd_rows
proof (rule tree_inv_same_shape [OF inv])
  fix r assume r: "r \<in> set (s_rows s)" "node_ok r"
  show "node_ok (if P r then f r else r)"
    using r shape [OF r(1)] same by (auto simp: node_ok_def same_shape_def)
qed (use shape in \<open>auto simp: same_shape_def\<close>)

lemma unpark_shape: "r_phase r \<noteq> PhaseChildren \<Longrightarrow> same_shape r (set_unparked now r)"
  by (simp add: same_shape_def same_place_def set_unparked_def)

lemma set_unparked_keeps [simp]:
  "r_worker_id (set_unparked now r) = r_worker_id r" "r_superseded_at (set_unparked now r) = r_superseded_at r"
  by (simp_all add: set_unparked_def)

lemma UnparkExternal_inv:
  assumes inv: "tree_inv (s_rows s)" and r: "find_row (s_rows s) i = Some r" "r_phase r = PhaseExternal"
  shows "tree_inv (s_rows (q_UnparkExternal i now s))"
  unfolding q_UnparkExternal_def
proof (rule upd_same_shape_inv [OF inv])
  fix x assume x: "x \<in> set (s_rows s)" "r_id x = i"
  then have "find_row (s_rows s) i = Some x" using find_row_distinct [OF wf_distinct [OF tree_invD(1) [OF inv]]] by blast
  then show "same_shape x (set_unparked now x)" using r by (intro unpark_shape) simp
qed simp_all

lemma UnparkAnswered_inv:
  assumes inv: "tree_inv (s_rows s)"
  shows "tree_inv (s_rows (snd (q_UnparkAnsweredExternal ids now s)))"
  unfolding q_UnparkAnsweredExternal_def Let_def snd_conv
  by (rule upd_same_shape_inv [OF inv]) (auto intro: unpark_shape)

lemma withTx_inv:
  assumes "tree_inv (s_rows s)" "\<And>x s'. body s = Inr (x, s') \<Longrightarrow> tree_inv (s_rows s')"
  shows "tree_inv (s_rows (snd (withTx body s)))"
  using assms by (auto simp: withTx_def split: sum.splits)

lemma InsertSignal_rows: "q_InsertSignal g s = Inr s' \<Longrightarrow> s_rows s' = s_rows s"
  by (auto simp: q_InsertSignal_def split: if_splits)

lemma DeliverSignal_inv:
  assumes inv: "tree_inv (s_rows s)"
  shows "tree_inv (s_rows (snd (DeliverSignal i task mint outcome now s)))"
  unfolding DeliverSignal_def
proof (rule withTx_inv [OF inv])
  fix x s' assume body: "deliver_body i task mint outcome now s = Inr (x, s')"
  then obtain r s1 where r: "find_row (s_rows s) i = Some r" and s1: "q_InsertSignal (new_signal mint i task outcome now) s = Inr s1"
    and s': "s' = (if x then q_UnparkExternal i now s1 else s1)" and x: "x \<Longrightarrow> r_phase r = PhaseExternal"
    by (auto simp: deliver_body_def Let_def split: option.splits if_splits sum.splits)
  show "tree_inv (s_rows s')"
    using UnparkExternal_inv [of s1 i r now] inv r x InsertSignal_rows [OF s1] s' by simp
qed

lemma ResolveExternalTask_inv:
  assumes inv: "tree_inv (s_rows s)"
  shows "tree_inv (s_rows (snd (ResolveExternalTask i epoch claim mint outcome now s)))"
  unfolding ResolveExternalTask_def
proof (rule withTx_inv [OF inv])
  fix x s' assume body: "resolve_body i epoch claim mint outcome now s = Inr (x, s')"
  then obtain r s1 where "find_row (s_rows s) i = Some r" "r_phase r = PhaseExternal"
    "bufferOutcome i (r_task r) mint outcome now s = Inr s1" "s' = q_UnparkExternal i now s1"
    by (auto simp: resolve_body_def split: option.splits if_splits sum.splits)
  then show "tree_inv (s_rows s')"
    using UnparkExternal_inv [of s1 i r now] inv InsertSignal_rows by (fastforce simp: bufferOutcome_def)
qed

definition arm_ok :: "row list \<Rightarrow> inst \<Rightarrow> bool" where
  "arm_ok rows i \<longleftrightarrow> engine_inst rows i \<and> i_Status i = StatusRunning"

lemma write_inst_inv:
  assumes "tree_inv (s_rows s)" "engine_inst (s_rows s) i" "i_Phase i \<noteq> PhaseChildren" "i_Status i = StatusRunning"
    "write_inst i now s = Inr s'"
  shows "tree_inv (s_rows s')"
  using UpdateInstance_inv [OF assms(1-3), of now] assms(4,5) by (simp add: UpdateInstance_def withTx_def)

lemma write_progress_inv:
  assumes "tree_inv (s_rows s)" "engine_inst (s_rows s) i" "i_Phase i \<noteq> PhaseChildren" "write_progress i now s = Inr s'"
  shows "tree_inv (s_rows s')"
  using UpdateInstanceProgress_inv [OF assms(1-3), of now] assms(4) by (simp add: UpdateInstanceProgress_def withTx_def)

lemma ArmExternalUnlessSignalled_inv:
  assumes inv: "tree_inv (s_rows s)" and i: "arm_ok (s_rows s) i"
  shows "tree_inv (s_rows (snd (ArmExternalUnlessSignalled i encoded task wake now s)))"
  unfolding ArmExternalUnlessSignalled_def
proof (rule withTx_inv [OF inv])
  fix x s' assume body: "arm_body i encoded task wake now s = Inr (x, s')"
  obtain cols pending referenced where enc: "encoded = (cols, pending, referenced)" by (cases encoded) auto
  have e: "engine_inst (s_rows s) (i\<lparr>i_Phase := PhaseNone, i_WakeAt := None\<rparr>)"
    "engine_inst (s_rows s) (i\<lparr>i_Phase := PhaseExternal, i_WakeAt := wake, i_cols := cols,
       i_pending := pending, i_referenced := referenced\<rparr>)"
    using i by (simp_all add: arm_ok_def engine_inst_def)
  from body consider
      "write_progress (i\<lparr>i_Phase := PhaseNone, i_WakeAt := None\<rparr>) now s = Inr s'"
    | "write_inst (i\<lparr>i_Phase := PhaseExternal, i_WakeAt := wake, i_cols := cols,
         i_pending := pending, i_referenced := referenced\<rparr>) now s = Inr s'"
    by (auto simp: arm_body_def enc split: option.splits if_splits sum.splits)
  then show "tree_inv (s_rows s')"
    using write_progress_inv [OF inv e(1)] write_inst_inv [OF inv e(2)] i by cases (auto simp: arm_ok_def)
qed

lemma ext_columns_shape:
  "same_shape r (set_ext_grant w e r)" "same_shape r (set_ext_expiry e r)" "same_shape r (set_ext_free r)" "same_shape r (set_lost t r)"
  "r_worker_id (set_ext_grant w e r) = r_worker_id r" "r_superseded_at (set_ext_grant w e r) = r_superseded_at r"
  "r_worker_id (set_ext_expiry e r) = r_worker_id r" "r_superseded_at (set_ext_expiry e r) = r_superseded_at r"
  "r_worker_id (set_ext_free r) = r_worker_id r" "r_superseded_at (set_ext_free r) = r_superseded_at r"
  "r_worker_id (set_lost t r) = r_worker_id r" "r_superseded_at (set_lost t r) = r_superseded_at r"
  "r_status (set_ext_grant w e r) = r_status r" "r_status (set_ext_expiry e r) = r_status r"
  "r_status (set_ext_free r) = r_status r" "r_status (set_lost t r) = r_status r"
  by (simp_all add: same_shape_def same_place_def set_ext_grant_def set_ext_expiry_def set_ext_free_def set_lost_def)

lemma ClaimExternalTasks_sqlite_inv:
  assumes inv: "tree_inv (s_rows s)"
  shows "tree_inv (s_rows (snd (ClaimExternalTasks_sqlite w dur limit f now s)))"
proof -
  have grant: "tree_inv (s_rows (q_GrantExternalLeases w e ids s1))" if "tree_inv (s_rows s1)" for e ids s1
    unfolding q_GrantExternalLeases_def by (rule upd_same_shape_inv [OF that]) (simp_all add: ext_columns_shape)
  note un = UnparkAnswered_inv [OF inv]
  show ?thesis
    using inv grant un
    by (auto simp: ClaimExternalTasks_sqlite_def Let_def split: prod.splits) (metis snd_conv)+
qed

lemma ClaimExternalTasks_pg_inv:
  assumes inv: "tree_inv (s_rows s)"
  shows "tree_inv (s_rows (snd (ClaimExternalTasks_pg locked w dur limit f now s)))"
proof -
  let ?C = "queue_candidates locked now limit f (s_rows s)"
  have ph: "r_phase r \<noteq> PhaseChildren" if "r \<in> set (s_rows s)" "r_id r \<in> r_id ` {c \<in> set ?C. answered s c}" for r
    using that candidate_by_id [OF wf_distinct [OF tree_invD(1) [OF inv]] that(1), of locked now limit f "answered s"]
      candidates_where [of r locked now limit f "s_rows s"] by (auto simp: queue_where_def claimableWhere_def)
  show ?thesis
    unfolding ClaimExternalTasks_pg_def Let_def snd_conv
    by (simp, rule tree_inv_same_shape [OF inv])
      (use ph in \<open>auto simp: ext_columns_shape node_ok_def same_shape_def same_place_def set_unparked_def set_ext_grant_def\<close>)
qed

lemma RenewExternalClaims_inv:
  assumes inv: "tree_inv (s_rows s)"
  shows "tree_inv (s_rows (snd (RenewExternalClaims w cs dur now s)))"
proof -
  have rows: "s_rows (snd (RenewExternalClaims w cs dur now s)) = map (renewed_row w (now + dur) cs) (s_rows s)"
    by (simp add: RenewExternalClaims_def renewChunkSize_def renew_chunks_all
        renew_claims_spec [OF wf_distinct [OF tree_invD(1) [OF inv]]])
  show ?thesis unfolding rows
    by (rule tree_inv_same_shape [OF inv]) (auto simp: renewed_row_def ext_columns_shape node_ok_def same_shape_def same_place_def set_ext_expiry_def)
qed

lemma ReleaseExternalClaim_inv:
  assumes inv: "tree_inv (s_rows s)"
  shows "tree_inv (s_rows (snd (ReleaseExternalClaim i te ce now s)))"
  unfolding ReleaseExternalClaim_def
proof (rule withTx_inv [OF inv])
  fix x s' assume "(if rows_matching (releasable i te ce) s = 0 then Inl ErrConflict
      else Inr ((), snd (q_UnparkAnsweredExternal [i] now (upd (releasable i te ce) set_ext_free s)))) = Inr (x, s')"
  then have "s' = snd (q_UnparkAnsweredExternal [i] now (upd (releasable i te ce) set_ext_free s))" by (simp split: if_splits)
  moreover have "tree_inv (s_rows (upd (releasable i te ce) set_ext_free s))"
    by (rule upd_same_shape_inv [OF inv]) (simp_all add: ext_columns_shape)
  ultimately show "tree_inv (s_rows s')" using UnparkAnswered_inv by blast
qed

lemma MarkExternalClaimLost_inv:
  assumes inv: "tree_inv (s_rows s)"
  shows "tree_inv (s_rows (snd (MarkExternalClaimLost i te now s)))"
  unfolding MarkExternalClaimLost_def
proof (rule withTx_inv [OF inv])
  fix x s' assume "(if rows_matching (loseable i te) s = 0 then Inl ErrConflict
      else Inr ((), upd (loseable i te) (set_lost now) s)) = Inr (x, s')"
  then have "s' = upd (loseable i te) (set_lost now) s" by (simp split: if_splits)
  moreover have "tree_inv (s_rows (upd (loseable i te) (set_lost now) s))"
    by (rule upd_same_shape_inv [OF inv]) (simp_all add: ext_columns_shape)
  ultimately show "tree_inv (s_rows s')" by simp
qed

lemma CollectObjects_rows: "s_rows (snd (CollectObjects grace now s)) = s_rows s"
proof -
  have "s_rows (retireOrphanedLogRefs s) = s_rows s" "s_rows (retireOrphanedInstanceRefs s) = s_rows s" for s
    by (simp_all add: retireOrphanedLogRefs_def retireOrphanedInstanceRefs_def fold_same [of s_rows] row_simps)
  then show ?thesis
    by (simp add: CollectObjects_def Let_def q_CollectUnreferencedObjects_def q_MarkObjectReleased_def q_ClearObjectRelease_def)
qed

lemma UpgradeInstances_inv:
  assumes inv: "tree_inv (s_rows s)"
  shows "tree_inv (s_rows (snd (UpgradeInstances ups now s)))"
proof -
  have "tree_inv (upgraded_rows ups now rows)" if "tree_inv rows" for rows
    using that
  proof (induction ups arbitrary: rows)
    case (Cons up ups)
    have "tree_inv (map (\<lambda>r. if upgradeable up r then set_upgraded up now r else r) rows)"
      by (rule tree_inv_same_shape [OF Cons.prems]) (auto simp: same_shape_def same_place_def set_upgraded_def node_ok_def)
    then show ?case using Cons.IH by (simp add: upgraded_rows_def)
  qed (simp add: upgraded_rows_def)
  then show ?thesis
    using inv upgrade_loop_spec by (fastforce simp: UpgradeInstances_def withTx_def split: sum.splits)
qed

text \<open>Deleting whole trees.\<close>

lemma tree_inv_filter:
  assumes inv: "tree_inv rows"
  shows "tree_inv (filter (\<lambda>r. r_root_id r \<notin> R) rows)"
proof -
  note D = tree_invD [OF inv]
  let ?rows = "filter (\<lambda>r. r_root_id r \<notin> R) rows"
  have "wf_rows ?rows"
    unfolding wf_rows_def
  proof (intro conjI ballI)
    show "distinct (map r_id ?rows)" using wf_distinct [OF D(1)] by (simp add: distinct_map_filter)
    fix r assume r: "r \<in> set ?rows"
    then have rr: "r \<in> set rows" "r_root_id r \<notin> R" by auto
    show "r_id r \<noteq> []" using wf_id [OF D(1) rr(1)] .
    show "if r_parent_id r = [] then r_call_stack r = [] \<and> r_root_id r = r_id r
       else r_spawn_task_id r \<noteq> [] \<and> (\<exists>p \<in> set ?rows. child_of p r \<and> r_call_stack r = r_call_stack p @ [r_id p] \<and> r_root_id r = r_root_id p)"
    proof (cases "r_parent_id r = []")
      case True
      then show ?thesis using wf_root [OF D(1) rr(1)] by simp
    next
      case False
      then obtain p where "p \<in> set rows" "child_of p r" "r_call_stack r = r_call_stack p @ [r_id p]" "r_root_id r = r_root_id p"
        using wf_parent [OF D(1) rr(1)] by metis
      then show ?thesis using False wf_spawn [OF D(1) rr(1) False] rr(2) by auto
    qed
  qed
  moreover have "wait_ok (set ?rows) p" if p: "p \<in> set ?rows" for p
    unfolding wait_ok_def
  proof
    assume "r_phase p = PhaseChildren \<and> \<not> Terminal (r_status p)"
    then obtain k where k: "k \<in> set rows" "child_of p k" "batch_of p k" "\<not> Terminal (r_status k)"
      "Draining (r_status p) \<longrightarrow> Busy (r_status k)" using D(5) [of p] p by (auto simp: wait_ok_def)
    moreover have "r_root_id k = r_root_id p" using parent_in_stack [OF D(1) k(1) _ k(2)] p by auto
    ultimately show "\<exists>k \<in> set ?rows. child_of p k \<and> batch_of p k \<and> \<not> Terminal (r_status k) \<and>
        (Draining (r_status p) \<longrightarrow> Busy (r_status k))" using p by (intro bexI [of _ k]) auto
  qed
  ultimately show ?thesis
    using D(2-4) by (auto simp: tree_inv_but_def edges_ok_def roots_ok_def)
qed

lemma PruneConcludedTrees_inv:
  assumes "tree_inv (s_rows s)"
  shows "tree_inv (s_rows (snd (PruneConcludedTrees before maxTrees seen s)))"
  using tree_inv_filter [OF assms] prune_rows [OF wf_distinct [OF tree_invD(1) [OF assms]]] by simp


subsection \<open>The step relation\<close>

text \<open>
  One step is one call of the database layer, with any arguments its caller's contract allows. The
  engine passes instances it read off their rows under a lease; the API passes ids. A step may
  fail, and then leaves the store as its error path does.
\<close>

inductive op_step :: "store \<Rightarrow> store \<Rightarrow> bool" where
  step_save: "i_ParentID i = [] \<Longrightarrow> i_CallStack i = [] \<Longrightarrow> i_ID i \<noteq> [] \<Longrightarrow> i_Status i \<noteq> StatusFailing \<Longrightarrow>
     i_Phase i \<noteq> PhaseChildren \<Longrightarrow> op_step s (snd (SaveInstance i now s))"
| step_claim: "op_step s (snd (ClaimInstances locked w dur limit cutoff now s))"
| step_renew: "op_step s (snd (RenewWorkerLeases w ids dur now s))"
| step_update: "engine_inst (s_rows s) i \<Longrightarrow> i_Phase i \<noteq> PhaseChildren \<Longrightarrow>
     i_Status i = StatusRunning \<or> (i_ParentID i = [] \<and> i_Status i \<noteq> StatusFailing) \<Longrightarrow>
     op_step s (snd (UpdateInstance i now s))"
| step_progress: "engine_inst (s_rows s) i \<Longrightarrow> i_Phase i \<noteq> PhaseChildren \<Longrightarrow>
     op_step s (snd (UpdateInstanceProgress i now s))"
| step_finish: "engine_inst (s_rows s) i \<Longrightarrow> finish_ok (s_rows s) i \<Longrightarrow> op_step s (snd (FinishChild pg i now s))"
| step_fail: "engine_inst (s_rows s) i \<Longrightarrow> fail_ok i \<Longrightarrow> \<exists>x \<in> set (s_rows s). r_id x = i_ID i \<Longrightarrow>
     op_step s (snd (FailInstanceAndAncestors pg i now s))"
| step_spawn: "spawn_ok (s_rows s) i cs \<Longrightarrow> op_step s (snd (SpawnChildrenAndWait i cs now s))"
| step_respawn: "spawn_ok (s_rows s) i cs \<Longrightarrow>
     \<forall>r \<in> set (s_rows s). r_id r \<in> set retired \<longrightarrow> r_status r = StatusRaised \<Longrightarrow>
     op_step s (snd (RespawnSlotsAndWait i retired cs now s))"
| step_pause: "op_step s (snd (PauseProcess n now s))"
| step_cancel: "op_step s (snd (CancelProcess n now s))"
| step_resume: "op_step s (snd (ResumeProcess n now s))"
| step_retry: "find_row (s_rows seen) n = find_row (s_rows s) n \<Longrightarrow>
     op_step s (snd (RetryProcess defs n force now seen s))"
| step_arm: "arm_ok (s_rows s) i \<Longrightarrow> op_step s (snd (ArmExternalUnlessSignalled i encoded task wake now s))"
| step_deliver: "op_step s (snd (DeliverSignal n task mint outcome now s))"
| step_resolve: "op_step s (snd (ResolveExternalTask n epoch claim mint outcome now s))"
| step_queue_pg: "op_step s (snd (ClaimExternalTasks_pg locked w dur limit f now s))"
| step_queue_sqlite: "op_step s (snd (ClaimExternalTasks_sqlite w dur limit f now s))"
| step_queue_renew: "op_step s (snd (RenewExternalClaims w cs dur now s))"
| step_release: "op_step s (snd (ReleaseExternalClaim n te ce now s))"
| step_lost: "op_step s (snd (MarkExternalClaimLost n te now s))"
| step_collect: "op_step s (snd (CollectObjects grace now s))"
| step_upgrade: "op_step s (snd (UpgradeInstances ups now s))"

text \<open>The retention sweep is the one step that forgets rows, and with them their epochs.\<close>

inductive db_step :: "store \<Rightarrow> store \<Rightarrow> bool" where
  db_op: "op_step s t \<Longrightarrow> db_step s t"
| db_prune: "db_step s (snd (PruneConcludedTrees before maxTrees seen s))"

definition empty_store :: store where
  "empty_store = \<lparr>s_rows = [], s_signals = [], s_objects = [], s_refs = [], s_logs = [], s_audit = []\<rparr>"

lemma empty_inv: "tree_inv (s_rows empty_store)"
  by (simp add: empty_store_def tree_inv_but_def wf_rows_def edges_ok_def roots_ok_def)

lemma op_step_inv: "op_step s t \<Longrightarrow> tree_inv (s_rows s) \<Longrightarrow> tree_inv (s_rows t)"
proof (induction rule: op_step.induct)
  case (step_fail s i pg now)
  then show ?case using FailInstanceAndAncestors_cases [of s i pg now] by fastforce
next
  case (step_retry seen n s defs force now)
  then show ?case using RetryProcess_inv [of s seen n defs force now] by (metis prod.collapse)
qed (simp_all add: SaveInstance_inv ClaimInstances_inv RenewWorkerLeases_inv UpdateInstance_inv UpdateInstanceProgress_inv
    FinishChild_inv SpawnChildrenAndWait_inv RespawnSlotsAndWait_inv PauseProcess_inv CancelProcess_inv ResumeProcess_inv
    ArmExternalUnlessSignalled_inv DeliverSignal_inv ResolveExternalTask_inv ClaimExternalTasks_pg_inv
    ClaimExternalTasks_sqlite_inv RenewExternalClaims_inv ReleaseExternalClaim_inv MarkExternalClaimLost_inv
    CollectObjects_rows UpgradeInstances_inv)

interpretation store_inv: step_invariant db_step "\<lambda>s. tree_inv (s_rows s)"
proof
  fix s t assume "tree_inv (s_rows s)" "db_step s t"
  then show "tree_inv (s_rows t)"
    using op_step_inv PruneConcludedTrees_inv by (auto elim: db_step.cases)
qed

interpretation op_inv: step_invariant op_step "\<lambda>s. tree_inv (s_rows s)"
  by unfold_locales (rule op_step_inv)

end
