(* ===== verification/Row_Order.thy ===== *)
theory Row_Order
  imports Tree_System
begin

text \<open>
  What an operation does to each row, stated once. A relation on rows that every statement respects is
  respected by every operation: the locales below name the statements as laws, and derive one lemma for
  each operation. \<open>Tree_Epochs\<close> and \<open>At_Most_Once\<close> interpret them.
\<close>

definition rows_le :: "(row \<Rightarrow> row \<Rightarrow> bool) \<Rightarrow> row list \<Rightarrow> row list \<Rightarrow> bool" where
  "rows_le le rows rows' \<longleftrightarrow> (\<forall>x \<in> set rows. \<exists>y \<in> set rows'. le x y) \<and> (distinct (map r_id rows) \<longrightarrow> distinct (map r_id rows'))"

text \<open>The parameters of a write by an instance; \<open>any\<close> when the write chooses the status itself.\<close>

definition written_by :: "inst \<Rightarrow> bool \<Rightarrow> update_params \<Rightarrow> bool" where
  "written_by i any p \<longleftrightarrow> u_ID p = i_ID i \<and> u_LeaseEpoch p = i_LeaseEpoch i \<and> u_WorkerID p = fenceWorker i \<and>
     u_TaskEpoch p = i_TaskEpoch i \<and> (any \<or> u_Status p = i_Status i)"

lemma written_params: "written_by i any (updateInstanceParams i cols now)"
  by (simp add: written_by_def updateInstanceParams_def)

lemma fenced_store: "requireFenced w = Inr s' \<Longrightarrow> s' = snd w"
  by (auto simp: requireFenced_def split: prod.splits if_splits)

lemma persist_rows: "persistState i now s = (c, s0) \<Longrightarrow> s_rows s0 = s_rows s"
  using persistState_rows(2) [of i now s] by simp

lemma log_rows [simp]: "s_rows (logInstances ids ev s) = s_rows s" "s_rows (logSettled rs s) = s_rows s"
proof -
  show *: "s_rows (logInstances ids ev s) = s_rows s" for ids ev s by (simp add: logInstances_def)
  show "s_rows (logSettled rs s) = s_rows s"
    unfolding logSettled_def by (rule fold_same) (auto simp: *)
qed

subsection \<open>Operations that hold no lease\<close>

locale row_order =
  fixes le :: "row \<Rightarrow> row \<Rightarrow> bool" and open_row :: "row \<Rightarrow> bool"
  assumes le_refl: "le x x"
    and le_trans: "le x y \<Longrightarrow> le y z \<Longrightarrow> le x z"
    and open_row: "r_status x \<in> {StatusRunning, StatusPaused} \<Longrightarrow> open_row x"
    and le_status: "open_row x \<Longrightarrow> le x (set_status st now x)"
    and le_drained: "r_status x \<in> {StatusPausing, StatusCancelling, StatusFailing} \<Longrightarrow> le x (set_drained now x)"
    and le_failing: "r_status x \<in> {StatusRunning, StatusPausing, StatusPaused} \<Longrightarrow> le x (set_failing msg code now x)"
    and le_woken: "le x (set_woken now x)"
    and le_superseded: "le x (x\<lparr>r_superseded_at := Some now\<rparr>)"
    and le_expiry: "le x (set_expiry e x)"
    and le_unparked: "le x (set_unparked now x)"
    and le_ext_grant: "le x (set_ext_grant w e x)"
    and le_ext_expiry: "le x (set_ext_expiry e x)"
    and le_ext_free: "le x (set_ext_free x)"
    and le_lost: "le x (set_lost now x)"
begin

abbreviation keeps :: "store \<Rightarrow> store \<Rightarrow> bool" where
  "keeps s t \<equiv> rows_le le (s_rows s) (s_rows t)"

lemma rows_refl [simp]: "rows_le le rows rows"
  using le_refl by (auto simp: rows_le_def)

lemma rows_trans: "rows_le le a b \<Longrightarrow> rows_le le b c \<Longrightarrow> rows_le le a c"
  unfolding rows_le_def by (meson le_trans)

lemma rows_map:
  assumes "\<And>x. x \<in> set rows \<Longrightarrow> le x (g x) \<and> r_id (g x) = r_id x"
  shows "rows_le le rows (map g rows)"
proof -
  have "map r_id (map g rows) = map r_id rows" using assms by simp
  then show ?thesis using assms by (force simp: rows_le_def simp del: map_map)
qed

lemma rows_upd:
  assumes "\<And>x. x \<in> set (s_rows s) \<Longrightarrow> P x \<Longrightarrow> le x (f x) \<and> r_id (f x) = r_id x"
  shows "keeps s (upd P f s)"
  unfolding upd_rows by (rule rows_map) (simp add: assms le_refl)

lemma rows_fold: "(\<And>x s. keeps s (f x s)) \<Longrightarrow> keeps s (fold f xs s)"
  by (induction xs arbitrary: s) (auto intro: rows_trans)

lemma rows_tx: "(\<And>x s'. body s = Inr (x, s') \<Longrightarrow> keeps s s') \<Longrightarrow> keeps s (snd (withTx body s))"
  by (auto simp: withTx_def split: sum.splits)

lemmas ids_kept = set_drained_def set_woken_def set_failing_def set_status_def set_expiry_def set_unparked_def set_ext_grant_def
  set_ext_expiry_def set_ext_free_def set_lost_def

lemma rows_statements:
  "keeps s (q_SettleDrained i now s)" "keeps s (q_WakeParent i now s)" "keeps s (q_FailAncestors msg code now ids s)"
  "keeps s (q_SupersedeInstance i now s)" "keeps s (q_UnparkExternal i now s)" "keeps s (q_GrantExternalLeases w e ids s)"
  "keeps s (snd (q_PauseTree i now s))" "keeps s (snd (q_CancelTree i now s))" "keeps s (snd (q_UnparkAnsweredExternal ids now s))"
  unfolding q_SettleDrained_def q_WakeParent_def q_FailAncestors_def q_SupersedeInstance_def q_UnparkExternal_def q_GrantExternalLeases_def
    q_PauseTree_def q_CancelTree_def stop_rows_def q_UnparkAnsweredExternal_def Let_def snd_conv
  by (rule rows_upd; auto simp: le_drained le_woken le_failing le_superseded le_unparked le_ext_grant open_row le_status; simp add: ids_kept)+

lemma rows_insert: "q_InsertInstance r s = Inr s' \<Longrightarrow> keeps s s'"
proof -
  assume a: "q_InsertInstance r s = Inr s'"
  then have new: "r_id r \<notin> r_id ` set (s_rows s)"
    by (auto simp: q_InsertInstance_def find_row_def find_None_iff split: if_splits)
  have "\<exists>y \<in> set (s_rows s'). le x y" if "x \<in> set (s_rows s)" for x
    using a that le_refl by (intro bexI [of _ x]) (auto simp: q_InsertInstance_def split: if_splits)
  then show ?thesis using a new by (auto simp: q_InsertInstance_def rows_le_def split: if_splits)
qed

lemma rows_settle_loop: "settle_loop n pid task epoch now settled s = Some (out, s') \<Longrightarrow> keeps s s'"
proof (induction n arbitrary: pid task epoch settled s)
  case (Suc n)
  let ?s1 = "if q_CountActiveSiblings pid task epoch s = 0 then q_WakeParent pid now s else s"
  have s1: "keeps s ?s1" by (simp add: rows_statements)
  note s2 = rows_trans [OF s1 rows_statements(1) [of ?s1 pid now]]
  consider "s' = s" | "s' = ?s1" | a b c d where "settle_loop n a b c now d (q_SettleDrained pid now ?s1) = Some (out, s')"
    using Suc.prems by (auto simp: Let_def split: if_splits option.splits)
  then show ?case
  proof cases
    case 3
    then show ?thesis using rows_trans [OF s2 Suc.IH] by blast
  qed (use s1 in simp_all)
qed simp

lemma rows_settleUp: "settleUp i now s = Inr (out, s') \<Longrightarrow> keeps s s'"
  unfolding settleUp_def by (auto simp del: settle_loop.simps split: option.splits dest: rows_settle_loop)

lemma rows_children: "insert_children cs st ts s = Inr s' \<Longrightarrow> keeps s s'"
proof (induction cs arbitrary: ts s)
  case (Cons c cs)
  obtain cols s0 where p: "persistState c ts s = (cols, s0)" by fastforce
  then have "s_rows s0 = s_rows s" by (rule persist_rows)
  moreover obtain s1 where "q_InsertInstance (insertInstanceParams c cols st ts ts) s0 = Inr s1"
    "insert_children cs st (ts + 1) s1 = Inr s'" using Cons.prems p by (auto split: sum.splits)
  ultimately show ?case using Cons.IH rows_insert rows_trans by metis
qed simp

lemma rows_save: "keeps s (snd (SaveInstance i now s))"
  unfolding SaveInstance_def
  by (rule rows_tx, cases "persistState i now s") (auto split: sum.splits dest!: rows_insert persist_rows)

lemma rows_renew: "keeps s (snd (RenewWorkerLeases w ids dur now s))"
proof -
  have "keeps s (renew_loop ids w e s)" for e
  proof (induction ids w e s rule: renew_loop.induct)
    case (1 ids w e s)
    obtain n s' where q: "q_RenewWorkerLeasesChunk ids w e renewChunkSize s = (n, s')" by fastforce
    have "keeps s (snd (q_RenewWorkerLeasesChunk ids w e renewChunkSize s))"
      unfolding q_RenewWorkerLeasesChunk_def Let_def snd_conv by (rule rows_upd) (simp add: le_expiry; simp add: set_expiry_def)
    then have s': "keeps s s'" using q by simp
    show ?case
      using s' rows_trans [OF s' "1.IH" [OF q [symmetric]]] q by (simp add: renew_loop.simps [of ids w e s])
  qed
  then show ?thesis by (simp add: RenewWorkerLeases_def)
qed

lemma rows_stopTree: "(\<And>i. keeps s (snd (v_update v i now s))) \<Longrightarrow> keeps s (snd (stopTree i v now s))"
proof -
  assume v: "\<And>i. keeps s (snd (v_update v i now s))"
  have "keeps s (snd (withTx (stop_body i v now) s))"
  proof (rule rows_tx)
    fix x s' assume "stop_body i v now s = Inr (x, s')"
    then have "s' = s \<or> s' = snd (v_update v i now s)"
      by (auto simp: stop_body_def split: option.splits if_splits sum.splits prod.splits)
    then show "keeps s s'" using v by auto
  qed
  then show ?thesis
    by (auto simp: stopTree_def Let_def withTx_def split: option.splits sum.splits prod.splits)
qed

lemma rows_verbs: "keeps s (snd (PauseProcess i now s))" "keeps s (snd (CancelProcess i now s))"
  unfolding PauseProcess_def CancelProcess_def
  by (rule rows_stopTree; simp add: pause_verb_def cancel_verb_def rows_statements)+

lemma rows_statusIn:
  "\<forall>x \<in> set (s_rows s). r_id x \<in> set ids \<longrightarrow> open_row x \<Longrightarrow> keeps s (updateStatusIn ids st now s)"
proof -
  assume "\<forall>x \<in> set (s_rows s). r_id x \<in> set ids \<longrightarrow> open_row x"
  then have "keeps s (q_SetStatusIn st now ids s)"
    unfolding q_SetStatusIn_def by (intro rows_upd) (simp add: le_status; simp add: set_status_def)
  then show ?thesis by (simp add: updateStatusIn_def)
qed

lemma rows_resume:
  assumes "distinct (map r_id (s_rows s)) \<or> (\<forall>x. open_row x)"
  shows "keeps s (snd (ResumeProcess i now s))"
proof -
  let ?ids = "tree_ids (\<lambda>r. r_status r = StatusPaused) i s"
  have "open_row x" if x: "x \<in> set (s_rows s)" "r_id x \<in> set ?ids" for x
  proof (cases "\<forall>x. open_row x")
    case False
    obtain y where y: "y \<in> set (s_rows s)" "r_status y = StatusPaused" "r_id y = r_id x"
      using x(2) by (auto simp: tree_ids_def)
    then have "y = x" using assms False x(1) by (auto simp: distinct_map inj_on_def)
    then show ?thesis using y open_row by simp
  qed simp
  then have u: "keeps s (updateStatusIn ?ids StatusRunning now s)" by (intro rows_statusIn) blast
  have "keeps s (snd (withTx (resume_body i now) s))"
    by (rule rows_tx) (auto simp: resume_body_def Let_def u split: option.splits if_splits sum.splits)
  then show ?thesis
    by (auto simp: ResumeProcess_def Let_def withTx_def split: option.splits sum.splits prod.splits)
qed

lemma rows_signals:
  "keeps s (snd (DeliverSignal n task mint outcome now s))" "keeps s (snd (ResolveExternalTask n epoch claim mint outcome now s))"
proof -
  have un: "keeps s (q_UnparkExternal n now s1)" if "q_InsertSignal g s = Inr s1" for g s1
    using rows_statements(5) [of s1 n now] InsertSignal_rows [OF that] by simp
  show "keeps s (snd (DeliverSignal n task mint outcome now s))"
    unfolding DeliverSignal_def
    by (rule rows_tx)
      (auto simp: deliver_body_def Let_def un InsertSignal_rows split: option.splits if_splits sum.splits)
  show "keeps s (snd (ResolveExternalTask n epoch claim mint outcome now s))"
    unfolding ResolveExternalTask_def
    by (rule rows_tx)
      (auto simp: resolve_body_def bufferOutcome_def un split: option.splits if_splits sum.splits)
qed

lemma rows_queue:
  "keeps s (snd (ClaimExternalTasks_pg locked w dur limit f now s))" "keeps s (snd (ClaimExternalTasks_sqlite w dur limit f now s))"
  "keeps s (snd (ReleaseExternalClaim n te ce now s))" "keeps s (snd (MarkExternalClaimLost n te now s))"
proof -
  show "keeps s (snd (ClaimExternalTasks_pg locked w dur limit f now s))"
    unfolding ClaimExternalTasks_pg_def Let_def snd_conv
    by (simp, rule rows_map) (auto simp: le_refl le_ext_grant le_trans [OF le_unparked le_ext_grant] le_unparked, simp_all add: ids_kept)
  have un: "keeps s s1" if "q_UnparkAnsweredExternal ids now s = (u, s1)" for ids u s1 s
    using rows_statements(9) [of s ids now] that by simp
  show "keeps s (snd (ClaimExternalTasks_sqlite w dur limit f now s))"
    unfolding ClaimExternalTasks_sqlite_def Let_def
    by (auto split: prod.splits dest: un intro: rows_trans [OF un rows_statements(6)])
  have f: "keeps s (upd P set_ext_free s)" for P by (rule rows_upd) (simp add: le_ext_free; simp add: set_ext_free_def)
  show "keeps s (snd (ReleaseExternalClaim n te ce now s))"
    unfolding ReleaseExternalClaim_def
    by (rule rows_tx) (auto split: if_splits intro: rows_trans [OF f rows_statements(9)] simp del: upd_rows)
  have "keeps s (upd P (set_lost now) s)" for P by (rule rows_upd) (simp add: le_lost; simp add: set_lost_def set_ext_free_def)
  then show "keeps s (snd (MarkExternalClaimLost n te now s))"
    unfolding MarkExternalClaimLost_def by (intro rows_tx) (auto split: if_splits simp del: upd_rows)
qed

lemma rows_renew_claims: "keeps s (snd (RenewExternalClaims w cs dur now s))"
proof -
  have one: "keeps s (snd (renew_one w e c s))" for e c s
  proof -
    have "snd (renew_one w e c s) = upd (renewable_claim w c) (set_ext_expiry e) s"
      by (auto simp: renew_one_def q_RenewExternalClaim_def split: option.splits)
    then show ?thesis by (simp only:, intro rows_upd) (simp add: le_ext_expiry; simp add: set_ext_expiry_def)
  qed
  have "keeps s (snd (renew_claims w e cs s))" for e
  proof (induction cs arbitrary: s)
    case (Cons c cs)
    obtain v s1 where r: "renew_one w e c s = (v, s1)" by fastforce
    have "keeps s s1" using one [of s e c] r by simp
    then show ?case using rows_trans [OF _ Cons.IH] r by (auto split: prod.splits) (metis snd_conv)
  qed simp
  then show ?thesis by (simp add: RenewExternalClaims_def renewChunkSize_def renew_chunks_all)
qed

end

subsection \<open>Claims\<close>

locale claim_order = row_order +
  assumes le_grant: "le x (set_grant w e x)"
begin

lemma rows_claim: "keeps s (snd (ClaimInstances locked w dur limit cutoff now s))"
  unfolding claim_rows by (rule rows_map) (auto simp: le_grant le_refl, simp add: set_grant_def)

end

subsection \<open>Writes under a lease\<close>

locale write_order = row_order +
  fixes writes marks :: "update_params \<Rightarrow> bool"
  assumes le_update: "writes p \<Longrightarrow> fence p x \<Longrightarrow> le x (set_update p x)"
    and le_progress: "marks p \<Longrightarrow> fence p x \<Longrightarrow> le x (set_progress p x)"
begin

abbreviation writer :: "inst \<Rightarrow> bool \<Rightarrow> bool" where
  "writer i any \<equiv> \<forall>p. written_by i any p \<longrightarrow> writes p"

abbreviation marker :: "inst \<Rightarrow> bool" where
  "marker i \<equiv> \<forall>p. written_by i False p \<longrightarrow> marks p"

lemma rows_fenced:
  "writes p \<Longrightarrow> keeps s (snd (q_UpdateInstance p s))" "marks p \<Longrightarrow> keeps s (snd (q_UpdateInstanceProgress p s))"
  unfolding q_UpdateInstance_def q_UpdateInstanceProgress_def snd_conv
  by (rule rows_upd; simp add: le_update le_progress; simp add: set_update_def set_progress_def)+

lemma rows_write_inst: "write_inst i now s = Inr s' \<Longrightarrow> writer i False \<Longrightarrow> keeps s s'"
  unfolding write_inst_def
  by (cases "persistState i now s") (metis case_prod_conv fenced_store persist_rows rows_fenced(1) written_params)

lemma rows_write_progress: "write_progress i now s = Inr s' \<Longrightarrow> marker i \<Longrightarrow> keeps s s'"
  unfolding write_progress_def progressParams_def
  by (cases "persistState i now s") (metis case_prod_conv fenced_store persist_rows rows_fenced(2) written_params)

lemma rows_park: "parkParentWaiting i st now s = Inr s' \<Longrightarrow> writer i True \<Longrightarrow> keeps s s'"
proof -
  assume a: "parkParentWaiting i st now s = Inr s'" "writer i True"
  obtain cols s0 where p: "persistState i now s = (cols, s0)" by fastforce
  let ?p = "(updateInstanceParams i cols now)\<lparr>u_WakeAt := None, u_Status := st, u_Phase := PhaseChildren\<rparr>"
  have "written_by i True ?p" by (simp add: written_by_def updateInstanceParams_def)
  then have "keeps s0 (snd (q_UpdateInstance ?p s0))" using a(2) rows_fenced(1) by blast
  then show ?thesis using a(1) p fenced_store persist_rows [OF p] by (fastforce simp: parkParentWaiting_def)
qed

lemma rows_update: "writer i False \<Longrightarrow> keeps s (snd (UpdateInstance i now s))"
  unfolding UpdateInstance_def by (rule rows_tx) (auto split: sum.splits dest: rows_write_inst)

lemma rows_progress: "marker i \<Longrightarrow> keeps s (snd (UpdateInstanceProgress i now s))"
  unfolding UpdateInstanceProgress_def by (rule rows_tx) (auto split: sum.splits dest: rows_write_progress)

lemma rows_finish:
  assumes "writer i False"
  shows "keeps s (snd (FinishChild pg i now s))"
proof (cases "i_ParentID i = []")
  case False
  have b: "keeps s s'" if "(case write_inst i now s of Inl e \<Rightarrow> Inl e | Inr s \<Rightarrow> settleUp i now s) = Inr (x, s')" for x s'
    using that assms by (auto split: sum.splits intro: rows_trans dest!: rows_write_inst rows_settleUp)
  have "keeps s (snd (withChildTx pg LockParent (finish_body i now) s))"
    unfolding withChildTx_def by (rule rows_tx) (simp add: finish_loop, erule b)
  then show ?thesis using False by (auto simp: FinishChild_def withTx_def withChildTx_def split: prod.splits sum.splits)
qed (simp add: FinishChild_def rows_update [OF assms])

lemma rows_fail_tail: "fail_tail i poisons now s = Inr (x, s') \<Longrightarrow> writer i False \<Longrightarrow> keeps s s'"
proof -
  assume a: "fail_tail i poisons now s = Inr (x, s')" and w: "writer i False"
  then obtain s1 where s1: "write_inst i now s = Inr s1" by (auto simp: fail_tail_def split: sum.splits)
  note e1 = rows_write_inst [OF s1 w]
  show ?thesis
  proof (cases "i_CallStack i = []")
    case True
    then show ?thesis using a s1 e1 by (simp add: fail_tail_def)
  next
    case False
    let ?s2 = "q_FailAncestors (i_ErrorMessage i) (i_ErrorCode i) now (i_CallStack i) s1"
    obtain paused s3 where s3: "(if poisons then q_PauseTree (hd (i_CallStack i)) now ?s2 else ([], ?s2)) = (paused, s3)" by fastforce
    have e2: "keeps s ?s2" by (rule rows_trans [OF e1 rows_statements(3)])
    have e3: "keeps s s3" using s3 e2 rows_trans [OF e2 rows_statements(7)] by (metis snd_conv)
    obtain settled where "settleUp i now s3 = Inr (settled, s')"
      using a s1 s3 False by (auto simp: fail_tail_def Let_def split: prod.splits sum.splits)
    then show ?thesis using rows_trans [OF e3 rows_settleUp] by blast
  qed
qed

lemma rows_fail:
  assumes "writer i False"
  shows "keeps s (snd (FailInstanceAndAncestors pg i now s))"
proof -
  have "keeps s (snd (withChildTx pg LockStack (fail_body i now) s))"
    unfolding withChildTx_def
    by (rule rows_tx) (auto simp: fail_loop split: list.splits option.splits if_splits dest: rows_fail_tail [OF _ assms])
  then show ?thesis
    by (auto simp: FailInstanceAndAncestors_def withTx_def withChildTx_def split: prod.splits sum.splits)
qed

lemma rows_spawn:
  assumes "writer i True"
  shows "keeps s (snd (SpawnChildrenAndWait i cs now s))"
proof -
  have "keeps s (snd (withTx (spawn_body i cs now) s))"
  proof (rule rows_tx)
    fix x s' assume "spawn_body i cs now s = Inr (x, s')"
    then obtain st s1 where "insert_children cs st now s = Inr s1" "parkParentWaiting i st now s1 = Inr s'"
      by (auto simp: spawn_body_def split: option.splits if_splits sum.splits)
    then show "keeps s s'" using rows_trans [OF rows_children rows_park [OF _ assms]] by blast
  qed
  then show ?thesis by (simp add: SpawnChildrenAndWait_def)
qed

lemma rows_respawn:
  assumes "writer i True"
  shows "keeps s (snd (RespawnSlotsAndWait i retired cs now s))"
proof -
  let ?s0 = "fold (\<lambda>i. q_SupersedeInstance i now) retired s"
  have e0: "keeps s ?s0" by (rule rows_fold) (rule rows_statements)
  have "keeps s (snd (withTx (respawn_body i retired cs now) s))"
  proof (rule rows_tx)
    fix x s' assume "respawn_body i retired cs now s = Inr (x, s')"
    then obtain st s1 where "insert_children cs st now ?s0 = Inr s1" "parkParentWaiting i st now s1 = Inr s'"
      by (auto simp: respawn_body_def split: option.splits if_splits sum.splits)
    then show "keeps s s'" using rows_trans [OF e0 rows_trans [OF rows_children rows_park [OF _ assms]]] by blast
  qed
  then show ?thesis by (simp add: RespawnSlotsAndWait_def)
qed

lemma rows_arm:
  assumes "writer i False" "marker i"
  shows "keeps s (snd (ArmExternalUnlessSignalled i encoded task wake now s))"
proof -
  have w: "marker (i\<lparr>i_Phase := ph, i_WakeAt := w\<rparr>)" "writer (i\<lparr>i_Phase := ph, i_WakeAt := w, i_cols := c, i_pending := pn, i_referenced := r\<rparr>) False"
    for ph w c pn r
    using assms by (simp_all add: written_by_def fenceWorker_def)
  show ?thesis
    unfolding ArmExternalUnlessSignalled_def
    by (rule rows_tx)
      (auto simp: arm_body_def split: option.splits if_splits sum.splits prod.splits dest: rows_write_inst [OF _ w(2)] rows_write_progress [OF _ w(1)])
qed

end

end
