(* ===== verification/Tree_Epochs.thy ===== *)
theory Tree_Epochs
  imports Row_Order
begin

text \<open>
  The fences' epochs: no operation moves a row's \<open>lease_epoch\<close> or \<open>external_claim_epoch\<close> back, so
  a grant is never mistaken for a later one. The locales of row orders are interpreted on it, and with
  them the prelude's locale of monotone steps.
\<close>

definition epoch_le :: "row \<Rightarrow> row \<Rightarrow> bool" where
  "epoch_le r r' \<longleftrightarrow> r_id r' = r_id r \<and> r_lease_epoch r \<le> r_lease_epoch r' \<and> r_external_claim_epoch r \<le> r_external_claim_epoch r'"

lemmas epoch_setters = set_update_def set_progress_def set_drained_def set_woken_def set_failing_def set_status_def
  set_grant_def set_expiry_def set_unparked_def set_ext_grant_def set_ext_expiry_def set_ext_free_def set_lost_def set_upgraded_def

interpretation epoch_claims: claim_order epoch_le "\<lambda>_. True"
  by unfold_locales (auto simp: epoch_le_def epoch_setters)

interpretation epoch_writes: write_order epoch_le "\<lambda>_. True" "\<lambda>_. True" "\<lambda>_. True"
  by unfold_locales (auto simp: epoch_le_def epoch_setters)

text \<open>No step but the sweep loses a row, and none moves an epoch of the fences back.\<close>

definition epochs_le :: "row list \<Rightarrow> row list \<Rightarrow> bool" where
  "epochs_le rows rows' \<longleftrightarrow> (\<forall>r \<in> set rows. \<exists>r' \<in> set rows'. r_id r' = r_id r \<and>
     r_lease_epoch r \<le> r_lease_epoch r' \<and> r_external_claim_epoch r \<le> r_external_claim_epoch r')"

lemma rows_epochs: "rows_le epoch_le rows rows' \<Longrightarrow> epochs_le rows rows'"
  by (auto simp: rows_le_def epochs_le_def epoch_le_def)

lemma epochs_trans: "epochs_le a b \<Longrightarrow> epochs_le b c \<Longrightarrow> epochs_le a c"
  unfolding epochs_le_def by (smt (verit) order_trans)

lemma epochs_retry: "epoch_claims.keeps s (snd (RetryProcess defs i force now seen s))"
proof -
  have st: "epoch_claims.keeps s (updateStatusIn ids st now s)" for ids st s by (rule epoch_claims.rows_statusIn) simp
  have w: "epoch_claims.keeps s (write_revived N v now j s)" for N v j s
    by (auto simp: write_revived_def epoch_writes.rows_fenced split: option.splits)
  have "epoch_claims.keeps s (snd (withTx (retry_body defs force i now) s))"
  proof (rule epoch_claims.rows_tx)
    fix x s' assume "retry_body defs force i now s = Inr (x, s')"
    then obtain N v D ids where "s' = fold (write_revived N v now) D (updateStatusIn ids StatusRunning now s)"
      by (auto simp: retry_body_def Let_def simp del: revive.simps split: option.splits sum.splits)
    then show "epoch_claims.keeps s s'" using epoch_claims.rows_trans [OF st epoch_claims.rows_fold [OF w]] by simp
  qed
  then show ?thesis
    by (auto simp: RetryProcess_def Let_def withTx_def split: sum.splits prod.splits)
qed

lemma epochs_upgrade: "epoch_claims.keeps s (snd (UpgradeInstances ups now s))"
proof -
  have "rows_le epoch_le rows (upgraded_rows ups now rows)" for rows
  proof (induction ups arbitrary: rows)
    case (Cons up ups)
    have "rows_le epoch_le rows (map (\<lambda>r. if upgradeable up r then set_upgraded up now r else r) rows)"
      by (rule epoch_claims.rows_map) (simp add: epoch_le_def epoch_setters)
    then show ?case using epoch_claims.rows_trans [OF _ Cons.IH] by (simp add: upgraded_rows_def)
  qed (simp add: upgraded_rows_def)
  then show ?thesis
    using upgrade_loop_spec by (fastforce simp: UpgradeInstances_def withTx_def split: sum.splits)
qed

lemmas epoch_ops = epoch_claims.rows_save epoch_claims.rows_claim epoch_claims.rows_renew epoch_writes.rows_update
  epoch_writes.rows_progress epoch_writes.rows_finish epoch_writes.rows_fail epoch_writes.rows_spawn epoch_writes.rows_respawn
  epoch_claims.rows_verbs epoch_claims.rows_resume epochs_retry epoch_writes.rows_arm epoch_claims.rows_signals epoch_claims.rows_queue
  epoch_claims.rows_renew_claims epochs_upgrade

lemma op_step_epochs: "op_step s t \<Longrightarrow> epochs_le (s_rows s) (s_rows t)"
  by (rule rows_epochs, induction rule: op_step.induct) (simp_all add: epoch_ops CollectObjects_rows)

interpretation epochs: step_monotone op_step "\<lambda>s t. epochs_le (s_rows s) (s_rows t)"
proof
  show "epochs_le (s_rows s) (s_rows s)" for s by (auto simp: epochs_le_def)
qed (auto intro: epochs_trans op_step_epochs)

end
