(* ===== verification/Samples.thy ===== *)
theory Samples
  imports Tree_Epochs External_Queue Retention
begin

text \<open>
  Concrete runs of the store: a root that spawns two children, one of them leased, then paused,
  failed, retried and paused again. The properties are instantiated on them.
\<close>

definition no_cols :: state_cols where
  "no_cols = \<lparr>c_InputData = [], c_OutputsData = [], c_OutputData = [], c_ErrorInternal = [], c_ErrorData = [],
     c_ExternalInput = [], c_ExternalLost = False,
     c_EngineState = \<lparr>es_spawn_child_key = None, es_spawn_index = None, es_spawn_attempt = None, es_retry_override = False\<rparr>,
     c_Objects = []\<rparr>"

definition sample_inst :: "string \<Rightarrow> string \<Rightarrow> string list \<Rightarrow> string \<Rightarrow> inst" where
  "sample_inst i parent stack spawned = \<lparr>
     i_ID = i, i_ProcessName = ''p'', i_ProcessVersion = 1, i_Task = ''t'', i_NextReplayable = True, i_ParentID = parent,
     i_RootID = [], i_SpawnTaskID = spawned, i_ParentTaskEpoch = 0, i_CallStack = stack,
     i_RetryCount = 0, i_WakeAt = None, i_Status = StatusRunning, i_Phase = PhaseNone, i_ErrorMessage = [], i_ErrorCode = [],
     i_WorkerID = None, i_LeaseExpiresAt = None, i_LeaseEpoch = 0, i_TaskEpoch = 0, i_ExternalClaimEpoch = 0,
     i_cols = no_cols, i_pending = [], i_referenced = [], i_loaded = [], i_ConsumedSignalID = [], i_ReclaimedExpired = False\<rparr>"

definition held_root :: inst where
  "held_root = (sample_inst ''r'' [] [] [])\<lparr>i_WorkerID := Some ''w'', i_LeaseEpoch := 1\<rparr>"

definition child_a :: inst where "child_a = sample_inst ''a'' ''r'' [''r''] ''t''"
definition child_b :: inst where "child_b = sample_inst ''b'' ''r'' [''r''] ''t''"

definition failed_a :: inst where
  "failed_a = child_a\<lparr>i_WorkerID := Some ''w'', i_LeaseEpoch := 1, i_Status := StatusFailed\<rparr>"

definition run1 :: store where "run1 = snd (SaveInstance (sample_inst ''r'' [] [] []) 0 empty_store)"
definition run2 :: store where "run2 = snd (ClaimInstances [] ''w'' 10 5 0 1 run1)"
definition run3 :: store where "run3 = snd (SpawnChildrenAndWait held_root [child_a, child_b] 2 run2)"
definition run4 :: store where "run4 = snd (ClaimInstances [] ''w'' 10 1 0 3 run3)"
definition run5 :: store where "run5 = snd (PauseProcess ''r'' 4 run4)"
definition run6 :: store where "run6 = snd (FailInstanceAndAncestors True failed_a 5 run4)"
definition run7 :: store where "run7 = snd (RetryProcess [] ''r'' True 6 run6 run6)"
definition run8 :: store where "run8 = snd (ClaimInstances [] ''w'' 10 1 0 7 run7)"
definition run9 :: store where "run9 = snd (PauseProcess ''r'' 8 run8)"

definition run10 :: store where "run10 = snd (CancelProcess ''r'' 4 run3)"
definition run11 :: store where "run11 = snd (ClaimInstances [] ''v'' 10 1 100 101 run4)"
definition run12 :: store where "run12 = snd (PauseProcess ''r'' 4 run3)"

definition any_task :: claim_filter where
  "any_task = \<lparr>cf_processName = [], cf_processVersion = 0, cf_task = []\<rparr>"

definition ext1 :: store where
  "ext1 = snd (ArmExternalUnlessSignalled held_root (no_cols, [], []) ''t'' None 2 run2)"

definition ext2 :: store where "ext2 = snd (ClaimExternalTasks_pg [] ''x'' 10 5 any_task 3 ext1)"

text \<open>The row of an instance that a run is known to hold.\<close>

definition got :: "store \<Rightarrow> string \<Rightarrow> row" where
  "got s i = the (row_at s i)"

definition statuses :: "store \<Rightarrow> (string \<times> status) list" where
  "statuses s = map (\<lambda>r. (r_id r, r_status r)) (s_rows s)"

text \<open>The instance that the claim of a run granted.\<close>

definition granted3 :: inst where "granted3 = hd (fst (ClaimInstances [] ''w'' 10 1 0 3 run3))"

definition granted4 :: inst where "granted4 = hd (fst (ClaimInstances [] ''v'' 10 1 100 101 run4))"

definition held :: "string \<Rightarrow> string \<Rightarrow> string list \<Rightarrow> status \<Rightarrow> inst" where
  "held i parent stack st = (sample_inst i parent stack ''t'')\<lparr>i_WorkerID := Some ''w'', i_LeaseEpoch := 1, i_Status := st\<rparr>"

definition two_raised :: store where
  "two_raised =
    (let s1 = snd (ClaimInstances [] ''w'' 10 5 0 3 run3);
         s2 = snd (FinishChild True (held ''a'' ''r'' [''r''] StatusRaised) 4 s1);
         s3 = snd (SpawnChildrenAndWait (held ''b'' ''r'' [''r''] StatusRunning)
                [sample_inst ''c'' ''b'' [''r'', ''b''] ''t'', sample_inst ''d'' ''b'' [''r'', ''b''] ''t''] 5 s2);
         s4 = snd (ClaimInstances [] ''w'' 10 5 0 6 s3);
         s5 = snd (FinishChild True (held ''c'' ''b'' [''r'', ''b''] StatusRaised) 7 s4)
     in snd (FailInstanceAndAncestors True (held ''d'' ''b'' [''r'', ''b''] StatusFailed) 8 s5))"

definition overridden :: "store \<Rightarrow> string list" where
  "overridden s = map r_id (filter (\<lambda>r. es_retry_override (c_EngineState (r_cols r))) (s_rows s))"

lemma got_row: "row_at s i \<noteq> None \<Longrightarrow> got s i \<in> set (s_rows s) \<and> row_at s i = Some (got s i) \<and> r_id (got s i) = i"
  using find_row_Some by (fastforce simp: got_def row_at_def)

lemma pair_fst: "fst p = a \<Longrightarrow> p = (a, snd p)"
  by (cases p) simp

lemma run_rows:
  "row_at run2 ''r'' \<noteq> None" "row_at run3 ''r'' \<noteq> None" "row_at run4 ''a'' \<noteq> None" "row_at run5 ''r'' \<noteq> None"
  "row_at run5 ''a'' \<noteq> None" "row_at run6 ''r'' \<noteq> None" "row_at run6 ''b'' \<noteq> None" "row_at run10 ''r'' \<noteq> None"
  "row_at ext2 ''r'' \<noteq> None"
  by code_simp+

lemmas run_got = run_rows [THEN got_row]

lemma run_distinct:
  "distinct (map r_id (s_rows run2))" "distinct (map r_id (s_rows run3))" "distinct (map r_id (s_rows run4))"
  "distinct (map r_id (s_rows run6))" "distinct (map r_id (s_rows ext1))" "distinct (map r_id (s_rows ext2))"
  by code_simp+

lemma run_statuses:
  "statuses run5 = [(''r'', StatusPausing), (''a'', StatusPausing), (''b'', StatusPaused)]"
  "statuses run6 = [(''r'', StatusFailed), (''a'', StatusFailed), (''b'', StatusPaused)]"
  "statuses run7 = [(''r'', StatusRunning), (''a'', StatusRunning), (''b'', StatusRunning)]"
  "statuses run9 = [(''r'', StatusPausing), (''a'', StatusPausing), (''b'', StatusPaused)]"
  by code_simp+

lemma run2_rows: "list_all (\<lambda>x. r_id x = ''r'' \<and> r_call_stack x = []) (s_rows run2)"
  by code_simp

lemma run4_rows: "list_all (\<lambda>x. r_id x = ''a'' \<longrightarrow> r_parent_id x = ''r'' \<and> r_spawn_task_id x = ''t'' \<and>
    r_parent_task_epoch x = 0 \<and> r_call_stack x = [''r'']) (s_rows run4)"
  by code_simp

lemma run4_has_a: "''a'' \<in> r_id ` set (s_rows run4)"
  by code_simp

lemma run_steps: "op_step empty_store run1" "op_step run1 run2" "op_step run2 run3" "op_step run3 run4"
  "op_step run4 run5" "op_step run4 run6" "op_step run6 run7" "op_step run7 run8" "op_step run8 run9"
proof -
  show "op_step empty_store run1" unfolding run1_def by (rule step_save) (simp_all add: sample_inst_def)
  show "op_step run1 run2" unfolding run2_def by (rule step_claim)
  show "op_step run2 run3" unfolding run3_def
    by (rule step_spawn) (use run2_rows in \<open>auto simp: spawn_ok_def batch_child_def held_root_def child_a_def child_b_def
      sample_inst_def list_all_iff\<close>)
  show "op_step run3 run4" unfolding run4_def by (rule step_claim)
  show "op_step run4 run5" unfolding run5_def by (rule step_pause)
  show "op_step run4 run6" unfolding run6_def
    by (rule step_fail) (use run4_rows run4_has_a in \<open>auto simp: engine_inst_def fail_ok_def failed_a_def child_a_def
      sample_inst_def list_all_iff\<close>)
  show "op_step run6 run7" unfolding run7_def by (rule step_retry) simp
  show "op_step run7 run8" unfolding run8_def by (rule step_claim)
  show "op_step run8 run9" unfolding run9_def by (rule step_pause)
qed

lemma run_cancels: "op_step run3 run10"
  unfolding run10_def by (rule step_cancel)

lemma run_reached: "reaches db_step empty_store run3" "reaches db_step empty_store run10" "reaches db_step empty_store run4" "reaches db_step empty_store run5" "reaches db_step empty_store run6"
  "reaches db_step empty_store run9"
  using run_steps run_cancels by (meson db_op reaches.intros)+

end
