(* ===== verification/Responses.thy ===== *)
theory Responses
  imports Instance_Model "HOL-Library.Multiset"
begin

text \<open>
  A fetch's \<open>responses\<close> declaration (\<open>model/status.go\<close>, \<open>model/validate.go\<close>): which schema a
  status selects and which statuses it accepts. Go iterates the declaration in map order, which
  is unspecified; the model takes the entries as a list in that order and proves that, for a
  declaration registration accepted, the selection does not depend on it.
\<close>

type_synonym 's responses = "(string \<times> 's option) list"

subsection \<open>Selection\<close>

type_synonym 's best = "string \<times> nat \<times> 's option"

definition consider_pattern :: "int \<Rightarrow> 's option \<Rightarrow> string \<Rightarrow> 's best \<Rightarrow> 's best" where
  "consider_pattern code sc p b =
     (case b of (best, bestWidth, bestSchema) \<Rightarrow>
        if \<not> MatchStatusPattern p code then b
        else if best = [] \<or> patternWidth p < bestWidth then (p, patternWidth p, sc)
        else b)"

definition consider_key :: "int \<Rightarrow> string \<times> 's option \<Rightarrow> 's best \<Rightarrow> 's best" where
  "consider_key code e b =
     (case e of (key, sc) \<Rightarrow>
        (case ParseResponseKey key of
           Inl _ \<Rightarrow> b
         | Inr patterns \<Rightarrow> fold (consider_pattern code sc) patterns b))"

definition ResponseFor :: "'s responses \<Rightarrow> int \<Rightarrow> 's option \<times> bool" where
  "ResponseFor responses code =
     (case fold (consider_key code) responses ([], 0, None) of
        (best, bestWidth, bestSchema) \<Rightarrow> (bestSchema, best \<noteq> []))"

definition SuccessPatterns :: "'s responses \<Rightarrow> string list" where
  "SuccessPatterns responses =
     sort (concat (map (\<lambda>(key, _). case ParseResponseKey key of
                          Inl _ \<Rightarrow> []
                        | Inr patterns \<Rightarrow> filter IsSuccessPattern patterns) responses))"

definition EffectiveAcceptedStatus :: "'s responses \<Rightarrow> string list \<Rightarrow> string list" where
  "EffectiveAcceptedStatus responses resolved =
     (if resolved \<noteq> [] then resolved else SuccessPatterns responses)"

subsection \<open>Registration (validateResponses)\<close>

text \<open>
  \<open>checkSchemaDoc\<close> is a parameter. The keys are visited sorted, and \<open>owner\<close> maps a pattern
  to the key that declared it.
\<close>

datatype responses_error = BadKey string key_error | DeclaredTwice string string string | BadSchema string

fun claim_patterns ::
  "string \<Rightarrow> string list \<Rightarrow> (string \<rightharpoonup> string) \<Rightarrow> (responses_error, string \<rightharpoonup> string) result" where
  "claim_patterns key [] owner = Inr owner"
| "claim_patterns key (p # ps) owner =
     (case owner p of
        Some prev \<Rightarrow> Inl (DeclaredTwice p prev key)
      | None \<Rightarrow> claim_patterns key ps (owner(p \<mapsto> key)))"

fun validate_keys ::
  "('s option \<Rightarrow> bool) \<Rightarrow> 's responses \<Rightarrow> (string \<rightharpoonup> string) \<Rightarrow> (responses_error, unit) result" where
  "validate_keys checkSchemaDoc [] owner = Inr ()"
| "validate_keys checkSchemaDoc ((key, sc) # rest) owner =
     (case ParseResponseKey key of
        Inl e \<Rightarrow> Inl (BadKey key e)
      | Inr patterns \<Rightarrow>
          (case claim_patterns key patterns owner of
             Inl e \<Rightarrow> Inl e
           | Inr owner' \<Rightarrow>
               if \<not> checkSchemaDoc sc then Inl (BadSchema key)
               else validate_keys checkSchemaDoc rest owner'))"

definition sortedResponses :: "'s responses \<Rightarrow> 's responses" where
  "sortedResponses rs = sort_key fst rs"

definition validateResponses ::
  "('s option \<Rightarrow> bool) \<Rightarrow> 's responses \<Rightarrow> (responses_error, unit) result" where
  "validateResponses checkSchemaDoc rs = validate_keys checkSchemaDoc (sortedResponses rs) Map.empty"

subsection \<open>The declaration as a set of (pattern, schema) pairs\<close>

definition entry_patterns :: "string \<times> 's option \<Rightarrow> (string \<times> 's option) list" where
  "entry_patterns e = (case e of (key, sc) \<Rightarrow>
     (case ParseResponseKey key of Inl _ \<Rightarrow> [] | Inr ps \<Rightarrow> map (\<lambda>p. (p, sc)) ps))"

definition declared :: "'s responses \<Rightarrow> (string \<times> 's option) list" where
  "declared rs = concat (map entry_patterns rs)"

lemma consider_key_fold:
  "consider_key code e b = fold (\<lambda>(p, sc). consider_pattern code sc p) (entry_patterns e) b"
  by (cases e) (auto simp: consider_key_def entry_patterns_def fold_map comp_def split: sum.splits)

lemma fold_consider_key:
  "fold (consider_key code) rs b = fold (\<lambda>(p, sc). consider_pattern code sc p) (declared rs) b"
  by (induction rs arbitrary: b) (simp_all add: declared_def consider_key_fold)

lemma parse_key_parts_valid:
  "parse_key_parts out parts = Inr ps \<Longrightarrow> (\<forall>p \<in> set out. ValidStatusPattern p) \<Longrightarrow> distinct out \<Longrightarrow>
   (\<forall>p \<in> set ps. ValidStatusPattern p) \<and> distinct ps \<and> (out \<noteq> [] \<or> parts \<noteq> [] \<longrightarrow> ps \<noteq> [])"
  by (induction out parts rule: parse_key_parts.induct) (auto simp: Let_def split: if_splits)

lemma ParseResponseKey_valid:
  assumes "ParseResponseKey key = Inr ps"
  shows "(\<forall>p \<in> set ps. ValidStatusPattern p) \<and> distinct ps \<and> ps \<noteq> []"
  using assms parse_key_parts_valid [of "[]" "str_split (CHR '','') key" ps]
  by (auto simp: ParseResponseKey_def split: sum.splits option.splits)

lemma ParseResponseKey_one_side:
  assumes "ParseResponseKey key = Inr ps" "p \<in> set ps" "q \<in> set ps"
  shows "IsSuccessPattern p = IsSuccessPattern q"
  using assms by (auto simp: ParseResponseKey_def find_None_iff split: sum.splits option.splits)

lemma declared_valid: "(p, sc) \<in> set (declared rs) \<Longrightarrow> ValidStatusPattern p"
  by (auto simp: declared_def entry_patterns_def split: sum.splits dest: ParseResponseKey_valid [OF sym])

subsection \<open>Registration makes every pattern the property of one entry\<close>

lemma claim_patterns_Inr:
  "claim_patterns key ps owner = Inr owner' \<Longrightarrow>
   distinct ps \<and> (\<forall>p \<in> set ps. owner p = None) \<and> dom owner' = dom owner \<union> set ps"
  by (induction key ps owner rule: claim_patterns.induct)
    (auto split: option.splits if_splits)

lemma validate_keys_distinct:
  "validate_keys chk rs owner = Inr () \<Longrightarrow>
   distinct (map fst (declared rs)) \<and> set (map fst (declared rs)) \<inter> dom owner = {}"
proof (induction chk rs owner rule: validate_keys.induct)
  case (1 chk owner)
  then show ?case by (simp add: declared_def)
next
  case (2 chk key sc rest owner)
  from "2.prems" obtain ps owner' where ps: "ParseResponseKey key = Inr ps"
    and cl: "claim_patterns key ps owner = Inr owner'"
    and chk: "chk sc" and rest: "validate_keys chk rest owner' = Inr ()"
    by (auto split: sum.splits if_splits)
  have "distinct (map fst (declared rest)) \<and> set (map fst (declared rest)) \<inter> dom owner' = {}"
    using "2.IH" [OF ps cl] chk rest by simp
  moreover have "map fst (declared ((key, sc) # rest)) = ps @ map fst (declared rest)"
    using ps by (simp add: declared_def entry_patterns_def comp_def)
  ultimately show ?case using claim_patterns_Inr [OF cl] by auto
qed

lemma set_declared_cong: "set rs = set rs' \<Longrightarrow> set (declared rs) = set (declared rs')"
  by (simp add: declared_def)

lemma mset_concat_map_cong: "mset rs = mset rs' \<Longrightarrow> mset (concat (map f rs)) = mset (concat (map f rs'))"
  by (simp add: mset_concat flip: sum_mset_sum_list)

lemma validateResponses_distinct:
  assumes "validateResponses chk rs = Inr ()"
  shows "distinct (map fst (declared rs))"
proof -
  have m: "mset (declared (sortedResponses rs)) = mset (declared rs)"
    unfolding declared_def by (rule mset_concat_map_cong) (simp add: sortedResponses_def)
  have "distinct (map fst (declared (sortedResponses rs)))"
    using assms validate_keys_distinct by (auto simp: validateResponses_def)
  then show ?thesis
    by (metis m mset_eq_imp_distinct_iff mset_map)
qed

subsection \<open>Two matching patterns of one width are the same pattern\<close>

lemma parse_digits_inj:
  "length s = length t \<Longrightarrow> parse_digits a s = Some n \<Longrightarrow> parse_digits b t = Some n \<Longrightarrow> a = b \<and> s = t"
proof (induction s t arbitrary: a b rule: list_induct2)
  case (Cons c s d t)
  from Cons.prems have dig: "is_digit c" "is_digit d"
    and "parse_digits (10 * a + digit_val c) s = Some n" "parse_digits (10 * b + digit_val d) t = Some n"
    by (auto split: if_splits)
  with Cons.IH have eq: "10 * a + digit_val c = 10 * b + digit_val d" "s = t" by blast+
  have "digit_val c < 10" "digit_val d < 10" using dig by (auto simp: is_digit_def digit_val_def)
  with eq(1) have "a = b" "digit_val c = digit_val d" by arith+
  moreover have "(of_char c :: nat) = of_char d"
    using dig \<open>digit_val c = digit_val d\<close> unfolding is_digit_def digit_val_def by linarith
  then have "c = d" by simp
  ultimately show ?case using eq(2) by simp
qed simp

lemma list3_conv: "length p = 3 \<Longrightarrow> p = [p ! 0, p ! 1, p ! 2]"
  by (cases p rule: list.exhaust; auto simp: numeral_3_eq_3 length_Suc_conv)

lemma exact_pattern_digits:
  assumes "ValidStatusPattern p" "\<not> range_pattern p"
  shows "length p = 3 \<and> list_all is_digit p"
  using assms by (auto simp: ValidStatusPattern_def range_pattern_def split: if_splits)

lemma parse_int64_exact:
  assumes "ValidStatusPattern p" "\<not> range_pattern p" "parse_int64 p = Some n"
  shows "\<exists>m. n = int m \<and> parse_digits 0 p = Some m"
proof -
  from exact_pattern_digits [OF assms(1,2)] obtain c cs where "p = c # cs" "is_digit c"
    by (cases p) auto
  moreover have "c \<noteq> CHR ''-''" "c \<noteq> CHR ''+''" using \<open>is_digit c\<close> not_digit_signs by metis+
  ultimately show ?thesis
    using assms(3) by (auto simp: parse_int64_def parse_uint_def split: option.splits if_splits)
qed

lemma exact_patterns_unique:
  assumes "ValidStatusPattern p" "ValidStatusPattern q" "\<not> range_pattern p" "\<not> range_pattern q"
    and "MatchStatusPattern p code" "MatchStatusPattern q code"
  shows "p = q"
proof -
  from assms(3-6) have "parse_int64 p = Some code" "parse_int64 q = Some code"
    by (auto simp: MatchStatusPattern_def split: option.splits)
  then obtain m m' where "code = int m" "parse_digits 0 p = Some m" "code = int m'" "parse_digits 0 q = Some m'"
    using parse_int64_exact assms(1-4) by meson
  moreover have "length p = length q" using exact_pattern_digits assms(1-4) by metis
  ultimately show ?thesis using parse_digits_inj by auto
qed

lemma hundreds_unique:
  fixes a b c :: int
  assumes "a * 100 \<le> c" "c \<le> a * 100 + 99" "b * 100 \<le> c" "c \<le> b * 100 + 99"
  shows "a = b"
  using assms by linarith

lemma range_patterns_unique:
  assumes "ValidStatusPattern p" "ValidStatusPattern q" "range_pattern p" "range_pattern q"
    and "MatchStatusPattern p code" "MatchStatusPattern q code"
  shows "p = q"
proof -
  have b: "CHR ''1'' \<le> p ! 0" "p ! 0 \<le> CHR ''5''" "CHR ''1'' \<le> q ! 0" "q ! 0 \<le> CHR ''5''"
    using assms(1-4) by (auto simp: ValidStatusPattern_def range_pattern_def split: if_splits)
  let ?a = "of_char (p ! 0) :: int" and ?b = "of_char (q ! 0) :: int"
  have r: "49 \<le> ?a" "?a \<le> 53" "49 \<le> ?b" "?b \<le> 53"
    using b by (simp_all add: less_eq_char_def nat_le_iff flip: of_nat_of_char [where 'a = int])
  have "(?a - 48) * 100 \<le> code" "code \<le> (?a - 48) * 100 + 99"
    "(?b - 48) * 100 \<le> code" "code \<le> (?b - 48) * 100 + 99"
    using assms(3-6) r by (simp_all add: MatchStatusPattern_def byte_sub_def Let_def)
  then have "?a - 48 = ?b - 48" by (rule hundreds_unique)
  then have "?a = ?b" by simp
  then have "p ! 0 = q ! 0" by simp
  moreover have "p = [p ! 0, x_char, x_char]" "q = [q ! 0, x_char, x_char]"
    using assms(3,4) list3_conv [of p] list3_conv [of q] by (simp_all add: range_pattern_def)
  ultimately show ?thesis by simp
qed

lemma same_width_same_pattern:
  assumes "ValidStatusPattern p" "ValidStatusPattern q" "patternWidth p = patternWidth q"
    and "MatchStatusPattern p code" "MatchStatusPattern q code"
  shows "p = q"
proof (cases "range_pattern p")
  case True
  with assms(3) have "range_pattern q" by (auto simp: patternWidth_def split: if_splits)
  with True assms show ?thesis by (blast intro: range_patterns_unique)
next
  case False
  with assms(3) have "\<not> range_pattern q" by (auto simp: patternWidth_def split: if_splits)
  with False assms show ?thesis by (blast intro: exact_patterns_unique)
qed

subsection \<open>The selected entry\<close>

definition matching :: "'s responses \<Rightarrow> int \<Rightarrow> (string \<times> 's option) set" where
  "matching rs code = {(p, sc). (p, sc) \<in> set (declared rs) \<and> MatchStatusPattern p code}"

definition is_best :: "(string \<times> 's option) set \<Rightarrow> 's best \<Rightarrow> bool" where
  "is_best M b = (case b of (best, w, sc) \<Rightarrow>
     if best = [] then M = {} \<and> w = 0 \<and> sc = None
     else (best, sc) \<in> M \<and> w = patternWidth best \<and> (\<forall>(p, _) \<in> M. w \<le> patternWidth p))"

lemma is_best_step:
  assumes "is_best M b" "p \<noteq> []"
  shows "is_best (if MatchStatusPattern p code then insert (p, sc) M else M) (consider_pattern code sc p b)"
  using assms by (cases b) (auto simp: is_best_def consider_pattern_def split: if_splits)

lemma is_best_fold:
  assumes "is_best M b" "\<forall>(p, sc) \<in> set xs. p \<noteq> []"
  shows "is_best (M \<union> {(p, sc). (p, sc) \<in> set xs \<and> MatchStatusPattern p code})
           (fold (\<lambda>(p, sc). consider_pattern code sc p) xs b)"
  using assms
proof (induction xs arbitrary: M b)
  case (Cons x xs)
  obtain p sc where x: "x = (p, sc)" by fastforce
  let ?M = "if MatchStatusPattern p code then insert (p, sc) M else M"
  have "is_best (?M \<union> {(p, sc). (p, sc) \<in> set xs \<and> MatchStatusPattern p code})
     (fold (\<lambda>(p, sc). consider_pattern code sc p) xs (consider_pattern code sc p b))"
    using Cons.prems x by (intro Cons.IH is_best_step) auto
  moreover have "?M \<union> {(p, sc). (p, sc) \<in> set xs \<and> MatchStatusPattern p code}
     = M \<union> {(p, sc). (p, sc) \<in> set (x # xs) \<and> MatchStatusPattern p code}"
    using x by auto
  ultimately show ?case using x by (metis (no_types, lifting) case_prod_conv fold_simps(2))
qed simp

lemma valid_pattern_nonempty: "ValidStatusPattern p \<Longrightarrow> p \<noteq> []"
  by (auto simp: ValidStatusPattern_def)

lemma ResponseFor_best:
  "is_best (matching rs code) (fold (consider_key code) rs ([], 0, None))"
proof -
  have "is_best ({} \<union> {(p, sc). (p, sc) \<in> set (declared rs) \<and> MatchStatusPattern p code})
      (fold (\<lambda>(p, sc). consider_pattern code sc p) (declared rs) ([], 0, None))"
    by (rule is_best_fold) (auto simp: is_best_def dest: declared_valid valid_pattern_nonempty)
  then show ?thesis by (simp add: fold_consider_key matching_def)
qed

lemma matching_unique:
  assumes "distinct (map fst (declared rs))"
    and "(p, sc) \<in> matching rs code" "(q, sc') \<in> matching rs code" "patternWidth p = patternWidth q"
  shows "p = q \<and> sc = sc'"
proof -
  have "p = q"
    using assms by (auto simp: matching_def dest: declared_valid intro: same_width_same_pattern)
  with assms show ?thesis by (auto simp: matching_def intro: eq_key_imp_eq_value)
qed

lemma is_best_unique:
  assumes "is_best M (b, w, sc)" "is_best M (b', w', sc')"
    and uniq: "\<And>p s q s'. (p, s) \<in> M \<Longrightarrow> (q, s') \<in> M \<Longrightarrow> patternWidth p = patternWidth q \<Longrightarrow> p = q \<and> s = s'"
  shows "(b, sc) = (b', sc')"
proof (cases "M = {}")
  case True
  with assms(1,2) show ?thesis by (auto simp: is_best_def split: if_splits)
next
  case False
  with assms(1,2) have "(b, sc) \<in> M" "(b', sc') \<in> M" "patternWidth b \<le> patternWidth b'"
    "patternWidth b' \<le> patternWidth b"
    by (auto simp: is_best_def split: if_splits)
  with uniq show ?thesis by force
qed

lemma declared_mset: "mset rs = mset rs' \<Longrightarrow> mset (declared rs) = mset (declared rs')"
  unfolding declared_def by (rule mset_concat_map_cong)

lemma matching_mset: "mset rs = mset rs' \<Longrightarrow> matching rs code = matching rs' code"
  unfolding matching_def using declared_mset [of rs rs'] by (metis set_mset_mset)

lemma ResponseFor_eqI:
  assumes "distinct (map fst (declared rs))" "(p, sc) \<in> matching rs code"
    and least: "\<And>q sq. (q, sq) \<in> matching rs code \<Longrightarrow> patternWidth p \<le> patternWidth q"
  shows "ResponseFor rs code = (sc, True)"
proof -
  obtain b w s where f: "fold (consider_key code) rs ([], 0, None) = (b, w, s)"
    by (cases "fold (consider_key code) rs ([], 0, None)") auto
  have "p \<noteq> []" using assms(2) by (auto simp: matching_def dest: declared_valid valid_pattern_nonempty)
  then have "is_best (matching rs code) (p, patternWidth p, sc)"
    using assms(2) least by (auto simp: is_best_def)
  moreover have "is_best (matching rs code) (b, w, s)" using ResponseFor_best [of rs code] f by simp
  ultimately have "(p, sc) = (b, s)"
    by (rule is_best_unique) (use assms(1) in \<open>blast dest: matching_unique\<close>)
  with f \<open>p \<noteq> []\<close> show ?thesis by (auto simp: ResponseFor_def)
qed

lemma ResponseFor_undeclared: "matching rs code = {} \<Longrightarrow> ResponseFor rs code = (None, False)"
  using ResponseFor_best [of rs code]
  by (auto simp: ResponseFor_def is_best_def split: prod.splits if_splits)

lemma ResponseFor_declared: "matching rs code \<noteq> {} \<Longrightarrow> snd (ResponseFor rs code)"
  using ResponseFor_best [of rs code]
  by (auto simp: ResponseFor_def is_best_def split: prod.splits if_splits)

subsection \<open>Properties\<close>

lemmas response_eval = ParseResponseKey_def ValidStatusPattern_def range_pattern_def x_char_def
  is_digit_def digit_val_def trim_space_def is_space_def IsSuccessPattern_def parse_int64_def
  parse_uint_def MatchStatusPattern_def Let_def less_eq_char_def less_char_def

text \<open>
  C34: for a \<open>responses\<close> declaration that registration accepted, the schema a status selects is
  the exact pattern's if one covers the status, else the hundred-range's, else none, whatever
  order Go's map iteration visits the entries in.
\<close>

theorem response_selection:
  assumes valid: "validateResponses chk rs = Inr ()"
    and order: "mset rs' = mset rs"
  shows "(\<forall>p sc. (p, sc) \<in> set (declared rs) \<longrightarrow> MatchStatusPattern p code \<longrightarrow> \<not> range_pattern p
            \<longrightarrow> ResponseFor rs' code = (sc, True)) \<and>
         (\<forall>p sc. (p, sc) \<in> set (declared rs) \<longrightarrow> MatchStatusPattern p code \<longrightarrow>
            (\<forall>(q, _) \<in> set (declared rs). MatchStatusPattern q code \<longrightarrow> range_pattern q)
            \<longrightarrow> ResponseFor rs' code = (sc, True)) \<and>
         ((\<forall>(q, _) \<in> set (declared rs). \<not> MatchStatusPattern q code)
            \<longrightarrow> ResponseFor rs' code = (None, False))"
proof -
  have d: "distinct (map fst (declared rs'))"
    using validateResponses_distinct [OF valid] declared_mset [OF order]
    by (metis mset_eq_imp_distinct_iff mset_map)
  have m: "set (declared rs') = set (declared rs)"
    using declared_mset [OF order] by (metis set_mset_mset)
  show ?thesis
    by (intro conjI allI impI ResponseFor_eqI [OF d] ResponseFor_undeclared)
      (auto simp: m matching_def patternWidth_def)
qed

theorem response_selection_witness:
  "ResponseFor [(''2xx'', Some (2::nat)), (''404'', None), (''200'', Some 1)] 200 = (Some 1, True)"
proof -
  let ?rs = "[(''200'', Some (1::nat)), (''2xx'', Some 2), (''404'', None)]"
  have v: "validateResponses (\<lambda>_. True) ?rs = Inr ()" 
    by (simp add: validateResponses_def sortedResponses_def response_eval)
  have m: "mset [(''2xx'', Some 2), (''404'', None), (''200'', Some 1)] = mset ?rs" by simp
  have d: "(''200'', Some 1) \<in> set (declared ?rs)" by (simp add: declared_def entry_patterns_def response_eval)
  have e: "MatchStatusPattern ''200'' 200" "\<not> range_pattern ''200''" by (simp_all add: response_eval)
  show ?thesis using response_selection [OF v m, of 200] d e by blast
qed

text \<open>
  When a fetch declares success patterns and sets no accepted statuses of its own, every
  status it accepts is a 2xx that its declaration describes, so no accepted body escapes
  validation.
\<close>

theorem accepted_status_declared:
  assumes "SuccessPatterns rs \<noteq> []"
    and "MatchAnyStatus code (EffectiveAcceptedStatus rs [])"
  shows "200 \<le> code \<and> code \<le> 299 \<and> snd (ResponseFor rs code)"
proof -
  from assms obtain p where p: "p \<in> set (SuccessPatterns rs)" "MatchStatusPattern p code"
    by (auto simp: EffectiveAcceptedStatus_def MatchAnyStatus_def list_ex_iff)
  then obtain key sc ps where "(key, sc) \<in> set rs" "Inr ps = ParseResponseKey key" "p \<in> set ps"
    and s: "IsSuccessPattern p"
    by (auto simp: SuccessPatterns_def split: sum.splits)
  then have "(p, sc) \<in> matching rs code"
    using p(2) by (force simp: matching_def declared_def entry_patterns_def split: sum.splits)
  then have "snd (ResponseFor rs code)" by (intro ResponseFor_declared) auto
  moreover have "200 \<le> code \<and> code \<le> 299"
    using s p(2) by (auto simp: IsSuccessPattern_def MatchStatusPattern_def byte_sub_def Let_def
        split: if_splits option.splits)
  ultimately show ?thesis by simp
qed

theorem accepted_status_declared_witness:
  "200 \<le> (201::int) \<and> (201::int) \<le> 299 \<and> snd (ResponseFor [(''200, 201'', Some (1::nat)), (''5xx'', None)] 201)"
proof -
  let ?rs = "[(''200, 201'', Some (1::nat)), (''5xx'', None)]"
  have s: "SuccessPatterns ?rs = [''200'', ''201'']" by (simp add: SuccessPatterns_def response_eval)
  then have m: "MatchAnyStatus 201 (EffectiveAcceptedStatus ?rs [])"
    by (simp add: EffectiveAcceptedStatus_def MatchAnyStatus_def response_eval)
  show ?thesis using s m by (intro accepted_status_declared) simp_all
qed

end
