(* ===== verification/Syntax.thy ===== *)
theory Syntax
  imports Instance_Model
begin

text \<open>
  The expression language's syntax (\<open>internal/expression/syntax\<close>): the AST of \<open>ast.go\<close> and the
  recursive-descent parser of \<open>parser.go\<close>. Lexing is expr-lang's, a third-party package, so the
  parser is modelled on the token list it returns; \<open>normalizeNumber\<close> rests on third-party
  decimals and is a parameter \<open>num\<close> of the parser.
\<close>

subsection \<open>AST (ast.go)\<close>

datatype node =
    IntNode string
  | FloatNode string
  | StringNode string
  | BoolNode bool
  | NullNode
  | IdentNode string
  | MemberNode node string
  | IndexNode node int
  | KeyNode node node
  | ArrayNode "node list"
  | ObjectNode "string list" "node list"
  | LambdaNode string string node
  | CallNode string "node list"
  | UnaryNode string node
  | BinaryNode string node node
  | CondNode node node node

fun is_LambdaNode :: "node \<Rightarrow> bool" where
  "is_LambdaNode (LambdaNode _ _ _) = True"
| "is_LambdaNode _ = False"

definition builtins :: "string \<rightharpoonup> nat" where
  "builtins = [''map'' \<mapsto> 2]"

definition lambdaArg :: "string \<rightharpoonup> nat" where
  "lambdaArg = [''map'' \<mapsto> 1]"

subsection \<open>Tokens\<close>

datatype tkind = Identifier | Number | String | Bytes | Operator | Bracket | EOF

record token =
  tk_kind :: tkind
  tk_value :: string
  tk_from :: nat
  tk_to :: nat

definition eof_token :: token where
  "eof_token = \<lparr>tk_kind = EOF, tk_value = [], tk_from = 0, tk_to = 0\<rparr>"

text \<open>
  \<open>p.tokens\<close> and \<open>p.pos\<close> are kept as the tokens not yet consumed, so \<open>p.at(n)\<close> reads the
  n-th of them and yields an EOF token past the end.
\<close>

record pstate =
  p_toks :: "token list"
  p_lambdaOK :: bool

definition tok_at :: "pstate \<Rightarrow> nat \<Rightarrow> token" where
  "tok_at p n = (if n < length (p_toks p) then p_toks p ! n else eof_token)"

abbreviation cur :: "pstate \<Rightarrow> token" where "cur p \<equiv> tok_at p 0"
abbreviation peek :: "pstate \<Rightarrow> token" where "peek p \<equiv> tok_at p (Suc 0)"

definition advance_by :: "nat \<Rightarrow> pstate \<Rightarrow> pstate" where
  "advance_by n p = p\<lparr>p_toks := drop n (p_toks p)\<rparr>"

abbreviation next_tok :: "pstate \<Rightarrow> pstate" where "next_tok p \<equiv> advance_by (Suc 0) p"

definition is_tok :: "pstate \<Rightarrow> tkind \<Rightarrow> string \<Rightarrow> bool" where
  "is_tok p k v \<longleftrightarrow> tk_kind (cur p) = k \<and> tk_value (cur p) = v"

subsection \<open>Failures\<close>

text \<open>
  A failure is the message's kind and the byte offset the caret points at. The rendering of the
  message with its source quote is not modelled.
\<close>

datatype pmsg =
    UnexpectedToken token | ExpectedToken string token | ElvisUnsupported | MixedCoalesce string
  | ExpectedProperty token | InvalidIndex string | EmptyIndex | HashUnsupported | DotUnsupported
  | BytesUnsupported | NilUnsupported | LambdaMisplaced | LambdaParamsNotNames | LambdaParamsSame
  | UnknownFunction string | WrongArity string nat nat | ExpectsLambda string nat
  | BadObjectKey token | DuplicateKey string | BadNumber string

type_synonym perr = "pmsg \<times> nat"
type_synonym 'a pres = "(perr + 'a \<times> pstate) option"

definition failAt :: "token \<Rightarrow> pmsg \<Rightarrow> 'a pres" where
  "failAt t m = Some (Inl (m, tk_from t))"

definition ret :: "'a \<Rightarrow> pstate \<Rightarrow> 'a pres" where
  "ret x p = Some (Inr (x, p))"

definition bindp :: "'a pres \<Rightarrow> ('a \<Rightarrow> pstate \<Rightarrow> 'b pres) \<Rightarrow> 'b pres" where
  "bindp m k = (case m of None \<Rightarrow> None | Some (Inl e) \<Rightarrow> Some (Inl e) | Some (Inr (x, p)) \<Rightarrow> k x p)"

definition expect :: "tkind \<Rightarrow> string \<Rightarrow> pstate \<Rightarrow> unit pres" where
  "expect k v p = (if \<not> is_tok p k v then failAt (cur p) (ExpectedToken v (cur p)) else ret () (next_tok p))"

subsection \<open>Operators\<close>

definition binaryPrec :: "string \<rightharpoonup> nat" where
  "binaryPrec =
    [''||'' \<mapsto> 10, ''&&'' \<mapsto> 15,
     ''=='' \<mapsto> 20, ''!='' \<mapsto> 20, ''<'' \<mapsto> 20, ''>'' \<mapsto> 20, ''<='' \<mapsto> 20, ''>='' \<mapsto> 20,
     ''+'' \<mapsto> 30, ''-'' \<mapsto> 30,
     ''*'' \<mapsto> 60, ''/'' \<mapsto> 60, ''%'' \<mapsto> 60,
     ''??'' \<mapsto> 500]"

definition unaryOps :: "string list" where
  "unaryOps = [''!'', ''-'', ''+'']"

subsection \<open>Number and index literals\<close>

definition to_lower :: "char \<Rightarrow> char" where
  "to_lower c = (let n = (of_char c :: nat) in if 65 \<le> n \<and> n \<le> 90 then char_of (n + 32) else c)"

definition radix_prefixed :: "string \<Rightarrow> bool" where
  "radix_prefixed s =
     (let low = map to_lower s in has_prefix low ''0x'' \<or> has_prefix low ''0b'' \<or> has_prefix low ''0o'')"

definition isIntLiteral :: "string \<Rightarrow> bool" where
  "isIntLiteral s =
     (if radix_prefixed s then True
      else list_all (\<lambda>c. to_lower c \<noteq> CHR ''.'' \<and> to_lower c \<noteq> CHR ''e'') s)"

text \<open>\<open>strconv.ParseInt(s, 0, 64)\<close> on a literal with a radix prefix and no sign.\<close>

definition radix_digit :: "char \<Rightarrow> nat option" where
  "radix_digit c =
     (let n = (of_char (to_lower c) :: nat) in
      if 48 \<le> n \<and> n \<le> 57 then Some (n - 48)
      else if 97 \<le> n \<and> n \<le> 122 then Some (n - 87) else None)"

fun parse_radix :: "nat \<Rightarrow> nat \<Rightarrow> string \<Rightarrow> nat option" where
  "parse_radix b acc [] = Some acc"
| "parse_radix b acc (c # cs) =
     (case radix_digit c of
        None \<Rightarrow> None
      | Some d \<Rightarrow> if d < b then parse_radix b (b * acc + d) cs else None)"

definition parse_prefixed :: "string \<Rightarrow> int option" where
  "parse_prefixed s =
     (let b = (if to_lower (s ! 1) = CHR ''x'' then 16 else if to_lower (s ! 1) = CHR ''b'' then 2 else 8)
      in if drop 2 s = [] then None
         else (case parse_radix b 0 (drop 2 s) of
                 None \<Rightarrow> None
               | Some n \<Rightarrow> if n < 2 ^ 63 then Some (int n) else None))"

definition parseIndex :: "string \<Rightarrow> int option" where
  "parseIndex s =
     (let clean = filter (\<lambda>c. c \<noteq> CHR ''_'') s
      in if radix_prefixed clean then parse_prefixed clean else parse_int64 clean)"

subsection \<open>Lambda headers\<close>

definition isArrow :: "pstate \<Rightarrow> nat \<Rightarrow> bool" where
  "isArrow p n =
     (let eq = tok_at p n; gt = tok_at p (n + 1) in
      tk_kind eq = Operator \<and> tk_value eq = ''='' \<and>
      tk_kind gt = Operator \<and> tk_value gt = ''>'' \<and> tk_to eq = tk_from gt)"

text \<open>The offset of the bracket that closes the one at offset 0, scanning tokens in order.\<close>

fun close_at :: "token list \<Rightarrow> int \<Rightarrow> nat \<Rightarrow> nat option" where
  "close_at [] depth i = None"
| "close_at (t # ts) depth i =
     (if tk_kind t = EOF then None
      else if tk_kind t = Bracket \<and> tk_value t \<in> {''('', ''['', ''{''} then close_at ts (depth + 1) (Suc i)
      else if tk_kind t = Bracket \<and> tk_value t \<in> {'')'', '']'', ''}''} then
        (if depth - 1 = 0 then Some i else close_at ts (depth - 1) (Suc i))
      else close_at ts depth (Suc i))"

fun param_names :: "token list \<Rightarrow> string list \<Rightarrow> bool \<Rightarrow> string list option" where
  "param_names [] names wantName =
     (if wantName \<or> names = [] \<or> length names > 2 then None else Some names)"
| "param_names (t # ts) names wantName =
     (if wantName then
        (if tk_kind t \<noteq> Identifier then None else param_names ts (names @ [tk_value t]) False)
      else if tk_kind t = Operator \<and> tk_value t = '','' then param_names ts names True
      else None)"

definition paramNames :: "pstate \<Rightarrow> nat \<Rightarrow> nat \<Rightarrow> string list option" where
  "paramNames p from end = param_names (map (tok_at p) [from..<end]) [] True"

definition lambdaParams :: "pstate \<Rightarrow> perr + (string list \<times> nat) option" where
  "lambdaParams p =
     (case close_at (p_toks p) 0 0 of
        None \<Rightarrow> Inr None
      | Some i \<Rightarrow>
          if \<not> isArrow p (i + 1) then Inr None
          else (case paramNames p 1 i of
                  None \<Rightarrow> Inl (LambdaParamsNotNames, tk_from (tok_at p 1))
                | Some names \<Rightarrow> Inr (Some (names, i + 3))))"

subsection \<open>The recursive descent (parser.go)\<close>

text \<open>
  The productions call each other, and a loop is a production of its own with the loop's
  variables as arguments. Each is written over the record \<open>r\<close> of the productions it may call;
  \<open>productions num f\<close> ties the knot with \<open>f\<close> units of fuel, one per call or loop round. \<open>None\<close>
  is "out of fuel", and \<open>Parse\<close> supplies an amount proved sufficient for any token list.
\<close>

type_synonym numlit = "string \<Rightarrow> (string \<times> bool) option"

definition numberNode :: "numlit \<Rightarrow> token \<Rightarrow> pstate \<Rightarrow> node pres" where
  "numberNode num t p =
     (case num (tk_value t) of
        None \<Rightarrow> failAt t (BadNumber (tk_value t))
      | Some (text, integral) \<Rightarrow> ret (if integral then IntNode text else FloatNode text) p)"

definition check_call :: "string \<Rightarrow> nat \<Rightarrow> node list \<Rightarrow> token \<Rightarrow> pstate \<Rightarrow> node pres" where
  "check_call name arity args closing p =
     (if length args \<noteq> arity then failAt closing (WrongArity name arity (length args))
      else (case lambdaArg name of
              Some idx \<Rightarrow>
                if \<not> is_LambdaNode (args ! idx) then failAt closing (ExpectsLambda name (idx + 1))
                else ret (CallNode name args) p
            | None \<Rightarrow> ret (CallNode name args) p))"

record prods =
  r_parseExpr :: "pstate \<Rightarrow> node pres"
  r_parseBinary :: "nat \<Rightarrow> pstate \<Rightarrow> node pres"
  r_binaryLoop :: "nat \<Rightarrow> node \<Rightarrow> string \<Rightarrow> pstate \<Rightarrow> node pres"
  r_parseUnary :: "pstate \<Rightarrow> node pres"
  r_parsePostfix :: "node \<Rightarrow> pstate \<Rightarrow> node pres"
  r_parsePrimary :: "pstate \<Rightarrow> node pres"
  r_parseLambda :: "string list \<Rightarrow> nat \<Rightarrow> pstate \<Rightarrow> node pres"
  r_parseCall :: "token \<Rightarrow> pstate \<Rightarrow> node pres"
  r_callArgs :: "string \<Rightarrow> node list \<Rightarrow> pstate \<Rightarrow> node list pres"
  r_arrayItems :: "node list \<Rightarrow> pstate \<Rightarrow> node list pres"
  r_objectItems :: "string list \<Rightarrow> node list \<Rightarrow> pstate \<Rightarrow> (string list \<times> node list) pres"

definition parseExpr :: "prods \<Rightarrow> pstate \<Rightarrow> node pres" where
  "parseExpr r p =
     bindp (r_parseBinary r 0 p) (\<lambda>cond p.
       if \<not> is_tok p Operator ''?'' then ret cond p
       else
         (let p = next_tok p in
          if is_tok p Operator '':'' then failAt (cur p) ElvisUnsupported
          else bindp (r_parseExpr r p) (\<lambda>thn p.
               bindp (expect Operator '':'' p) (\<lambda>_ p.
               bindp (r_parseExpr r p) (\<lambda>els p.
               ret (CondNode cond thn els) p)))))"

definition parseBinary :: "prods \<Rightarrow> nat \<Rightarrow> pstate \<Rightarrow> node pres" where
  "parseBinary r minPrec p =
     bindp (r_parseUnary r p) (\<lambda>left p. r_binaryLoop r minPrec left [] p)"

definition binaryLoop :: "prods \<Rightarrow> nat \<Rightarrow> node \<Rightarrow> string \<Rightarrow> pstate \<Rightarrow> node pres" where
  "binaryLoop r minPrec left prevOp p =
     (let tok = cur p in
      if tk_kind tok \<noteq> Operator then ret left p
      else (case binaryPrec (tk_value tok) of
              None \<Rightarrow> ret left p
            | Some prec \<Rightarrow>
                if prec < minPrec then ret left p
                else if prevOp = ''??'' \<and> tk_value tok \<noteq> ''??'' then failAt tok (MixedCoalesce (tk_value tok))
                else bindp (r_parseBinary r (prec + 1) (next_tok p)) (\<lambda>right p.
                     r_binaryLoop r minPrec (BinaryNode (tk_value tok) left right) (tk_value tok) p)))"

definition parseUnary :: "prods \<Rightarrow> pstate \<Rightarrow> node pres" where
  "parseUnary r p =
     (let tok = cur p in
      if tk_kind tok = Operator \<and> tk_value tok \<in> set unaryOps then
        bindp (r_parseUnary r (next_tok p)) (\<lambda>operand p. ret (UnaryNode (tk_value tok) operand) p)
      else bindp (r_parsePrimary r p) (\<lambda>base p. r_parsePostfix r base p))"

definition parsePostfix :: "prods \<Rightarrow> node \<Rightarrow> pstate \<Rightarrow> node pres" where
  "parsePostfix r base p =
     (if is_tok p Operator ''.'' then
        (let p = next_tok p; name = cur p in
         if tk_kind name \<noteq> Identifier then failAt name (ExpectedProperty name)
         else r_parsePostfix r (MemberNode base (tk_value name)) (next_tok p))
      else if is_tok p Bracket ''['' then
        (let p = next_tok p; idx = cur p;
             closes = (tk_kind (peek p) = Bracket \<and> tk_value (peek p) = '']'')
         in
         if tk_kind idx = String \<and> closes then
           r_parsePostfix r (MemberNode base (tk_value idx)) (advance_by 2 p)
         else if tk_kind idx = Number \<and> isIntLiteral (tk_value idx) \<and> closes then
           (case parseIndex (tk_value idx) of
              None \<Rightarrow> failAt idx (InvalidIndex (tk_value idx))
            | Some n \<Rightarrow> r_parsePostfix r (IndexNode base n) (advance_by 2 p))
         else if is_tok p Bracket '']'' then failAt idx EmptyIndex
         else bindp (r_parseExpr r p) (\<lambda>key p.
              bindp (expect Bracket '']'' p) (\<lambda>_ p.
              r_parsePostfix r (KeyNode base key) p)))
      else ret base p)"

definition parsePrimary :: "numlit \<Rightarrow> prods \<Rightarrow> pstate \<Rightarrow> node pres" where
  "parsePrimary num r p =
     (let lambdaOK = p_lambdaOK p; p = p\<lparr>p_lambdaOK := False\<rparr>; tok = cur p in
      if tk_kind tok = Operator \<and> tk_value tok = ''#'' then failAt tok HashUnsupported
      else if tk_kind tok = Operator \<and> tk_value tok = ''.'' then failAt tok DotUnsupported
      else (case tk_kind tok of
        Number \<Rightarrow> numberNode num tok (next_tok p)
      | String \<Rightarrow> ret (StringNode (tk_value tok)) (next_tok p)
      | Bytes \<Rightarrow> failAt tok BytesUnsupported
      | Identifier \<Rightarrow>
          if tk_value tok = ''true'' \<or> tk_value tok = ''false'' then
            ret (BoolNode (tk_value tok = ''true'')) (next_tok p)
          else if tk_value tok = ''null'' then ret NullNode (next_tok p)
          else if tk_value tok = ''nil'' then failAt tok NilUnsupported
          else if isArrow p 1 then
            (if \<not> lambdaOK then failAt tok LambdaMisplaced
             else r_parseLambda r [tk_value tok] 3 p)
          else if tk_kind (peek p) = Bracket \<and> tk_value (peek p) = ''('' then r_parseCall r tok p
          else ret (IdentNode (tk_value tok)) (next_tok p)
      | Bracket \<Rightarrow>
          if tk_value tok = ''('' then
            (case lambdaParams p of
               Inl e \<Rightarrow> Some (Inl e)
             | Inr (Some (params, after)) \<Rightarrow>
                 if \<not> lambdaOK then failAt tok LambdaMisplaced
                 else r_parseLambda r params after p
             | Inr None \<Rightarrow>
                 bindp (r_parseExpr r ((next_tok p)\<lparr>p_lambdaOK := lambdaOK\<rparr>)) (\<lambda>n p.
                 bindp (expect Bracket '')'' p) (\<lambda>_ p. ret n p)))
          else if tk_value tok = ''['' then
            bindp (expect Bracket ''['' p) (\<lambda>_ p.
            bindp (r_arrayItems r [] p) (\<lambda>items p.
            bindp (expect Bracket '']'' p) (\<lambda>_ p. ret (ArrayNode items) p)))
          else if tk_value tok = ''{'' then
            bindp (expect Bracket ''{'' p) (\<lambda>_ p.
            bindp (r_objectItems r [] [] p) (\<lambda>(keys, vals) p.
            bindp (expect Bracket ''}'' p) (\<lambda>_ p. ret (ObjectNode keys vals) p)))
          else failAt tok (UnexpectedToken tok)
      | _ \<Rightarrow> failAt tok (UnexpectedToken tok)))"

definition parseLambda :: "prods \<Rightarrow> string list \<Rightarrow> nat \<Rightarrow> pstate \<Rightarrow> node pres" where
  "parseLambda r params adv p =
     (let p = advance_by adv p;
          param = params ! 0;
          indexParam = (if length params > 1 then params ! 1 else [])
      in
      if param = indexParam then failAt (cur p) LambdaParamsSame
      else bindp (r_parseExpr r p) (\<lambda>body p. ret (LambdaNode param indexParam body) p))"

definition parseCall :: "prods \<Rightarrow> token \<Rightarrow> pstate \<Rightarrow> node pres" where
  "parseCall r name p =
     (case builtins (tk_value name) of
        None \<Rightarrow> failAt name (UnknownFunction (tk_value name))
      | Some arity \<Rightarrow>
          bindp (expect Bracket ''('' (next_tok p)) (\<lambda>_ p.
          bindp (r_callArgs r (tk_value name) [] p) (\<lambda>args p.
          let p = p\<lparr>p_lambdaOK := False\<rparr>; closing = cur p in
          bindp (expect Bracket '')'' p) (\<lambda>_ p.
          check_call (tk_value name) arity args closing p))))"

definition callArgs :: "prods \<Rightarrow> string \<Rightarrow> node list \<Rightarrow> pstate \<Rightarrow> node list pres" where
  "callArgs r name args p =
     (if is_tok p Bracket '')'' then ret args p
      else
        bindp (if args \<noteq> [] then expect Operator '','' p else ret () p) (\<lambda>_ p.
        bindp (r_parseExpr r (p\<lparr>p_lambdaOK := (lambdaArg name = Some (length args))\<rparr>)) (\<lambda>arg p.
        r_callArgs r name (args @ [arg]) p)))"

definition arrayItems :: "prods \<Rightarrow> node list \<Rightarrow> pstate \<Rightarrow> node list pres" where
  "arrayItems r items p =
     (if is_tok p Bracket '']'' then ret items p
      else
        bindp (if items \<noteq> [] then expect Operator '','' p else ret () p) (\<lambda>_ p.
        if items \<noteq> [] \<and> is_tok p Bracket '']'' then ret items p
        else bindp (r_parseExpr r p) (\<lambda>item p. r_arrayItems r (items @ [item]) p)))"

definition objectItems :: "prods \<Rightarrow> string list \<Rightarrow> node list \<Rightarrow> pstate \<Rightarrow> (string list \<times> node list) pres" where
  "objectItems r keys vals p =
     (if is_tok p Bracket ''}'' then ret (keys, vals) p
      else
        bindp (if keys \<noteq> [] then expect Operator '','' p else ret () p) (\<lambda>_ p.
        if keys \<noteq> [] \<and> is_tok p Bracket ''}'' then ret (keys, vals) p
        else
          (let keyTok = cur p; key = tk_value keyTok in
           if tk_kind keyTok \<noteq> Identifier \<and> tk_kind keyTok \<noteq> String then failAt keyTok (BadObjectKey keyTok)
           else if key \<in> set keys then failAt keyTok (DuplicateKey key)
           else bindp (expect Operator '':'' (next_tok p)) (\<lambda>_ p.
                bindp (r_parseExpr r p) (\<lambda>v p.
                r_objectItems r (keys @ [key]) (vals @ [v]) p)))))"

definition no_fuel :: prods where
  "no_fuel = \<lparr>r_parseExpr = \<lambda>_. None, r_parseBinary = \<lambda>_ _. None, r_binaryLoop = \<lambda>_ _ _ _. None, r_parseUnary = \<lambda>_. None, r_parsePostfix = \<lambda>_ _. None, r_parsePrimary = \<lambda>_. None, r_parseLambda = \<lambda>_ _ _. None, r_parseCall = \<lambda>_ _. None, r_callArgs = \<lambda>_ _ _. None, r_arrayItems = \<lambda>_ _. None, r_objectItems = \<lambda>_ _ _. None\<rparr>"

primrec productions :: "numlit \<Rightarrow> nat \<Rightarrow> prods" where
  "productions num 0 = no_fuel"
| "productions num (Suc f) =
     (let r = productions num f in
      \<lparr>r_parseExpr = parseExpr r,
       r_parseBinary = parseBinary r,
       r_binaryLoop = binaryLoop r,
       r_parseUnary = parseUnary r,
       r_parsePostfix = parsePostfix r,
       r_parsePrimary = parsePrimary num r,
       r_parseLambda = parseLambda r,
       r_parseCall = parseCall r,
       r_callArgs = callArgs r,
       r_arrayItems = arrayItems r,
       r_objectItems = objectItems r\<rparr>)"

definition parse_fuel :: "token list \<Rightarrow> nat" where
  "parse_fuel ts = 8 * length ts + 8"

definition parse_with :: "numlit \<Rightarrow> nat \<Rightarrow> token list \<Rightarrow> (perr + node) option" where
  "parse_with num f ts =
     (case r_parseExpr (productions num f) \<lparr>p_toks = ts, p_lambdaOK = False\<rparr> of
        None \<Rightarrow> None
      | Some (Inl e) \<Rightarrow> Some (Inl e)
      | Some (Inr (n, p)) \<Rightarrow>
          if tk_kind (cur p) \<noteq> EOF then Some (Inl (UnexpectedToken (cur p), tk_from (cur p)))
          else Some (Inr n))"

text \<open>\<open>Parse\<close> after the lexer: the token list is what \<open>lexer.Lex\<close> returned without error.\<close>

definition Parse :: "numlit \<Rightarrow> token list \<Rightarrow> (perr + node) option" where
  "Parse num ts = parse_with num (parse_fuel ts) ts"

end
