(* ===== verification/Parser_Props.thy ===== *)
theory Parser_Props
  imports Syntax
begin

text \<open>
  What the parser guarantees: it returns on every token list, and the AST it returns is
  well-formed, which is what the evaluator relies on. Both come from one total-correctness
  calculus for parser results, \<open>tot\<close>, and one specification per production.
\<close>

subsection \<open>Well-formed ASTs\<close>

fun wf_node :: "node \<Rightarrow> bool" where
  "wf_node (MemberNode b _) = wf_node b"
| "wf_node (IndexNode b _) = wf_node b"
| "wf_node (KeyNode b k) = (wf_node b \<and> wf_node k)"
| "wf_node (ArrayNode items) = list_all wf_node items"
| "wf_node (ObjectNode ks vs) = (distinct ks \<and> length ks = length vs \<and> list_all wf_node vs)"
| "wf_node (LambdaNode _ _ _) = False"
| "wf_node (CallNode name [src, LambdaNode prm ix body]) =
     (name = ''map'' \<and> prm \<noteq> ix \<and> wf_node src \<and> wf_node body)"
| "wf_node (CallNode _ _) = False"
| "wf_node (UnaryNode op n) = (op \<in> set unaryOps \<and> wf_node n)"
| "wf_node (BinaryNode op l r) = (binaryPrec op \<noteq> None \<and> wf_node l \<and> wf_node r)"
| "wf_node (CondNode c t e) = (wf_node c \<and> wf_node t \<and> wf_node e)"
| "wf_node _ = True"

fun wf_lambda :: "node \<Rightarrow> bool" where
  "wf_lambda (LambdaNode prm ix body) = (prm \<noteq> ix \<and> wf_node body)"
| "wf_lambda _ = True"

lemma wf_node_not_lambda: "wf_node n \<Longrightarrow> \<not> is_LambdaNode n"
  by (cases n) auto

subsection \<open>A total-correctness calculus\<close>

definition tot :: "'a pres \<Rightarrow> ('a \<Rightarrow> pstate \<Rightarrow> bool) \<Rightarrow> bool" where
  "tot m Q = (case m of None \<Rightarrow> False | Some (Inl _) \<Rightarrow> True | Some (Inr (x, p)) \<Rightarrow> Q x p)"

lemma tot_bindp [simp]: "tot (bindp m k) Q = tot m (\<lambda>x p. tot (k x p) Q)"
  by (auto simp: tot_def bindp_def split: option.splits sum.splits)

lemma tot_ret [simp]: "tot (ret x p) Q = Q x p"
  by (simp add: tot_def ret_def)

lemma tot_failAt [simp]: "tot (failAt t m) Q"
  by (simp add: tot_def failAt_def)

lemma tot_Inl [simp]: "tot (Some (Inl e)) Q"
  by (simp add: tot_def)

lemma tot_expect [simp]: "tot (expect k v p) Q = (is_tok p k v \<longrightarrow> Q () (next_tok p))"
  by (simp add: expect_def)

lemma tot_if [simp]: "tot (if b then m else m') Q = (if b then tot m Q else tot m' Q)"
  by simp

lemma tot_mono: "tot m Q \<Longrightarrow> (\<And>x p. Q x p \<Longrightarrow> R x p) \<Longrightarrow> tot m R"
  by (auto simp: tot_def split: option.splits sum.splits)

subsection \<open>Token positions\<close>

abbreviation remaining :: "pstate \<Rightarrow> nat" where
  "remaining p \<equiv> length (p_toks p)"

lemma advance_by_simps [simp]:
  "p_toks (advance_by n p) = drop n (p_toks p)" "p_lambdaOK (advance_by n p) = p_lambdaOK p"
  by (simp_all add: advance_by_def)

lemma cur_not_EOF: "tk_kind (cur p) \<noteq> EOF \<Longrightarrow> 0 < remaining p"
  by (auto simp: tok_at_def eof_token_def)

lemma is_tok_remaining: "is_tok p k v \<Longrightarrow> k \<noteq> EOF \<Longrightarrow> 0 < remaining p"
  using cur_not_EOF [of p] by (auto simp: is_tok_def)

lemma tok_at_lambdaOK [simp]: "tok_at (p\<lparr>p_lambdaOK := b\<rparr>) = tok_at p"
  by (simp add: tok_at_def fun_eq_iff)

lemma is_tok_lambdaOK [simp]: "is_tok (p\<lparr>p_lambdaOK := b\<rparr>) = is_tok p"
  by (simp add: is_tok_def fun_eq_iff)

lemma builtins_Some: "builtins name = Some arity \<Longrightarrow> name = ''map'' \<and> arity = 2"
  by (auto simp: builtins_def split: if_splits)

lemma lambdaArg_map [simp]: "lambdaArg ''map'' = Some (Suc 0)"
  by (simp add: lambdaArg_def)

lemma param_names_not_Nil: "param_names ts names w = Some ps \<Longrightarrow> ps \<noteq> []"
  by (induction ts names w rule: param_names.induct) (auto split: if_splits)

lemma lambdaParams_after: "lambdaParams p = Inr (Some (ps, after)) \<Longrightarrow> 3 \<le> after \<and> ps \<noteq> []"
  by (auto simp: lambdaParams_def paramNames_def dest: param_names_not_Nil split: option.splits if_splits)

subsection \<open>One specification per production\<close>

definition node_post :: "pstate \<Rightarrow> node \<Rightarrow> pstate \<Rightarrow> bool" where
  "node_post p n p' \<longleftrightarrow> remaining p' < remaining p \<and> \<not> p_lambdaOK p' \<and> wf_lambda n \<and>
     (\<not> p_lambdaOK p \<longrightarrow> wf_node n)"

definition chain_post :: "node \<Rightarrow> pstate \<Rightarrow> node \<Rightarrow> pstate \<Rightarrow> bool" where
  "chain_post base p n p' \<longleftrightarrow> remaining p' \<le> remaining p \<and> \<not> p_lambdaOK p' \<and>
     (wf_lambda base \<longrightarrow> wf_lambda n) \<and> (wf_node base \<longrightarrow> wf_node n)"

definition args_ok :: "string \<Rightarrow> node list \<Rightarrow> bool" where
  "args_ok name args \<longleftrightarrow> (\<forall>i < length args. wf_lambda (args ! i) \<and>
     (lambdaArg name \<noteq> Some i \<longrightarrow> wf_node (args ! i)))"

lemma args_ok_snoc:
  "args_ok name (args @ [a]) \<longleftrightarrow>
     args_ok name args \<and> wf_lambda a \<and> (lambdaArg name \<noteq> Some (length args) \<longrightarrow> wf_node a)"
  by (auto simp: args_ok_def nth_append less_Suc_eq)

lemma tot_weaken: "(\<And>x p. Q x p \<Longrightarrow> R x p) \<Longrightarrow> tot m Q \<Longrightarrow> tot m R"
  by (rule tot_mono)

text \<open>
  The contract between the productions: with \<open>f\<close> units of fuel, each production called on \<open>L\<close>
  remaining tokens returns if \<open>f\<close> is at least \<open>8 * L\<close> plus a constant of its own, consumes
  tokens, hands the lambda permission back cleared, and yields a well-formed node unless it was
  given that permission. A production of the parser is a client of this contract.
\<close>

locale production_contract =
  fixes f :: nat and r :: prods
  assumes expr: "8 * remaining p + 5 \<le> f \<Longrightarrow> tot (r_parseExpr r p) (node_post p)"
    and binary: "8 * remaining p + 4 \<le> f \<Longrightarrow> tot (r_parseBinary r k p) (node_post p)"
    and loop: "8 * remaining p + 1 \<le> f \<Longrightarrow> \<not> p_lambdaOK p \<Longrightarrow>
        tot (r_binaryLoop r k left prev p) (chain_post left p)"
    and unary: "8 * remaining p + 3 \<le> f \<Longrightarrow> tot (r_parseUnary r p) (node_post p)"
    and postfix: "8 * remaining p + 1 \<le> f \<Longrightarrow> \<not> p_lambdaOK p \<Longrightarrow>
        tot (r_parsePostfix r base p) (chain_post base p)"
    and primary: "8 * remaining p + 2 \<le> f \<Longrightarrow> tot (r_parsePrimary r p) (node_post p)"
    and lambda: "8 * remaining p + 1 \<le> f \<Longrightarrow> 0 < adv \<Longrightarrow> 0 < remaining p \<Longrightarrow> \<not> p_lambdaOK p \<Longrightarrow>
        tot (r_parseLambda r ps adv p)
          (\<lambda>n p'. remaining p' < remaining p \<and> \<not> p_lambdaOK p' \<and> wf_lambda n)"
    and call: "8 * remaining p + 1 \<le> f \<Longrightarrow> 0 < remaining p \<Longrightarrow>
        tot (r_parseCall r name p)
          (\<lambda>n p'. remaining p' < remaining p \<and> \<not> p_lambdaOK p' \<and> wf_node n)"
    and args: "8 * remaining p + 6 \<le> f \<Longrightarrow> args_ok fn as \<Longrightarrow>
        tot (r_callArgs r fn as p) (\<lambda>as' p'. remaining p' \<le> remaining p \<and> args_ok fn as')"
    and items: "8 * remaining p + 6 \<le> f \<Longrightarrow> \<not> p_lambdaOK p \<Longrightarrow> list_all wf_node xs \<Longrightarrow>
        tot (r_arrayItems r xs p)
          (\<lambda>xs' p'. remaining p' \<le> remaining p \<and> \<not> p_lambdaOK p' \<and> list_all wf_node xs')"
    and fields: "8 * remaining p + 6 \<le> f \<Longrightarrow> \<not> p_lambdaOK p \<Longrightarrow> wf_node (ObjectNode ks vs) \<Longrightarrow>
        tot (r_objectItems r ks vs p)
          (\<lambda>(ks', vs') p'. remaining p' \<le> remaining p \<and> \<not> p_lambdaOK p' \<and> wf_node (ObjectNode ks' vs'))"
begin

lemma parseExpr_ok:
  assumes "8 * remaining p + 5 \<le> Suc f"
  shows "tot (parseExpr r p) (node_post p)"
proof -
  have e: "remaining s < remaining p \<Longrightarrow> tot (r_parseExpr r s) (node_post s)" for s
    using assms by (intro expr) linarith
  have "tot (r_parseBinary r 0 p) (node_post p)" using assms by (intro binary) simp
  then show ?thesis
    unfolding parseExpr_def tot_bindp
    by (rule tot_mono) (auto simp: Let_def node_post_def intro!: tot_mono [OF e] split: if_splits)
qed

lemma parseBinary_ok:
  assumes "8 * remaining p + 4 \<le> Suc f"
  shows "tot (parseBinary r k p) (node_post p)"
proof -
  have "tot (r_parseUnary r p) (node_post p)" using assms by (intro unary) simp
  then show ?thesis
    unfolding parseBinary_def tot_bindp
    by (rule tot_mono) (use assms in \<open>auto simp: node_post_def chain_post_def intro!: tot_mono [OF loop]\<close>)
qed

lemma binaryLoop_ok:
  assumes "8 * remaining p + 1 \<le> Suc f" "\<not> p_lambdaOK p"
  shows "tot (binaryLoop r k left prev p) (chain_post left p)"
proof (cases "tk_kind (cur p) = Operator")
  case True
  then obtain L where L: "remaining p = Suc L"
    using cur_not_EOF [of p] by (auto simp: gr0_conv_Suc)
  have b: "tot (r_parseBinary r m (next_tok p)) (node_post (next_tok p))" for m
    using assms L by (intro binary) simp
  show ?thesis
    using True assms
    by (auto simp: L binaryLoop_def Let_def chain_post_def node_post_def
        intro!: tot_mono [OF b] tot_mono [OF loop] split: option.splits)
next
  case False
  with assms show ?thesis by (simp add: binaryLoop_def chain_post_def)
qed

lemma parseUnary_ok:
  assumes "8 * remaining p + 3 \<le> Suc f"
  shows "tot (parseUnary r p) (node_post p)"
proof (cases "tk_kind (cur p) = Operator \<and> tk_value (cur p) \<in> set unaryOps")
  case True
  then obtain L where L: "remaining p = Suc L"
    using cur_not_EOF [of p] by (auto simp: gr0_conv_Suc)
  with True assms show ?thesis
    by (auto simp: L parseUnary_def Let_def node_post_def intro!: tot_mono [OF unary])
next
  case False
  have "tot (r_parsePrimary r p) (node_post p)" using assms by (intro primary) simp
  then have "tot (r_parsePrimary r p) (\<lambda>x q. tot (r_parsePostfix r x q) (node_post p))"
    by (rule tot_mono) (use assms in \<open>auto simp: node_post_def chain_post_def intro!: tot_mono [OF postfix]\<close>)
  with False show ?thesis by (auto simp: parseUnary_def Let_def)
qed

lemma parsePostfix_ok:
  assumes "8 * remaining p + 1 \<le> Suc f" "\<not> p_lambdaOK p"
  shows "tot (parsePostfix r base p) (chain_post base p)"
proof -
  have ch: "tot (r_parsePostfix r b q) (chain_post base p)"
    if "remaining q < remaining p" "\<not> p_lambdaOK q" "wf_lambda b" "wf_node base \<Longrightarrow> wf_node b" for b q
    by (rule tot_mono [OF postfix]) (use that assms in \<open>auto simp: chain_post_def\<close>)
  have key: "tot (r_parseExpr r (next_tok p)) (\<lambda>k q. is_tok q Bracket '']'' \<longrightarrow>
        tot (r_parsePostfix r (KeyNode base k) (next_tok q)) (chain_post base p))"
    if L: "remaining p = Suc L" for L
    by (rule tot_mono [OF expr]) (use assms L in \<open>auto simp: node_post_def intro!: ch\<close>)
  show ?thesis
  proof (cases "remaining p")
    case 0
    then have "tk_kind (cur p) = EOF" by (simp add: tok_at_def eof_token_def)
    with assms show ?thesis by (simp add: parsePostfix_def is_tok_def chain_post_def)
  next
    case (Suc L)
    with assms show ?thesis
      unfolding parsePostfix_def Let_def
      by (auto simp: chain_post_def [of _ _ _ p] intro!: ch key split: option.splits)
  qed
qed

lemma parseLambda_ok:
  assumes "8 * remaining p + 1 \<le> Suc f" "0 < adv" "0 < remaining p" "\<not> p_lambdaOK p"
  shows "tot (parseLambda r ps adv p) (\<lambda>n p'. remaining p' < remaining p \<and> \<not> p_lambdaOK p' \<and> wf_lambda n)"
proof -
  obtain L a where L: "remaining p = Suc L" "adv = Suc a" using assms by (auto simp: gr0_conv_Suc)
  have "tot (r_parseExpr r (advance_by adv p)) (node_post (advance_by adv p))"
    using assms L by (intro expr) simp
  then have "tot (r_parseExpr r (advance_by adv p))
      (\<lambda>n p'. remaining p' < remaining p \<and> \<not> p_lambdaOK p' \<and> wf_node n)"
    by (rule tot_mono) (use assms in \<open>auto simp: node_post_def\<close>)
  then show ?thesis by (auto simp: parseLambda_def Let_def)
qed

lemma check_call_ok:
  assumes "args_ok ''map'' as" "\<not> p_lambdaOK q"
  shows "tot (check_call ''map'' 2 as closing q) (\<lambda>n p'. p' = q \<and> wf_node n)"
proof (cases "length as = 2 \<and> is_LambdaNode (as ! 1)")
  case True
  then obtain a b where as: "as = [a, b]" by (auto simp: numeral_2_eq_2 length_Suc_conv)
  with True obtain prm ix body where "b = LambdaNode prm ix body" by (cases b) auto
  with as assms show ?thesis
    by (auto simp: check_call_def args_ok_def less_Suc_eq numeral_2_eq_2)
qed (auto simp: check_call_def)

lemma parseCall_ok:
  assumes "8 * remaining p + 1 \<le> Suc f" "0 < remaining p"
  shows "tot (parseCall r name p) (\<lambda>n p'. remaining p' < remaining p \<and> \<not> p_lambdaOK p' \<and> wf_node n)"
proof (cases "builtins (tk_value name)")
  case None
  then show ?thesis by (simp add: parseCall_def)
next
  case (Some arity)
  then have nm: "tk_value name = ''map''" "arity = 2" by (auto dest: builtins_Some)
  let ?Q = "\<lambda>n p'. remaining p' < remaining p \<and> \<not> p_lambdaOK p' \<and> wf_node n"
  obtain L where L: "remaining p = Suc L" using assms by (auto simp: gr0_conv_Suc)
  have "tot (r_callArgs r ''map'' [] (advance_by 2 p))
      (\<lambda>as q. remaining q \<le> remaining (advance_by 2 p) \<and> args_ok ''map'' as)"
  proof (rule args)
    have "8 * (n - 2) + 6 \<le> 8 * n" if "0 < n" for n :: nat using that by arith
    from this [OF assms(2)] assms(1) show "8 * remaining (advance_by 2 p) + 6 \<le> f" by simp
  qed (simp add: args_ok_def)
  then have "tot (r_callArgs r ''map'' [] (advance_by 2 p)) (\<lambda>as q. \<forall>c.
      tot (check_call ''map'' 2 as c (next_tok (q\<lparr>p_lambdaOK := False\<rparr>))) ?Q)"
    by (rule tot_mono) (use assms L in \<open>auto intro!: tot_mono [OF check_call_ok]\<close>)
  moreover have "next_tok (next_tok p) = advance_by 2 p" by (simp add: advance_by_def numeral_2_eq_2)
  ultimately show ?thesis using Some nm
    by (auto simp: parseCall_def Let_def elim!: tot_mono)
qed

lemma expr_smaller:
  assumes "8 * remaining q + 5 \<le> f" "p_lambdaOK q \<Longrightarrow> b"
  shows "tot (r_parseExpr r q) (\<lambda>n q'. remaining q' < remaining q \<and> \<not> p_lambdaOK q' \<and> wf_lambda n \<and>
           (\<not> b \<longrightarrow> wf_node n))"
  by (rule tot_mono [OF expr]) (use assms in \<open>auto simp: node_post_def\<close>)

lemma callArgs_ok:
  assumes "8 * remaining p + 6 \<le> Suc f" "args_ok fn as"
  shows "tot (callArgs r fn as p) (\<lambda>as' p'. remaining p' \<le> remaining p \<and> args_ok fn as')"
proof -
  let ?b = "lambdaArg fn = Some (length as)"
  have step: "tot (r_parseExpr r (q\<lparr>p_lambdaOK := ?b\<rparr>)) (\<lambda>a q. tot (r_callArgs r fn (as @ [a]) q)
      (\<lambda>as' p'. remaining p' \<le> remaining p \<and> args_ok fn as'))"
    if "remaining q \<le> remaining p" for q
  proof (rule tot_mono [OF expr_smaller [where b = ?b]])
    show "8 * remaining (q\<lparr>p_lambdaOK := ?b\<rparr>) + 5 \<le> f" using that assms by simp
  qed (use that assms in \<open>auto simp: args_ok_snoc intro!: tot_mono [OF args]\<close>)
  show ?thesis
    using assms step by (auto simp: callArgs_def)
qed

lemma arrayItems_ok:
  assumes "8 * remaining p + 6 \<le> Suc f" "\<not> p_lambdaOK p" "list_all wf_node xs"
  shows "tot (arrayItems r xs p)
     (\<lambda>xs' p'. remaining p' \<le> remaining p \<and> \<not> p_lambdaOK p' \<and> list_all wf_node xs')"
proof -
  have step: "tot (r_parseExpr r q) (\<lambda>a q. tot (r_arrayItems r (xs @ [a]) q)
      (\<lambda>xs' p'. remaining p' \<le> remaining p \<and> \<not> p_lambdaOK p' \<and> list_all wf_node xs'))"
    if "remaining q \<le> remaining p" "\<not> p_lambdaOK q" for q
    by (rule tot_mono [OF expr_smaller [where b = False]])
      (use that assms in \<open>auto intro!: tot_mono [OF items]\<close>)
  show ?thesis using assms step by (auto simp: arrayItems_def)
qed

lemma objectItems_ok:
  assumes "8 * remaining p + 6 \<le> Suc f" "\<not> p_lambdaOK p" "wf_node (ObjectNode ks vs)"
  shows "tot (objectItems r ks vs p)
     (\<lambda>(ks', vs') p'. remaining p' \<le> remaining p \<and> \<not> p_lambdaOK p' \<and> wf_node (ObjectNode ks' vs'))"
proof -
  have step: "tot (r_parseExpr r q) (\<lambda>v q. tot (r_objectItems r (ks @ [k]) (vs @ [v]) q)
      (\<lambda>(ks', vs') p'. remaining p' \<le> remaining p \<and> \<not> p_lambdaOK p' \<and> wf_node (ObjectNode ks' vs')))"
    if "remaining q \<le> remaining p" "\<not> p_lambdaOK q" "k \<notin> set ks" for q k
    by (rule tot_mono [OF expr_smaller [where b = False]])
      (use that assms in \<open>auto intro!: tot_mono [OF fields]\<close>)
  show ?thesis using assms step by (auto simp: objectItems_def Let_def)
qed

lemma array_literal_ok:
  assumes "8 * remaining p + 2 \<le> Suc f" "0 < remaining p" "\<not> p_lambdaOK p"
  shows "tot (r_arrayItems r [] (next_tok p)) (\<lambda>xs q. is_tok q Bracket '']'' \<longrightarrow> node_post p (ArrayNode xs) (next_tok q))"
proof -
  obtain L where L: "remaining p = Suc L" using assms by (auto simp: gr0_conv_Suc)
  show ?thesis
    by (rule tot_mono [OF items]) (use assms L in \<open>auto simp: node_post_def\<close>)
qed

lemma object_literal_ok:
  assumes "8 * remaining p + 2 \<le> Suc f" "0 < remaining p" "\<not> p_lambdaOK p"
  shows "tot (r_objectItems r [] [] (next_tok p))
    (\<lambda>x q. is_tok q Bracket ''}'' \<longrightarrow> node_post p (case x of (ks, vs) \<Rightarrow> ObjectNode ks vs) (next_tok q))"
proof -
  obtain L where L: "remaining p = Suc L" using assms by (auto simp: gr0_conv_Suc)
  show ?thesis
    by (rule tot_mono [OF fields]) (use assms L in \<open>auto simp: node_post_def\<close>)
qed

lemma parens_ok:
  assumes "8 * remaining p + 2 \<le> Suc f" "0 < remaining p"
  shows "tot (r_parseExpr r ((next_tok p)\<lparr>p_lambdaOK := b\<rparr>))
    (\<lambda>n q. is_tok q Bracket '')'' \<longrightarrow> node_post (p\<lparr>p_lambdaOK := b\<rparr>) n (next_tok q))"
proof -
  obtain L where L: "remaining p = Suc L" using assms by (auto simp: gr0_conv_Suc)
  show ?thesis
    by (rule tot_mono [OF expr_smaller [where b = b]]) (use assms L in \<open>auto simp: node_post_def\<close>)
qed

lemma node_post_leaf:
  assumes "0 < remaining p" "wf_node n"
  shows "node_post p n (next_tok (p\<lparr>p_lambdaOK := False\<rparr>))"
  using assms by (cases n) (auto simp: node_post_def)

lemma wf_node_wf_lambda: "wf_node n \<Longrightarrow> wf_lambda n"
  by (cases n) auto

lemma lambda_expr_ok:
  assumes "8 * remaining p + 2 \<le> Suc f" "0 < remaining p" "p_lambdaOK p" "0 < adv"
  shows "tot (r_parseLambda r ps adv (p\<lparr>p_lambdaOK := False\<rparr>)) (node_post p)"
  by (rule tot_mono [OF lambda]) (use assms in \<open>auto simp: node_post_def\<close>)

lemma call_expr_ok:
  assumes "8 * remaining p + 2 \<le> Suc f" "0 < remaining p"
  shows "tot (r_parseCall r t (p\<lparr>p_lambdaOK := False\<rparr>)) (node_post p)"
  by (rule tot_mono [OF call]) (use assms in \<open>auto simp: node_post_def wf_node_wf_lambda\<close>)

lemma number_ok:
  assumes "0 < remaining p"
  shows "tot (numberNode num t (next_tok (p\<lparr>p_lambdaOK := False\<rparr>))) (node_post p)"
  using assms by (auto simp: numberNode_def intro!: node_post_leaf split: option.splits)

lemma bracket_ok:
  assumes "8 * remaining p + 2 \<le> Suc f" "tk_kind (cur p) = Bracket"
  shows "tot (parsePrimary num r p) (node_post p)"
proof -
  let ?p = "p\<lparr>p_lambdaOK := False\<rparr>"
  from assms(2) have pos: "0 < remaining p" using cur_not_EOF [of p] by simp
  have a: "tot (r_arrayItems r [] (next_tok ?p)) (\<lambda>xs q. is_tok q Bracket '']'' \<longrightarrow> node_post p (ArrayNode xs) (next_tok q))"
    by (rule tot_mono [OF array_literal_ok]) (use assms pos in \<open>auto simp: node_post_def\<close>)
  have o: "tot (r_objectItems r [] [] (next_tok ?p))
    (\<lambda>x q. is_tok q Bracket ''}'' \<longrightarrow> node_post p (case x of (ks, vs) \<Rightarrow> ObjectNode ks vs) (next_tok q))"
    by (rule tot_mono [OF object_literal_ok]) (use assms pos in \<open>auto simp: node_post_def\<close>)
  have e: "tot (r_parseExpr r ((next_tok ?p)\<lparr>p_lambdaOK := p_lambdaOK p\<rparr>))
    (\<lambda>n q. is_tok q Bracket '')'' \<longrightarrow> node_post p n (next_tok q))"
    using parens_ok [of ?p "p_lambdaOK p"] assms pos by simp
  show ?thesis
    unfolding parsePrimary_def Let_def tok_at_lambdaOK
    using assms(2) a o e pos assms(1)
    by (auto simp: case_prod_beta split: sum.splits option.splits
        intro!: lambda_expr_ok dest: lambdaParams_after elim!: tot_mono)
qed

lemma parsePrimary_ok:
  assumes "8 * remaining p + 2 \<le> Suc f"
  shows "tot (parsePrimary num r p) (node_post p)"
proof (cases "tk_kind (cur p) = Bracket")
  case True
  with assms show ?thesis by (rule bracket_ok)
next
  case False
  show ?thesis
  proof (cases "tk_kind (cur p) = EOF")
    case True
    then show ?thesis by (simp add: parsePrimary_def Let_def)
  next
    case pos: False
    then have "0 < remaining p" by (rule cur_not_EOF)
    with assms False pos show ?thesis
      unfolding parsePrimary_def Let_def tok_at_lambdaOK
      by (auto intro!: lambda_expr_ok call_expr_ok number_ok node_post_leaf split: tkind.splits)
  qed
qed

lemma contract_step:
  "production_contract (Suc f)
     \<lparr>r_parseExpr = parseExpr r, r_parseBinary = parseBinary r, r_binaryLoop = binaryLoop r,
      r_parseUnary = parseUnary r, r_parsePostfix = parsePostfix r, r_parsePrimary = parsePrimary num r,
      r_parseLambda = parseLambda r, r_parseCall = parseCall r, r_callArgs = callArgs r,
      r_arrayItems = arrayItems r, r_objectItems = objectItems r\<rparr>"
  by unfold_locales
    (simp_all only: prods.simps parseExpr_ok parseBinary_ok binaryLoop_ok parseUnary_ok parsePostfix_ok
      parsePrimary_ok parseLambda_ok parseCall_ok callArgs_ok arrayItems_ok objectItems_ok not_False_eq_True)

end

lemma productions_contract: "production_contract f (productions num f)"
proof (induction f)
  case 0
  show ?case by unfold_locales simp_all
next
  case (Suc f)
  then show ?case by (simp add: Let_def production_contract.contract_step)
qed

interpretation prods: production_contract f "productions num f" for f num
  by (rule productions_contract)

lemma parse_enough_fuel:
  assumes "8 * length ts + 5 \<le> f"
  shows "tot (r_parseExpr (productions num f) \<lparr>p_toks = ts, p_lambdaOK = False\<rparr>) (\<lambda>n p. wf_node n)"
  using prods.expr [of "\<lparr>p_toks = ts, p_lambdaOK = False\<rparr>" f num] assms
  by (auto simp: node_post_def elim: tot_mono)

lemma Parse_result:
  "\<exists>r. Parse num ts = Some r \<and> (\<forall>n. r = Inr n \<longrightarrow> wf_node n)"
  using parse_enough_fuel [of ts "parse_fuel ts" num]
  by (auto simp: Parse_def parse_with_def parse_fuel_def tot_def split: option.splits sum.splits)

text \<open>
  C35: the expression parser is total: on every token stream, however long or malformed, it ends
  with a node or a syntax error, and a node it returns satisfies the shape the evaluator and the
  type checker rely on.
\<close>

theorem Parse_is_total:
  "case Parse num ts of None \<Rightarrow> False | Some (Inl _) \<Rightarrow> True | Some (Inr n) \<Rightarrow> wf_node n"
  using Parse_result [of num ts] by (auto split: sum.splits)

end
