(* ===== verification/Parser_Roundtrip.thy ===== *)
theory Parser_Roundtrip
  imports Parser_Props
begin

text \<open>
  The parser inverts a printer that writes only the parentheses the grammar needs: operator
  precedence, left associativity, the \<open>??\<close> mixing rule, postfix chains, ternaries, literals and
  lambdas are all read back as the AST that was printed.
\<close>

subsection \<open>Eventual results\<close>

text \<open>A family of results indexed by fuel yields \<open>v\<close> when it does so for all large enough fuel.\<close>

definition ev :: "(nat \<Rightarrow> 'a pres) \<Rightarrow> perr + 'a \<times> pstate \<Rightarrow> bool" where
  "ev g v \<longleftrightarrow> (\<exists>N. \<forall>f \<ge> N. g f = Some v)"

lemma ev_const: "(\<And>f. g f = Some v) \<Longrightarrow> ev g v"
  by (auto simp: ev_def)

lemma ev_SucI: "ev (\<lambda>f. g (Suc f)) v \<Longrightarrow> ev g v"
  unfolding ev_def by (metis Suc_le_D Suc_le_mono)

lemma ev_bind: "ev m (Inr (x, p)) \<Longrightarrow> ev (\<lambda>f. k f x p) v \<Longrightarrow> ev (\<lambda>f. bindp (m f) (k f)) v"
  unfolding ev_def
proof (elim exE)
  fix N M assume a: "\<forall>f \<ge> N. m f = Some (Inr (x, p))" "\<forall>f \<ge> M. k f x p = Some v"
  show "\<exists>N. \<forall>f \<ge> N. bindp (m f) (k f) = Some v"
    using a by (intro exI [of _ "max N M"]) (auto simp: bindp_def)
qed

lemma ev_bind_imm: "m = Some (Inr (x, p)) \<Longrightarrow> ev (\<lambda>f. k f x p) v \<Longrightarrow> ev (\<lambda>f. bindp m (k f)) v"
  by (rule ev_bind) (auto intro: ev_const)

lemma ev_det: "ev g v \<Longrightarrow> ev g w \<Longrightarrow> v = w"
  unfolding ev_def by (metis le_refl nle_le option.inject)

abbreviation st :: "token list \<Rightarrow> pstate" where
  "st ts \<equiv> \<lparr>p_toks = ts, p_lambdaOK = False\<rparr>"

definition tk :: "tkind \<Rightarrow> string \<Rightarrow> token" where
  "tk k v = \<lparr>tk_kind = k, tk_value = v, tk_from = 0, tk_to = 0\<rparr>"

lemma tk_sel [simp]: "tk_kind (tk k v) = k" "tk_value (tk k v) = v" "tk_from (tk k v) = 0" "tk_to (tk k v) = 0"
  by (simp_all add: tk_def)

lemma cur_Cons [simp]: "cur \<lparr>p_toks = t # ts, p_lambdaOK = b\<rparr> = t"
  by (simp add: tok_at_def)

lemma tok_at_Suc [simp]: "tok_at \<lparr>p_toks = t # ts, p_lambdaOK = b\<rparr> (Suc n) = tok_at \<lparr>p_toks = ts, p_lambdaOK = b\<rparr> n"
  by (simp add: tok_at_def)

lemma advance_st [simp]: "advance_by n \<lparr>p_toks = ts, p_lambdaOK = b\<rparr> = \<lparr>p_toks = drop n ts, p_lambdaOK = b\<rparr>"
  by (simp add: advance_by_def)

lemma is_tok_Cons [simp]: "is_tok \<lparr>p_toks = t # ts, p_lambdaOK = b\<rparr> k v \<longleftrightarrow> tk_kind t = k \<and> tk_value t = v"
  by (simp add: is_tok_def)

lemma expect_Cons [simp]: "expect k v \<lparr>p_toks = tk k v # ts, p_lambdaOK = b\<rparr> = Some (Inr ((), \<lparr>p_toks = ts, p_lambdaOK = b\<rparr>))"
  by (simp add: expect_def ret_def)

subsection \<open>What may follow a printed expression\<close>

definition hd_is :: "token list \<Rightarrow> tkind \<Rightarrow> string \<Rightarrow> bool" where
  "hd_is ts k v \<longleftrightarrow> is_tok (st ts) k v"

lemma is_tok_hd: "is_tok \<lparr>p_toks = ts, p_lambdaOK = b\<rparr> k v = hd_is ts k v"
  by (simp add: hd_is_def is_tok_def tok_at_def)

lemma hd_is_Cons [simp]: "hd_is (t # ts) k v \<longleftrightarrow> tk_kind t = k \<and> tk_value t = v"
  by (simp add: hd_is_def)

definition follow0 :: "token list \<Rightarrow> bool" where
  "follow0 ts \<longleftrightarrow> \<not> hd_is ts Operator ''='' \<and> \<not> hd_is ts Bracket ''(''"

definition follow1 :: "token list \<Rightarrow> bool" where
  "follow1 ts \<longleftrightarrow> follow0 ts \<and> \<not> hd_is ts Operator ''.'' \<and> \<not> hd_is ts Bracket ''[''"

definition no_op :: "nat \<Rightarrow> token list \<Rightarrow> bool" where
  "no_op k ts \<longleftrightarrow> (\<forall>op p. hd_is ts Operator op \<longrightarrow> binaryPrec op = Some p \<longrightarrow> p < k)"

definition followE :: "token list \<Rightarrow> bool" where
  "followE ts \<longleftrightarrow> follow1 ts \<and> no_op 0 ts \<and> \<not> hd_is ts Operator ''?''"

lemma no_op_mono: "no_op k ts \<Longrightarrow> k \<le> k' \<Longrightarrow> no_op k' ts"
  by (fastforce simp: no_op_def)

lemma binaryPrec_None [simp]: "binaryPrec '':'' = None" "binaryPrec '','' = None" "binaryPrec ''?'' = None"
  by (simp_all add: binaryPrec_def)

lemma follow_closers [simp]:
  "followE (tk Bracket '')'' # ts)" "followE (tk Bracket '']'' # ts)" "followE (tk Bracket ''}'' # ts)"
  "followE (tk Operator '','' # ts)" "followE (tk Operator '':'' # ts)"
  by (simp_all add: followE_def follow1_def follow0_def no_op_def)

lemma follow_ops [simp]:
  "binaryPrec op = Some p \<Longrightarrow> follow1 (tk Operator op # ts)"
  "follow1 (tk Operator ''?'' # ts)" "no_op k (tk Operator ''?'' # ts)"
  "follow0 (tk Operator ''.'' # ts)" "follow0 (tk Bracket ''['' # ts)"
  by (auto simp: follow1_def follow0_def no_op_def binaryPrec_def split: if_splits)

subsection \<open>The printer\<close>

fun nlevel :: "node \<Rightarrow> nat" where
  "nlevel (CondNode _ _ _) = 0"
| "nlevel (BinaryNode op _ _) = 1 + the (binaryPrec op)"
| "nlevel (UnaryNode _ _) = 1000"
| "nlevel _ = 2000"

definition parens :: "bool \<Rightarrow> token list \<Rightarrow> token list" where
  "parens b ts = (if b then tk Bracket ''('' # ts @ [tk Bracket '')''] else ts)"

fun coalesce_left :: "string \<Rightarrow> node \<Rightarrow> bool" where
  "coalesce_left op (BinaryNode op' _ _) = (op' = ''??'' \<and> op \<noteq> ''??'')"
| "coalesce_left _ _ = False"

fun sep_by_comma :: "token list list \<Rightarrow> token list" where
  "sep_by_comma [] = []"
| "sep_by_comma [ts] = ts"
| "sep_by_comma (ts # tss) = ts @ tk Operator '','' # sep_by_comma tss"

definition lambda_head :: "string \<Rightarrow> string \<Rightarrow> token list" where
  "lambda_head prm ix =
     (if ix = [] then [tk Identifier prm]
      else [tk Bracket ''('', tk Identifier prm, tk Operator '','', tk Identifier ix, tk Bracket '')''])
     @ [tk Operator ''='', tk Operator ''>'']"

fun core :: "node \<Rightarrow> token list" where
  "core (IntNode t) = [tk Number t]"
| "core (FloatNode t) = [tk Number t]"
| "core (StringNode s) = [tk String s]"
| "core (BoolNode b) = [tk Identifier (if b then ''true'' else ''false'')]"
| "core NullNode = [tk Identifier ''null'']"
| "core (IdentNode x) = [tk Identifier x]"
| "core (MemberNode b x) = parens (nlevel b < 2000) (core b) @ [tk Operator ''.'', tk Identifier x]"
| "core (IndexNode b i) = parens (nlevel b < 2000) (core b) @ [tk Bracket ''['', tk Number (itoa i), tk Bracket '']'']"
| "core (KeyNode b k) = parens (nlevel b < 2000) (core b) @
     [tk Bracket ''['', tk Bracket ''(''] @ core k @ [tk Bracket '')'', tk Bracket '']'']"
| "core (ArrayNode xs) = tk Bracket ''['' # sep_by_comma (map core xs) @ [tk Bracket '']'']"
| "core (ObjectNode ks vs) = tk Bracket ''{'' #
     sep_by_comma (map2 (\<lambda>k ts. tk String k # tk Operator '':'' # ts) ks (map core vs)) @ [tk Bracket ''}'']"
| "core (LambdaNode prm ix body) = lambda_head prm ix @ core body"
| "core (CallNode name args) =
     tk Identifier name # tk Bracket ''('' # sep_by_comma (map core args) @ [tk Bracket '')'']"
| "core (UnaryNode op n) = tk Operator op # parens (nlevel n < 1000) (core n)"
| "core (BinaryNode op l r) =
     parens (nlevel l < 1 + the (binaryPrec op) \<or> coalesce_left op l) (core l) @ tk Operator op #
     parens (nlevel r < 2 + the (binaryPrec op)) (core r)"
| "core (CondNode c t e) =
     parens (nlevel c < 1) (core c) @ tk Operator ''?'' # core t @ tk Operator '':'' # core e"

definition keyword :: "string \<Rightarrow> bool" where
  "keyword x \<longleftrightarrow> x \<in> {''true'', ''false'', ''null'', ''nil''}"

text \<open>
  An AST is printable when it is well-formed and its number texts are the canonical ones the
  number reader produces.
\<close>

fun printable :: "numlit \<Rightarrow> node \<Rightarrow> bool" where
  "printable num (IntNode t) \<longleftrightarrow> num t = Some (t, True)"
| "printable num (FloatNode t) \<longleftrightarrow> num t = Some (t, False)"
| "printable num (IdentNode x) \<longleftrightarrow> \<not> keyword x"
| "printable num (MemberNode b x) \<longleftrightarrow> printable num b"
| "printable num (IndexNode b i) \<longleftrightarrow> printable num b \<and> 0 \<le> i \<and> i < 2 ^ 63"
| "printable num (KeyNode b k) \<longleftrightarrow> printable num b \<and> printable num k"
| "printable num (ArrayNode xs) \<longleftrightarrow> list_all (printable num) xs"
| "printable num (ObjectNode ks vs) \<longleftrightarrow> distinct ks \<and> length ks = length vs \<and> list_all (printable num) vs"
| "printable num (CallNode name [src, LambdaNode prm ix body]) \<longleftrightarrow>
     name = ''map'' \<and> printable num src \<and> prm \<noteq> ix \<and> \<not> keyword prm \<and> printable num body"
| "printable num (CallNode _ _) \<longleftrightarrow> False"
| "printable num (LambdaNode _ _ _) \<longleftrightarrow> False"
| "printable num (UnaryNode op n) \<longleftrightarrow> op \<in> set unaryOps \<and> printable num n"
| "printable num (BinaryNode op l r) \<longleftrightarrow> binaryPrec op \<noteq> None \<and> printable num l \<and> printable num r"
| "printable num (CondNode c t e) \<longleftrightarrow> printable num c \<and> printable num t \<and> printable num e"
| "printable num _ \<longleftrightarrow> True"

definition print_expr :: "node \<Rightarrow> token list" where
  "print_expr n = core n"

end
