(* ===== verification/Values.thy ===== *)
theory Values
  imports Objects
begin

text \<open>
  The dynamic values a context is made of (\<open>any\<close> in the sources), and the operations that move
  markers in and out of them (\<open>model/objpath.go\<close>, \<open>removeAt\<close> of \<open>db/objectcut.go\<close>).

  A Go map has no order. It is modelled as the association list sorted by key, which represents each
  map exactly once; where the sources range over a map in an unspecified order and the result depends
  on it, the definition says so. A number is the text of its \<open>json.Number\<close>, or the Go \<open>int\<close> that a lambda
  index is. The marker of an externalized value carries its hash and its size; the path a marker was
  cut from is kept in the list of references and is never read from a value.
\<close>

datatype jval =
    JNull
  | JBool bool
  | JNumber string
  | JInt int
  | JStr string
  | JArr "jval list"
  | JObj "(string \<times> jval) list"
  | JRef string int

type_synonym path = "path_elem list"

subsection \<open>Maps\<close>

fun obj_put :: "string \<Rightarrow> 'a \<Rightarrow> (string \<times> 'a) list \<Rightarrow> (string \<times> 'a) list" where
  "obj_put k v [] = [(k, v)]"
| "obj_put k v ((k', v') # kvs) =
     (if k = k' then (k, v) # kvs
      else if k < k' then (k, v) # (k', v') # kvs
      else (k', v') # obj_put k v kvs)"

definition obj_del :: "string \<Rightarrow> (string \<times> 'a) list \<Rightarrow> (string \<times> 'a) list" where
  "obj_del k kvs = filter (\<lambda>(k', _). k' \<noteq> k) kvs"

definition sorted_keys :: "(string \<times> 'a) list \<Rightarrow> bool" where
  "sorted_keys kvs \<longleftrightarrow> sorted_wrt (<) (map fst kvs)"

text \<open>The values that represent each map once.\<close>

fun wf_val :: "jval \<Rightarrow> bool" where
  "wf_val (JArr xs) = list_all wf_val xs"
| "wf_val (JObj kvs) = (sorted_keys kvs \<and> list_all (\<lambda>(_, v). wf_val v) kvs)"
| "wf_val _ = True"

fun marker_free :: "jval \<Rightarrow> bool" where
  "marker_free (JRef _ _) = False"
| "marker_free (JArr xs) = list_all marker_free xs"
| "marker_free (JObj kvs) = list_all (\<lambda>(_, v). marker_free v) kvs"
| "marker_free _ = True"

subsection \<open>Extract and Place (model/objpath.go)\<close>

text \<open>
  Both mutate the containers they are given; here they return the changed value. \<open>Extract\<close> ranges
  over a map in no fixed order, so its list of references is one of its possible orders.
\<close>

fun Extract :: "jval \<Rightarrow> path \<Rightarrow> jval \<times> objref list"
  and Extract_fields :: "(string \<times> jval) list \<Rightarrow> path \<Rightarrow> (string \<times> jval) list \<times> objref list"
  and Extract_items :: "jval list \<Rightarrow> int \<Rightarrow> path \<Rightarrow> jval list \<times> objref list" where
  "Extract (JRef h n) at = (JNull, [\<lparr>ref_hash = h, ref_size = n, ref_path = at\<rparr>])"
| "Extract (JObj kvs) at = (case Extract_fields kvs at of (kvs', rs) \<Rightarrow> (JObj kvs', rs))"
| "Extract (JArr xs) at = (case Extract_items xs 0 at of (xs', rs) \<Rightarrow> (JArr xs', rs))"
| "Extract v at = (v, [])"
| "Extract_fields [] at = ([], [])"
| "Extract_fields ((k, v) # kvs) at =
     (case Extract v (at @ [PKey k]) of (v', rs) \<Rightarrow>
        (case Extract_fields kvs at of (kvs', rs') \<Rightarrow> ((k, v') # kvs', rs @ rs')))"
| "Extract_items [] i at = ([], [])"
| "Extract_items (x # xs) i at =
     (case Extract x (at @ [PIdx i]) of (x', rs) \<Rightarrow>
        (case Extract_items xs (i + 1) at of (xs', rs') \<Rightarrow> (x' # xs', rs @ rs')))"

definition in_range :: "int \<Rightarrow> 'a list \<Rightarrow> bool" where
  "in_range i xs \<longleftrightarrow> 0 \<le> i \<and> i < int (length xs)"

fun Place :: "jval \<Rightarrow> path \<Rightarrow> jval \<Rightarrow> jval \<times> bool" where
  "Place root [] v = (root, False)"
| "Place (JObj kvs) (PKey k # rest) v =
     (if rest = [] then (JObj (obj_put k v kvs), True)
      else (case map_of kvs k of
              None \<Rightarrow> (JObj kvs, False)
            | Some x \<Rightarrow> (case Place x rest v of (x', ok) \<Rightarrow> (JObj (obj_put k x' kvs), ok))))"
| "Place (JArr xs) (PIdx i # rest) v =
     (if \<not> in_range i xs then (JArr xs, False)
      else if rest = [] then (JArr (xs[nat i := v]), True)
      else (case Place (xs ! nat i) rest v of (x', ok) \<Rightarrow> (JArr (xs[nat i := x']), ok)))"
| "Place root _ v = (root, False)"

fun removeAt :: "jval \<Rightarrow> path \<Rightarrow> jval" where
  "removeAt root [] = root"
| "removeAt (JObj kvs) (PKey k # rest) =
     (if rest = [] then JObj (obj_del k kvs)
      else (case map_of kvs k of
              None \<Rightarrow> JObj kvs
            | Some x \<Rightarrow> JObj (obj_put k (removeAt x rest) kvs)))"
| "removeAt (JArr xs) (PIdx i # rest) =
     (if \<not> in_range i xs then JArr xs
      else if rest = [] then JArr (xs[nat i := JNull])
      else JArr (xs[nat i := removeAt (xs ! nat i) rest]))"
| "removeAt root _ = root"

subsection \<open>Edits at a set of places\<close>

text \<open>
  What a series of removals and placements amounts to: each place of an edit map is gone or holds a
  given value, and everything else is as it was. A gone array element is null, so that the elements
  after it keep their indices.
\<close>

datatype edit = Gone | Put jval

type_synonym edits = "path \<Rightarrow> edit option"

definition under :: "path_elem \<Rightarrow> edits \<Rightarrow> edits" where
  "under e f p = f (e # p)"

fun edited :: "edits \<Rightarrow> jval \<Rightarrow> jval"
  and edit_fields :: "edits \<Rightarrow> (string \<times> jval) list \<Rightarrow> (string \<times> jval) list"
  and edit_items :: "edits \<Rightarrow> int \<Rightarrow> jval list \<Rightarrow> jval list" where
  "edited f (JObj kvs) = JObj (edit_fields f kvs)"
| "edited f (JArr xs) = JArr (edit_items f 0 xs)"
| "edited f v = v"
| "edit_fields f [] = []"
| "edit_fields f ((k, v) # kvs) =
     (case f [PKey k] of
        Some Gone \<Rightarrow> edit_fields f kvs
      | Some (Put w) \<Rightarrow> (k, w) # edit_fields f kvs
      | None \<Rightarrow> (k, edited (under (PKey k) f) v) # edit_fields f kvs)"
| "edit_items f i [] = []"
| "edit_items f i (x # xs) =
     (case f [PIdx i] of
        Some Gone \<Rightarrow> JNull
      | Some (Put w) \<Rightarrow> w
      | None \<Rightarrow> edited (under (PIdx i) f) x) # edit_items f (i + 1) xs"

text \<open>The value at a path, when the walk never meets a missing step.\<close>

fun value_at :: "jval \<Rightarrow> path \<Rightarrow> jval option" where
  "value_at v [] = Some v"
| "value_at (JObj kvs) (PKey k # p) = (case map_of kvs k of None \<Rightarrow> None | Some x \<Rightarrow> value_at x p)"
| "value_at (JArr xs) (PIdx i # p) = (if in_range i xs then value_at (xs ! nat i) p else None)"
| "value_at v p = None"

lemma under_upd [simp]: "under e (f(e # p := c)) = (under e f)(p := c)"
  "e' \<noteq> e \<Longrightarrow> under e' (f(e # p := c)) = under e' f"
  "e \<noteq> e' \<Longrightarrow> under e' (f(e # p := c)) = under e' f"
  by (auto simp: under_def fun_eq_iff)

lemma sorted_keys_Cons [simp]:
  "sorted_keys [] = True" "sorted_keys ((k, v) # kvs) \<longleftrightarrow> (\<forall>k' \<in> fst ` set kvs. k < k') \<and> sorted_keys kvs"
  by (auto simp: sorted_keys_def)

lemma edit_fields_keys: "k \<in> fst ` set (edit_fields f kvs) \<Longrightarrow> k \<in> fst ` set kvs"
proof (induction kvs)
  case (Cons kv kvs)
  then show ?case by (cases kv) (simp split: option.splits edit.splits, blast+)
qed simp

lemma edit_fields_sorted: "sorted_keys kvs \<Longrightarrow> sorted_keys (edit_fields f kvs)"
proof (induction kvs)
  case (Cons kv kvs)
  obtain k v where kv: "kv = (k, v)" by (cases kv)
  have "k < l" if "l \<in> fst ` set (edit_fields f kvs)" for l using edit_fields_keys [OF that] Cons.prems kv by auto
  then have "\<forall>l \<in> fst ` set (edit_fields f kvs). k < l" by blast
  moreover have "sorted_keys (edit_fields f kvs)" using Cons kv by auto
  ultimately show ?case unfolding kv by (simp split: option.splits edit.splits)
qed simp

text \<open>What an edit map leaves of one field or element.\<close>

definition edit_cell :: "edits \<Rightarrow> path_elem \<Rightarrow> jval \<Rightarrow> jval option" where
  "edit_cell f e v = (case f [e] of Some Gone \<Rightarrow> None | Some (Put w) \<Rightarrow> Some w | None \<Rightarrow> Some (edited (under e f) v))"

lemma edit_fields_Cons: "edit_fields f ((k, v) # kvs) =
    (case edit_cell f (PKey k) v of None \<Rightarrow> edit_fields f kvs | Some w \<Rightarrow> (k, w) # edit_fields f kvs)"
  by (simp add: edit_cell_def split: option.splits edit.splits)

lemma edit_items_Cons: "edit_items f i (x # xs) =
    (case edit_cell f (PIdx i) x of None \<Rightarrow> JNull | Some w \<Rightarrow> w) # edit_items f (i + 1) xs"
  by (simp add: edit_cell_def split: option.splits edit.splits)

lemma edit_cell_off: "e' \<noteq> e \<Longrightarrow> edit_cell (f(e # p := c)) e' v = edit_cell f e' v"
  by (auto simp: edit_cell_def split: option.splits edit.splits)

lemma edit_fields_off:
  assumes "k \<notin> fst ` set kvs" shows "edit_fields (f(PKey k # p := c)) kvs = edit_fields f kvs"
  using assms by (induction kvs) (auto split: option.splits edit.splits)

lemma edit_items_off:
  "j < i \<Longrightarrow> edit_items (f(PIdx j # p := c)) i xs = edit_items f i xs"
  by (induction xs arbitrary: i) (auto split: option.splits edit.splits)

lemma obj_put_less: "\<forall>k' \<in> fst ` set kvs. k < k' \<Longrightarrow> obj_put k v kvs = (k, v) # kvs"
  by (cases kvs) auto

lemma obj_del_absent: "k \<notin> fst ` set kvs \<Longrightarrow> obj_del k kvs = kvs"
  by (induction kvs) (auto simp: obj_del_def)

lemma edit_fields_change:
  assumes "sorted_keys kvs" and "map_of kvs k = Some x"
  shows "edit_fields (f(PKey k # p := c)) kvs =
    (case edit_cell (f(PKey k # p := c)) (PKey k) x of
       None \<Rightarrow> obj_del k (edit_fields f kvs) | Some w \<Rightarrow> obj_put k w (edit_fields f kvs))"
  using assms
proof (induction kvs)
  case (Cons kv kvs)
  obtain k' v where kv: "kv = (k', v)" by (cases kv)
  show ?case
  proof (cases "k' = k")
    case True
    then have less: "\<forall>l \<in> fst ` set kvs. k < l" and x: "v = x" using Cons.prems kv by auto
    then have off: "k \<notin> fst ` set kvs" by auto
    have less': "\<forall>l \<in> fst ` set (edit_fields f kvs). k < l" using less edit_fields_keys [of _ f kvs] by blast
    then have off': "k \<notin> fst ` set (edit_fields f kvs)" by auto
    show ?thesis
      unfolding kv True x edit_fields_Cons edit_fields_off [OF off]
      by (cases "edit_cell f (PKey k) x")
        (auto simp: obj_put_less [OF less'] obj_del_absent [OF off'] obj_del_def [of k "(k, w) # xs" for w xs] obj_del_def [symmetric]
          split: option.splits simp del: fun_upd_apply)
  next
    case False
    have same: "edit_cell (f(PKey k # p := c)) (PKey k') v = edit_cell f (PKey k') v"
      using False by (auto simp: edit_cell_def split: option.splits edit.splits)
    have lt: "k' < k" using Cons.prems kv False by (fastforce dest: map_of_SomeD)
    then have ne: "\<not> k < k'" by simp
    have ih: "edit_fields (f(PKey k # p := c)) kvs = (case edit_cell (f(PKey k # p := c)) (PKey k) x of
       None \<Rightarrow> obj_del k (edit_fields f kvs) | Some w \<Rightarrow> obj_put k w (edit_fields f kvs))"
      using Cons.prems False kv by (intro Cons.IH) auto
    show ?thesis
      unfolding kv edit_fields_Cons same ih using False lt ne
      by (cases "edit_cell f (PKey k') v"; cases "edit_cell (f(PKey k # p := c)) (PKey k) x")
        (simp_all add: obj_del_def del: fun_upd_apply)
  qed
qed simp

lemma edit_items_change:
  assumes "i \<le> j" "j < i + int (length xs)"
  shows "edit_items (f(PIdx j # p := c)) i xs =
    (edit_items f i xs)[nat (j - i) := (case edit_cell (f(PIdx j # p := c)) (PIdx j) (xs ! nat (j - i)) of None \<Rightarrow> JNull | Some w \<Rightarrow> w)]"
  using assms
proof (induction xs arbitrary: i)
  case (Cons x xs)
  show ?case
  proof (cases "i = j")
    case True
    then show ?thesis unfolding edit_items_Cons by (simp add: edit_items_off del: fun_upd_apply)
  next
    case False
    have same: "edit_cell (f(PIdx j # p := c)) (PIdx i) x = edit_cell f (PIdx i) x"
      using False by (auto simp: edit_cell_def split: option.splits edit.splits)
    have n: "nat (j - i) = Suc (nat (j - (i + 1)))" using Cons.prems False by simp
    show ?thesis using Cons.IH [of "i + 1"] Cons.prems False unfolding edit_items_Cons same n by (simp del: fun_upd_apply)
  qed
qed simp

lemma edit_items_length [simp]: "length (edit_items f i xs) = length xs"
  by (induction xs arbitrary: i) auto

lemma edit_items_nth: "n < length xs \<Longrightarrow> edit_items f i xs ! n =
    (case edit_cell f (PIdx (i + int n)) (xs ! n) of None \<Rightarrow> JNull | Some w \<Rightarrow> w)"
proof (induction xs arbitrary: i n)
  case (Cons x xs)
  then show ?case unfolding edit_items_Cons by (cases n) (simp_all add: add.assoc)
qed simp

lemma edit_fields_lookup:
  "sorted_keys kvs \<Longrightarrow> map_of (edit_fields f kvs) k = Option.bind (map_of kvs k) (edit_cell f (PKey k))"
proof (induction kvs)
  case (Cons kv kvs)
  obtain k' v where kv: "kv = (k', v)" by (cases kv)
  have "k' \<notin> fst ` set (edit_fields f kvs)" using edit_fields_keys [of k' f kvs] Cons.prems kv by fastforce
  then have none: "map_of (edit_fields f kvs) k' = None" by (simp add: map_of_eq_None_iff)
  have ih: "map_of (edit_fields f kvs) k = Option.bind (map_of kvs k) (edit_cell f (PKey k))" using Cons kv by simp
  show ?case unfolding kv edit_fields_Cons using none ih by (cases "edit_cell f (PKey k') v") auto
qed simp

text \<open>No edit is above a place.\<close>

fun clear :: "edits \<Rightarrow> path \<Rightarrow> bool" where
  "clear f (e # e' # p) = (f [e] = None \<and> clear (under e f) (e' # p))"
| "clear f [] = True"
| "clear f [e] = True"

lemma clear_iff: "clear f p \<longleftrightarrow> (\<forall>q r. p = q @ r \<longrightarrow> q \<noteq> [] \<longrightarrow> r \<noteq> [] \<longrightarrow> f q = None)"
proof (induction f p rule: clear.induct)
  case (1 f e e' p)
  have "(f [e] = None \<and> (\<forall>q r. e' # p = q @ r \<longrightarrow> q \<noteq> [] \<longrightarrow> r \<noteq> [] \<longrightarrow> f (e # q) = None)) \<longleftrightarrow>
      (\<forall>q r. e # e' # p = q @ r \<longrightarrow> q \<noteq> [] \<longrightarrow> r \<noteq> [] \<longrightarrow> f q = None)" (is "?L \<longleftrightarrow> ?R")
  proof
    assume L: ?L
    show ?R
    proof (intro allI impI)
      fix q r assume q: "e # e' # p = q @ r" "q \<noteq> []" "r \<noteq> []"
      then show "f q = None" using L by (cases q; cases "tl q") auto
    qed
  next
    assume R: ?R
    then show ?L by (metis append_Cons append_Nil list.distinct(1))
  qed
  then show ?case unfolding clear.simps 1 under_def .
next
  case (3 f e)
  then show ?case by (auto simp: Cons_eq_append_conv)
qed simp

text \<open>One field or element of a container, set or removed.\<close>

fun set_cell :: "path_elem \<Rightarrow> jval option \<Rightarrow> jval \<Rightarrow> jval" where
  "set_cell (PKey k) c (JObj kvs) = JObj (case c of None \<Rightarrow> obj_del k kvs | Some w \<Rightarrow> obj_put k w kvs)"
| "set_cell (PIdx i) c (JArr xs) = JArr (xs[nat i := (case c of None \<Rightarrow> JNull | Some w \<Rightarrow> w)])"
| "set_cell _ _ v = v"

lemma value_at_cases [consumes 1, case_names field item]:
  assumes "value_at v [e] = Some x"
  obtains kvs k where "v = JObj kvs" "e = PKey k" "map_of kvs k = Some x"
    | xs i where "v = JArr xs" "e = PIdx i" "in_range i xs" "x = xs ! nat i"
  using assms by (cases v; cases e) (auto split: option.splits if_splits)

lemma value_at_Cons: "value_at v (e # p) = Option.bind (value_at v [e]) (\<lambda>x. value_at x p)"
  by (cases v; cases e) (auto split: option.splits)

lemma wf_val_at: "wf_val v \<Longrightarrow> value_at v [e] = Some x \<Longrightarrow> wf_val x"
  by (erule value_at_cases) (auto simp: list_all_iff in_range_def dest: map_of_SomeD)

lemma edited_change:
  assumes "wf_val v" "value_at v [e] = Some x"
  shows "edited (f(e # p := c)) v = set_cell e (edit_cell (f(e # p := c)) e x) (edited f v)"
  using assms(2)
proof (cases rule: value_at_cases)
  case (field kvs k)
  then show ?thesis using assms(1) edit_fields_change [OF _ field(3), of f p c]
    by (simp del: fun_upd_apply split: option.splits)
next
  case (item xs i)
  then show ?thesis using edit_items_change [of 0 i xs f p c] by (simp add: in_range_def del: fun_upd_apply)
qed

lemma edited_at:
  assumes "wf_val v" "value_at v [e] = Some x" "edit_cell f e x = Some y"
  shows "value_at (edited f v) [e] = Some y"
  using assms(2)
proof (cases rule: value_at_cases)
  case (field kvs k)
  then show ?thesis using assms(1,3) by (simp add: edit_fields_lookup)
next
  case (item xs i)
  then have "nat i < length xs" "0 \<le> i" by (auto simp: in_range_def)
  then show ?thesis using item assms(3) by (simp add: in_range_def edit_items_nth)
qed

lemma Place_step: "value_at v [e] = Some x \<Longrightarrow>
    Place v (e # e' # p) w = (case Place x (e' # p) w of (x', ok) \<Rightarrow> (set_cell e (Some x') v, ok))"
  by (erule value_at_cases) auto

lemma removeAt_step: "value_at v [e] = Some x \<Longrightarrow> removeAt v (e # e' # p) = set_cell e (Some (removeAt x (e' # p))) v"
  by (erule value_at_cases) auto

lemma last_step:
  assumes "value_at v [e] = Some x"
  shows "Place (edited f v) [e] w = (set_cell e (Some w) (edited f v), True)"
    "removeAt (edited f v) [e] = set_cell e None (edited f v)"
  using assms by (cases rule: value_at_cases; simp add: in_range_def)+

lemma Place_edited:
  assumes "wf_val v" "value_at v p \<noteq> None" "p \<noteq> []" "clear f p"
  shows "Place (edited f v) p w = (edited (f(p := Some (Put w))) v, True)"
  using assms
proof (induction f p arbitrary: v rule: clear.induct)
  case (1 f e e' p)
  then obtain x where x: "value_at v [e] = Some x" "value_at x (e' # p) \<noteq> None"
    unfolding value_at_Cons [of v e "e' # p"] by (cases "value_at v [e]") auto
  let ?g = "f(e # e' # p := Some (Put w))"
  have cell: "edit_cell f e x = Some (edited (under e f) x)"
    "edit_cell ?g e x = Some (edited ((under e f)(e' # p := Some (Put w))) x)"
    using 1(5) by (simp_all add: edit_cell_def)
  have ih: "Place (edited (under e f) x) (e' # p) w = (edited ((under e f)(e' # p := Some (Put w))) x, True)"
    using 1(1) [OF wf_val_at [OF 1(2) x(1)] x(2)] 1(5) by (simp del: fun_upd_apply)
  show ?case
    unfolding Place_step [OF edited_at [OF 1(2) x(1) cell(1)]] ih edited_change [OF 1(2) x(1), of f "e' # p" "Some (Put w)"] cell(2)
    by simp
next
  case (3 f e)
  then obtain x where x: "value_at v [e] = Some x" by auto
  have "edit_cell (f([e] := Some (Put w))) e x = Some w" by (simp add: edit_cell_def)
  then show ?case using last_step(1) [OF x] edited_change [OF 3(1) x, of f "[]" "Some (Put w)"] by (simp del: fun_upd_apply)
qed simp

lemma removeAt_edited:
  assumes "wf_val v" "value_at v p \<noteq> None" "p \<noteq> []" "clear f p"
  shows "removeAt (edited f v) p = edited (f(p := Some Gone)) v"
  using assms
proof (induction f p arbitrary: v rule: clear.induct)
  case (1 f e e' p)
  then obtain x where x: "value_at v [e] = Some x" "value_at x (e' # p) \<noteq> None"
    unfolding value_at_Cons [of v e "e' # p"] by (cases "value_at v [e]") auto
  let ?g = "f(e # e' # p := Some Gone)"
  have cell: "edit_cell f e x = Some (edited (under e f) x)"
    "edit_cell ?g e x = Some (edited ((under e f)(e' # p := Some Gone)) x)"
    using 1(5) by (simp_all add: edit_cell_def)
  have ih: "removeAt (edited (under e f) x) (e' # p) = edited ((under e f)(e' # p := Some Gone)) x"
    using 1(1) [OF wf_val_at [OF 1(2) x(1)] x(2)] 1(5) by (simp del: fun_upd_apply)
  show ?case
    unfolding removeAt_step [OF edited_at [OF 1(2) x(1) cell(1)]] ih edited_change [OF 1(2) x(1), of f "e' # p" "Some Gone"] cell(2) ..
next
  case (3 f e)
  then obtain x where x: "value_at v [e] = Some x" by auto
  have "edit_cell (f([e] := Some Gone)) e x = None" by (simp add: edit_cell_def)
  then show ?case using last_step(2) [OF x] edited_change [OF 3(1) x, of f "[]" "Some Gone"] by (simp del: fun_upd_apply)
qed simp

subsection \<open>Extract and Place are inverse\<close>

lemma edited_same:
  assumes "wf_val v" "\<And>p c. p \<noteq> [] \<Longrightarrow> f p = Some c \<Longrightarrow> \<exists>w. c = Put w \<and> value_at v p = Some w"
  shows "edited f v = v"
  using assms
proof (induction v arbitrary: f)
  case (JArr xs)
  have "edit_items f 0 xs ! n = xs ! n" if n: "n < length xs" for n
  proof (cases "f [PIdx (int n)]")
    case None
    have "edited (under (PIdx (int n)) f) (xs ! n) = xs ! n"
      using JArr.prems n by (intro JArr.IH) (fastforce simp: list_all_length under_def in_range_def)+
    then show ?thesis using n None by (simp add: edit_items_nth edit_cell_def)
  next
    case (Some c)
    then show ?thesis using JArr.prems(2) [of "[PIdx (int n)]" c] n by (auto simp: edit_items_nth edit_cell_def in_range_def)
  qed
  then show ?case by (auto intro: nth_equalityI)
next
  case (JObj kvs)
  have cell: "edit_cell f (PKey k) x = Some x" if kx: "(k, x) \<in> set kvs" for k x
  proof (cases "f [PKey k]")
    case None
    have m: "map_of kvs k = Some x" using JObj.prems(1) kx
      by (auto simp: sorted_keys_def strict_sorted_iff intro!: map_of_is_SomeI)
    have "edited (under (PKey k) f) x = x"
      using JObj.prems kx m by (intro JObj.IH [of "(k, x)"]) (fastforce simp: list_all_iff under_def)+
    then show ?thesis using None by (simp add: edit_cell_def)
  next
    case (Some c)
    have m: "map_of kvs k = Some x" using JObj.prems(1) kx
      by (auto simp: sorted_keys_def strict_sorted_iff intro!: map_of_is_SomeI)
    then show ?thesis using JObj.prems(2) [of "[PKey k]" c] Some by (auto simp: edit_cell_def)
  qed
  have "edit_fields f kvs = kvs" if "\<forall>(k, x) \<in> set kvs. edit_cell f (PKey k) x = Some x" for kvs
    using that
  proof (induction kvs)
    case (Cons kv kvs)
    then show ?case by (cases kv) (simp add: edit_fields_Cons del: edit_fields.simps)
  qed simp
  then show ?case using cell by auto
qed simp_all

definition nulls :: "jval \<Rightarrow> edits" where
  "nulls v p = (case value_at v p of Some (JRef _ _) \<Rightarrow> Some (Put JNull) | _ \<Rightarrow> None)"

lemma lookup_distinct: "sorted_keys kvs \<Longrightarrow> (k, x) \<in> set kvs \<Longrightarrow> map_of kvs k = Some x"
  by (auto simp: sorted_keys_def strict_sorted_iff intro!: map_of_is_SomeI)

lemma Extract_value:
  "wf_val v \<Longrightarrow> (\<And>p. p \<noteq> [] \<Longrightarrow> f p = nulls v p) \<Longrightarrow>
     fst (Extract v at) = (case v of JRef _ _ \<Rightarrow> JNull | _ \<Rightarrow> edited f v)"
  "list_all (\<lambda>(_, v). wf_val v) kvs \<Longrightarrow> (\<And>k x p. (k, x) \<in> set kvs \<Longrightarrow> f (PKey k # p) = nulls x p) \<Longrightarrow>
     fst (Extract_fields kvs at) = edit_fields f kvs"
  "list_all wf_val xs \<Longrightarrow> (\<And>j p. j < length xs \<Longrightarrow> f (PIdx (i + int j) # p) = nulls (xs ! j) p) \<Longrightarrow>
     fst (Extract_items xs i at) = edit_items f i xs"
proof (induction v at and kvs at and xs i at arbitrary: f and f and f rule: Extract_Extract_fields_Extract_items.induct)
  case (2 kvs at)
  have "fst (Extract_fields kvs at) = edit_fields f kvs"
    using 2(2) by (intro 2(1)) (auto simp: 2(3) nulls_def lookup_distinct)
  then show ?case by (simp add: case_prod_beta)
next
  case (3 xs at)
  have "fst (Extract_items xs 0 at) = edit_items f 0 xs"
    using 3(2) by (intro 3(1)) (auto simp: 3(3) nulls_def in_range_def)
  then show ?case by (simp add: case_prod_beta)
next
  case (6 k v kvs at)
  have k: "f [PKey k] = nulls v []" using 6(4) by simp
  have v: "fst (Extract v (at @ [PKey k])) = (case v of JRef _ _ \<Rightarrow> JNull | _ \<Rightarrow> edited (under (PKey k) f) v)"
    using 6(3,4) by (intro 6(1)) (auto simp: under_def)
  have "fst (Extract_fields kvs at) = edit_fields f kvs" using 6(3,4) by (intro 6(2) [OF prod.collapse]) auto
  then show ?case using v k by (cases v) (simp_all add: case_prod_beta nulls_def)
next
  case (8 x xs i at)
  have k: "f [PIdx i] = nulls x []" using 8(4) [of 0 "[]"] by simp
  have x: "fst (Extract x (at @ [PIdx i])) = (case x of JRef _ _ \<Rightarrow> JNull | _ \<Rightarrow> edited (under (PIdx i) f) x)"
    using 8(3) 8(4) [of 0] by (intro 8(1)) (auto simp: under_def)
  have "f (PIdx (i + 1 + int j) # p) = nulls (xs ! j) p" if "j < length xs" for j p
    using 8(4) [of "Suc j" p] that by (simp add: add.assoc)
  then have "fst (Extract_items xs (i + 1) at) = edit_items f (i + 1) xs" using 8(3) by (intro 8(2) [OF prod.collapse]) auto
  then show ?case using x k by (cases x) (simp_all add: case_prod_beta nulls_def)
qed simp_all

definition ref_places :: "jval \<Rightarrow> path \<Rightarrow> objref set" where
  "ref_places v at = {\<lparr>ref_hash = h, ref_size = n, ref_path = at @ p\<rparr> |h n p. value_at v p = Some (JRef h n)}"

lemma Extract_refs:
  "wf_val v \<Longrightarrow> set (snd (Extract v at)) = ref_places v at"
  "list_all (\<lambda>(_, v). wf_val v) kvs \<Longrightarrow> set (snd (Extract_fields kvs at)) = (\<Union>(k, v) \<in> set kvs. ref_places v (at @ [PKey k]))"
  "list_all wf_val xs \<Longrightarrow> set (snd (Extract_items xs i at)) = (\<Union>j < length xs. ref_places (xs ! j) (at @ [PIdx (i + int j)]))"
proof (induction v at and kvs at and xs i at rule: Extract_Extract_fields_Extract_items.induct)
  case (1 h n at)
  have "value_at (JRef h n) p = Some (JRef h' n') \<longleftrightarrow> p = [] \<and> h' = h \<and> n' = n" for p h' n' by (cases p) auto
  then show ?case by (auto simp: ref_places_def)
next
  case (2 kvs at)
  have "value_at (JObj kvs) p = Some (JRef h n) \<longleftrightarrow> (\<exists>k v q. (k, v) \<in> set kvs \<and> p = PKey k # q \<and> value_at v q = Some (JRef h n))" for p h n
    using 2(2) lookup_distinct by (cases p; cases "hd p") (fastforce split: option.splits dest: map_of_SomeD)+
  then have "ref_places (JObj kvs) at = (\<Union>(k, v) \<in> set kvs. ref_places v (at @ [PKey k]))"
    unfolding ref_places_def by fastforce
  moreover have "set (snd (Extract_fields kvs at)) = (\<Union>(k, v) \<in> set kvs. ref_places v (at @ [PKey k]))"
    using 2(2) by (intro 2(1)) simp
  ultimately show ?case by (simp add: case_prod_beta)
next
  case (3 xs at)
  have "value_at (JArr xs) p = Some (JRef h n) \<longleftrightarrow> (\<exists>j q. j < length xs \<and> p = PIdx (int j) # q \<and> value_at (xs ! j) q = Some (JRef h n))" for p h n
  proof (cases p)
    case (Cons e q)
    then show ?thesis by (cases e) (auto simp: in_range_def intro!: exI [of _ "nat (case e of PIdx i \<Rightarrow> i)"])
  qed simp
  then have "ref_places (JArr xs) at = (\<Union>j < length xs. ref_places (xs ! j) (at @ [PIdx (int j)]))"
    unfolding ref_places_def by fastforce
  then show ?case using 3 by (simp add: case_prod_beta)
next
  case (8 x xs i at)
  have "(\<Union>j < length (x # xs). ref_places ((x # xs) ! j) (at @ [PIdx (i + int j)])) =
      ref_places x (at @ [PIdx i]) \<union> (\<Union>j < length xs. ref_places (xs ! j) (at @ [PIdx (i + 1 + int j)]))"
    by (simp add: lessThan_Suc_eq_insert_0 image_image add.assoc)
  moreover have "set (snd (Extract_items xs (i + 1) at)) = (\<Union>j < length xs. ref_places (xs ! j) (at @ [PIdx (i + 1 + int j)]))"
    using 8(3) by (intro 8(2) [OF prod.collapse]) simp
  ultimately show ?case using 8(1,3) by (simp add: case_prod_beta)
next
  case (6 k v kvs at)
  have "set (snd (Extract_fields kvs at)) = (\<Union>(k, v) \<in> set kvs. ref_places v (at @ [PKey k]))"
    using 6(3) by (intro 6(2) [OF prod.collapse]) simp
  then show ?case using 6(1,3) by (simp add: case_prod_beta)
qed (auto simp: ref_places_def elim: value_at.elims)

text \<open>Placing a list of values at places none of which is above another.\<close>

definition place_all :: "(path \<times> jval) list \<Rightarrow> jval \<Rightarrow> jval" where
  "place_all ps v = fold (\<lambda>(p, w) x. fst (Place x p w)) ps v"

definition put_all :: "(path \<times> jval) list \<Rightarrow> edits \<Rightarrow> edits" where
  "put_all ps f = fold (\<lambda>(p, w) f. f(p := Some (Put w))) ps f"

definition spread :: "path set \<Rightarrow> bool" where
  "spread P \<longleftrightarrow> (\<forall>p \<in> P. \<forall>q r. p = q @ r \<longrightarrow> r \<noteq> [] \<longrightarrow> q \<notin> P)"

lemma put_all_other: "p \<notin> fst ` set ps \<Longrightarrow> put_all ps f p = f p"
  by (induction ps arbitrary: f) (auto simp: put_all_def)

lemma put_all_in:
  "p \<in> fst ` set ps \<Longrightarrow> \<exists>w. (p, w) \<in> set ps \<and> put_all ps f p = Some (Put w)"
proof (induction ps arbitrary: f)
  case (Cons x ps)
  obtain q w where x: "x = (q, w)" by (cases x)
  show ?case
  proof (cases "p \<in> fst ` set ps")
    case True
    then obtain u where "(p, u) \<in> set ps" "put_all ps (f(q := Some (Put w))) p = Some (Put u)"
      using Cons.IH [OF True] by blast
    then show ?thesis unfolding x put_all_def by (intro exI [of _ u]) simp
  next
    case False
    then have "p = q" using Cons.prems x by auto
    then show ?thesis using put_all_other [OF False, of "f(q := Some (Put w))"] unfolding x put_all_def by (intro exI [of _ w]) simp
  qed
qed simp

lemma place_all_edited:
  assumes "wf_val v" "\<And>p. p \<in> fst ` set ps \<Longrightarrow> p \<noteq> [] \<and> value_at v p \<noteq> None \<and> clear f p" "spread (fst ` set ps)"
  shows "place_all ps (edited f v) = edited (put_all ps f) v"
  using assms(2,3)
proof (induction ps arbitrary: f)
  case (Cons x ps)
  obtain q w where x: "x = (q, w)" by (cases x)
  have q: "q \<noteq> []" "value_at v q \<noteq> None" "clear f q" using Cons.prems(1) [of q] x by auto
  have "clear (f(q := Some (Put w))) p" if p: "p \<in> fst ` set ps" for p
  proof -
    have "clear f p" using Cons.prems(1) [of p] p by auto
    moreover have "p \<noteq> q @ r" if "r \<noteq> []" for r
      using Cons.prems(2) p that unfolding spread_def x by (metis fst_conv image_insert insertCI list.simps(15))
    ultimately show ?thesis by (auto simp: clear_iff)
  qed
  moreover have "spread (fst ` set ps)" using Cons.prems(2) by (auto simp: spread_def)
  ultimately have "place_all ps (edited (f(q := Some (Put w))) v) = edited (put_all ps (f(q := Some (Put w)))) v"
    using Cons.prems(1) by (intro Cons.IH conjI) (simp_all del: fun_upd_apply)
  then show ?case using Place_edited [OF assms(1) q(2,1,3), of w] x by (simp add: place_all_def put_all_def)
qed (simp add: place_all_def put_all_def)

lemma value_at_append: "value_at v (p @ q) = Option.bind (value_at v p) (\<lambda>x. value_at x q)"
proof (induction p arbitrary: v)
  case (Cons e p)
  show ?case unfolding append_Cons value_at_Cons [of v e "p @ q"] value_at_Cons [of v e p]
    by (cases "value_at v [e]") (simp_all add: Cons.IH)
qed simp

lemma ref_spread: "spread {p. \<exists>h n. value_at v p = Some (JRef h n)}"
  unfolding spread_def by (auto simp: value_at_append neq_Nil_conv)

definition restore :: "objref list \<Rightarrow> jval \<Rightarrow> jval" where
  "restore rs v = place_all (map (\<lambda>r. (ref_path r, JRef (ref_hash r) (ref_size r))) rs) v"

text \<open>
  Extracting the markers of a value and placing them back, in any order, gives the value: each
  reference the extraction reports names the one place its marker came from, in nested maps and
  arrays alike, and nothing else moves.
\<close>

theorem extract_place_roundtrip:
  assumes "wf_val v" and "\<nexists>h n. v = JRef h n" and "set rs = set (snd (Extract v []))"
  shows "restore rs (fst (Extract v [])) = v"
proof -
  let ?ps = "map (\<lambda>r. (ref_path r, JRef (ref_hash r) (ref_size r))) rs"
  have rs: "set rs = ref_places v []" using assms(3) Extract_refs(1) [OF assms(1)] by simp
  have v': "fst (Extract v []) = edited (nulls v) v"
    using Extract_value(1) [OF assms(1) refl, of "[]"] assms(2) by (cases v) auto
  have mem: "value_at v p = Some w \<and> (\<exists>h n. w = JRef h n)" if "(p, w) \<in> set ?ps" for p w
    using that rs by (auto simp: ref_places_def)
  have dom: "fst ` set ?ps = {p. \<exists>h n. value_at v p = Some (JRef h n)}"
    using rs by (force simp: ref_places_def)
  have "clear (nulls v) p" if "p \<in> fst ` set ?ps" for p
    using that dom ref_spread [of v] unfolding clear_iff spread_def nulls_def
    by (simp split: option.splits jval.splits) blast
  then have "place_all ?ps (edited (nulls v) v) = edited (put_all ?ps (nulls v)) v"
    using mem assms(2) dom by (intro place_all_edited [OF assms(1)]) (auto simp: ref_spread)
  also have "\<dots> = v"
  proof (rule edited_same [OF assms(1)])
    fix p c assume c: "put_all ?ps (nulls v) p = Some c"
    show "\<exists>w. c = Put w \<and> value_at v p = Some w"
    proof (cases "p \<in> fst ` set ?ps")
      case True
      then show ?thesis using put_all_in [OF True, of "nulls v"] c mem by auto
    next
      case False
      then show ?thesis using put_all_other [OF False, of "nulls v"] c dom by (auto simp: nulls_def split: option.splits jval.splits)
    qed
  qed
  finally show ?thesis unfolding restore_def v' .
qed

theorem extract_place_roundtrip_witness:
  "restore (rev (snd (Extract (JObj [(''a'', JArr [JStr ''x'', JRef ''h'' 3]), (''b'', JRef ''g'' 4)]) [])))
     (fst (Extract (JObj [(''a'', JArr [JStr ''x'', JRef ''h'' 3]), (''b'', JRef ''g'' 4)]) [])) =
   JObj [(''a'', JArr [JStr ''x'', JRef ''h'' 3]), (''b'', JRef ''g'' 4)]"
  by (rule extract_place_roundtrip) (simp_all add: less_char_def insert_commute)

end
