(* ===== verification/Json.thy ===== *)
theory Json
  imports Values
begin

text \<open>
  What the sources use of Go's \<open>encoding/json\<close> to store values: \<open>json.Marshal\<close> of a dynamic value, and
  \<open>numeric.Decode\<close> (\<open>internal/numeric/numeric.go\<close>), a decoder that keeps numbers as their text, on
  the text that \<open>Marshal\<close> writes. Strings are bytes of valid UTF-8; the decoder is given no blanks and
  no escapes that \<open>Marshal\<close> does not write.
\<close>

subsection \<open>Numbers\<close>

definition skip_digits :: "string \<Rightarrow> string" where
  "skip_digits s = dropWhile is_digit s"

text \<open>\<open>isValidNumber\<close>: an integer part without leading zeros, then a fraction, then an exponent.\<close>

definition number_int :: "string \<Rightarrow> string option" where
  "number_int s =
     (let s1 = (case s of c # cs \<Rightarrow> if c = CHR ''-'' then cs else s | [] \<Rightarrow> [])
      in case s1 of
           [] \<Rightarrow> None
         | c # cs \<Rightarrow> if c = CHR ''0'' then Some cs else if is_digit c then Some (skip_digits cs) else None)"

definition number_frac :: "string \<Rightarrow> string" where
  "number_frac s =
     (case s of c # d # cs \<Rightarrow> if c = CHR ''.'' \<and> is_digit d then skip_digits cs else s | _ \<Rightarrow> s)"

definition number_exp :: "string \<Rightarrow> string option" where
  "number_exp s =
     (case s of
        c # d # cs \<Rightarrow>
          if c = CHR ''e'' \<or> c = CHR ''E'' then
            (let t = (if d = CHR ''+'' \<or> d = CHR ''-'' then cs else d # cs) in
             if t = [] then None else Some (skip_digits t))
          else Some s
      | _ \<Rightarrow> Some s)"

definition valid_number :: "string \<Rightarrow> bool" where
  "valid_number s =
     (case number_int s of
        None \<Rightarrow> False
      | Some s1 \<Rightarrow> number_exp (number_frac s1) = Some [])"

definition num_char :: "char \<Rightarrow> bool" where
  "num_char c \<longleftrightarrow> is_digit c \<or> c \<in> {CHR ''-'', CHR ''+'', CHR ''.'', CHR ''e'', CHR ''E''}"

subsection \<open>Marshal\<close>

definition hex_digit :: "nat \<Rightarrow> char" where
  "hex_digit n = (if n < 10 then char_of (48 + n) else char_of (87 + n))"

definition control_escape :: "nat \<Rightarrow> string" where
  "control_escape n = CHR 0x5C # ''u00'' @ [hex_digit (n div 16), hex_digit (n mod 16)]"

definition escape :: "char \<Rightarrow> string" where
  "escape c =
     (let n = of_char c :: nat in
      if c = CHR 0x22 \<or> c = CHR 0x5C then [CHR 0x5C, c]
      else if n = 8 then CHR 0x5C # ''b'' else if n = 12 then CHR 0x5C # ''f'' else if n = 10 then CHR 0x5C # ''n''
      else if n = 13 then CHR 0x5C # ''r'' else if n = 9 then CHR 0x5C # ''t''
      else if n < 32 \<or> c = CHR ''<'' \<or> c = CHR ''>'' \<or> c = CHR ''&'' then control_escape n
      else [c])"

text \<open>The two line separators U+2028 and U+2029, three bytes of UTF-8, are escaped too.\<close>

definition line_separator :: "string \<Rightarrow> string option" where
  "line_separator s =
     (if take 3 s = [CHR 0xE2, CHR 0x80, CHR 0xA8] then Some (CHR 0x5C # ''u2028'')
      else if take 3 s = [CHR 0xE2, CHR 0x80, CHR 0xA9] then Some (CHR 0x5C # ''u2029'') else None)"

function escaped :: "string \<Rightarrow> string" where
  "escaped [] = []"
| "escaped (c # cs) =
     (case line_separator (c # cs) of
        Some e \<Rightarrow> e @ escaped (drop 2 cs)
      | None \<Rightarrow> escape c @ escaped cs)"
  by pat_completeness auto
termination
  by (relation "measure length") auto

definition quoted :: "string \<Rightarrow> string" where
  "quoted s = CHR 0x22 # escaped s @ [CHR 0x22]"

fun joined :: "string list \<Rightarrow> string" where
  "joined [] = []"
| "joined [x] = x"
| "joined (x # xs) = x @ CHR '','' # joined xs"

fun text_of :: "jval \<Rightarrow> string" where
  "text_of JNull = ''null''"
| "text_of (JBool b) = (if b then ''true'' else ''false'')"
| "text_of (JNumber s) = (if s = [] then ''0'' else s)"
| "text_of (JInt i) = itoa i"
| "text_of (JStr s) = quoted s"
| "text_of (JArr xs) = CHR ''['' # joined (map text_of xs) @ '']''"
| "text_of (JObj kvs) = CHR ''{'' # joined (map (\<lambda>(k, v). quoted k @ CHR '':'' # text_of v) kvs) @ ''}''"
| "text_of (JRef h n) = ''{'' @ quoted ''ref'' @ '':'' @ quoted h @ '','' @ quoted ''size'' @ '':'' @ itoa n @ ''}''"

text \<open>\<open>Marshal\<close> fails on a number whose text is not one.\<close>

fun encodable :: "jval \<Rightarrow> bool" where
  "encodable (JNumber s) = (s = [] \<or> valid_number s)"
| "encodable (JArr xs) = list_all encodable xs"
| "encodable (JObj kvs) = list_all (\<lambda>(_, v). encodable v) kvs"
| "encodable _ = True"

definition Marshal :: "jval \<Rightarrow> string option" where
  "Marshal v = (if encodable v then Some (text_of v) else None)"

subsection \<open>Decode\<close>

definition hex_val :: "char \<Rightarrow> nat option" where
  "hex_val c = (let n = of_char c in
     if 48 \<le> n \<and> n \<le> 57 then Some (n - 48)
     else if 97 \<le> n \<and> n \<le> 102 then Some (n - 87)
     else if 65 \<le> n \<and> n \<le> 70 then Some (n - 55) else None)"

text \<open>The UTF-8 bytes of a code point of at most three bytes.\<close>

definition utf8 :: "nat \<Rightarrow> string" where
  "utf8 n =
     (if n < 128 then [char_of n]
      else if n < 2048 then [char_of (192 + n div 64), char_of (128 + n mod 64)]
      else [char_of (224 + n div 4096), char_of (128 + n div 64 mod 64), char_of (128 + n mod 64)])"

definition unescape :: "string \<Rightarrow> (string \<times> string) option" where
  "unescape s =
     (case s of
        [] \<Rightarrow> None
      | c # cs \<Rightarrow>
          if c = CHR 0x22 \<or> c = CHR 0x5C \<or> c = CHR ''/'' then Some ([c], cs)
          else if c = CHR ''b'' then Some ([char_of (8 :: nat)], cs)
          else if c = CHR ''f'' then Some ([char_of (12 :: nat)], cs)
          else if c = CHR ''n'' then Some ([char_of (10 :: nat)], cs)
          else if c = CHR ''r'' then Some ([char_of (13 :: nat)], cs)
          else if c = CHR ''t'' then Some ([char_of (9 :: nat)], cs)
          else if c = CHR ''u'' then
            (case cs of
               a # b # d # e # rest \<Rightarrow>
                 (case (hex_val a, hex_val b, hex_val d, hex_val e) of
                    (Some a, Some b, Some d, Some e) \<Rightarrow> Some (utf8 (((a * 16 + b) * 16 + d) * 16 + e), rest)
                  | _ \<Rightarrow> None)
             | _ \<Rightarrow> None)
          else None)"

lemma unescape_shorter: "unescape s = Some (u, r) \<Longrightarrow> length r < length s"
  by (auto simp: unescape_def split: list.splits if_splits option.splits)

function unquoted :: "string \<Rightarrow> (string \<times> string) option" where
  "unquoted [] = None"
| "unquoted (c # cs) =
     (if c = CHR 0x22 then Some ([], cs)
      else if c = CHR 0x5C then
        (case unescape cs of
           None \<Rightarrow> None
         | Some (u, r) \<Rightarrow> (case unquoted r of None \<Rightarrow> None | Some (t, r') \<Rightarrow> Some (u @ t, r')))
      else if of_char c < (32 :: nat) then None
      else (case unquoted cs of None \<Rightarrow> None | Some (t, r) \<Rightarrow> Some (c # t, r)))"
  by pat_completeness auto
termination
  by (relation "measure length") (auto dest: unescape_shorter)

text \<open>One unit of fuel per nested call; a call consumes at least one byte.\<close>

fun read_val :: "nat \<Rightarrow> string \<Rightarrow> (jval \<times> string) option"
  and read_items :: "nat \<Rightarrow> string \<Rightarrow> (jval list \<times> string) option"
  and read_fields :: "nat \<Rightarrow> string \<Rightarrow> ((string \<times> jval) list \<times> string) option" where
  "read_val 0 s = None"
| "read_val (Suc n) s =
     (if take 4 s = ''null'' then Some (JNull, drop 4 s)
      else if take 4 s = ''true'' then Some (JBool True, drop 4 s)
      else if take 5 s = ''false'' then Some (JBool False, drop 5 s)
      else case s of
        [] \<Rightarrow> None
      | c # cs \<Rightarrow>
          if c = CHR 0x22 then map_option (\<lambda>(t, r). (JStr t, r)) (unquoted cs)
          else if c = CHR ''['' then
            (if take 1 cs = '']'' then Some (JArr [], drop 1 cs)
             else map_option (\<lambda>(xs, r). (JArr xs, r)) (read_items n cs))
          else if c = CHR ''{'' then
            (if take 1 cs = ''}'' then Some (JObj [], drop 1 cs)
             else map_option (\<lambda>(kvs, r). (JObj (fold (\<lambda>(k, v). obj_put k v) kvs []), r)) (read_fields n cs))
          else if valid_number (takeWhile num_char s) then Some (JNumber (takeWhile num_char s), dropWhile num_char s)
          else None)"
| "read_items 0 s = None"
| "read_items (Suc n) s =
     (case read_val n s of
        Some (x, c # r) \<Rightarrow>
          if c = CHR '']'' then Some ([x], r)
          else if c = CHR '','' then map_option (\<lambda>(xs, r). (x # xs, r)) (read_items n r)
          else None
      | _ \<Rightarrow> None)"
| "read_fields 0 s = None"
| "read_fields (Suc n) s =
     (case s of
        [] \<Rightarrow> None
      | q # s1 \<Rightarrow>
          if q \<noteq> CHR 0x22 then None
          else (case unquoted s1 of
            Some (k, co # s2) \<Rightarrow>
              if co \<noteq> CHR '':'' then None
              else (case read_val n s2 of
                Some (x, c # r) \<Rightarrow>
                  if c = CHR ''}'' then Some ([(k, x)], r)
                  else if c = CHR '','' then map_option (\<lambda>(kvs, r). ((k, x) # kvs, r)) (read_fields n r)
                  else None
              | _ \<Rightarrow> None)
          | _ \<Rightarrow> None))"

definition Decode :: "string \<Rightarrow> jval option" where
  "Decode s = (case read_val (Suc (length s)) s of Some (v, []) \<Rightarrow> Some v | _ \<Rightarrow> None)"

subsection \<open>Strings read back\<close>

lemma hex_val_digit: "n < 16 \<Longrightarrow> hex_val (hex_digit n) = Some n"
  by (simp add: hex_val_def hex_digit_def Let_def)

lemma char_of_of_char_nat [simp]: "char_of (of_char c :: nat) = c"
  by simp

lemma hex_val_0: "hex_val (CHR ''0'') = Some 0" "hex_val (CHR ''2'') = Some 2" "hex_val (CHR ''8'') = Some 8" "hex_val (CHR ''9'') = Some 9"
  by (simp_all add: hex_val_def Let_def)

lemma separator_bytes: "char_of (226 :: nat) = CHR 0xE2" "char_of (128 :: nat) = CHR 0x80" "char_of (168 :: nat) = CHR 0xA8" "char_of (169 :: nat) = CHR 0xA9"
  by code_simp+

lemma unescape_control:
  assumes "of_char c < (128 :: nat)"
  shows "unescape (CHR ''u'' # CHR ''0'' # CHR ''0'' # hex_digit (of_char c div 16) # hex_digit (of_char c mod 16) # r) = Some ([c], r)"
proof -
  have "of_char c div 16 < (16 :: nat)" using assms by simp
  moreover have "(of_char c div 16) * 16 + of_char c mod 16 = (of_char c :: nat)" by simp
  ultimately show ?thesis using assms by (simp add: unescape_def hex_val_0 hex_val_digit utf8_def)
qed

lemma unquoted_escape: "unquoted (escape c @ r) = (case unquoted r of None \<Rightarrow> None | Some (t, r') \<Rightarrow> Some (c # t, r'))"
proof -
  let ?n = "of_char c :: nat"
  have short: "unescape (CHR ''b'' # r) = Some ([char_of (8 :: nat)], r)" "unescape (CHR ''f'' # r) = Some ([char_of (12 :: nat)], r)"
    "unescape (CHR ''n'' # r) = Some ([char_of (10 :: nat)], r)" "unescape (CHR ''r'' # r) = Some ([char_of (13 :: nat)], r)"
    "unescape (CHR ''t'' # r) = Some ([char_of (9 :: nat)], r)" for r
    by (simp_all add: unescape_def)
  have undo: "?n = m \<Longrightarrow> char_of m = c" for m by auto
  consider (bs) "c = CHR 0x22 \<or> c = CHR 0x5C"
    | (b) "?n \<in> {8, 12, 10, 13, 9}"
    | (ctl) "?n < 32 \<or> c = CHR ''<'' \<or> c = CHR ''>'' \<or> c = CHR ''&''" "?n \<notin> {8, 12, 10, 13, 9}" "\<not> (c = CHR 0x22 \<or> c = CHR 0x5C)"
    | (plain) "\<not> ?n < 32" "c \<noteq> CHR 0x22" "c \<noteq> CHR 0x5C" "c \<noteq> CHR ''<''" "c \<noteq> CHR ''>''" "c \<noteq> CHR ''&''"
    by blast
  then show ?thesis
  proof cases
    case bs
    then show ?thesis by (auto simp: escape_def unescape_def split: option.splits)
  next
    case b
    then have "c \<noteq> CHR 0x22" "c \<noteq> CHR 0x5C" by auto
    then show ?thesis using b by (auto simp: escape_def Let_def short undo split: option.splits)
  next
    case ctl
    then have "escape c = control_escape ?n" by (auto simp: escape_def Let_def)
    moreover have "?n < 128" using ctl(1) by auto
    ultimately show ?thesis using unescape_control [of c r] by (simp add: control_escape_def split: option.splits)
  next
    case plain
    then have "escape c = [c]" by (auto simp: escape_def Let_def)
    then show ?thesis using plain by (simp split: option.splits)
  qed
qed

lemma unquoted_escaped: "unquoted (escaped s @ CHR 0x22 # r) = Some (s, r)"
proof (induction s rule: escaped.induct)
  case (2 c cs)
  show ?case
  proof (cases "line_separator (c # cs)")
    case None
    then show ?thesis using "2.IH" by (simp add: unquoted_escape)
  next
    case (Some e)
    then have "(e = CHR 0x5C # ''u2028'' \<and> take 3 (c # cs) = [CHR 0xE2, CHR 0x80, CHR 0xA8]) \<or>
        (e = CHR 0x5C # ''u2029'' \<and> take 3 (c # cs) = [CHR 0xE2, CHR 0x80, CHR 0xA9])"
      by (auto simp: line_separator_def split: if_splits)
    then consider d where "e = CHR 0x5C # ''u2028''" "c # cs = [CHR 0xE2, CHR 0x80, CHR 0xA8] @ d" "drop 2 cs = d"
      | d where "e = CHR 0x5C # ''u2029''" "c # cs = [CHR 0xE2, CHR 0x80, CHR 0xA9] @ d" "drop 2 cs = d"
      by (metis append_take_drop_id drop_Suc_Cons eval_nat_numeral(3))
    then show ?thesis
    proof cases
      case (1 d)
      then show ?thesis using "2.IH" Some by (simp add: unescape_def hex_val_0 utf8_def separator_bytes)
    next
      case (2 d)
      then show ?thesis using "2.IH" Some by (simp add: unescape_def hex_val_0 utf8_def separator_bytes)
    qed
  qed
qed simp

subsection \<open>Values read back\<close>

text \<open>What a value is once it has been stored: a Go \<open>int\<close> comes back as its text.\<close>

fun stored :: "jval \<Rightarrow> jval" where
  "stored (JInt i) = JNumber (itoa i)"
| "stored (JNumber s) = JNumber (if s = [] then ''0'' else s)"
| "stored (JArr xs) = JArr (map stored xs)"
| "stored (JObj kvs) = JObj (map (\<lambda>(k, v). (k, stored v)) kvs)"
| "stored v = v"

lemma skip_digits_all: "list_all num_char s \<longleftrightarrow> list_all num_char (skip_digits s)"
proof (induction s)
  case (Cons c s)
  then show ?case by (cases "is_digit c") (auto simp: skip_digits_def num_char_def)
qed (simp add: skip_digits_def)

lemma number_frac_all: "list_all num_char (number_frac s) \<Longrightarrow> list_all num_char s"
  by (auto simp: number_frac_def num_char_def skip_digits_all [symmetric] split: list.splits if_splits)

lemma number_exp_all: "number_exp s = Some t \<Longrightarrow> list_all num_char t \<Longrightarrow> list_all num_char s"
  by (auto simp: number_exp_def Let_def num_char_def skip_digits_all [symmetric] split: list.splits if_splits)

lemma number_int_all:
  assumes "number_int s = Some t" "list_all num_char t"
  shows "list_all num_char s \<and> (\<exists>c cs. s = c # cs \<and> (is_digit c \<or> c = CHR ''-''))"
proof -
  have z: "is_digit (CHR ''0'')" "num_char (CHR ''-'')" by code_simp+
  have d: "list_all num_char u" if "(case u of [] \<Rightarrow> None | c # cs \<Rightarrow> if c = CHR ''0'' then Some cs else if is_digit c then Some (skip_digits cs) else None) = Some t"
    for u using that assms(2) z by (cases u) (auto simp: num_char_def skip_digits_all [symmetric] split: if_splits)
  show ?thesis
  proof (cases s)
    case Nil
    then show ?thesis using assms(1) by (simp add: number_int_def)
  next
    case (Cons c cs)
    show ?thesis
    proof (cases "c = CHR ''-''")
      case True
      then show ?thesis using assms(1) Cons d [of cs] z by (simp add: number_int_def Let_def)
    next
      case False
      then have "is_digit c" using assms(1) Cons z by (auto simp: number_int_def Let_def split: if_splits)
      then show ?thesis using assms(1) Cons False d [of s] by (simp add: number_int_def Let_def)
    qed
  qed
qed

lemma valid_number_all:
  assumes "valid_number s"
  shows "list_all num_char s \<and> (\<exists>c cs. s = c # cs \<and> (is_digit c \<or> c = CHR ''-''))"
proof -
  obtain s1 where s1: "number_int s = Some s1" "number_exp (number_frac s1) = Some []"
    using assms by (auto simp: valid_number_def split: option.splits)
  have "list_all num_char s1" using number_frac_all [OF number_exp_all [OF s1(2)]] by simp
  then show ?thesis by (rule number_int_all [OF s1(1)])
qed

lemma digits_of_head: "0 < n \<Longrightarrow> hd (digits_of n) \<noteq> CHR ''0''"
proof (induction n rule: digits_of.induct)
  case (1 n)
  have z: "digit_char n \<noteq> CHR ''0''" if "0 < n" "n < 10"
  proof
    assume "digit_char n = CHR ''0''"
    then have "(of_char (digit_char n) :: nat) = of_char (CHR ''0'')" by simp
    then show False using that by simp
  qed
  show ?case using 1 z by (cases "n < 10") (auto simp: digits_of_small digits_of_large hd_append)
qed

lemma valid_digits: "number_int (digits_of n) = Some [] \<and> number_int (CHR ''-'' # digits_of n) = Some []"
proof -
  have d: "list_all is_digit (digits_of n)" using digits_of_digits by (auto simp: list_all_iff)
  obtain c cs where cs: "digits_of n = c # cs" by (cases "digits_of n") auto
  have c: "is_digit c" "skip_digits cs = []" using d cs by (auto simp: skip_digits_def list_all_iff dropWhile_eq_Nil_conv)
  have "c = CHR ''0'' \<Longrightarrow> cs = []"
  proof -
    assume "c = CHR ''0''"
    then have "n = 0" using digits_of_head [of n] cs by auto
    then show "cs = []" using cs by (simp add: digits_of_small)
  qed
  then show ?thesis using cs c by (auto simp: number_int_def Let_def)
qed

lemma valid_itoa: "valid_number (itoa i)"
  using valid_digits by (auto simp: valid_number_def itoa_def number_frac_def number_exp_def)

definition ends_number :: "string \<Rightarrow> bool" where
  "ends_number r \<longleftrightarrow> (\<forall>c cs. r = c # cs \<longrightarrow> \<not> num_char c)"

lemma ends_number_simps [simp]: "ends_number []" "ends_number (CHR '','' # r)" "ends_number (CHR '']'' # r)" "ends_number (CHR ''}'' # r)"
  by (simp_all add: ends_number_def num_char_def is_digit_def)

lemma read_number:
  assumes "valid_number s" "ends_number r"
  shows "read_val (Suc n) (s @ r) = Some (JNumber s, r)"
proof -
  obtain c cs where s: "s = c # cs" "is_digit c \<or> c = CHR ''-''" "list_all num_char s" using valid_number_all [OF assms(1)] by blast
  have "takeWhile num_char (s @ r) = s" "dropWhile num_char (s @ r) = r"
    using s(3) assms(2) by (auto simp: list_all_iff takeWhile_append2 dropWhile_append2 ends_number_def takeWhile_eq_Nil_iff dropWhile_eq_self_iff neq_Nil_conv)
  moreover have "c \<notin> {CHR ''n'', CHR ''t'', CHR ''f'', CHR 0x22, CHR ''['', CHR ''{''}" using s(2) by (auto simp: is_digit_def)
  ultimately show ?thesis using s(1) assms(1) by simp
qed

lemma text_of_cons: "encodable v \<Longrightarrow> text_of v \<noteq> [] \<and> hd (text_of v) \<notin> {CHR '']'', CHR ''}''}"
proof (cases v)
  case (JNumber s)
  assume "encodable v"
  then show ?thesis using JNumber valid_number_all [of s] by (auto simp: is_digit_def)
next
  case (JInt i)
  then show ?thesis using valid_number_all [OF valid_itoa, of i] by (auto simp: is_digit_def)
qed (auto simp: quoted_def)

lemma joined_Cons: "xs \<noteq> [] \<Longrightarrow> joined (x # xs) = x @ CHR '','' # joined xs"
  by (cases xs) auto

text \<open>What reading one value back amounts to, for every continuation and enough fuel.\<close>

definition reads_back :: "jval \<Rightarrow> bool" where
  "reads_back v \<longleftrightarrow> text_of v \<noteq> [] \<and> (\<forall>n r. length (text_of v) < n \<longrightarrow> ends_number r \<longrightarrow> read_val n (text_of v @ r) = Some (stored v, r))"

lemma read_items_back:
  assumes "xs \<noteq> []" "list_all reads_back xs" "length (joined (map text_of xs)) + 1 < n"
  shows "read_items n (joined (map text_of xs) @ CHR '']'' # r) = Some (map stored xs, r)"
  using assms
proof (induction xs arbitrary: n)
  case (Cons x xs)
  obtain m where n: "n = Suc m" using Cons.prems(3) by (cases n) auto
  have x: "reads_back x" "text_of x \<noteq> []" using Cons.prems(2) by (auto simp: reads_back_def)
  show ?case
  proof (cases "xs = []")
    case True
    then show ?thesis using x(1) Cons.prems(3) n by (simp add: reads_back_def)
  next
    case False
    then have "length (text_of x) < m" "length (joined (map text_of xs)) + 1 < m"
      using Cons.prems(3) n x(2) by (auto simp: joined_Cons neq_Nil_conv)
    then show ?thesis using x(1) False Cons.IH Cons.prems(2) n by (simp add: reads_back_def joined_Cons)
  qed
qed simp

definition field_text :: "string \<times> jval \<Rightarrow> string" where
  "field_text kv = (case kv of (k, v) \<Rightarrow> quoted k @ CHR '':'' # text_of v)"

lemma read_fields_back:
  assumes "kvs \<noteq> []" "list_all (\<lambda>(_, v). reads_back v) kvs" "length (joined (map field_text kvs)) + 1 < n"
  shows "read_fields n (joined (map field_text kvs) @ CHR ''}'' # r) = Some (map (\<lambda>(k, v). (k, stored v)) kvs, r)"
  using assms
proof (induction kvs arbitrary: n)
  case (Cons kv kvs)
  obtain m where n: "n = Suc m" using Cons.prems(3) by (cases n) auto
  obtain k x where kv: "kv = (k, x)" by (cases kv)
  have x: "reads_back x" using Cons.prems(2) kv by auto
  have t: "field_text kv = CHR 0x22 # escaped k @ CHR 0x22 # CHR '':'' # text_of x" by (simp add: kv field_text_def quoted_def)
  have k: "unquoted (escaped k @ CHR 0x22 # u) = Some (k, u)" for u by (rule unquoted_escaped)
  show ?case
  proof (cases "kvs = []")
    case True
    then show ?thesis using x k Cons.prems(3) n kv t by (simp add: reads_back_def)
  next
    case False
    then have "length (text_of x) < m" "length (joined (map field_text kvs)) + 1 < m"
      using Cons.prems(3) n t by (auto simp: joined_Cons)
    then show ?thesis using x k False Cons.IH Cons.prems(2) n kv t by (simp add: reads_back_def joined_Cons)
  qed
qed simp

lemma obj_put_greater: "\<forall>k' \<in> fst ` set kvs. k' < k \<Longrightarrow> obj_put k v kvs = kvs @ [(k, v)]"
  by (induction kvs) auto

lemma fold_put_sorted: "sorted_keys (xs @ ys) \<Longrightarrow> fold (\<lambda>(k, v). obj_put k v) ys xs = xs @ ys"
proof (induction ys arbitrary: xs)
  case (Cons y ys)
  obtain k v where y: "y = (k, v)" by (cases y)
  have "\<forall>k' \<in> fst ` set xs. k' < k" using Cons.prems y by (auto simp: sorted_keys_def sorted_wrt_append)
  then have p: "obj_put k v xs = xs @ [(k, v)]" by (rule obj_put_greater)
  have "fold (\<lambda>(k, v). obj_put k v) ys (xs @ [(k, v)]) = (xs @ [(k, v)]) @ ys"
    using Cons.prems y by (intro Cons.IH) simp
  then show ?case using y p by simp
qed simp

lemma map_field_text: "map (\<lambda>(k, v). quoted k @ CHR '':'' # text_of v) kvs = map field_text kvs"
  by (auto simp: field_text_def)

lemma valid_zero: "valid_number ''0''"
  by code_simp

lemma reads_back:
  assumes "encodable v" "wf_val v" "marker_free v"
  shows "reads_back v"
  using assms
proof (induction v)
  case (JNumber s)
  have "read_val n ((if s = [] then ''0'' else s) @ r) = Some (JNumber (if s = [] then ''0'' else s), r)"
    if "0 < n" "ends_number r" for n r
  proof -
    have "valid_number (if s = [] then ''0'' else s)" using JNumber valid_zero by auto
    then show ?thesis using read_number that by (cases n) auto
  qed
  then show ?case by (auto simp: reads_back_def)
next
  case (JInt i)
  have "read_val n (itoa i @ r) = Some (JNumber (itoa i), r)" if "0 < n" "ends_number r" for n r
    using read_number [OF valid_itoa that(2)] that by (cases n) auto
  moreover have "itoa i \<noteq> []" using valid_number_all [OF valid_itoa, of i] by auto
  ultimately show ?case by (auto simp: reads_back_def)
next
  case (JStr s)
  have "read_val n (quoted s @ r) = Some (JStr s, r)" if "0 < n" for n r
    using that unquoted_escaped [of s r] by (cases n) (simp_all add: quoted_def)
  then show ?case by (auto simp: reads_back_def quoted_def)
next
  case (JArr xs)
  then have xs: "list_all reads_back xs" by (auto simp: list_all_iff)
  have "read_val n (text_of (JArr xs) @ r) = Some (JArr (map stored xs), r)" if "length (text_of (JArr xs)) < n" for n r
  proof (cases "xs = []")
    case True
    then show ?thesis using that by (cases n) auto
  next
    case False
    have "0 < n" using that by linarith
    then obtain m where n: "n = Suc m" by (cases n) auto
    then obtain x ys where x: "xs = x # ys" using False by (cases xs) auto
    have "text_of x \<noteq> [] \<and> hd (text_of x) \<noteq> CHR '']''" using text_of_cons [of x] JArr.prems(1) x by auto
    then have "take 1 (joined (map text_of xs) @ CHR '']'' # r) \<noteq> '']''"
      unfolding x by (cases "text_of x"; cases ys) auto
    then show ?thesis using read_items_back [OF False xs, of m r] that n by simp
  qed
  then show ?case by (simp add: reads_back_def)
next
  case (JObj kvs)
  then have kvs: "list_all (\<lambda>(_, v). reads_back v) kvs" by (fastforce simp: list_all_iff)
  have srt: "sorted_keys (map (\<lambda>(k, v). (k, stored v)) kvs)" using JObj.prems(2) by (simp add: sorted_keys_def comp_def case_prod_beta)
  have "read_val n (text_of (JObj kvs) @ r) = Some (JObj (map (\<lambda>(k, v). (k, stored v)) kvs), r)" if "length (text_of (JObj kvs)) < n" for n r
  proof (cases "kvs = []")
    case True
    then show ?thesis using that by (cases n) auto
  next
    case False
    have "0 < n" using that by linarith
    then obtain m where n: "n = Suc m" by (cases n) auto
    have "take 1 (joined (map field_text kvs) @ CHR ''}'' # r) \<noteq> ''}''"
      using False by (cases kvs; cases "tl kvs") (auto simp: field_text_def quoted_def joined_Cons)
    then show ?thesis using read_fields_back [OF False kvs, of m r] that n fold_put_sorted [of "[]", simplified, OF srt]
      by (simp add: map_field_text)
  qed
  then show ?case by (simp add: reads_back_def)
next
  case JNull
  have "read_val n (''null'' @ r) = Some (JNull, r)" if "0 < n" for n r using that by (cases n) auto
  then show ?case by (auto simp: reads_back_def)
next
  case (JBool b)
  have "read_val n ((if b then ''true'' else ''false'') @ r) = Some (JBool b, r)" if "0 < n" for n r using that by (cases n) auto
  then show ?case by (auto simp: reads_back_def)
qed simp

lemma Decode_Marshal:
  assumes "encodable v" "wf_val v" "marker_free v"
  shows "Decode (text_of v) = Some (stored v)"
  using reads_back [OF assms] unfolding reads_back_def Decode_def
  by (metis (no_types, lifting) append_Nil2 case_prod_conv ends_number_simps(1) lessI list.simps(4) option.simps(5))

end
