(* ===== verification/Object_Cut.thy ===== *)
theory Object_Cut
  imports Json
begin

text \<open>
  Choosing what to move out of a value so that its row stays small (\<open>db/objectcut.go\<close>).

  A node of the tree is identified by its path, which is unique; \<open>parent\<close> pointers become path
  prefixes and the set \<open>chosen\<close> a list of nodes. The content hash is a parameter.
\<close>

datatype cnode = CNode (n_path: path) (n_value: jval) (n_size: int) (n_depth: nat) (n_already: bool)
  (n_children: "cnode list")

definition minExternalizeBytes :: int where "minExternalizeBytes = 128"

subsection \<open>Paths\<close>

fun elem_less :: "path_elem \<Rightarrow> path_elem \<Rightarrow> bool" where
  "elem_less (PKey a) (PKey b) = (a < b)"
| "elem_less (PKey a) (PIdx b) = True"
| "elem_less (PIdx a) (PKey b) = False"
| "elem_less (PIdx a) (PIdx b) = (a < b)"

fun pathLess :: "path \<Rightarrow> path \<Rightarrow> bool" where
  "pathLess (a # as) (b # bs) = (if a \<noteq> b then elem_less a b else pathLess as bs)"
| "pathLess [] bs = (bs \<noteq> [])"
| "pathLess as [] = False"

fun elem_text :: "path_elem \<Rightarrow> string" where
  "elem_text (PKey k) = quoted k"
| "elem_text (PIdx i) = itoa i"

text \<open>One entry of the objects list with a hash of 32 digits and a size of seven, and its comma.\<close>

definition entrySize :: "path \<Rightarrow> int" where
  "entrySize p = int (length (''{'' @ quoted ''ref'' @ '':'' @ quoted ''0123456789abcdef0123456789abcdef'' @ '','' @
     quoted ''size'' @ '':'' @ itoa 1048576 @
     (if p = [] then [] else '','' @ quoted ''path'' @ '':['' @ joined (map elem_text p) @ '']'') @ ''}'')) + 1"

subsection \<open>The tree\<close>

definition rawSize :: "cnode \<Rightarrow> int" where
  "rawSize n = (if n_already n then 4 else n_size n)"

definition commas :: "'a list \<Rightarrow> int" where
  "commas xs = int (length xs - 1)"

text \<open>Marshalling a leaf may fail; \<open>cutForSize\<close> asks for that once, for the whole value.\<close>

fun buildTree :: "jval \<Rightarrow> path \<Rightarrow> nat \<Rightarrow> cnode"
  and tree_fields :: "(string \<times> jval) list \<Rightarrow> path \<Rightarrow> nat \<Rightarrow> cnode list"
  and tree_items :: "jval list \<Rightarrow> int \<Rightarrow> path \<Rightarrow> nat \<Rightarrow> cnode list" where
  "buildTree (JRef h n) path depth = CNode path (JRef h n) 0 depth True []"
| "buildTree (JObj kvs) path depth =
     (let cs = tree_fields kvs path (Suc depth)
      in CNode path (JObj kvs)
           (2 + sum_list (map2 (\<lambda>(k, _) c. int (length (quoted k)) + 1 + rawSize c) kvs cs) + commas kvs) depth False cs)"
| "buildTree (JArr xs) path depth =
     (let cs = tree_items xs 0 path (Suc depth)
      in CNode path (JArr xs) (2 + sum_list (map rawSize cs) + commas xs) depth False cs)"
| "buildTree v path depth = CNode path v (int (length (text_of v))) depth False []"
| "tree_fields [] path depth = []"
| "tree_fields ((k, v) # kvs) path depth = buildTree v (path @ [PKey k]) depth # tree_fields kvs path depth"
| "tree_items [] i path depth = []"
| "tree_items (x # xs) i path depth = buildTree x (path @ [PIdx i]) depth # tree_items xs (i + 1) path depth"

fun collect :: "cnode \<Rightarrow> cnode list" where
  "collect (CNode p v s d a cs) = CNode p v s d a cs # concat (map collect cs)"

abbreviation below :: "cnode \<Rightarrow> cnode list" where
  "below n \<equiv> tl (collect n)"

definition is_chosen :: "cnode list \<Rightarrow> cnode \<Rightarrow> bool" where
  "is_chosen chosen n \<longleftrightarrow> n_path n \<in> n_path ` set chosen"

definition strictly_above :: "path \<Rightarrow> path \<Rightarrow> bool" where
  "strictly_above p q \<longleftrightarrow> length p < length q \<and> take (length p) q = p"

definition coveredByAncestor :: "cnode \<Rightarrow> cnode list \<Rightarrow> bool" where
  "coveredByAncestor n chosen \<longleftrightarrow> list_ex (\<lambda>p. strictly_above (n_path p) (n_path n)) chosen"

definition holdsAlready :: "cnode \<Rightarrow> bool" where
  "holdsAlready n \<longleftrightarrow> list_ex n_already (below n)"

subsection \<open>Selection\<close>

text \<open>The nodes chosen so far, and the estimates of the inline data and of the objects list.\<close>

record selection =
  sel_chosen :: "cnode list"
  sel_data :: int
  sel_objects :: int

definition over :: "int \<Rightarrow> selection \<Rightarrow> bool" where
  "over target st \<longleftrightarrow> sel_data st + sel_objects st > target"

definition rank_of :: "cnode list \<Rightarrow> cnode \<Rightarrow> int" where
  "rank_of chosen n = n_size n - sum_list (map (\<lambda>d. n_size d - entrySize (n_path d)) (filter (is_chosen chosen) (below n)))"

definition holds_chosen :: "cnode list \<Rightarrow> cnode \<Rightarrow> bool" where
  "holds_chosen chosen n \<longleftrightarrow> list_ex (is_chosen chosen) (below n)"

text \<open>Choosing a node un-chooses what it now contains.\<close>

definition choose_node :: "cnode \<Rightarrow> selection \<Rightarrow> selection" where
  "choose_node n st =
     (let gone = filter (is_chosen (sel_chosen st)) (below n)
      in \<lparr>sel_chosen = n # filter (\<lambda>c. \<not> is_chosen gone c) (sel_chosen st),
          sel_data = sel_data st + sum_list (map n_size gone) - n_size n,
          sel_objects = sel_objects st - sum_list (map (\<lambda>d. entrySize (n_path d)) gone) + entrySize (n_path n)\<rparr>)"

fun select_level :: "(cnode \<Rightarrow> int) \<Rightarrow> (cnode \<Rightarrow> bool) \<Rightarrow> int \<Rightarrow> cnode list \<Rightarrow> selection \<Rightarrow> selection" where
  "select_level rank holdsChosen target [] st = st"
| "select_level rank holdsChosen target (n # ns) st =
     (if \<not> over target st then st
      else if n_already n \<or> is_chosen (sel_chosen st) n \<or> coveredByAncestor n (sel_chosen st)
      then select_level rank holdsChosen target ns st
      else if holdsAlready n then select_level rank holdsChosen target ns st
      else if rank n < minExternalizeBytes then st
      else if holdsChosen n \<and> rank n - entrySize (n_path n) < minExternalizeBytes
      then select_level rank holdsChosen target ns st
      else select_level rank holdsChosen target ns (choose_node n st))"

fun insort_by :: "('a \<Rightarrow> 'a \<Rightarrow> bool) \<Rightarrow> 'a \<Rightarrow> 'a list \<Rightarrow> 'a list" where
  "insort_by lt x [] = [x]"
| "insort_by lt x (y # ys) = (if lt y x then y # insort_by lt x ys else x # y # ys)"

definition sort_by :: "('a \<Rightarrow> 'a \<Rightarrow> bool) \<Rightarrow> 'a list \<Rightarrow> 'a list" where
  "sort_by lt xs = fold (insort_by lt) xs []"

definition rank_less :: "(cnode \<Rightarrow> int) \<Rightarrow> cnode \<Rightarrow> cnode \<Rightarrow> bool" where
  "rank_less rank a b = (if rank a \<noteq> rank b then rank a > rank b else pathLess (n_path a) (n_path b))"

text \<open>The levels from the deepest up, as long as the estimate does not fit.\<close>

fun selectNodes :: "cnode list \<Rightarrow> nat \<Rightarrow> int \<Rightarrow> selection \<Rightarrow> selection" where
  "selectNodes nodes depth target st =
     (if \<not> over target st then st
      else
        (let rank = rank_of (sel_chosen st);
             holdsChosen = holds_chosen (sel_chosen st);
             level = sort_by (rank_less rank) (filter (\<lambda>n. n_depth n = depth) nodes);
             st' = select_level rank holdsChosen target level st
         in case depth of 0 \<Rightarrow> st' | Suc d \<Rightarrow> selectNodes nodes d target st'))"

subsection \<open>The cut\<close>

definition cut_less :: "cnode \<Rightarrow> cnode \<Rightarrow> bool" where
  "cut_less a b = (if n_depth a \<noteq> n_depth b then n_depth a > n_depth b else pathLess (n_path a) (n_path b))"

definition pickedInCutOrder :: "cnode list \<Rightarrow> cnode list" where
  "pickedInCutOrder chosen = sort_by cut_less chosen"

definition strip_at :: "jval \<Rightarrow> path \<Rightarrow> jval" where
  "strip_at v p = (if p = [] then JNull else removeAt v p)"

definition storedSize :: "jval \<Rightarrow> cnode list \<Rightarrow> int" where
  "storedSize v chosen =
     (let picked = pickedInCutOrder chosen
      in int (length (text_of (fold (\<lambda>n s. strip_at s (n_path n)) picked v))) +
         sum_list (map (\<lambda>n. entrySize (n_path n)) picked))"

definition ref_less :: "objref \<Rightarrow> objref \<Rightarrow> bool" where
  "ref_less a b = pathLess (ref_path a) (ref_path b)"

text \<open>The reference a chosen node leaves, and the content it writes unless it already was one.\<close>

definition cut_ref :: "(string \<Rightarrow> string) \<Rightarrow> cnode \<Rightarrow> objref" where
  "cut_ref hashContent n =
     (case n_value n of
        JRef h s \<Rightarrow> \<lparr>ref_hash = h, ref_size = s, ref_path = n_path n\<rparr>
      | v \<Rightarrow> \<lparr>ref_hash = hashContent (text_of v), ref_size = int (length (text_of v)), ref_path = n_path n\<rparr>)"

definition cut_object :: "(string \<Rightarrow> string) \<Rightarrow> cnode \<Rightarrow> pending_object" where
  "cut_object hashContent n =
     (let b = text_of (n_value n) in \<lparr>po_Hash = hashContent b, po_Content = b, po_Size = int (length b)\<rparr>)"

definition cut_node :: "cnode \<Rightarrow> jval \<Rightarrow> jval" where
  "cut_node n out =
     (if n_path n = [] then JNull
      else if n_already n then removeAt (fst (Place out (n_path n) JNull)) (n_path n)
      else removeAt out (n_path n))"

definition applyCut :: "(string \<Rightarrow> string) \<Rightarrow> jval \<Rightarrow> cnode list \<Rightarrow> jval \<times> objref list \<times> pending_object list" where
  "applyCut hashContent v chosen =
     (let picked = pickedInCutOrder chosen
      in (fold cut_node picked v,
          sort_by ref_less (map (cut_ref hashContent) picked),
          map (cut_object hashContent) (filter (\<lambda>n. \<not> n_already n) picked)))"

text \<open>
  The rounds of \<open>cutForSize\<close>, \<open>None\<close> when the fuel runs out: a selection whose measured size is still
  over the target re-seeds the estimate and selects again.
\<close>

fun cut_rounds :: "nat \<Rightarrow> jval \<Rightarrow> cnode list \<Rightarrow> nat \<Rightarrow> int \<Rightarrow> selection \<Rightarrow> cnode list option" where
  "cut_rounds 0 v nodes maxDepth target st = None"
| "cut_rounds (Suc f) v nodes maxDepth target st =
     (let earlier = length (sel_chosen st);
          st' = selectNodes nodes maxDepth target st
      in if sel_chosen st' = [] then Some []
         else
           (let size = storedSize v (sel_chosen st') in
            if size \<le> target \<or> length (sel_chosen st') = earlier then Some (sel_chosen st')
            else cut_rounds f v nodes maxDepth target (st'\<lparr>sel_data := size - sel_objects st'\<rparr>)))"

definition cut_start :: "cnode \<Rightarrow> selection" where
  "cut_start root =
     (let old = filter n_already (collect root)
      in \<lparr>sel_chosen = old, sel_data = n_size root - sum_list (map n_size old),
          sel_objects = sum_list (map (\<lambda>n. entrySize (n_path n)) old)\<rparr>)"

definition cut_choice :: "jval \<Rightarrow> int \<Rightarrow> cnode list option" where
  "cut_choice v target =
     (let root = buildTree v [] 0;
          nodes = collect root
      in cut_rounds (length nodes + 2) v nodes (fold max (map n_depth nodes) 0) target (cut_start root))"

definition cutForSize ::
  "(string \<Rightarrow> string) \<Rightarrow> jval \<Rightarrow> int \<Rightarrow> (jval \<times> objref list \<times> pending_object list) option" where
  "cutForSize hashContent v target =
     (if \<not> encodable v then None
      else case cut_choice v target of
             None \<Rightarrow> None
           | Some [] \<Rightarrow> Some (v, [], [])
           | Some chosen \<Rightarrow> Some (applyCut hashContent v chosen))"

definition contextObjectThreshold :: int where "contextObjectThreshold = 2 * 1024"

definition cutSlot :: "(string \<Rightarrow> string) \<Rightarrow> jval \<Rightarrow> (jval \<times> objref list \<times> pending_object list) option" where
  "cutSlot hashContent v =
     (case v of
        JRef h n \<Rightarrow> Some (JNull, [\<lparr>ref_hash = h, ref_size = n, ref_path = []\<rparr>], [])
      | _ \<Rightarrow> (case cutForSize hashContent v contextObjectThreshold of
                None \<Rightarrow> None
              | Some (stripped, refs, pending) \<Rightarrow>
                  if refs = [] then Some (v, [], []) else Some (stripped, refs, pending)))"

end
