(* ===== verification/Context_Read.thy ===== *)
theory Context_Read
  imports Json
begin

text \<open>
  Reading an instance's context (\<open>model/context.go\<close>): a walk loads an externalized value only when
  it has another step to take through it, and \<open>Materialize\<close> replaces every marker under a value. A
  loader maps a hash to its value, or to nothing when the load fails; loaded values are memoised.

  The memo is threaded explicitly. \<open>Materialize\<close> recurses into what it loads, with one unit of fuel per
  loaded level; stored content is decoded JSON and holds no marker, so one level is enough.
\<close>

type_synonym loader = "string \<Rightarrow> jval option"
type_synonym memo = "string \<rightharpoonup> jval"

datatype ctx_error = LoadFailed string | OutOfFuel

type_synonym 'a ctx = "memo \<Rightarrow> (ctx_error, 'a) result \<times> memo"

definition cret :: "'a \<Rightarrow> 'a ctx" where
  "cret x memo = (Inr x, memo)"

definition cbind :: "'a ctx \<Rightarrow> ('a \<Rightarrow> 'b ctx) \<Rightarrow> 'b ctx" where
  "cbind m f memo = (case m memo of (Inl e, memo') \<Rightarrow> (Inl e, memo') | (Inr x, memo') \<Rightarrow> f x memo')"

definition object :: "loader \<Rightarrow> string \<Rightarrow> jval ctx" where
  "object load h memo =
     (case memo h of
        Some v \<Rightarrow> (Inr v, memo)
      | None \<Rightarrow> (case load h of None \<Rightarrow> (Inl (LoadFailed h), memo) | Some v \<Rightarrow> (Inr v, memo(h \<mapsto> v))))"

fun step :: "jval \<Rightarrow> path_elem \<Rightarrow> jval option" where
  "step (JObj kvs) (PKey k) = map_of kvs k"
| "step (JArr xs) (PIdx i) = (if in_range i xs then Some (xs ! nat i) else None)"
| "step v e = None"

fun through :: "loader \<Rightarrow> jval \<Rightarrow> jval ctx" where
  "through load (JRef h n) = object load h"
| "through load v = cret v"

fun At :: "loader \<Rightarrow> jval \<Rightarrow> path \<Rightarrow> jval ctx" where
  "At load cur [] = cret cur"
| "At load cur (seg # path) =
     cbind (through load cur) (\<lambda>v. case step v seg of None \<Rightarrow> cret JNull | Some next \<Rightarrow> At load next path)"

fun Materialize :: "nat \<Rightarrow> loader \<Rightarrow> jval \<Rightarrow> jval ctx"
  and materialize_fields :: "nat \<Rightarrow> loader \<Rightarrow> (string \<times> jval) list \<Rightarrow> (string \<times> jval) list ctx"
  and materialize_items :: "nat \<Rightarrow> loader \<Rightarrow> jval list \<Rightarrow> jval list ctx" where
  "Materialize n load (JRef h s) =
     cbind (object load h) (\<lambda>v. case n of 0 \<Rightarrow> (\<lambda>memo. (Inl OutOfFuel, memo)) | Suc m \<Rightarrow> Materialize m load v)"
| "Materialize n load (JObj kvs) = cbind (materialize_fields n load kvs) (\<lambda>kvs. cret (JObj kvs))"
| "Materialize n load (JArr xs) = cbind (materialize_items n load xs) (\<lambda>xs. cret (JArr xs))"
| "Materialize n load v = cret v"
| "materialize_fields n load [] = cret []"
| "materialize_fields n load ((k, v) # kvs) =
     cbind (Materialize n load v) (\<lambda>v. cbind (materialize_fields n load kvs) (\<lambda>kvs. cret ((k, v) # kvs)))"
| "materialize_items n load [] = cret []"
| "materialize_items n load (x # xs) =
     cbind (Materialize n load x) (\<lambda>x. cbind (materialize_items n load xs) (\<lambda>xs. cret (x # xs)))"

text \<open>Stored content is one level deep.\<close>

definition load_depth :: nat where "load_depth = 1"

definition MaterializeAt :: "loader \<Rightarrow> jval \<Rightarrow> path \<Rightarrow> jval ctx" where
  "MaterializeAt load data path = cbind (At load data path) (Materialize load_depth load)"

subsection \<open>The memo is transparent\<close>

text \<open>The value a context denotes: every marker replaced by what its hash loads to.\<close>

fun full :: "loader \<Rightarrow> jval \<Rightarrow> (ctx_error, jval) result"
  and full_fields :: "loader \<Rightarrow> (string \<times> jval) list \<Rightarrow> (ctx_error, (string \<times> jval) list) result"
  and full_items :: "loader \<Rightarrow> jval list \<Rightarrow> (ctx_error, jval list) result" where
  "full load (JRef h s) = (case load h of None \<Rightarrow> Inl (LoadFailed h) | Some v \<Rightarrow> Inr v)"
| "full load (JObj kvs) = map_sum id JObj (full_fields load kvs)"
| "full load (JArr xs) = map_sum id JArr (full_items load xs)"
| "full load v = Inr v"
| "full_fields load [] = Inr []"
| "full_fields load ((k, v) # kvs) =
     (case full load v of Inl e \<Rightarrow> Inl e | Inr v \<Rightarrow> map_sum id (\<lambda>kvs. (k, v) # kvs) (full_fields load kvs))"
| "full_items load [] = Inr []"
| "full_items load (x # xs) =
     (case full load x of Inl e \<Rightarrow> Inl e | Inr x \<Rightarrow> map_sum id (\<lambda>xs. x # xs) (full_items load xs))"

definition plain_loader :: "loader \<Rightarrow> bool" where
  "plain_loader load \<longleftrightarrow> (\<forall>h v. load h = Some v \<longrightarrow> marker_free v)"

definition consistent :: "loader \<Rightarrow> memo \<Rightarrow> bool" where
  "consistent load memo \<longleftrightarrow> (\<forall>h v. memo h = Some v \<longrightarrow> load h = Some v)"

definition computes :: "loader \<Rightarrow> 'a ctx \<Rightarrow> (ctx_error, 'a) result \<Rightarrow> bool" where
  "computes load m r \<longleftrightarrow> (\<forall>memo. consistent load memo \<longrightarrow> fst (m memo) = r \<and> consistent load (snd (m memo)))"

named_theorems computes_intros \<open>how context reads compose\<close>

lemma computes_cret [computes_intros]: "computes load (cret x) (Inr x)"
  by (simp add: computes_def cret_def)

lemma computes_cbind [computes_intros]:
  assumes "computes load m r" "\<And>x. r = Inr x \<Longrightarrow> computes load (f x) (g x)"
  shows "computes load (cbind m f) (case r of Inl e \<Rightarrow> Inl e | Inr x \<Rightarrow> g x)"
  unfolding computes_def
proof (intro allI impI)
  fix memo assume c: "consistent load memo"
  obtain y memo' where m: "m memo = (y, memo')" by fastforce
  then have y: "y = r" "consistent load memo'" using assms(1) c by (auto simp: computes_def)
  show "fst (cbind m f memo) = (case r of Inl e \<Rightarrow> Inl e | Inr x \<Rightarrow> g x) \<and> consistent load (snd (cbind m f memo))"
    using y assms(2) unfolding computes_def by (cases r) (auto simp: cbind_def m)
qed

lemma computes_then: "computes load m (Inr x) \<Longrightarrow> computes load (f x) r \<Longrightarrow> computes load (cbind m f) r"
  using computes_cbind [of load m "Inr x" f "\<lambda>_. r"] by simp

lemma computes_object: "computes load (object load h) (full load (JRef h s))"
proof -
  have "fst (object load h memo) = full load (JRef h s) \<and> consistent load (snd (object load h memo))" if "consistent load memo" for memo
  proof (cases "memo h")
    case (Some v)
    then have "load h = Some v" using that by (simp add: consistent_def)
    then show ?thesis using Some that by (simp add: object_def)
  next
    case None
    then show ?thesis using that by (auto simp: object_def consistent_def split: option.splits)
  qed
  then show ?thesis by (simp add: computes_def)
qed

lemma full_marker_free:
  "marker_free v \<Longrightarrow> full load v = Inr v"
  "list_all (\<lambda>(_, v). marker_free v) kvs \<Longrightarrow> full_fields load kvs = Inr kvs"
  "list_all marker_free xs \<Longrightarrow> full_items load xs = Inr xs"
  by (induction load v and load kvs and load xs rule: full_full_fields_full_items.induct) auto

lemma computes_marker_free:
  "marker_free v \<Longrightarrow> computes load (Materialize n load v) (Inr v)"
  "list_all (\<lambda>(_, v). marker_free v) kvs \<Longrightarrow> computes load (materialize_fields n load kvs) (Inr kvs)"
  "list_all marker_free xs \<Longrightarrow> computes load (materialize_items n load xs) (Inr xs)"
  by (induction n load v and n load kvs and n load xs rule: Materialize_materialize_fields_materialize_items.induct)
    (auto intro: computes_cret computes_then)

lemma computes_map: "computes load m r \<Longrightarrow> computes load (cbind m (\<lambda>x. cret (f x))) (map_sum id f r)"
  using computes_cbind [of load m r "\<lambda>x. cret (f x)" "\<lambda>x. Inr (f x)", OF _ computes_cret] by (cases r) auto

lemma Materialize_full:
  "plain_loader load \<Longrightarrow> computes load (Materialize (Suc n) load v) (full load v)"
  "plain_loader load \<Longrightarrow> computes load (materialize_fields (Suc n) load kvs) (full_fields load kvs)"
  "plain_loader load \<Longrightarrow> computes load (materialize_items (Suc n) load xs) (full_items load xs)"
proof (induction load v and load kvs and load xs rule: full_full_fields_full_items.induct)
  case (1 load h s)
  have "computes load (Materialize n load v) (Inr v)" if "full load (JRef h s) = Inr v" for v
    using that 1 by (intro computes_marker_free) (auto simp: plain_loader_def split: option.splits)
  from computes_cbind [OF computes_object [of load h s] this]
  show ?case by (cases "load h") simp_all
next
  case (6 load k v kvs)
  have "computes load (cbind (materialize_fields (Suc n) load kvs) (\<lambda>kvs. cret ((k, w) # kvs)))
      (map_sum id (\<lambda>kvs. (k, w) # kvs) (full_fields load kvs))" if "full load v = Inr w" for w
    using 6 that by (intro computes_map) auto
  from computes_cbind [OF _ this] show ?case using 6 by simp
next
  case (8 load x xs)
  have "computes load (cbind (materialize_items (Suc n) load xs) (\<lambda>xs. cret (w # xs)))
      (map_sum id (\<lambda>xs. w # xs) (full_items load xs))" if "full load x = Inr w" for w
    using 8 that by (intro computes_map) auto
  from computes_cbind [OF _ this] show ?case using 8 by simp
qed (simp_all add: computes_map computes_cret)

text \<open>
  Whatever has been loaded before, materializing a value gives the value with every marker
  replaced by the content of its hash, or fails on a hash that does not load: the memo never changes
  the answer, stays consistent with the loader, and one level of loading is enough.
\<close>

theorem materialize_is_transparent:
  assumes "plain_loader load" and "consistent load memo"
  shows "fst (Materialize load_depth load v memo) = full load v \<and> consistent load (snd (Materialize load_depth load v memo))"
  using Materialize_full(1) [OF assms(1), of 0 v] assms(2) by (simp add: computes_def load_depth_def)

theorem materialize_is_transparent_witness:
  "fst (Materialize load_depth [''h'' \<mapsto> JStr ''x''] (JArr [JRef ''h'' 3, JRef ''h'' 3]) Map.empty) = Inr (JArr [JStr ''x'', JStr ''x''])"
proof -
  have "plain_loader [''h'' \<mapsto> JStr ''x'']" by (simp add: plain_loader_def)
  moreover have "consistent [''h'' \<mapsto> JStr ''x''] Map.empty" by (simp add: consistent_def)
  ultimately have "fst (Materialize load_depth [''h'' \<mapsto> JStr ''x''] (JArr [JRef ''h'' 3, JRef ''h'' 3]) Map.empty) =
      full [''h'' \<mapsto> JStr ''x''] (JArr [JRef ''h'' 3, JRef ''h'' 3])"
    using materialize_is_transparent by blast
  then show ?thesis by (simp del: Materialize.simps)
qed

text \<open>A walk reads what the full value holds at the path, up to the markers left below it.\<close>

lemma full_step:
  assumes "full load v = Inr w" "\<nexists>h n. v = JRef h n"
  shows "rel_option (\<lambda>x y. full load x = Inr y) (step v e) (step w e)"
proof (cases v)
  case (JObj kvs)
  have "full_fields load kvs = Inr kws \<Longrightarrow> rel_option (\<lambda>x y. full load x = Inr y) (map_of kvs k) (map_of kws k)" for kws k
    by (induction kvs arbitrary: kws) (auto split: sum.splits simp: map_sum_def)
  then show ?thesis using assms(1) JObj by (cases e) (auto split: sum.splits simp: map_sum_def)
next
  case (JArr xs)
  have "full_items load xs = Inr ys \<Longrightarrow> length ys = length xs \<and> (\<forall>i < length xs. full load (xs ! i) = Inr (ys ! i))" for ys
    by (induction xs arbitrary: ys) (auto split: sum.splits simp: map_sum_def nth_Cons split: nat.splits)
  then show ?thesis using assms(1) JArr by (cases e) (auto split: sum.splits simp: map_sum_def in_range_def)
qed (use assms in auto)

end
