(* ===== verification/Cut_Props.thy ===== *)
theory Cut_Props
  imports Object_Cut Context_Read
begin

text \<open>
  What the cut guarantees: it ends, it never takes a node above or below another it took, every
  reference the value already held stays a reference, and what it takes out can be put back.
\<close>

subsection \<open>The nodes of the tree\<close>

lemma buildTree_simps [simp]:
  "n_path (buildTree v p d) = p" "n_value (buildTree v p d) = v" "n_depth (buildTree v p d) = d"
  "n_already (buildTree v p d) \<longleftrightarrow> (\<exists>h n. v = JRef h n)"
  by (cases v; simp add: Let_def)+

definition nodes_under :: "jval \<Rightarrow> path \<Rightarrow> nat \<Rightarrow> cnode set" where
  "nodes_under v at d = {buildTree x (at @ p) (d + length p) |p x. value_at v p = Some x}"

definition deeper :: "jval \<Rightarrow> path \<Rightarrow> nat \<Rightarrow> cnode set" where
  "deeper v at d = {buildTree x (at @ e # p) (Suc (d + length p)) |e p x. value_at v (e # p) = Some x}"

lemma ex_list: "(\<exists>p. P p) \<longleftrightarrow> P [] \<or> (\<exists>e q. P (e # q))"
  by (metis list.exhaust)

lemma nodes_under_root: "nodes_under v at d = insert (buildTree v at d) (deeper v at d)"
proof -
  have "n \<in> nodes_under v at d \<longleftrightarrow> n \<in> insert (buildTree v at d) (deeper v at d)" for n
    unfolding nodes_under_def deeper_def mem_Collect_eq insert_iff by (subst ex_list) (auto simp del: value_at.simps(2,3))
  then show ?thesis by blast
qed

lemma collect_root: "set (collect (buildTree v at d)) = insert (buildTree v at d) (\<Union>c \<in> set (n_children (buildTree v at d)). set (collect c))"
  by (cases "buildTree v at d") auto

lemma below_root: "set (below (buildTree v at d)) = (\<Union>c \<in> set (n_children (buildTree v at d)). set (collect c))"
  by (cases "buildTree v at d") auto

lemma deeper_Obj:
  assumes "sorted_keys kvs"
  shows "deeper (JObj kvs) at d = (\<Union>(k, v) \<in> set kvs. nodes_under v (at @ [PKey k]) (Suc d))"
proof -
  have "value_at (JObj kvs) (e # p) = Some x \<longleftrightarrow> (\<exists>k v. (k, v) \<in> set kvs \<and> e = PKey k \<and> value_at v p = Some x)" for e p x
    using lookup_distinct [OF assms] by (cases e) (fastforce split: option.splits dest: map_of_SomeD)+
  note iff = this
  have "n \<in> deeper (JObj kvs) at d \<longleftrightarrow> (\<exists>k v. (k, v) \<in> set kvs \<and> n \<in> nodes_under v (at @ [PKey k]) (Suc d))" for n
    unfolding deeper_def nodes_under_def mem_Collect_eq iff append_assoc append_Cons append_Nil add_Suc by blast
  then show ?thesis by (auto simp del: value_at.simps)
qed

lemma deeper_Arr: "deeper (JArr xs) at d = (\<Union>j < length xs. nodes_under (xs ! j) (at @ [PIdx (int j)]) (Suc d))"
proof -
  have "value_at (JArr xs) (e # p) = Some x \<longleftrightarrow> (\<exists>j < length xs. e = PIdx (int j) \<and> value_at (xs ! j) p = Some x)" for e p x
  proof (cases e)
    case (PIdx i)
    then show ?thesis by (auto simp: in_range_def intro!: exI [of _ "nat i"])
  qed simp
  note iff = this
  have "n \<in> deeper (JArr xs) at d \<longleftrightarrow> (\<exists>j < length xs. n \<in> nodes_under (xs ! j) (at @ [PIdx (int j)]) (Suc d))" for n
    unfolding deeper_def nodes_under_def mem_Collect_eq iff by auto
  then show ?thesis by (auto simp del: value_at.simps)
qed

lemma deeper_leaf: "(\<nexists>kvs. v = JObj kvs) \<Longrightarrow> (\<nexists>xs. v = JArr xs) \<Longrightarrow> deeper v at d = {}"
  unfolding deeper_def by (cases v) auto

lemma collect_nodes:
  "wf_val v \<Longrightarrow> set (collect (buildTree v at d)) = nodes_under v at d"
  "list_all (\<lambda>(_, v). wf_val v) kvs \<Longrightarrow>
     (\<Union>c \<in> set (tree_fields kvs at d). set (collect c)) = (\<Union>(k, v) \<in> set kvs. nodes_under v (at @ [PKey k]) d)"
  "list_all wf_val xs \<Longrightarrow>
     (\<Union>c \<in> set (tree_items xs i at d). set (collect c)) = (\<Union>j < length xs. nodes_under (xs ! j) (at @ [PIdx (i + int j)]) d)"
proof (induction v at d and kvs at d and xs i at d rule: buildTree_tree_fields_tree_items.induct)
  case (2 kvs at d)
  then show ?case unfolding collect_root nodes_under_root [of "JObj kvs"] by (simp add: Let_def deeper_Obj)
next
  case (3 xs at d)
  then show ?case unfolding collect_root nodes_under_root [of "JArr xs"] by (simp add: Let_def deeper_Arr)
next
  case (8 x xs i at d)
  have "(\<Union>j < length (x # xs). nodes_under ((x # xs) ! j) (at @ [PIdx (i + int j)]) d) =
      nodes_under x (at @ [PIdx i]) d \<union> (\<Union>j < length xs. nodes_under (xs ! j) (at @ [PIdx (i + 1 + int j)]) d)"
    by (simp add: lessThan_Suc_eq_insert_0 image_image add.assoc)
  then show ?case using 8 by simp
qed (auto simp: nodes_under_root deeper_leaf)

lemma below_nodes: "wf_val v \<Longrightarrow> set (below (buildTree v at d)) = deeper v at d"
proof (cases v)
  case (JObj kvs)
  assume "wf_val v"
  then show ?thesis unfolding below_root JObj using collect_nodes(2) [of kvs at "Suc d"] by (simp add: Let_def deeper_Obj)
next
  case (JArr xs)
  assume "wf_val v"
  then show ?thesis unfolding below_root JArr using collect_nodes(3) [of xs 0 at "Suc d"] by (simp add: Let_def deeper_Arr)
qed (simp_all add: deeper_leaf)

definition node_at :: "jval \<Rightarrow> path \<Rightarrow> cnode" where
  "node_at v p = buildTree (the (value_at v p)) p (length p)"

definition tree_nodes_of :: "jval \<Rightarrow> cnode set" where
  "tree_nodes_of v = set (collect (buildTree v [] 0))"

lemma tree_node_iff: "wf_val v \<Longrightarrow> n \<in> tree_nodes_of v \<longleftrightarrow> (\<exists>p. value_at v p \<noteq> None \<and> n = node_at v p)"
  unfolding tree_nodes_of_def collect_nodes(1) nodes_under_def node_at_def append_Nil add_0 mem_Collect_eq by (metis option.distinct(1) option.exhaust_sel option.sel)

lemma node_at_simps [simp]: "n_path (node_at v p) = p" "n_depth (node_at v p) = length p" "n_value (node_at v p) = the (value_at v p)"
  by (simp_all add: node_at_def)

lemma wf_value_at: "wf_val v \<Longrightarrow> value_at v p = Some x \<Longrightarrow> wf_val x"
proof (induction p arbitrary: v)
  case (Cons e p)
  then obtain y where "value_at v [e] = Some y" "value_at y p = Some x"
    unfolding value_at_Cons [of v e p] by (cases "value_at v [e]") auto
  then show ?case using Cons wf_val_at by blast
qed simp

lemma below_node_at:
  assumes "wf_val v" "value_at v p \<noteq> None"
  shows "set (below (node_at v p)) = {node_at v (p @ q) |q. q \<noteq> [] \<and> value_at v (p @ q) \<noteq> None}"
proof -
  obtain x where x: "value_at v p = Some x" using assms(2) by blast
  have "n \<in> deeper x p (length p) \<longleftrightarrow> (\<exists>q. q \<noteq> [] \<and> value_at v (p @ q) \<noteq> None \<and> n = node_at v (p @ q))" for n
    unfolding deeper_def node_at_def value_at_append x mem_Collect_eq bind.simps neq_Nil_conv length_append
    by (metis (no_types, opaque_lifting) add_Suc_right length_Cons not_None_eq option.sel)
  moreover have "set (below (node_at v p)) = deeper x p (length p)"
    unfolding node_at_def using below_nodes [OF wf_value_at [OF assms(1) x]] x by simp
  ultimately show ?thesis by blast
qed

subsection \<open>The selection\<close>

text \<open>
  The chosen nodes are nodes of the value, none above another, and every marker of the value is
  among them.
\<close>

definition cut_inv :: "jval \<Rightarrow> cnode list \<Rightarrow> bool" where
  "cut_inv v C \<longleftrightarrow> (\<forall>c \<in> set C. value_at v (n_path c) \<noteq> None \<and> c = node_at v (n_path c)) \<and>
     spread (n_path ` set C) \<and> (\<forall>p h n. value_at v p = Some (JRef h n) \<longrightarrow> p \<in> n_path ` set C)"

lemma strictly_above_iff: "strictly_above p q \<longleftrightarrow> (\<exists>r. r \<noteq> [] \<and> q = p @ r)"
  by (auto simp: strictly_above_def) (metis append_take_drop_id drop_eq_Nil linorder_not_less)

lemma set_sort_by [simp]: "set (sort_by lt xs) = set xs"
proof -
  have ins: "set (insort_by lt x ys) = insert x (set ys)" for x ys by (induction ys) auto
  have "set (fold (insort_by lt) xs ys) = set xs \<union> set ys" for ys by (induction xs arbitrary: ys) (auto simp: ins)
  then show ?thesis by (simp add: sort_by_def)
qed

lemma chosen_below:
  assumes "wf_val v" "cut_inv v C" "value_at v p \<noteq> None"
  shows "n_path ` set (filter (is_chosen C) (below (node_at v p))) = {q \<in> n_path ` set C. strictly_above p q}"
proof -
  have "value_at v q \<noteq> None" if "q \<in> n_path ` set C" for q using assms(2) that by (auto simp: cut_inv_def)
  then show ?thesis
    unfolding set_filter below_node_at [OF assms(1,3)] by (auto simp: is_chosen_def strictly_above_iff image_iff) (metis node_at_simps(1))+
qed

lemma choose_inv:
  assumes "wf_val v" "cut_inv v (sel_chosen st)" "value_at v p \<noteq> None"
    and "\<not> is_chosen (sel_chosen st) (node_at v p)" "\<not> coveredByAncestor (node_at v p) (sel_chosen st)" "\<not> holdsAlready (node_at v p)"
    and "\<nexists>h n. value_at v p = Some (JRef h n)"
  shows "cut_inv v (sel_chosen (choose_node (node_at v p) st))"
    "n_path ` set (sel_chosen (choose_node (node_at v p) st)) = insert p {q \<in> n_path ` set (sel_chosen st). \<not> strictly_above p q}"
proof -
  let ?C = "sel_chosen st"
  let ?C' = "sel_chosen (choose_node (node_at v p) st)"
  let ?P = "n_path ` set ?C"
  have gone: "is_chosen (filter (is_chosen ?C) (below (node_at v p))) c \<longleftrightarrow> strictly_above p (n_path c)" if "c \<in> set ?C" for c
    unfolding is_chosen_def [of _ c] chosen_below [OF assms(1-3)] using that by auto
  have C': "?C' = node_at v p # filter (\<lambda>c. \<not> strictly_above p (n_path c)) ?C"
    using gone by (auto simp: choose_node_def Let_def intro!: filter_cong)
  then show P': "n_path ` set ?C' = insert p {q \<in> ?P. \<not> strictly_above p q}" by auto
  have nc: "\<not> strictly_above q p" if "q \<in> ?P" for q using assms(5) that by (auto simp: coveredByAncestor_def list_ex_iff)
  note inv = assms(2) [unfolded cut_inv_def]
  have "spread (insert p {q \<in> ?P. \<not> strictly_above p q})"
    unfolding spread_def
  proof (intro ballI allI impI notI)
    fix a q r assume a: "a \<in> insert p {q \<in> ?P. \<not> strictly_above p q}" "a = q @ r" "r \<noteq> []"
      and q: "q \<in> insert p {q \<in> ?P. \<not> strictly_above p q}"
    then have qa: "strictly_above q a" by (auto simp: strictly_above_iff)
    consider "a = p" "q = p" | "a = p" "q \<in> ?P" | "a \<in> ?P" "q = p" "\<not> strictly_above p a" | "a \<in> ?P" "q \<in> ?P" using a(1) q by blast
    then show False
    proof cases
      case 1
      then show ?thesis using qa by (simp add: strictly_above_def)
    next
      case 2
      then show ?thesis using qa nc by blast
    next
      case 3
      then show ?thesis using qa by blast
    next
      case 4
      then show ?thesis using inv a(2,3) unfolding spread_def by blast
    qed
  qed
  moreover have "q \<in> insert p {q \<in> ?P. \<not> strictly_above p q}" if q: "value_at v q = Some (JRef h n)" for q h n
  proof -
    have "q \<in> ?P" using inv q by blast
    moreover have "\<not> strictly_above p q"
    proof
      assume "strictly_above p q"
      then obtain r where r: "r \<noteq> []" "q = p @ r" by (auto simp: strictly_above_iff)
      then have "node_at v q \<in> set (below (node_at v p))" using below_node_at [OF assms(1,3)] q by blast
      moreover have "n_already (node_at v q)" using q by (simp add: node_at_def)
      ultimately show False using assms(6) by (auto simp: holdsAlready_def list_ex_iff)
    qed
    ultimately show ?thesis by blast
  qed
  moreover have "\<forall>c \<in> set ?C'. value_at v (n_path c) \<noteq> None \<and> c = node_at v (n_path c)" using inv assms(3) unfolding C' by auto
  ultimately show "cut_inv v ?C'" unfolding cut_inv_def P' by blast
qed

text \<open>The places at or below a chosen node; a step of the selection only adds to them.\<close>

definition covered :: "jval \<Rightarrow> cnode list \<Rightarrow> path set" where
  "covered v C = {q. value_at v q \<noteq> None \<and> (\<exists>p \<in> n_path ` set C. p = q \<or> strictly_above p q)}"

definition grew :: "jval \<Rightarrow> cnode list \<Rightarrow> cnode list \<Rightarrow> bool" where
  "grew v C C' \<longleftrightarrow> cut_inv v C' \<and> (C' = C \<or> covered v C \<subset> covered v C')"

lemma grew_refl: "cut_inv v C \<Longrightarrow> grew v C C"
  by (simp add: grew_def)

lemma grew_trans: "grew v C C' \<Longrightarrow> grew v C' C'' \<Longrightarrow> grew v C C''"
  unfolding grew_def by (metis psubset_trans)

lemma strictly_above_trans: "strictly_above p q \<Longrightarrow> strictly_above q r \<Longrightarrow> strictly_above p r"
  unfolding strictly_above_iff by (metis append_assoc append_is_Nil_conv)

lemma choose_grew:
  assumes "wf_val v" "cut_inv v (sel_chosen st)" "value_at v p \<noteq> None"
    and "\<not> is_chosen (sel_chosen st) (node_at v p)" "\<not> coveredByAncestor (node_at v p) (sel_chosen st)" "\<not> holdsAlready (node_at v p)"
    and "\<nexists>h n. value_at v p = Some (JRef h n)"
  shows "grew v (sel_chosen st) (sel_chosen (choose_node (node_at v p) st))"
proof -
  let ?C = "sel_chosen st" and ?C' = "sel_chosen (choose_node (node_at v p) st)"
  note P' = choose_inv(2) [OF assms]
  have "p \<notin> covered v ?C" using assms(4,5) by (auto simp: covered_def is_chosen_def coveredByAncestor_def list_ex_iff)
  moreover have "p \<in> covered v ?C'" using assms(3) P' by (auto simp: covered_def)
  moreover have "q \<in> covered v ?C'" if "q \<in> covered v ?C" for q
  proof -
    obtain c where c: "c \<in> n_path ` set ?C" "c = q \<or> strictly_above c q" "value_at v q \<noteq> None"
      using \<open>q \<in> covered v ?C\<close> unfolding covered_def by blast
    show ?thesis
    proof (cases "strictly_above p c")
      case True
      then have "strictly_above p q" using c(2) strictly_above_trans by blast
      then show ?thesis unfolding covered_def P' using c(3) by blast
    next
      case False
      then show ?thesis unfolding covered_def P' using c by blast
    qed
  qed
  ultimately show ?thesis using choose_inv(1) [OF assms] unfolding grew_def by blast
qed

declare selectNodes.simps [simp del]

lemma select_level_grew:
  assumes "wf_val v" "set ns \<subseteq> tree_nodes_of v" "cut_inv v (sel_chosen st)"
  shows "grew v (sel_chosen st) (sel_chosen (select_level rank holdsChosen target ns st))"
  using assms(2,3)
proof (induction ns arbitrary: st)
  case (Cons n ns)
  obtain p where p: "value_at v p \<noteq> None" "n = node_at v p" using Cons.prems(1) tree_node_iff [OF assms(1)] by auto
  let ?chosen = "over target st \<and> \<not> (n_already n \<or> is_chosen (sel_chosen st) n \<or> coveredByAncestor n (sel_chosen st)) \<and> \<not> holdsAlready n"
  have rest: "grew v (sel_chosen st) (sel_chosen (select_level rank holdsChosen target ns st))" using Cons by simp
  have ch: "grew v (sel_chosen st) (sel_chosen (select_level rank holdsChosen target ns (choose_node n st)))" if ?chosen
  proof -
    have "\<nexists>h m. value_at v p = Some (JRef h m)" using that p(2) by (auto simp: node_at_def)
    then have "grew v (sel_chosen st) (sel_chosen (choose_node n st))"
      using that p Cons.prems(2) by (auto intro: choose_grew [OF assms(1)])
    moreover from this have "grew v (sel_chosen (choose_node n st)) (sel_chosen (select_level rank holdsChosen target ns (choose_node n st)))"
      using Cons.prems(1) by (intro Cons.IH) (auto simp: grew_def)
    ultimately show ?thesis by (rule grew_trans)
  qed
  show ?case using rest ch grew_refl [OF Cons.prems(2)] by simp
qed (simp add: grew_refl)

lemma selectNodes_grew:
  assumes "wf_val v" "set nodes \<subseteq> tree_nodes_of v" "cut_inv v (sel_chosen st)"
  shows "grew v (sel_chosen st) (sel_chosen (selectNodes nodes d target st))"
  using assms(3)
proof (induction d arbitrary: st)
  case 0
  have "set (sort_by (rank_less (rank_of (sel_chosen st))) (filter (\<lambda>n. n_depth n = 0) nodes)) \<subseteq> tree_nodes_of v"
    using assms(2) by auto
  from select_level_grew [OF assms(1) this 0] show ?case using grew_refl [OF 0] by (simp add: selectNodes.simps [of nodes 0] Let_def)
next
  case (Suc d)
  let ?st' = "select_level (rank_of (sel_chosen st)) (holds_chosen (sel_chosen st)) target
    (sort_by (rank_less (rank_of (sel_chosen st))) (filter (\<lambda>n. n_depth n = Suc d) nodes)) st"
  have "set (sort_by (rank_less (rank_of (sel_chosen st))) (filter (\<lambda>n. n_depth n = Suc d) nodes)) \<subseteq> tree_nodes_of v"
    using assms(2) by auto
  then have g: "grew v (sel_chosen st) (sel_chosen ?st')" by (rule select_level_grew [OF assms(1) _ Suc.prems])
  then have "grew v (sel_chosen ?st') (sel_chosen (selectNodes nodes d target ?st'))" by (intro Suc.IH) (simp add: grew_def)
  then show ?case using grew_trans [OF g] grew_refl [OF Suc.prems] by (simp add: selectNodes.simps [of nodes "Suc d"] Let_def)
qed

lemma finite_places: "wf_val v \<Longrightarrow> {q. value_at v q \<noteq> None} = n_path ` tree_nodes_of v"
  using tree_node_iff [of v] by (force simp: image_iff)

lemma card_covered:
  assumes "wf_val v"
  shows "finite (covered v C) \<and> card (covered v C) \<le> length (collect (buildTree v [] 0))"
proof -
  have sub: "covered v C \<subseteq> n_path ` set (collect (buildTree v [] 0))"
    using finite_places [OF assms] by (auto simp: covered_def tree_nodes_of_def)
  then have "card (covered v C) \<le> card (n_path ` set (collect (buildTree v [] 0)))" by (intro card_mono) auto
  also have "\<dots> \<le> length (collect (buildTree v [] 0))"
    by (rule le_trans [OF card_image_le card_length]) simp
  finally show ?thesis using finite_subset [OF sub] by auto
qed

lemma cut_rounds_ends:
  assumes "wf_val v" "set nodes \<subseteq> tree_nodes_of v" "cut_inv v (sel_chosen st)"
    and "length (collect (buildTree v [] 0)) < f + card (covered v (sel_chosen st))"
  shows "\<exists>C. cut_rounds f v nodes d target st = Some C \<and> cut_inv v C"
  using assms(3,4)
proof (induction f arbitrary: st)
  case 0
  then show ?case using card_covered [OF assms(1), of "sel_chosen st"] by simp
next
  case (Suc f)
  let ?st' = "selectNodes nodes d target st"
  have g: "grew v (sel_chosen st) (sel_chosen ?st')" by (rule selectNodes_grew [OF assms(1,2) Suc.prems(1)])
  then have inv: "cut_inv v (sel_chosen ?st')" by (simp add: grew_def)
  show ?case
  proof (cases "sel_chosen ?st' = [] \<or> storedSize v (sel_chosen ?st') \<le> target \<or> length (sel_chosen ?st') = length (sel_chosen st)")
    case True
    then show ?thesis using inv by (auto simp: Let_def)
  next
    case False
    then have "covered v (sel_chosen st) \<subset> covered v (sel_chosen ?st')" using g by (auto simp: grew_def)
    then have "card (covered v (sel_chosen st)) < card (covered v (sel_chosen ?st'))"
      using card_covered [OF assms(1)] by (intro psubset_card_mono) auto
    then have "\<exists>C. cut_rounds f v nodes d target (?st'\<lparr>sel_data := storedSize v (sel_chosen ?st') - sel_objects ?st'\<rparr>) = Some C \<and> cut_inv v C"
      using Suc.prems(2) inv by (intro Suc.IH) auto
    then show ?thesis using False by (auto simp: Let_def)
  qed
qed

lemma start_inv:
  assumes "wf_val v"
  shows "cut_inv v (sel_chosen (cut_start (buildTree v [] 0)))"
proof -
  let ?C = "filter n_already (collect (buildTree v [] 0))"
  have mem: "c \<in> set ?C \<longleftrightarrow> (\<exists>p h n. value_at v p = Some (JRef h n) \<and> c = node_at v p)" for c
  proof
    assume "c \<in> set ?C"
    then obtain p where p: "value_at v p \<noteq> None" "c = node_at v p" "n_already c" using tree_node_iff [OF assms, of c] by (auto simp: tree_nodes_of_def)
    then obtain h n where "value_at v p = Some (JRef h n)" by (auto simp: node_at_def)
    then show "\<exists>p h n. value_at v p = Some (JRef h n) \<and> c = node_at v p" using p(2) by blast
  next
    assume "\<exists>p h n. value_at v p = Some (JRef h n) \<and> c = node_at v p"
    then obtain p h n where p: "value_at v p = Some (JRef h n)" "c = node_at v p" by blast
    then have "c \<in> tree_nodes_of v" using tree_node_iff [OF assms, of c] by blast
    moreover have "n_already c" using p by (simp add: node_at_def)
    ultimately show "c \<in> set ?C" by (simp add: tree_nodes_of_def)
  qed
  have "n_path ` set ?C = {p. \<exists>h n. value_at v p = Some (JRef h n)}" using mem by (force simp: image_iff)
  then show ?thesis unfolding cut_inv_def cut_start_def using mem ref_spread [of v] by (auto simp: Let_def)
qed

lemma cut_choice_ends:
  assumes "wf_val v"
  shows "\<exists>C. cut_choice v target = Some C \<and> cut_inv v C"
proof -
  have "\<exists>C. cut_rounds (length (collect (buildTree v [] 0)) + 2) v (collect (buildTree v [] 0)) d target (cut_start (buildTree v [] 0)) = Some C \<and> cut_inv v C" for d
    by (rule cut_rounds_ends [OF assms _ start_inv [OF assms]]) (simp_all add: tree_nodes_of_def)
  then show ?thesis by (simp add: cut_choice_def Let_def)
qed

subsection \<open>Taking out\<close>

definition gone_at :: "path set \<Rightarrow> edits" where
  "gone_at P p = (if p \<in> P then Some Gone else None)"

lemma cut_node_edited:
  assumes "wf_val v" "value_at v (n_path n) \<noteq> None" "n_path n \<noteq> []" "clear f (n_path n)"
  shows "cut_node n (edited f v) = edited (f(n_path n := Some Gone)) v"
proof (cases "n_already n")
  case True
  have "clear (f(n_path n := Some (Put JNull))) (n_path n)" using assms(4) by (auto simp: clear_iff)
  then show ?thesis
    using True assms Place_edited [OF assms(1-4), of JNull] removeAt_edited [OF assms(1-3), of "f(n_path n := Some (Put JNull))"]
    by (simp add: cut_node_def)
next
  case False
  then show ?thesis using assms removeAt_edited [OF assms] by (simp add: cut_node_def)
qed

lemma fold_cut_nodes:
  assumes "wf_val v" "\<And>n. n \<in> set ns \<Longrightarrow> n_path n \<noteq> [] \<and> value_at v (n_path n) \<noteq> None" "spread (n_path ` set ns \<union> P)"
  shows "fold cut_node ns (edited (gone_at P) v) = edited (gone_at (P \<union> n_path ` set ns)) v"
  using assms(2,3)
proof (induction ns arbitrary: P)
  case (Cons n ns)
  have n: "n_path n \<noteq> []" "value_at v (n_path n) \<noteq> None" using Cons.prems(1) by auto
  have "clear (gone_at P) (n_path n)" using Cons.prems(2) unfolding clear_iff gone_at_def spread_def by auto
  then have "cut_node n (edited (gone_at P) v) = edited ((gone_at P)(n_path n := Some Gone)) v"
    by (rule cut_node_edited [OF assms(1) n(2,1)])
  moreover have "(gone_at P)(n_path n := Some Gone) = gone_at (insert (n_path n) P)" by (auto simp: gone_at_def fun_eq_iff)
  moreover have "fold cut_node ns (edited (gone_at (insert (n_path n) P)) v) = edited (gone_at (insert (n_path n) P \<union> n_path ` set ns)) v"
    using Cons.prems by (intro Cons.IH) (auto simp: insert_commute Un_commute)
  ultimately show ?case by (simp add: insert_commute Un_commute)
qed (simp add: gone_at_def)

lemma edited_nothing: "wf_val v \<Longrightarrow> edited (gone_at {}) v = v"
  by (rule edited_same) (auto simp: gone_at_def)

definition cut_places :: "cnode list \<Rightarrow> path set" where
  "cut_places C = n_path ` set C"

lemma root_cut: "spread P \<Longrightarrow> [] \<in> P \<Longrightarrow> P = {[]}"
  unfolding spread_def by (auto; metis append_Nil)

lemma applyCut_out:
  assumes "wf_val v" "cut_inv v C" "C \<noteq> []"
  shows "fst (applyCut H v C) = (if [] \<in> cut_places C then JNull else edited (gone_at (cut_places C)) v)"
proof -
  let ?ns = "pickedInCutOrder C"
  have set_ns: "set ?ns = set C" by (simp add: pickedInCutOrder_def)
  show ?thesis
  proof (cases "[] \<in> cut_places C")
    case True
    then have "cut_places C = {[]}" using assms(2) root_cut by (auto simp: cut_inv_def cut_places_def)
    then have "\<forall>n \<in> set ?ns. n_path n = []" using set_ns by (auto simp: cut_places_def)
    moreover have "?ns \<noteq> []" using assms(3) set_ns by auto
    moreover have "\<forall>n \<in> set ns. n_path n = [] \<Longrightarrow> ns \<noteq> [] \<Longrightarrow> fold cut_node ns w = JNull" for ns w
      by (induction ns arbitrary: w rule: induct_list012) (auto simp: cut_node_def)
    ultimately show ?thesis using True by (simp add: applyCut_def Let_def)
  next
    case False
    have "fold cut_node ?ns (edited (gone_at {}) v) = edited (gone_at ({} \<union> n_path ` set ?ns)) v"
    proof (rule fold_cut_nodes [OF assms(1)])
      show "n_path n \<noteq> [] \<and> value_at v (n_path n) \<noteq> None" if "n \<in> set ?ns" for n
      proof -
        have n: "n \<in> set C" using that set_ns by simp
        then have "n_path n \<in> cut_places C" by (simp add: cut_places_def)
        then have "n_path n \<noteq> []" using False by metis
        then show ?thesis using n assms(2) by (simp add: cut_inv_def)
      qed
      show "spread (n_path ` set ?ns \<union> {})" using assms(2) by (simp add: set_ns cut_inv_def)
    qed
    then show ?thesis using False edited_nothing [OF assms(1)] by (simp add: applyCut_def Let_def set_ns cut_places_def)
  qed
qed

subsection \<open>What is left in the row\<close>

lemma marker_free_iff: "wf_val v \<Longrightarrow> marker_free v \<longleftrightarrow> (\<forall>p h n. value_at v p \<noteq> Some (JRef h n))"
proof (induction v)
  case (JArr xs)
  then have ih: "marker_free x \<longleftrightarrow> (\<forall>p h n. value_at x p \<noteq> Some (JRef h n))" if "x \<in> set xs" for x using that by (auto simp: list_all_iff)
  have "(\<exists>p h n. value_at (JArr xs) p = Some (JRef h n)) \<longleftrightarrow> (\<exists>i < length xs. \<exists>p h n. value_at (xs ! i) p = Some (JRef h n))"
  proof
    assume "\<exists>p h n. value_at (JArr xs) p = Some (JRef h n)"
    then obtain p h n where p: "value_at (JArr xs) p = Some (JRef h n)" by blast
    then show "\<exists>i < length xs. \<exists>p h n. value_at (xs ! i) p = Some (JRef h n)"
    proof (cases p)
      case (Cons e q)
      then obtain i where "e = PIdx i" "in_range i xs" "value_at (xs ! nat i) q = Some (JRef h n)"
        using p by (cases e) (auto split: if_splits)
      moreover from this have "nat i < length xs" unfolding in_range_def by linarith
      ultimately show ?thesis by blast
    qed (use p in simp)
  next
    assume "\<exists>i < length xs. \<exists>p h n. value_at (xs ! i) p = Some (JRef h n)"
    then obtain i p h n where "i < length xs" "value_at (xs ! i) p = Some (JRef h n)" by blast
    then show "\<exists>p h n. value_at (JArr xs) p = Some (JRef h n)" by (intro exI [of _ "PIdx (int i) # p"]) (simp add: in_range_def)
  qed
  then have "(\<forall>p h n. value_at (JArr xs) p \<noteq> Some (JRef h n)) \<longleftrightarrow> (\<forall>x \<in> set xs. \<forall>p h n. value_at x p \<noteq> Some (JRef h n))"
    by (metis in_set_conv_nth)
  then show ?case using ih by (simp add: list_all_iff del: value_at.simps)
next
  case (JObj kvs)
  then have ih: "marker_free x \<longleftrightarrow> (\<forall>p h n. value_at x p \<noteq> Some (JRef h n))" if "(k, x) \<in> set kvs" for k x
    using that by (fastforce simp: list_all_iff)
  have "(\<exists>p h n. value_at (JObj kvs) p = Some (JRef h n)) \<longleftrightarrow> (\<exists>(k, x) \<in> set kvs. \<exists>p h n. value_at x p = Some (JRef h n))"
  proof
    assume "\<exists>p h n. value_at (JObj kvs) p = Some (JRef h n)"
    then obtain p h n where p: "value_at (JObj kvs) p = Some (JRef h n)" by blast
    then show "\<exists>(k, x) \<in> set kvs. \<exists>p h n. value_at x p = Some (JRef h n)"
    proof (cases p)
      case (Cons e q)
      then obtain k x where "(k, x) \<in> set kvs" "value_at x q = Some (JRef h n)"
        using p by (cases e) (auto split: option.splits dest: map_of_SomeD)
      then show ?thesis by blast
    qed (use p in simp)
  next
    assume "\<exists>(k, x) \<in> set kvs. \<exists>p h n. value_at x p = Some (JRef h n)"
    then obtain k x p h n where "(k, x) \<in> set kvs" "value_at x p = Some (JRef h n)" by blast
    then show "\<exists>p h n. value_at (JObj kvs) p = Some (JRef h n)"
      using JObj.prems by (intro exI [of _ "PKey k # p"]) (simp add: lookup_distinct)
  qed
  then have "(\<forall>p h n. value_at (JObj kvs) p \<noteq> Some (JRef h n)) \<longleftrightarrow> (\<forall>(k, x) \<in> set kvs. \<forall>p h n. value_at x p \<noteq> Some (JRef h n))"
    by blast
  then show ?case using ih by (fastforce simp: list_all_iff simp del: value_at.simps)
qed (auto intro: exI [of _ "[]"] elim: value_at.elims)

lemma edit_cell_cases:
  assumes "edit_cell f e x = Some w"
  obtains "f [e] = Some (Put w)" | "f [e] = None" "w = edited (under e f) x"
  using assms by (auto simp: edit_cell_def split: option.splits edit.splits)

lemma edited_fields_mem: "(k, w) \<in> set (edit_fields f kvs) \<Longrightarrow> \<exists>x. (k, x) \<in> set kvs \<and> edit_cell f (PKey k) x = Some w"
proof (induction kvs)
  case (Cons kv kvs)
  obtain l x where kv: "kv = (l, x)" by (cases kv)
  show ?case
  proof (cases "(k, w) \<in> set (edit_fields f kvs)")
    case True
    then show ?thesis using Cons.IH by (meson list.set_intros(2))
  next
    case False
    then have "k = l" "edit_cell f (PKey l) x = Some w" using Cons.prems unfolding kv edit_fields_Cons by (auto split: option.splits)
    then show ?thesis using kv by auto
  qed
qed simp

lemma edited_items_mem: "w \<in> set (edit_items f i xs) \<Longrightarrow> w = JNull \<or> (\<exists>j < length xs. edit_cell f (PIdx (i + int j)) (xs ! j) = Some w)"
  by (auto simp: in_set_conv_nth edit_items_nth split: option.splits)

text \<open>A predicate that holds of a container when it holds of its members survives removals.\<close>

lemma edited_gone_induct:
  assumes wf: "wf_val v" and leaf: "\<And>x. (\<nexists>kvs. x = JObj kvs) \<Longrightarrow> (\<nexists>xs. x = JArr xs) \<Longrightarrow> x \<noteq> JNull \<Longrightarrow> Q x \<Longrightarrow> P x"
    and null: "P JNull"
    and obj: "\<And>kvs. sorted_keys kvs \<Longrightarrow> (\<And>k x. (k, x) \<in> set kvs \<Longrightarrow> P x) \<Longrightarrow> P (JObj kvs)"
    and arr: "\<And>xs. (\<And>x. x \<in> set xs \<Longrightarrow> P x) \<Longrightarrow> P (JArr xs)"
    and ok: "\<And>p x. value_at v p = Some x \<Longrightarrow> p = [] \<or> f p = None \<Longrightarrow> Q x" and gone: "\<And>p w. f p \<noteq> Some (Put w)"
  shows "P (edited f v)"
  using wf ok gone
proof (induction v arbitrary: f)
  case (JArr xs)
  have "P w" if w: "w \<in> set (edit_items f 0 xs)" for w
  proof (cases "w = JNull")
    case False
    then obtain j where j: "j < length xs" "edit_cell f (PIdx (int j)) (xs ! j) = Some w" using edited_items_mem [OF w] by auto
    then have jj: "f [PIdx (int j)] = None" "w = edited (under (PIdx (int j)) f) (xs ! j)"
      using JArr.prems(3) by (auto elim!: edit_cell_cases)
    have "P (edited (under (PIdx (int j)) f) (xs ! j))"
    proof (rule JArr.IH)
      show "xs ! j \<in> set xs" "wf_val (xs ! j)" using j(1) JArr.prems(1) by (auto simp: list_all_iff)
      show "Q x" if "value_at (xs ! j) p = Some x" "p = [] \<or> under (PIdx (int j)) f p = None" for p x
        using that j(1) jj(1) by (intro JArr.prems(2) [of "PIdx (int j) # p"]) (auto simp: in_range_def under_def)
      show "under (PIdx (int j)) f p \<noteq> Some (Put w)" for p w using JArr.prems(3) by (simp add: under_def)
    qed
    then show ?thesis using jj by simp
  qed (simp add: null)
  then show ?case by (simp add: arr)
next
  case (JObj kvs)
  have "P w" if w: "(k, w) \<in> set (edit_fields f kvs)" for k w
  proof -
    obtain x where x: "(k, x) \<in> set kvs" "edit_cell f (PKey k) x = Some w" using edited_fields_mem [OF w] by blast
    then have xx: "f [PKey k] = None" "w = edited (under (PKey k) f) x" using JObj.prems(3) by (auto elim!: edit_cell_cases)
    have m: "map_of kvs k = Some x" using JObj.prems(1) x(1) by (simp add: lookup_distinct)
    have "P (edited (under (PKey k) f) x)"
    proof (rule JObj.IH)
      show "(k, x) \<in> set kvs" "x \<in> Basic_BNFs.snds (k, x)" "wf_val x" using x(1) JObj.prems(1) by (auto simp: list_all_iff)
      show "Q y" if "value_at x p = Some y" "p = [] \<or> under (PKey k) f p = None" for p y
        using that m xx(1) by (intro JObj.prems(2) [of "PKey k # p"]) (auto simp: under_def)
      show "under (PKey k) f p \<noteq> Some (Put w)" for p w using JObj.prems(3) by (simp add: under_def)
    qed
    then show ?thesis using xx by simp
  qed
  then show ?case using JObj.prems(1) by (simp add: obj edit_fields_sorted)
next
  case (JBool b)
  show ?case using leaf [of "JBool b"] JBool(2) [of "[]"] by simp
next
  case (JNumber n)
  show ?case using leaf [of "JNumber n"] JNumber(2) [of "[]"] by simp
next
  case (JInt i)
  show ?case using leaf [of "JInt i"] JInt(2) [of "[]"] by simp
next
  case (JStr t)
  show ?case using leaf [of "JStr t"] JStr(2) [of "[]"] by simp
next
  case (JRef h n)
  show ?case using leaf [of "JRef h n"] JRef(2) [of "[]"] by simp
qed (simp add: null)

lemma encodable_at: "encodable v \<Longrightarrow> value_at v p = Some x \<Longrightarrow> encodable x"
proof (induction p arbitrary: v)
  case (Cons e p)
  then obtain y where y: "value_at v [e] = Some y" "value_at y p = Some x"
    unfolding value_at_Cons [of v e p] by (cases "value_at v [e]") auto
  from y(1) have "encodable y"
    using Cons.prems(1) by (cases rule: value_at_cases) (auto simp: list_all_iff in_range_def dest: map_of_SomeD)
  then show ?case using Cons.IH y(2) by blast
qed simp

lemma left_in_row:
  assumes "wf_val v" "encodable v" "cut_inv v C" "[] \<notin> cut_places C"
  shows "wf_val (edited (gone_at (cut_places C)) v) \<and> encodable (edited (gone_at (cut_places C)) v) \<and> marker_free (edited (gone_at (cut_places C)) v)"
proof (intro conjI)
  let ?f = "gone_at (cut_places C)"
  have gone: "?f p \<noteq> Some (Put w)" for p w by (simp add: gone_at_def)
  show "wf_val (edited ?f v)" by (rule edited_gone_induct [OF assms(1), of "\<lambda>_. True"]) (auto simp: list_all_iff gone intro: wf_val.elims(3))
  show "encodable (edited ?f v)"
    by (rule edited_gone_induct [OF assms(1), of encodable]) (auto simp: list_all_iff gone intro: encodable_at [OF assms(2)])
  have none: "\<nexists>h n. x = JRef h n" if "value_at v p = Some x" "p = [] \<or> ?f p = None" for p x
    using that assms(3,4) by (auto simp: cut_inv_def gone_at_def cut_places_def split: if_splits)
  show "marker_free (edited ?f v)"
  proof (rule edited_gone_induct [OF assms(1), of "\<lambda>x. \<nexists>h n. x = JRef h n"])
    show "marker_free x" if "\<nexists>kvs. x = JObj kvs" "\<nexists>xs. x = JArr xs" "\<nexists>h n. x = JRef h n" for x using that by (cases x) auto
    show "\<nexists>h n. x = JRef h n" if "value_at v p = Some x" "p = [] \<or> ?f p = None" for p x using none [OF that] .
  qed (auto simp: list_all_iff gone)
qed

lemma stored_edited:
  "(\<And>p w. f p \<noteq> Some (Put w)) \<Longrightarrow> stored (edited f v) = edited f (stored v)"
  "(\<And>p w. f p \<noteq> Some (Put w)) \<Longrightarrow> map (\<lambda>(k, v). (k, stored v)) (edit_fields f kvs) = edit_fields f (map (\<lambda>(k, v). (k, stored v)) kvs)"
  "(\<And>p w. f p \<noteq> Some (Put w)) \<Longrightarrow> map stored (edit_items f i xs) = edit_items f i (map stored xs)"
proof (induction f v and f kvs and f i xs rule: edited_edit_fields_edit_items.induct)
  case (5 f k v kvs)
  have u: "under (PKey k) f p \<noteq> Some (Put w)" for p w using 5 by (simp add: under_def)
  show ?case using 5 u by (auto split: option.splits edit.splits)
next
  case (7 f i x xs)
  have u: "under (PIdx i) f p \<noteq> Some (Put w)" for p w using 7 by (simp add: under_def)
  show ?case using 7 u by (auto split: option.splits edit.splits)
qed simp_all

lemma value_at_stored: "value_at (stored v) p = map_option stored (value_at v p)"
proof (induction p arbitrary: v)
  case (Cons e p)
  have m: "map_of (map (\<lambda>(k, v). (k, stored v)) kvs) k = map_option stored (map_of kvs k)" for kvs k by (induction kvs) auto
  show ?case using Cons.IH by (cases v; cases e) (auto simp: m in_range_def nth_map split: option.splits)
qed simp

lemma wf_stored: "wf_val v \<Longrightarrow> wf_val (stored v)"
proof (induction v)
  case (JObj kvs)
  then show ?case by (fastforce simp: list_all_iff sorted_keys_def comp_def case_prod_beta)
qed (auto simp: list_all_iff)

subsection \<open>Putting back\<close>

text \<open>An edit that puts at each place something of the same full value keeps the full value.\<close>

lemma full_edited:
  assumes "wf_val v" "\<And>p c. p \<noteq> [] \<Longrightarrow> f p = Some c \<Longrightarrow> \<exists>w x. c = Put w \<and> value_at v p = Some x \<and> full load w = full load x"
  shows "full load (edited f v) = full load v"
  using assms
proof (induction v arbitrary: f)
  case (JArr xs)
  have cell: "\<exists>w. edit_cell f (PIdx (int j)) (xs ! j) = Some w \<and> full load w = full load (xs ! j)" if j: "j < length xs" for j
  proof (cases "f [PIdx (int j)]")
    case None
    have "full load (edited (under (PIdx (int j)) f) (xs ! j)) = full load (xs ! j)"
      using JArr.prems j by (intro JArr.IH) (fastforce simp: list_all_length under_def in_range_def)+
    then show ?thesis using None by (simp add: edit_cell_def)
  next
    case (Some c)
    then show ?thesis using JArr.prems(2) [of "[PIdx (int j)]" c] j by (auto simp: edit_cell_def in_range_def)
  qed
  have items: "full_items load ys = full_items load zs" if "length ys = length zs" "\<forall>j < length zs. full load (ys ! j) = full load (zs ! j)" for ys zs
    using that
  proof (induction ys zs rule: list_induct2)
    case (Cons y ys z zs)
    have "full load y = full load z" "\<forall>j < length zs. full load (ys ! j) = full load (zs ! j)"
      using Cons.prems by force+
    then show ?case using Cons.IH by (simp cong: sum.case_cong)
  qed simp
  have "full_items load (edit_items f 0 xs) = full_items load xs"
  proof (intro items allI impI)
    fix j assume "j < length xs"
    then show "full load (edit_items f 0 xs ! j) = full load (xs ! j)" using cell [of j] by (auto simp: edit_items_nth)
  qed simp
  then show ?case by simp
next
  case (JObj kvs)
  have cell: "\<exists>w. edit_cell f (PKey k) x = Some w \<and> full load w = full load x" if kx: "(k, x) \<in> set kvs" for k x
  proof (cases "f [PKey k]")
    case None
    have m: "map_of kvs k = Some x" using JObj.prems(1) kx by (simp add: lookup_distinct)
    have "full load (edited (under (PKey k) f) x) = full load x"
      using JObj.prems kx m by (intro JObj.IH [of "(k, x)"]) (fastforce simp: list_all_iff under_def)+
    then show ?thesis using None by (simp add: edit_cell_def)
  next
    case (Some c)
    have m: "map_of kvs k = Some x" using JObj.prems(1) kx by (simp add: lookup_distinct)
    then show ?thesis using JObj.prems(2) [of "[PKey k]" c] Some by (auto simp: edit_cell_def)
  qed
  have step: "full_fields load (edit_fields f kvs) = full_fields load kvs"
    if "\<forall>(k, x) \<in> set kvs. \<exists>w. edit_cell f (PKey k) x = Some w \<and> full load w = full load x" for kvs
    using that
  proof (induction kvs)
    case (Cons kv kvs)
    obtain k x where kv: "kv = (k, x)" by (cases kv)
    then obtain w where "edit_cell f (PKey k) x = Some w" "full load w = full load x" using Cons.prems by auto
    then show ?case using Cons unfolding kv edit_fields_Cons by (simp cong: sum.case_cong)
  qed simp
  have "full_fields load (edit_fields f kvs) = full_fields load kvs" by (rule step) (use cell in blast)
  then show ?case by simp
qed simp_all

definition marker :: "objref \<Rightarrow> jval" where
  "marker r = JRef (ref_hash r) (ref_size r)"

lemma restore_marker: "restore rs v = place_all (map (\<lambda>r. (ref_path r, marker r)) rs) v"
  by (simp add: restore_def marker_def)

text \<open>Attaching the references of one slot to its decoded column.\<close>

definition attach :: "objref \<Rightarrow> jval \<Rightarrow> jval" where
  "attach r v = (if ref_path r = [] then marker r else fst (Place v (ref_path r) (marker r)))"

definition reattach :: "objref list \<Rightarrow> jval \<Rightarrow> jval" where
  "reattach refs v = fold attach refs v"

lemma reattach_root: "\<forall>r \<in> set refs. ref_path r = [] \<Longrightarrow> refs \<noteq> [] \<Longrightarrow> reattach refs v = marker (last refs)"
  by (induction refs arbitrary: v) (auto simp: reattach_def attach_def)

lemma reattach_inner: "\<forall>r \<in> set refs. ref_path r \<noteq> [] \<Longrightarrow> reattach refs v = restore refs v"
  unfolding restore_marker place_all_def reattach_def by (induction refs arbitrary: v) (auto simp: attach_def)

definition loads_pending :: "loader \<Rightarrow> pending_object list \<Rightarrow> bool" where
  "loads_pending load objs \<longleftrightarrow> (\<forall>ob \<in> set objs. load (po_Hash ob) = Decode (po_Content ob))"

lemma chosen_content:
  assumes "wf_val v" "encodable v" "cut_inv v C" "n \<in> set C" "loads_pending load (snd (snd (applyCut H v C)))"
  shows "full load (marker (cut_ref H n)) = full load (stored (the (value_at v (n_path n))))"
proof -
  obtain x where x: "value_at v (n_path n) = Some x" "n = node_at v (n_path n)" using assms(3,4) by (auto simp: cut_inv_def)
  then have nx: "n_value n = x" by (metis node_at_simps(3) option.sel)
  show ?thesis
  proof (cases "\<exists>h s. x = JRef h s")
    case True
    then obtain h s where "x = JRef h s" by blast
    then have "n_value n = JRef h s" "value_at v (n_path n) = Some (JRef h s)" using nx x(1) by simp_all
    then show ?thesis by (simp add: cut_ref_def marker_def)
  next
    case False
    have "marker_free x"
    proof -
      have "value_at x q \<noteq> Some (JRef h s)" for q h s
      proof
        assume q: "value_at x q = Some (JRef h s)"
        then have "n_path n @ q \<in> n_path ` set C" using assms(3) x(1) by (simp add: cut_inv_def value_at_append)
        moreover have "q \<noteq> []" using q False by auto
        moreover have "n_path n \<in> n_path ` set C" using assms(4) by simp
        ultimately show False using assms(3) unfolding cut_inv_def spread_def by blast
      qed
      then show ?thesis using marker_free_iff [OF wf_value_at [OF assms(1) x(1)]] by blast
    qed
    then have dec: "Decode (text_of x) = Some (stored x)" using Decode_Marshal encodable_at [OF assms(2) x(1)] wf_value_at [OF assms(1) x(1)] by blast
    have "\<not> n_already n" using x False by (metis buildTree_simps(4) node_at_def option.sel)
    then have "cut_object H n \<in> set (snd (snd (applyCut H v C)))" using assms(4) by (auto simp: applyCut_def Let_def pickedInCutOrder_def)
    then have "load (H (text_of x)) = Some (stored x)" using assms(5) dec nx by (auto simp: loads_pending_def cut_object_def Let_def)
    moreover have "marker (cut_ref H n) = JRef (H (text_of x)) (int (length (text_of x)))"
      using False nx by (cases x) (auto simp: cut_ref_def marker_def)
    moreover have "full load (stored x) = Inr (stored x)"
    proof (rule full_marker_free(1))
      have "\<forall>p h n. value_at (stored x) p \<noteq> Some (JRef h n)"
      proof (intro allI notI)
        fix p h n assume "value_at (stored x) p = Some (JRef h n)"
        then obtain y where "value_at x p = Some y" "stored y = JRef h n" unfolding value_at_stored by auto
        then show False using \<open>marker_free x\<close> marker_free_iff [OF wf_value_at [OF assms(1) x(1)]] by (cases y) (auto split: if_splits)
      qed
      then show "marker_free (stored x)" using marker_free_iff [OF wf_stored [OF wf_value_at [OF assms(1) x(1)]]] by blast
    qed
    ultimately show ?thesis using x(1) by simp
  qed
qed

lemma applyCut_refs: "set (fst (snd (applyCut H v C))) = cut_ref H ` set C"
  by (simp add: applyCut_def Let_def pickedInCutOrder_def)

lemma cut_ref_path [simp]: "ref_path (cut_ref H n) = n_path n"
  by (simp add: cut_ref_def split: jval.splits)

lemma applyCut_roundtrip:
  assumes "wf_val v" "encodable v" "cut_inv v C" "C \<noteq> []" "loads_pending load (snd (snd (applyCut H v C)))"
  shows "full load (reattach (fst (snd (applyCut H v C))) (stored (fst (applyCut H v C)))) = full load (stored v)"
proof (cases "[] \<in> cut_places C")
  case True
  let ?refs = "fst (snd (applyCut H v C))"
  have "\<forall>r \<in> set ?refs. ref_path r = []"
    using True root_cut [of "cut_places C"] assms(3) by (auto simp: applyCut_refs cut_inv_def cut_places_def)
  moreover have "?refs \<noteq> []" using assms(4) applyCut_refs [of H v C] by auto
  ultimately have r: "reattach ?refs v' = marker (last ?refs)" "last ?refs \<in> set ?refs" for v' by (simp_all add: reattach_root)
  then obtain n where n: "n \<in> set C" "last ?refs = cut_ref H n" by (auto simp: applyCut_refs)
  have "n_path n = []" using True root_cut [of "cut_places C"] assms(3) n(1) by (auto simp: cut_inv_def cut_places_def)
  then show ?thesis using r(1) n chosen_content [OF assms(1-3) n(1) assms(5)] by simp
next
  case False
  let ?refs = "fst (snd (applyCut H v C))"
  let ?f = "gone_at (cut_places C)"
  let ?ps = "map (\<lambda>r. (ref_path r, marker r)) ?refs"
  have out: "stored (fst (applyCut H v C)) = edited ?f (stored v)"
    unfolding applyCut_out [OF assms(1,3,4)] using False stored_edited(1) [of ?f v] by (simp add: gone_at_def)
  have ps: "set ?ps = (\<lambda>n. (n_path n, marker (cut_ref H n))) ` set C" using applyCut_refs [of H v C] by (auto simp: image_image)
  have dom: "fst ` set ?ps = cut_places C" unfolding ps cut_places_def by (auto simp: image_image)
  have at: "value_at (stored v) p \<noteq> None" if "p \<in> cut_places C" for p using that assms(3) by (auto simp: cut_inv_def cut_places_def value_at_stored)
  have sp: "spread (cut_places C)" using assms(3) by (simp add: cut_inv_def cut_places_def)
  have "\<forall>r \<in> set ?refs. ref_path r \<noteq> []"
    using False unfolding applyCut_refs cut_places_def by (metis (no_types, lifting) cut_ref_path image_iff)
  then have "reattach ?refs (stored (fst (applyCut H v C))) = place_all ?ps (edited ?f (stored v))"
    unfolding out by (simp add: reattach_inner restore_marker)
  also have "\<dots> = edited (put_all ?ps ?f) (stored v)"
  proof (rule place_all_edited [OF wf_stored [OF assms(1)]])
    show "p \<noteq> [] \<and> value_at (stored v) p \<noteq> None \<and> clear ?f p" if "p \<in> fst ` set ?ps" for p
      using that dom at False sp unfolding clear_iff spread_def gone_at_def by auto
    show "spread (fst ` set ?ps)" using sp dom by simp
  qed
  also have "full load \<dots> = full load (stored v)"
  proof (rule full_edited [OF wf_stored [OF assms(1)]])
    fix p c assume c: "put_all ?ps ?f p = Some c"
    have "p \<in> fst ` set ?ps"
    proof (rule ccontr)
      assume "p \<notin> fst ` set ?ps"
      then show False using put_all_other [of p ?ps ?f] c dom by (simp add: gone_at_def)
    qed
    then obtain w where "(p, w) \<in> set ?ps" "c = Put w" using put_all_in [of p ?ps ?f] c by auto
    then obtain n where n: "n \<in> set C" "p = n_path n" "c = Put (marker (cut_ref H n))" unfolding ps by auto
    then have "value_at (stored v) p = Some (stored (the (value_at v p)))" using assms(3) by (auto simp: cut_inv_def value_at_stored)
    then show "\<exists>w x. c = Put w \<and> value_at (stored v) p = Some x \<and> full load w = full load x"
      using n chosen_content [OF assms(1-3) n(1) assms(5)] by auto
  qed
  finally show ?thesis .
qed

subsection \<open>One slot\<close>

lemma cutForSize_cases:
  assumes "wf_val v" "encodable v"
  obtains "cutForSize H v target = Some (v, [], [])" "marker_free v"
    | C where "cutForSize H v target = Some (applyCut H v C)" "cut_inv v C" "C \<noteq> []"
proof -
  obtain C where C: "cut_choice v target = Some C" "cut_inv v C" using cut_choice_ends [OF assms(1)] by blast
  show thesis
  proof (cases "C = []")
    case True
    then have "marker_free v" using C(2) marker_free_iff [OF assms(1)] by (auto simp: cut_inv_def)
    then show thesis using that(1) True C assms(2) by (simp add: cutForSize_def)
  next
    case False
    then show thesis using that(2) C assms(2) by (cases C) (auto simp: cutForSize_def)
  qed
qed

lemma cutSlot_not_ref: "\<nexists>h n. v = JRef h n \<Longrightarrow> cutSlot H v =
    (case cutForSize H v contextObjectThreshold of
       None \<Rightarrow> None
     | Some (stripped, refs, pending) \<Rightarrow> if refs = [] then Some (v, [], []) else Some (stripped, refs, pending))"
  by (cases v; hypsubst) (simp_all add: cutSlot_def)

lemma cutSlot_roundtrip:
  assumes "wf_val v" "encodable v"
  obtains out refs objs where "cutSlot H v = Some (out, refs, objs)" "wf_val out" "encodable out" "marker_free out"
    "\<And>load. loads_pending load objs \<Longrightarrow> full load (reattach refs (stored out)) = full load (stored v)"
    "\<And>p h n. value_at v p = Some (JRef h n) \<Longrightarrow> h \<in> ref_hash ` set refs"
    "spread (ref_path ` set refs)" "\<And>r. r \<in> set refs \<Longrightarrow> ref_path r = [] \<or> value_at v (ref_path r) \<noteq> None"
proof (cases "\<exists>h n. v = JRef h n")
  case True
  then obtain h n where v: "v = JRef h n" by blast
  show ?thesis
  proof (rule that)
    show "cutSlot H v = Some (JNull, [\<lparr>ref_hash = h, ref_size = n, ref_path = []\<rparr>], [])" by (simp add: v cutSlot_def)
    show "h' \<in> ref_hash ` set [\<lparr>ref_hash = h, ref_size = n, ref_path = []\<rparr>]" if "value_at v p = Some (JRef h' n')" for p h' n'
      using that unfolding v by (cases p) auto
  qed (simp_all add: v reattach_def attach_def marker_def spread_def)
next
  case False
  from assms show ?thesis
  proof (cases rule: cutForSize_cases [of v H contextObjectThreshold])
    case 1
    show ?thesis
    proof (rule that)
      show "cutSlot H v = Some (v, [], [])" by (simp add: cutSlot_not_ref [OF False] 1(1))
      show "h \<in> ref_hash ` set []" if "value_at v p = Some (JRef h n)" for p h n using that 1(2) marker_free_iff [OF assms(1)] by blast
    qed (use 1(2) assms in \<open>simp_all add: reattach_def restore_def place_all_def spread_def\<close>)
  next
    case (2 C)
    obtain out refs objs where a: "applyCut H v C = (out, refs, objs)" by (cases "applyCut H v C") auto
    have refs: "set refs = cut_ref H ` set C" using applyCut_refs [of H v C] a by simp
    then have ne: "refs \<noteq> []" using 2(3) by auto
    have o: "out = (if [] \<in> cut_places C then JNull else edited (gone_at (cut_places C)) v)" using applyCut_out [OF assms(1) 2(2,3), of H] a by simp
    have left: "wf_val out \<and> encodable out \<and> marker_free out" using left_in_row [OF assms 2(2)] unfolding o by auto
    have paths: "ref_path ` set refs = n_path ` set C" unfolding refs by (auto simp: image_image)
    show ?thesis
    proof (rule that)
      show "cutSlot H v = Some (out, refs, objs)" using ne by (simp add: cutSlot_not_ref [OF False] 2(1) a)
      show "h \<in> ref_hash ` set refs" if p: "value_at v p = Some (JRef h n)" for p h n
      proof -
        have "p \<in> n_path ` set C" using 2(2) p unfolding cut_inv_def by blast
        then obtain c where c: "c \<in> set C" "p = n_path c" by blast
        then have "c = node_at v p" using 2(2) unfolding cut_inv_def by blast
        then have "n_value c = JRef h n" using p by simp
        then have "ref_hash (cut_ref H c) = h" by (simp add: cut_ref_def)
        then show ?thesis unfolding refs using c(1) by blast
      qed
      show "full load (reattach refs (stored out)) = full load (stored v)" if "loads_pending load objs" for load
        using applyCut_roundtrip [OF assms 2(2,3), of load H] a that by simp
      show "spread (ref_path ` set refs)" using 2(2) unfolding paths cut_inv_def by blast
      show "ref_path r = [] \<or> value_at v (ref_path r) \<noteq> None" if "r \<in> set refs" for r
        using that 2(2) unfolding refs cut_inv_def by auto
    qed (use left in simp_all)
  qed
qed

end
