(* ===== verification/State_Codec.thy ===== *)
theory State_Codec
  imports Cut_Props
begin

text \<open>
  How an instance's state is stored and read back (\<open>encodeState\<close> and \<open>decodeState\<close> of
  \<open>db/db_instances.go\<close>): each value slot is cut on its own into a column of JSON, and one list names
  every reference by its path from the context's root. The bookkeeping keys of the state map are
  kept apart, as the record \<open>engine_state\<close>.
\<close>

type_synonym state = "(string \<times> jval) list"

definition slot_keys :: "string list" where
  "slot_keys = [''input'', ''outputs'', ''output'', ''last_error'', ''_error_data'', ''external_input'']"

definition joinPath :: "path \<Rightarrow> objref \<Rightarrow> objref" where
  "joinPath root r = r\<lparr>ref_path := root @ ref_path r\<rparr>"

type_synonym cut_column = "string \<times> objref list \<times> pending_object list"

text \<open>The function \<open>cut\<close> inside \<open>encodeState\<close>.\<close>

definition cut_col :: "(string \<Rightarrow> string) \<Rightarrow> path \<Rightarrow> jval \<Rightarrow> cut_column option" where
  "cut_col H root v =
     (case cutSlot H v of
        None \<Rightarrow> None
      | Some (stripped, refs, objs) \<Rightarrow>
          (case Marshal stripped of
             None \<Rightarrow> None
           | Some b \<Rightarrow> Some (b, map (joinPath root) refs, objs)))"

fun cut_outputs :: "(string \<Rightarrow> string) \<Rightarrow> (string \<times> jval) list
    \<Rightarrow> ((string \<times> string) list \<times> objref list \<times> pending_object list) option" where
  "cut_outputs H [] = Some ([], [], [])"
| "cut_outputs H ((k, v) # kvs) =
     (case cut_col H [PKey ''outputs'', PKey k] v of
        None \<Rightarrow> None
      | Some (b, refs, objs) \<Rightarrow>
          (case cut_outputs H kvs of
             None \<Rightarrow> None
           | Some (items, refs', objs') \<Rightarrow> Some ((k, b) # items, refs @ refs', objs @ objs')))"

text \<open>\<open>outputsColumn\<close> as JSON: the items, each already JSON, left out when there is none.\<close>

definition outputs_text :: "(string \<times> string) list \<Rightarrow> string" where
  "outputs_text items =
     (if items = [] then ''{}''
      else ''{'' @ quoted ''items'' @ '':{'' @ joined (map (\<lambda>(k, b). quoted k @ CHR '':'' # b) items) @ ''}}'')"

definition encode_slot :: "(string \<Rightarrow> string) \<Rightarrow> state \<Rightarrow> string \<Rightarrow> cut_column option" where
  "encode_slot H cd key =
     (case map_of cd key of
        None \<Rightarrow> Some ([], [], [])
      | Some v \<Rightarrow>
          if key = ''outputs'' then
            (case v of
               JObj kvs \<Rightarrow> map_option (\<lambda>(items, refs, objs). (outputs_text items, refs, objs)) (cut_outputs H kvs)
             | _ \<Rightarrow> Some ([], [], []))
          else cut_col H [PKey key] v)"

fun encode_slots :: "(string \<Rightarrow> string) \<Rightarrow> state \<Rightarrow> string list \<Rightarrow> (string \<times> cut_column) list option" where
  "encode_slots H cd [] = Some []"
| "encode_slots H cd (k # ks) =
     (case encode_slot H cd k of
        None \<Rightarrow> None
      | Some c \<Rightarrow> (case encode_slots H cd ks of None \<Rightarrow> None | Some cs \<Rightarrow> Some ((k, c) # cs)))"

definition col_text :: "(string \<times> cut_column) list \<Rightarrow> string \<Rightarrow> string" where
  "col_text cs k = (case map_of cs k of None \<Rightarrow> [] | Some (b, _, _) \<Rightarrow> b)"

definition encodeState :: "(string \<Rightarrow> string) \<Rightarrow> engine_state \<Rightarrow> bool \<Rightarrow> state
    \<Rightarrow> (state_cols \<times> pending_object list \<times> string list) option" where
  "encodeState H es lost cd =
     (case encode_slots H cd slot_keys of
        None \<Rightarrow> None
      | Some cs \<Rightarrow>
          (let refs = concat (map (\<lambda>(_, _, refs, _). refs) cs) in
           Some (\<lparr>c_InputData = col_text cs ''input'', c_OutputsData = col_text cs ''outputs'',
                   c_OutputData = col_text cs ''output'', c_ErrorInternal = col_text cs ''last_error'',
                   c_ErrorData = col_text cs ''_error_data'', c_ExternalInput = col_text cs ''external_input'',
                   c_ExternalLost = lost, c_EngineState = es, c_Objects = refs\<rparr>,
                 concat (map (\<lambda>(_, _, _, objs). objs) cs),
                 map ref_hash refs)))"

subsection \<open>Reading back\<close>

text \<open>One column put into its slot; an empty column leaves the slot absent.\<close>

definition into :: "string \<Rightarrow> string \<Rightarrow> state \<Rightarrow> state option" where
  "into str key cd =
     (if str = [] then Some cd
      else (case Decode str of None \<Rightarrow> None | Some v \<Rightarrow> Some (obj_put key v cd)))"

definition outputs_items :: "jval \<Rightarrow> (string \<times> jval) list" where
  "outputs_items v =
     (case v of
        JObj kvs \<Rightarrow> (case map_of kvs ''items'' of Some (JObj items) \<Rightarrow> items | _ \<Rightarrow> [])
      | _ \<Rightarrow> [])"

definition into_outputs :: "string \<Rightarrow> state \<Rightarrow> state option" where
  "into_outputs str cd =
     (if str = [] then Some cd
      else (case Decode str of None \<Rightarrow> None | Some v \<Rightarrow> Some (obj_put ''outputs'' (JObj (outputs_items v)) cd)))"

definition place_ref :: "objref \<Rightarrow> state \<Rightarrow> state" where
  "place_ref r cd =
     (case ref_path r of
        [PKey k] \<Rightarrow> obj_put k (marker r) cd
      | p \<Rightarrow> (case fst (Place (JObj cd) p (marker r)) of JObj cd' \<Rightarrow> cd' | _ \<Rightarrow> cd))"

definition decodeState :: "state_cols \<Rightarrow> (state \<times> string list) option" where
  "decodeState r =
     Option.bind (into (c_InputData r) ''input'' []) (\<lambda>cd.
     Option.bind (into (c_OutputData r) ''output'' cd) (\<lambda>cd.
     Option.bind (into (c_ErrorInternal r) ''last_error'' cd) (\<lambda>cd.
     Option.bind (into (c_ErrorData r) ''_error_data'' cd) (\<lambda>cd.
     Option.bind (into_outputs (c_OutputsData r) cd) (\<lambda>cd.
     Option.bind (into (c_ExternalInput r) ''external_input'' cd) (\<lambda>cd.
       Some (fold place_ref (c_Objects r) cd, map ref_hash (c_Objects r))))))))"

subsection \<open>Maps up to their order of construction\<close>

lemma map_of_obj_put [simp]: "map_of (obj_put k v kvs) = (map_of kvs)(k \<mapsto> v)"
  by (induction kvs) (auto simp: fun_eq_iff)

lemma obj_put_keys: "fst ` set (obj_put k v kvs) = insert k (fst ` set kvs)"
proof (induction kvs)
  case (Cons kv kvs)
  obtain l x where kv: "kv = (l, x)" by (cases kv)
  consider "k = l" | "k \<noteq> l" "k < l" | "k \<noteq> l" "\<not> k < l" by blast
  then show ?case using Cons.IH by cases (simp_all add: kv insert_commute)
qed simp

lemma sorted_obj_put: "sorted_keys kvs \<Longrightarrow> sorted_keys (obj_put k v kvs)"
proof (induction kvs)
  case (Cons kv kvs)
  obtain l x where kv: "kv = (l, x)" by (cases kv)
  consider "k = l" | "k \<noteq> l" "k < l" | "k \<noteq> l" "\<not> k < l" "l < k" by (meson linorder_neqE)
  then show ?case using Cons by cases (auto simp: kv obj_put_keys)
qed simp

lemma sorted_unique:
  assumes "sorted_keys xs" "sorted_keys ys" "map_of xs = map_of ys"
  shows "xs = ys"
proof -
  have d: "distinct (map fst xs)" "distinct (map fst ys)" "sorted (map fst xs)" "sorted (map fst ys)"
    using assms(1,2) by (simp_all add: sorted_keys_def strict_sorted_iff)
  have st: "set xs = set ys" using map_of_eq_Some_iff [OF d(1)] map_of_eq_Some_iff [OF d(2)] assms(3) by auto
  have "inj_on fst (set xs \<union> set ys)" using d(1) st by (simp add: distinct_map)
  moreover have "distinct (map fst xs)" "distinct (map fst ys)" by (fact d)+
  ultimately show ?thesis using map_sorted_distinct_set_unique [of fst xs ys] d st by blast
qed

subsection \<open>Placing the references of one slot\<close>

lemma reattach_simps [simp]: "reattach [] v = v" "reattach (r # rs) v = reattach rs (attach r v)"
  "reattach (rs @ rs') v = reattach rs' (reattach rs v)"
  by (simp_all add: reattach_def)

lemma place_ref_attach: "ref_path r \<noteq> [] \<Longrightarrow> JObj (place_ref r cd) = attach r (JObj cd)"
proof (cases "ref_path r")
  case (Cons e p)
  show ?thesis
  proof (cases e)
    case (PKey k)
    then show ?thesis using Cons by (cases p) (auto simp: place_ref_def attach_def split: option.splits prod.splits)
  next
    case (PIdx i)
    then show ?thesis using Cons by (simp add: place_ref_def attach_def)
  qed
qed simp

lemma fold_place_ref: "\<forall>r \<in> set refs. ref_path r \<noteq> [] \<Longrightarrow> JObj (fold place_ref refs cd) = reattach refs (JObj cd)"
  by (induction refs arbitrary: cd) (auto simp: place_ref_attach)

lemma joinPath_simps [simp]: "ref_path (joinPath root r) = root @ ref_path r" "ref_hash (joinPath root r) = ref_hash r"
  "marker (joinPath root r) = marker r"
  by (simp_all add: joinPath_def marker_def)

lemma attach_nested: "map_of cd k = Some x \<Longrightarrow> attach (joinPath [PKey k] r) (JObj cd) = JObj (obj_put k (attach r x) cd)"
  by (auto simp: attach_def split: prod.splits)

lemma obj_put_put: "obj_put k v (obj_put k w kvs) = obj_put k v kvs"
proof (induction kvs)
  case (Cons kv kvs)
  then show ?case by (cases kv) auto
qed simp

lemma obj_put_same: "sorted_keys kvs \<Longrightarrow> map_of kvs k = Some x \<Longrightarrow> obj_put k x kvs = kvs"
  by (rule sorted_unique) (auto simp: sorted_obj_put fun_eq_iff)

lemma reattach_nested:
  assumes "sorted_keys cd" "map_of cd k = Some x"
  shows "reattach (map (joinPath [PKey k]) refs) (JObj cd) = JObj (obj_put k (reattach refs x) cd)"
  using assms
proof (induction refs arbitrary: cd x)
  case (Cons r refs)
  have "reattach (map (joinPath [PKey k]) refs) (JObj (obj_put k (attach r x) cd)) =
      JObj (obj_put k (reattach refs (attach r x)) (obj_put k (attach r x) cd))"
    using Cons.prems by (intro Cons.IH) (auto simp: sorted_obj_put)
  then show ?case using Cons.prems by (simp add: attach_nested obj_put_put)
qed (simp add: obj_put_same)

text \<open>The references of several keys, each to its own.\<close>

lemma reattach_keys:
  assumes "sorted_keys cd" "distinct ks" "\<forall>k \<in> set ks. map_of cd k = None \<longrightarrow> refs k = []"
  obtains cd' where "reattach (concat (map (\<lambda>k. map (joinPath [PKey k]) (refs k)) ks)) (JObj cd) = JObj cd'" "sorted_keys cd'"
    "\<And>k. map_of cd' k = (if k \<in> set ks then map_option (reattach (refs k)) (map_of cd k) else map_of cd k)"
  using assms
proof (induction ks arbitrary: cd thesis)
  case (Cons k ks)
  show ?case
  proof (cases "map_of cd k")
    case None
    then have e: "refs k = []" using Cons.prems by simp
    obtain cd' where "reattach (concat (map (\<lambda>k. map (joinPath [PKey k]) (refs k)) ks)) (JObj cd) = JObj cd'" "sorted_keys cd'"
      "\<And>l. map_of cd' l = (if l \<in> set ks then map_option (reattach (refs l)) (map_of cd l) else map_of cd l)"
      using Cons.IH [of cd] Cons.prems by auto
    then show thesis using Cons.prems(1) [of cd'] e None by simp
  next
    case (Some x)
    let ?cd = "obj_put k (reattach (refs k) x) cd"
    have "sorted_keys ?cd" "\<forall>l \<in> set ks. map_of ?cd l = None \<longrightarrow> refs l = []" using Cons.prems by (auto simp: sorted_obj_put)
    then obtain cd' where cd': "reattach (concat (map (\<lambda>k. map (joinPath [PKey k]) (refs k)) ks)) (JObj ?cd) = JObj cd'" "sorted_keys cd'"
      "\<And>l. map_of cd' l = (if l \<in> set ks then map_option (reattach (refs l)) (map_of ?cd l) else map_of ?cd l)"
      using Cons.IH [of ?cd] Cons.prems by auto
    show thesis
    proof (rule Cons.prems(1))
      show "reattach (concat (map (\<lambda>k. map (joinPath [PKey k]) (refs k)) (k # ks))) (JObj cd) = JObj cd'"
        using cd'(1) reattach_nested [OF Cons.prems(2) Some] by simp
      show "map_of cd' l = (if l \<in> set (k # ks) then map_option (reattach (refs l)) (map_of cd l) else map_of cd l)" for l
        using cd'(3) [of l] Cons.prems(3) Some by auto
    qed (fact cd'(2))
  qed
qed simp

subsection \<open>One column\<close>

text \<open>What cutting a value into a column gives.\<close>

definition col_ok :: "(string \<Rightarrow> string) \<Rightarrow> path \<Rightarrow> jval \<Rightarrow> jval \<Rightarrow> objref list \<Rightarrow> pending_object list \<Rightarrow> bool" where
  "col_ok H root v out refs objs \<longleftrightarrow>
     cut_col H root v = Some (text_of out, map (joinPath root) refs, objs) \<and> wf_val out \<and> encodable out \<and> marker_free out \<and>
     (\<forall>load. loads_pending load objs \<longrightarrow> full load (reattach refs (stored out)) = full load (stored v)) \<and>
     (\<forall>p h n. value_at v p = Some (JRef h n) \<longrightarrow> h \<in> ref_hash ` set refs)"

lemma cut_col_roundtrip:
  assumes "wf_val v" "encodable v"
  shows "\<exists>out refs objs. col_ok H root v out refs objs"
proof -
  obtain out refs objs where c: "cutSlot H v = Some (out, refs, objs)" "wf_val out" "encodable out" "marker_free out"
    "\<And>load. loads_pending load objs \<Longrightarrow> full load (reattach refs (stored out)) = full load (stored v)"
    "\<And>p h n. value_at v p = Some (JRef h n) \<Longrightarrow> h \<in> ref_hash ` set refs"
    by (rule cutSlot_roundtrip [OF assms, of H]) blast
  moreover have "cut_col H root v = Some (text_of out, map (joinPath root) refs, objs)" using c(1,3) by (simp add: cut_col_def Marshal_def)
  ultimately show ?thesis unfolding col_ok_def by blast
qed

text \<open>What a column reads back as.\<close>

definition slot_read :: "string \<Rightarrow> string \<Rightarrow> jval option" where
  "slot_read key str = (if key = ''outputs'' then map_option (\<lambda>v. JObj (outputs_items v)) (Decode str) else Decode str)"

text \<open>A stored slot: its text, its references and contents, and what reading gives back.\<close>

definition slot_ok :: "(string \<Rightarrow> string) \<Rightarrow> state \<Rightarrow> string \<Rightarrow> jval \<Rightarrow> string \<Rightarrow> objref list \<Rightarrow> pending_object list \<Rightarrow> jval \<Rightarrow> bool" where
  "slot_ok H cd k v str refs objs x \<longleftrightarrow>
     encode_slot H cd k = Some (str, map (joinPath [PKey k]) refs, objs) \<and> str \<noteq> [] \<and> slot_read k str = Some x \<and>
     (\<forall>load. loads_pending load objs \<longrightarrow> full load (reattach refs x) = full load (stored v)) \<and>
     (\<forall>p h n. value_at v p = Some (JRef h n) \<longrightarrow> h \<in> ref_hash ` set refs)"

lemma plain_slot:
  assumes "map_of cd k = Some v" "k \<noteq> ''outputs''" "wf_val v" "encodable v"
  shows "\<exists>str refs objs x. slot_ok H cd k v str refs objs x"
proof -
  obtain out refs objs where "col_ok H [PKey k] v out refs objs" using cut_col_roundtrip [OF assms(3,4)] by blast
  then have "slot_ok H cd k v (text_of out) refs objs (stored out)"
    unfolding slot_ok_def col_ok_def using assms Decode_Marshal [of out] text_of_cons [of out] by (auto simp: encode_slot_def slot_read_def)
  then show ?thesis by blast
qed

lemma full_fields_map:
  assumes "\<forall>(k, v) \<in> set kvs. full load (f k v) = full load (g k v)"
  shows "full_fields load (map (\<lambda>(k, v). (k, f k v)) kvs) = full_fields load (map (\<lambda>(k, v). (k, g k v)) kvs)"
  using assms by (induction kvs) (auto cong: sum.case_cong)

lemma map_of_keyed: "map_of (map (\<lambda>(k, v). (k, f k v)) kvs) k = map_option (f k) (map_of kvs k)"
  by (induction kvs) auto

lemma sorted_keyed [simp]: "sorted_keys (map (\<lambda>(k, v). (k, f k v)) kvs) = sorted_keys kvs"
  by (simp add: sorted_keys_def comp_def case_prod_beta)

lemma loads_pending_concat: "loads_pending load (concat oss) \<longleftrightarrow> (\<forall>os \<in> set oss. loads_pending load os)"
  by (auto simp: loads_pending_def)

lemma cut_outputs_each:
  assumes "\<forall>(k, v) \<in> set kvs. cut_col H [PKey ''outputs'', PKey k] v = Some (text_of (out k), map (joinPath [PKey ''outputs'', PKey k]) (refs k), objs k)"
  shows "cut_outputs H kvs = Some (map (\<lambda>(k, _). (k, text_of (out k))) kvs,
     concat (map (\<lambda>(k, _). map (joinPath [PKey ''outputs'', PKey k]) (refs k)) kvs), concat (map (\<lambda>(k, _). objs k) kvs))"
  using assms by (induction kvs) auto

lemma joinPath_two: "joinPath [a, b] r = joinPath [a] (joinPath [b] r)"
  by (simp add: joinPath_def)

lemma outputs_back:
  assumes "sorted_keys kvs" "\<forall>k \<in> fst ` set kvs. wf_val (out k) \<and> encodable (out k) \<and> marker_free (out k)"
  shows "slot_read ''outputs'' (outputs_text (map (\<lambda>(k, _). (k, text_of (out k))) kvs)) = Some (JObj (map (\<lambda>(k, _). (k, stored (out k))) kvs))"
proof (cases "kvs = []")
  case True
  have "Decode (text_of (JObj [])) = Some (stored (JObj []))" by (rule Decode_Marshal) simp_all
  then show ?thesis using True by (simp add: outputs_text_def slot_read_def outputs_items_def)
next
  case False
  let ?col = "JObj [(''items'', JObj (map (\<lambda>(k, v). (k, out k)) kvs))]"
  have "Decode (text_of ?col) = Some (stored ?col)"
    using assms sorted_keyed [of "\<lambda>k v. out k" kvs] by (intro Decode_Marshal) (auto simp: list_all_iff)
  moreover have "text_of ?col = outputs_text (map (\<lambda>(k, _). (k, text_of (out k))) kvs)"
    using False by (simp add: outputs_text_def comp_def case_prod_beta)
  moreover have "outputs_items (stored ?col) = map (\<lambda>(k, _). (k, stored (out k))) kvs"
    by (simp add: outputs_items_def comp_def case_prod_beta)
  ultimately show ?thesis by (simp add: slot_read_def)
qed

lemma obj_ref: "value_at (JObj kvs) p = Some (JRef h n) \<Longrightarrow> \<exists>k q v. map_of kvs k = Some v \<and> value_at v q = Some (JRef h n)"
  by (cases "(JObj kvs, p)" rule: value_at.cases) (auto split: option.splits)

lemma outputs_slot:
  assumes "map_of cd ''outputs'' = Some (JObj kvs)" "wf_val (JObj kvs)" "encodable (JObj kvs)"
  shows "\<exists>str refs objs x. slot_ok H cd ''outputs'' (JObj kvs) str refs objs x"
proof -
  have srt: "sorted_keys kvs" using assms(2) by simp
  let ?good = "\<lambda>k v y. col_ok H [PKey ''outputs'', PKey k] v (fst y) (fst (snd y)) (snd (snd y))"
  have "\<exists>y. \<forall>v. map_of kvs k = Some v \<longrightarrow> ?good k v y" for k
  proof (cases "map_of kvs k")
    case (Some v)
    then have "wf_val v" "encodable v" using assms(2,3) by (auto simp: list_all_iff dest!: map_of_SomeD)
    from cut_col_roundtrip [OF this] obtain out refs objs where "col_ok H [PKey ''outputs'', PKey k] v out refs objs" by blast
    then show ?thesis using Some by (intro exI [of _ "(out, refs, objs)"]) simp
  qed simp
  then have "\<exists>y. \<forall>k v. map_of kvs k = Some v \<longrightarrow> ?good k v (y k)" by (intro choice) blast
  then obtain y where y: "\<forall>k v. map_of kvs k = Some v \<longrightarrow> ?good k v (y k)" ..
  define out where "out = (\<lambda>k. fst (y k))"
  define refs where "refs = (\<lambda>k. fst (snd (y k)))"
  define objs where "objs = (\<lambda>k. snd (snd (y k)))"
  have g: "col_ok H [PKey ''outputs'', PKey k] v (out k) (refs k) (objs k)" if "(k, v) \<in> set kvs" for k v
    unfolding out_def refs_def objs_def using y lookup_distinct [OF srt that] by blast
  let ?R = "concat (map (\<lambda>k. map (joinPath [PKey k]) (refs k)) (map fst kvs))"
  let ?x = "map (\<lambda>(k, v). (k, stored (out k))) kvs"
  let ?str = "outputs_text (map (\<lambda>(k, _). (k, text_of (out k))) kvs)"
  have "cut_outputs H kvs = Some (map (\<lambda>(k, _). (k, text_of (out k))) kvs,
      concat (map (\<lambda>(k, _). map (joinPath [PKey ''outputs'', PKey k]) (refs k)) kvs), concat (map (\<lambda>(k, _). objs k) kvs))"
    using g unfolding col_ok_def by (intro cut_outputs_each) blast
  moreover have "concat (map (\<lambda>(k, _). map (joinPath [PKey ''outputs'', PKey k]) (refs k)) kvs) = map (joinPath [PKey ''outputs'']) ?R"
    by (induction kvs) (auto simp: joinPath_two)
  ultimately have enc: "encode_slot H cd ''outputs'' = Some (?str, map (joinPath [PKey ''outputs'']) ?R, concat (map (\<lambda>(k, _). objs k) kvs))"
    using assms(1) by (simp add: encode_slot_def)
  have rd: "slot_read ''outputs'' ?str = Some (JObj ?x)"
    using g unfolding col_ok_def by (intro outputs_back [OF srt]) fastforce
  have dist: "distinct (map fst kvs)" using srt by (simp add: sorted_keys_def strict_sorted_iff)
  have none: "\<forall>k \<in> set (map fst kvs). map_of ?x k = None \<longrightarrow> refs k = []" by (auto simp: map_of_keyed map_of_eq_None_iff)
  have sx: "sorted_keys ?x" using srt by simp
  obtain cd' where cd': "reattach ?R (JObj ?x) = JObj cd'" "sorted_keys cd'"
    "\<And>k. map_of cd' k = (if k \<in> set (map fst kvs) then map_option (reattach (refs k)) (map_of ?x k) else map_of ?x k)"
    by (rule reattach_keys [OF sx dist none]) (rule that)
  have "cd' = map (\<lambda>(k, v). (k, reattach (refs k) (stored (out k)))) kvs"
  proof (rule sorted_unique [OF cd'(2)])
    show "map_of cd' = map_of (map (\<lambda>(k, v). (k, reattach (refs k) (stored (out k)))) kvs)"
    proof
      fix k
      show "map_of cd' k = map_of (map (\<lambda>(k, v). (k, reattach (refs k) (stored (out k)))) kvs) k"
        using map_of_eq_None_iff [of kvs k] by (cases "map_of kvs k") (auto simp: cd'(3) map_of_keyed)
    qed
  qed (use srt in simp)
  then have "full load (reattach ?R (JObj ?x)) = full load (stored (JObj kvs))" if "loads_pending load (concat (map (\<lambda>(k, _). objs k) kvs))" for load
  proof -
    have "\<forall>(k, v) \<in> set kvs. full load (reattach (refs k) (stored (out k))) = full load (stored v)"
      using that g unfolding loads_pending_concat col_ok_def by fastforce
    from full_fields_map [OF this] show ?thesis unfolding cd'(1) using \<open>cd' = _\<close> by simp
  qed
  moreover have "h \<in> ref_hash ` set ?R" if "value_at (JObj kvs) p = Some (JRef h n)" for p h n
  proof -
    obtain k q v where "map_of kvs k = Some v" "value_at v q = Some (JRef h n)"
      using obj_ref [OF \<open>value_at (JObj kvs) p = Some (JRef h n)\<close>] by blast
    then have "(k, v) \<in> set kvs" "h \<in> ref_hash ` set (refs k)" using g map_of_SomeD unfolding col_ok_def by fastforce+
    then show ?thesis by (force simp: image_iff)
  qed
  moreover have "?str \<noteq> []" by (simp add: outputs_text_def)
  ultimately show ?thesis unfolding slot_ok_def using enc rd by blast
qed

subsection \<open>The whole state\<close>

lemma encode_slots_all:
  "\<forall>k \<in> set ks. encode_slot H cd k = Some (c k) \<Longrightarrow> encode_slots H cd ks = Some (map (\<lambda>k. (k, c k)) ks)"
  by (induction ks) auto

lemma col_text_all: "k \<in> set ks \<Longrightarrow> col_text (map (\<lambda>k. (k, str k, refs k, objs k)) ks) k = str k"
proof (induction ks)
  case (Cons l ks)
  then show ?case by (cases "k = l") (auto simp: col_text_def)
qed simp

text \<open>The columns put in one after the other.\<close>

definition read_in :: "(string \<Rightarrow> string) \<Rightarrow> (string \<Rightarrow> jval) \<Rightarrow> string \<Rightarrow> state \<Rightarrow> state" where
  "read_in str x k cd = (if str k = [] then cd else obj_put k (x k) cd)"

lemma fold_read_in:
  assumes "sorted_keys cd"
  shows "sorted_keys (fold (read_in str x) ks cd)"
    "map_of (fold (read_in str x) ks cd) k = (if k \<in> set ks \<and> str k \<noteq> [] then Some (x k) else map_of cd k)"
  using assms by (induction ks arbitrary: cd) (auto simp: read_in_def sorted_obj_put)

definition read_order :: "string list" where
  "read_order = [''input'', ''output'', ''last_error'', ''_error_data'', ''outputs'', ''external_input'']"

lemma read_order_slots: "set read_order = set slot_keys"
  unfolding read_order_def slot_keys_def by auto

lemma decode_columns:
  assumes "\<forall>k \<in> set slot_keys. str k \<noteq> [] \<longrightarrow> slot_read k (str k) = Some (x k)"
    and "c_InputData r = str ''input''" "c_OutputData r = str ''output''" "c_ErrorInternal r = str ''last_error''"
    "c_ErrorData r = str ''_error_data''" "c_OutputsData r = str ''outputs''" "c_ExternalInput r = str ''external_input''"
  shows "decodeState r = Some (fold place_ref (c_Objects r) (fold (read_in str x) read_order []), map ref_hash (c_Objects r))"
proof -
  have i: "into (str k) k cd = Some (read_in str x k cd)" if "k \<in> set slot_keys" "k \<noteq> ''outputs''" for k cd
    using assms(1) that by (auto simp: into_def read_in_def slot_read_def)
  have u: "into_outputs (str ''outputs'') cd = Some (read_in str x ''outputs'' cd)" for cd
    using assms(1) by (auto simp: into_outputs_def read_in_def slot_read_def slot_keys_def split: option.splits)
  show ?thesis unfolding decodeState_def assms(2-) read_order_def by (simp add: i u slot_keys_def)
qed

definition storable :: "state \<Rightarrow> bool" where
  "storable cd \<longleftrightarrow> wf_val (JObj cd) \<and> encodable (JObj cd) \<and> fst ` set cd \<subseteq> set slot_keys \<and>
     (case map_of cd ''outputs'' of None \<Rightarrow> True | Some v \<Rightarrow> (case v of JObj _ \<Rightarrow> True | _ \<Rightarrow> False))"

lemma storable_slot:
  assumes "storable cd" "map_of cd k = Some v"
  shows "\<exists>str refs objs x. slot_ok H cd k v str refs objs x"
proof -
  have v: "wf_val v" "encodable v" using assms by (auto simp: storable_def list_all_iff dest!: map_of_SomeD)
  show ?thesis
  proof (cases "k = ''outputs''")
    case True
    then obtain kvs where "v = JObj kvs" using assms by (auto simp: storable_def split: jval.splits)
    then show ?thesis using outputs_slot assms(2) v True by blast
  qed (use plain_slot assms(2) v in blast)
qed

lemma slots_chosen:
  assumes "storable cd"
  obtains str refs objs x where "\<And>k v. map_of cd k = Some v \<Longrightarrow> slot_ok H cd k v (str k) (refs k) (objs k) (x k)"
    "\<And>k. map_of cd k = None \<Longrightarrow> str k = [] \<and> refs k = [] \<and> objs k = []"
proof -
  have "\<forall>k. \<exists>y. (\<forall>v. map_of cd k = Some v \<longrightarrow> slot_ok H cd k v (fst y) (fst (snd y)) (fst (snd (snd y))) (snd (snd (snd y)))) \<and>
      (map_of cd k = None \<longrightarrow> fst y = [] \<and> fst (snd y) = [] \<and> fst (snd (snd y)) = [])"
  proof
    fix k
    show "\<exists>y. (\<forall>v. map_of cd k = Some v \<longrightarrow> slot_ok H cd k v (fst y) (fst (snd y)) (fst (snd (snd y))) (snd (snd (snd y)))) \<and>
      (map_of cd k = None \<longrightarrow> fst y = [] \<and> fst (snd y) = [] \<and> fst (snd (snd y)) = [])"
    proof (cases "map_of cd k")
      case None
      then show ?thesis by (intro exI [of _ "([], [], [], JNull)"]) simp
    next
      case (Some v)
      then obtain str refs objs x where "slot_ok H cd k v str refs objs x" using storable_slot [OF assms] by blast
      then show ?thesis using Some by (intro exI [of _ "(str, refs, objs, x)"]) simp
    qed
  qed
  from choice [OF this] obtain y where y: "\<forall>k. (\<forall>v. map_of cd k = Some v \<longrightarrow> slot_ok H cd k v (fst (y k)) (fst (snd (y k))) (fst (snd (snd (y k)))) (snd (snd (snd (y k))))) \<and>
      (map_of cd k = None \<longrightarrow> fst (y k) = [] \<and> fst (snd (y k)) = [] \<and> fst (snd (snd (y k))) = [])" ..
  show thesis by (rule that [of "\<lambda>k. fst (y k)" "\<lambda>k. fst (snd (y k))" "\<lambda>k. fst (snd (snd (y k)))" "\<lambda>k. snd (snd (snd (y k)))"]) (use y in blast)+
qed

lemma state_stored:
  assumes "storable cd"
  shows "\<exists>cols pending referenced cd'. encodeState H es lost cd = Some (cols, pending, referenced) \<and>
     decodeState cols = Some (cd', referenced) \<and>
     (\<forall>load. loads_pending load pending \<longrightarrow> full load (JObj cd') = full load (stored (JObj cd))) \<and>
     (\<forall>p h n. value_at (JObj cd) p = Some (JRef h n) \<longrightarrow> h \<in> set referenced)"
proof -
  obtain str refs objs x where slot: "\<And>k v. map_of cd k = Some v \<Longrightarrow> slot_ok H cd k v (str k) (refs k) (objs k) (x k)"
    and absent: "\<And>k. map_of cd k = None \<Longrightarrow> str k = [] \<and> refs k = [] \<and> objs k = []"
    by (rule slots_chosen [OF assms, of H]) (rule that)
  have srt: "sorted_keys cd" and keys: "fst ` set cd \<subseteq> set slot_keys" using assms by (auto simp: storable_def)
  let ?R = "concat (map (\<lambda>k. map (joinPath [PKey k]) (refs k)) slot_keys)"
  let ?O = "concat (map objs slot_keys)"
  let ?c = "\<lambda>k. (str k, map (joinPath [PKey k]) (refs k), objs k)"
  let ?cols = "\<lparr>c_InputData = str ''input'', c_OutputsData = str ''outputs'', c_OutputData = str ''output'', c_ErrorInternal = str ''last_error'',
      c_ErrorData = str ''_error_data'', c_ExternalInput = str ''external_input'', c_ExternalLost = lost, c_EngineState = es, c_Objects = ?R\<rparr>"
  have enc1: "encode_slot H cd k = Some (?c k)" for k
    using slot [of k] absent [of k] by (cases "map_of cd k") (auto simp: slot_ok_def encode_slot_def)
  have "encode_slots H cd slot_keys = Some (map (\<lambda>k. (k, ?c k)) slot_keys)" using enc1 by (intro encode_slots_all) blast
  moreover have "col_text (map (\<lambda>k. (k, ?c k)) slot_keys) k = str k" if "k \<in> set slot_keys" for k using that by (rule col_text_all)
  ultimately have enc: "encodeState H es lost cd = Some (?cols, ?O, map ref_hash ?R)"
    by (simp add: encodeState_def Let_def comp_def) (simp add: slot_keys_def)
  let ?cd0 = "fold (read_in str x) read_order []"
  have filled: "str k \<noteq> [] \<longleftrightarrow> map_of cd k \<noteq> None" for k using slot [of k] absent [of k] by (cases "map_of cd k") (auto simp: slot_ok_def)
  have in_slots: "map_of cd k \<noteq> None \<Longrightarrow> k \<in> set slot_keys" for k using keys by (auto simp: map_of_eq_None_iff)
  have "\<forall>k \<in> set slot_keys. str k \<noteq> [] \<longrightarrow> slot_read k (str k) = Some (x k)" using slot filled unfolding slot_ok_def by blast
  then have dec: "decodeState ?cols = Some (fold place_ref ?R ?cd0, map ref_hash ?R)" using decode_columns [of str x ?cols] by simp
  have s0: "sorted_keys ?cd0" by (intro fold_read_in) simp
  have m0: "map_of ?cd0 k = (if map_of cd k = None then None else Some (x k))" for k
    using fold_read_in(2) [of "[]" str x read_order k] filled in_slots by (auto simp: read_order_slots)
  have d: "distinct slot_keys" by (simp add: slot_keys_def)
  have none: "\<forall>k \<in> set slot_keys. map_of ?cd0 k = None \<longrightarrow> refs k = []" using m0 absent by auto
  obtain cd' where cd': "reattach ?R (JObj ?cd0) = JObj cd'" "sorted_keys cd'"
    "\<And>k. map_of cd' k = (if k \<in> set slot_keys then map_option (reattach (refs k)) (map_of ?cd0 k) else map_of ?cd0 k)"
    by (rule reattach_keys [OF s0 d none]) (rule that)
  have "JObj (fold place_ref ?R ?cd0) = reattach ?R (JObj ?cd0)" by (rule fold_place_ref) auto
  then have fin: "fold place_ref ?R ?cd0 = cd'" using cd'(1) by simp
  have "cd' = map (\<lambda>(k, v). (k, reattach (refs k) (x k))) cd"
  proof (rule sorted_unique [OF cd'(2)])
    have "map_of cd' k = map_of (map (\<lambda>(k, v). (k, reattach (refs k) (x k))) cd) k" for k
      using in_slots [of k] by (cases "map_of cd k") (auto simp: cd'(3) m0 map_of_keyed)
    then show "map_of cd' = map_of (map (\<lambda>(k, v). (k, reattach (refs k) (x k))) cd)" ..
  qed (use srt in simp)
  then have same: "full load (JObj cd') = full load (stored (JObj cd))" if "loads_pending load ?O" for load
  proof -
    have "full load (reattach (refs k) (x k)) = full load (stored v)" if "(k, v) \<in> set cd" for k v
    proof -
      have m: "map_of cd k = Some v" using lookup_distinct [OF srt that] .
      then have "loads_pending load (objs k)" using in_slots [of k] \<open>loads_pending load ?O\<close> unfolding loads_pending_concat by auto
      then show ?thesis using slot [OF m] unfolding slot_ok_def by blast
    qed
    then have "\<forall>(k, v) \<in> set cd. full load (reattach (refs k) (x k)) = full load (stored v)" by blast
    from full_fields_map [OF this] show ?thesis using \<open>cd' = _\<close> by simp
  qed
  have "h \<in> set (map ref_hash ?R)" if r: "value_at (JObj cd) p = Some (JRef h n)" for p h n
  proof -
    obtain k q v where kv: "map_of cd k = Some v" "value_at v q = Some (JRef h n)" using obj_ref [OF r] by blast
    then have "h \<in> ref_hash ` set (refs k)" using slot [OF kv(1)] unfolding slot_ok_def by blast
    moreover have "k \<in> set slot_keys" using in_slots [of k] kv(1) by simp
    ultimately have "\<exists>k \<in> set slot_keys. h \<in> ref_hash ` set (refs k)" by blast
    then show ?thesis by (force simp: image_iff)
  qed
  then show ?thesis using enc dec fin same by blast
qed


definition sample_state :: state where
  "sample_state = [(''input'', JObj [(''a'', JRef ''h'' 9), (''b'', JStr ''x'')]), (''last_error'', JRef ''e'' 4000),
     (''outputs'', JObj [(''t'', JObj [(''n'', JNumber ''3''), (''r'', JRef ''k'' 7)])])]"

definition no_engine_state :: engine_state where
  "no_engine_state = \<lparr>es_spawn_child_key = None, es_spawn_index = None, es_spawn_attempt = None, es_retry_override = False\<rparr>"


end
