(* ===== verification/Eval.thy ===== *)
theory Eval
  imports Syntax Values
begin

text \<open>
  Evaluation of expressions (\<open>expression/eval.go\<close>, \<open>expression/ops.go\<close>) over the values of a context.

  Decimal arithmetic is the package \<open>apd\<close>, which is not part of the sources: it is the parameter
  \<open>decimals\<close>, with one field for each operation the code calls. An operation that may fail returns
  \<open>None\<close>. An error of the evaluator is a constructor of \<open>eval_error\<close>; the text that wraps it on the way
  out is left out.
\<close>

record 'd decimals =
  NewFromString :: "string \<Rightarrow> 'd option"
  New :: "int \<Rightarrow> 'd"
  Cmp :: "'d \<Rightarrow> 'd \<Rightarrow> int"
  exact_Add :: "'d \<Rightarrow> 'd \<Rightarrow> 'd option"
  exact_Sub :: "'d \<Rightarrow> 'd \<Rightarrow> 'd option"
  exact_Mul :: "'d \<Rightarrow> 'd \<Rightarrow> 'd option"
  Quo :: "nat \<Rightarrow> 'd \<Rightarrow> 'd \<Rightarrow> 'd option"
  Rem :: "nat \<Rightarrow> 'd \<Rightarrow> 'd \<Rightarrow> 'd option"
  Neg :: "'d \<Rightarrow> 'd"
  IsZero :: "'d \<Rightarrow> bool"
  NumDigits :: "'d \<Rightarrow> nat"
  Finite :: "'d \<Rightarrow> bool"
  RoundToIntegralValue :: "'d \<Rightarrow> 'd option"
  Int64 :: "'d \<Rightarrow> int option"
  Reduced_Text :: "'d \<Rightarrow> string"

datatype eval_error =
    FieldNotFound string
  | UnresolvedRef string
  | Unsupported string
  | KeyNotString
  | KeyNotInteger
  | MapSourceNull
  | MapSourceNotArray
  | NotBoolean
  | NotNumeric
  | NotInteger
  | ContainersCompared
  | DivisionByZero
  | ArithmeticFailed
  | TooManyDigits nat
  | NonFinite
  | IndexPanic

type_synonym 'a eres = "(eval_error, 'a) result"

definition rbind :: "('e, 'a) result \<Rightarrow> ('a \<Rightarrow> ('e, 'b) result) \<Rightarrow> ('e, 'b) result" where
  "rbind m f = (case m of Inl e \<Rightarrow> Inl e | Inr x \<Rightarrow> f x)"

lemma rbind_simps [simp]: "rbind (Inl e) f = Inl e" "rbind (Inr x) f = f x"
  by (simp_all add: rbind_def)

fun each :: "('a \<Rightarrow> ('e, 'b) result) \<Rightarrow> 'a list \<Rightarrow> ('e, 'b list) result" where
  "each f [] = Inr []"
| "each f (x # xs) = rbind (f x) (\<lambda>y. rbind (each f xs) (\<lambda>ys. Inr (y # ys)))"

lemma each_cong [fundef_cong]: "xs = ys \<Longrightarrow> (\<And>x. x \<in> set ys \<Longrightarrow> f x = g x) \<Longrightarrow> each f xs = each g ys"
  by (induction xs arbitrary: ys) (auto simp: rbind_def split: sum.splits)

lemma rbind_cong [fundef_cong]: "m = m' \<Longrightarrow> (\<And>x. m' = Inr x \<Longrightarrow> f x = g x) \<Longrightarrow> rbind m f = rbind m' g"
  by (auto simp: rbind_def split: sum.splits)

subsection \<open>Numbers (numeric/numeric.go)\<close>

definition MaxDigits :: nat where "MaxDigits = 1000"

fun ToDecimal :: "'d decimals \<Rightarrow> jval \<Rightarrow> 'd option" where
  "ToDecimal D (JNumber s) = NewFromString D s"
| "ToDecimal D (JInt i) = Some (New D i)"
| "ToDecimal D v = None"

definition IsIntegral :: "'d decimals \<Rightarrow> jval \<Rightarrow> bool" where
  "IsIntegral D v =
     (case ToDecimal D v of
        None \<Rightarrow> False
      | Some d \<Rightarrow> Finite D d \<and> (case RoundToIntegralValue D d of None \<Rightarrow> False | Some r \<Rightarrow> Cmp D r d = 0))"

definition Format :: "'d decimals \<Rightarrow> 'd \<Rightarrow> string option" where
  "Format D d = (if Finite D d then Some (Reduced_Text D d) else None)"

definition ExceedsMaxDigits :: "'d decimals \<Rightarrow> 'd \<Rightarrow> bool" where
  "ExceedsMaxDigits D d \<longleftrightarrow> NumDigits D d > MaxDigits"

subsection \<open>Operators (expression/ops.go)\<close>

definition divisionPrecision :: nat where "divisionPrecision = 34"

definition modGuardDigits :: nat where "modGuardDigits = 4"

definition modContextFor :: "'d decimals \<Rightarrow> 'd \<Rightarrow> 'd \<Rightarrow> nat" where
  "modContextFor D x y = max (max (NumDigits D x) (NumDigits D y) + modGuardDigits) divisionPrecision"

definition bothDecimal :: "'d decimals \<Rightarrow> jval \<Rightarrow> jval \<Rightarrow> ('d \<times> 'd) option" where
  "bothDecimal D l r = (case (ToDecimal D l, ToDecimal D r) of (Some x, Some y) \<Rightarrow> Some (x, y) | _ \<Rightarrow> None)"

definition decimalResult :: "'d decimals \<Rightarrow> 'd \<Rightarrow> jval eres" where
  "decimalResult D d =
     (if ExceedsMaxDigits D d then Inl (TooManyDigits (NumDigits D d))
      else (case Format D d of None \<Rightarrow> Inl NonFinite | Some t \<Rightarrow> Inr (JNumber t)))"

definition decBinOp :: "'d decimals \<Rightarrow> ('d \<Rightarrow> 'd \<Rightarrow> 'd option) \<Rightarrow> jval \<Rightarrow> jval \<Rightarrow> jval eres" where
  "decBinOp D fn l r =
     (case bothDecimal D l r of
        None \<Rightarrow> Inl NotNumeric
      | Some (x, y) \<Rightarrow> (case fn x y of None \<Rightarrow> Inl ArithmeticFailed | Some d \<Rightarrow> decimalResult D d))"

fun isContainer :: "jval \<Rightarrow> bool" where
  "isContainer (JArr _) = True"
| "isContainer (JObj _) = True"
| "isContainer _ = False"

definition equalValues :: "'d decimals \<Rightarrow> jval \<Rightarrow> jval \<Rightarrow> bool eres" where
  "equalValues D l r =
     (case bothDecimal D l r of
        Some (x, y) \<Rightarrow> Inr (Cmp D x y = 0)
      | None \<Rightarrow>
          (case (l, r) of
             (JStr a, JStr b) \<Rightarrow> Inr (a = b)
           | (JBool a, JBool b) \<Rightarrow> Inr (a = b)
           | _ \<Rightarrow>
               if isContainer l \<and> isContainer r then Inl ContainersCompared
               else if l = JNull \<or> r = JNull then Inr (l = JNull \<and> r = JNull)
               else if isContainer l \<or> isContainer r then Inr False
               else Inr (l = r)))"

definition numCmp :: "'d decimals \<Rightarrow> (int \<Rightarrow> bool) \<Rightarrow> jval \<Rightarrow> jval \<Rightarrow> jval eres" where
  "numCmp D fn l r = (case bothDecimal D l r of None \<Rightarrow> Inl NotNumeric | Some (x, y) \<Rightarrow> Inr (JBool (fn (Cmp D x y))))"

definition evalAdd :: "'d decimals \<Rightarrow> jval \<Rightarrow> jval \<Rightarrow> jval eres" where
  "evalAdd D l r = (case (l, r) of (JStr a, JStr b) \<Rightarrow> Inr (JStr (a @ b)) | _ \<Rightarrow> decBinOp D (exact_Add D) l r)"

definition evalDiv :: "'d decimals \<Rightarrow> jval \<Rightarrow> jval \<Rightarrow> jval eres" where
  "evalDiv D l r =
     (case bothDecimal D l r of
        None \<Rightarrow> Inl NotNumeric
      | Some (x, y) \<Rightarrow>
          if IsZero D y then Inl DivisionByZero
          else (case Quo D divisionPrecision x y of None \<Rightarrow> Inl ArithmeticFailed | Some d \<Rightarrow> decimalResult D d))"

definition evalMod :: "'d decimals \<Rightarrow> jval \<Rightarrow> jval \<Rightarrow> jval eres" where
  "evalMod D l r =
     (if \<not> IsIntegral D l \<or> \<not> IsIntegral D r then Inl NotInteger
      else case bothDecimal D l r of
        None \<Rightarrow> Inl NotNumeric
      | Some (x, y) \<Rightarrow>
          if IsZero D y then Inl DivisionByZero
          else (case Rem D (modContextFor D x y) x y of None \<Rightarrow> Inl ArithmeticFailed | Some d \<Rightarrow> decimalResult D d))"

definition binaryOps :: "'d decimals \<Rightarrow> string \<Rightarrow> (jval \<Rightarrow> jval \<Rightarrow> jval eres) option" where
  "binaryOps D op =
     map_of [(''=='', \<lambda>l r. map_sum id JBool (equalValues D l r)),
             (''!='', \<lambda>l r. map_sum id (\<lambda>eq. JBool (\<not> eq)) (equalValues D l r)),
             (''<'', numCmp D (\<lambda>c. c < 0)), (''>'', numCmp D (\<lambda>c. c > 0)),
             (''<='', numCmp D (\<lambda>c. c \<le> 0)), (''>='', numCmp D (\<lambda>c. c \<ge> 0)),
             (''+'', evalAdd D), (''-'', decBinOp D (exact_Sub D)), (''*'', decBinOp D (exact_Mul D)),
             (''/'', evalDiv D), (''%'', evalMod D)] op"

fun evalNot :: "jval \<Rightarrow> jval eres" where
  "evalNot (JBool b) = Inr (JBool (\<not> b))"
| "evalNot v = Inl NotBoolean"

definition negateNum :: "'d decimals \<Rightarrow> jval \<Rightarrow> jval eres" where
  "negateNum D v = (case ToDecimal D v of None \<Rightarrow> Inl NotNumeric | Some d \<Rightarrow> decimalResult D (Neg D d))"

definition requireNum :: "'d decimals \<Rightarrow> jval \<Rightarrow> jval eres" where
  "requireNum D v = (case ToDecimal D v of None \<Rightarrow> Inl NotNumeric | Some _ \<Rightarrow> Inr v)"

definition eval_unaryOps :: "'d decimals \<Rightarrow> string \<Rightarrow> (jval \<Rightarrow> jval eres) option" where
  "eval_unaryOps D op = map_of [(''!'', evalNot), (''-'', negateNum D), (''+'', requireNum D)] op"

subsection \<open>The evaluator (expression/eval.go)\<close>

record env =
  e_ctx :: "string \<rightharpoonup> jval"
  e_vars :: "string \<rightharpoonup> jval"

definition bind_vars :: "env \<Rightarrow> (string \<rightharpoonup> jval) \<Rightarrow> env" where
  "bind_vars e pairs = e\<lparr>e_vars := e_vars e ++ pairs\<rparr>"

definition lookup_var :: "env \<Rightarrow> string \<Rightarrow> jval option" where
  "lookup_var e name = (case e_vars e name of Some v \<Rightarrow> Some v | None \<Rightarrow> e_ctx e name)"

fun checkResolved :: "jval \<Rightarrow> unit eres" where
  "checkResolved (JRef h _) = Inl (UnresolvedRef h)"
| "checkResolved _ = Inr ()"

definition null_or :: "(jval \<Rightarrow> jval eres) \<Rightarrow> jval \<Rightarrow> jval eres" where
  "null_or f v = (if v = JNull then Inr JNull else f v)"

fun member :: "jval \<Rightarrow> string \<Rightarrow> jval" where
  "member (JObj kvs) k = (case map_of kvs k of None \<Rightarrow> JNull | Some v \<Rightarrow> v)"
| "member _ k = JNull"

fun item :: "jval \<Rightarrow> int \<Rightarrow> jval" where
  "item (JArr xs) i = (if in_range i xs then xs ! nat i else JNull)"
| "item _ i = JNull"

fun keyed :: "'d decimals \<Rightarrow> jval \<Rightarrow> jval \<Rightarrow> jval eres" where
  "keyed D (JObj kvs) key = (case key of JStr k \<Rightarrow> Inr (member (JObj kvs) k) | _ \<Rightarrow> Inl KeyNotString)"
| "keyed D (JArr xs) key =
     (case ToDecimal D key of
        None \<Rightarrow> Inl KeyNotInteger
      | Some d \<Rightarrow>
          if \<not> IsIntegral D key then Inl KeyNotInteger
          else (case Int64 D d of None \<Rightarrow> Inr JNull | Some i \<Rightarrow> Inr (item (JArr xs) i)))"
| "keyed D v key = Inr JNull"

fun map_items :: "jval \<Rightarrow> jval list eres" where
  "map_items (JArr xs) = Inr xs"
| "map_items JNull = Inl MapSourceNull"
| "map_items _ = Inl MapSourceNotArray"

fun as_bool :: "jval \<Rightarrow> bool eres" where
  "as_bool (JBool b) = Inr b"
| "as_bool _ = Inl NotBoolean"

definition mustBool :: "jval \<Rightarrow> bool" where
  "mustBool v = (v = JBool True)"

definition lambda_pairs :: "string \<Rightarrow> string \<Rightarrow> jval \<Rightarrow> nat \<Rightarrow> string \<rightharpoonup> jval" where
  "lambda_pairs param index_param x i =
     (if index_param = [] then [param \<mapsto> x] else [param \<mapsto> x, index_param \<mapsto> JInt (int i)])"

text \<open>
  The cases of the evaluator, over the evaluation \<open>ev\<close> of the parts; a part that may be skipped is passed
  as a function of nothing.
\<close>

definition evalMember :: "jval eres \<Rightarrow> string \<Rightarrow> jval eres" where
  "evalMember base name = rbind base (null_or (\<lambda>b. rbind (checkResolved b) (\<lambda>_. Inr (member b name))))"

definition evalIndex :: "jval eres \<Rightarrow> int \<Rightarrow> jval eres" where
  "evalIndex base i = rbind base (null_or (\<lambda>b. rbind (checkResolved b) (\<lambda>_. Inr (item b i))))"

definition evalKey :: "'d decimals \<Rightarrow> jval eres \<Rightarrow> (unit \<Rightarrow> jval eres) \<Rightarrow> jval eres" where
  "evalKey D base key =
     rbind base (null_or (\<lambda>b. rbind (checkResolved b) (\<lambda>_. rbind (key ()) (\<lambda>k. keyed D b k))))"

definition evalArray :: "(node \<Rightarrow> jval eres) \<Rightarrow> node list \<Rightarrow> jval eres" where
  "evalArray ev items = rbind (each ev items) (\<lambda>vs. Inr (JArr vs))"

definition evalObject :: "(node \<Rightarrow> jval eres) \<Rightarrow> string list \<Rightarrow> node list \<Rightarrow> jval eres" where
  "evalObject ev keys values =
     rbind (each ev values) (\<lambda>vs. Inr (JObj (fold (\<lambda>(k, v). obj_put k v) (zip keys vs) [])))"

definition evalCall :: "jval eres \<Rightarrow> (jval \<Rightarrow> nat \<Rightarrow> jval eres) \<Rightarrow> jval eres" where
  "evalCall source body =
     rbind source (\<lambda>src.
     rbind (checkResolved src) (\<lambda>_.
     rbind (map_items src) (\<lambda>items.
     rbind (each (\<lambda>(i, x). body x i) (enumerate 0 items)) (\<lambda>vs.
     Inr (JArr vs)))))"

definition evalLogical :: "string \<Rightarrow> jval eres \<Rightarrow> (unit \<Rightarrow> jval eres) \<Rightarrow> jval eres" where
  "evalLogical op left right =
     rbind left (\<lambda>v.
     rbind (as_bool v) (\<lambda>lb.
       if (op = ''&&'') \<noteq> lb then Inr (JBool lb)
       else rbind (right ()) (\<lambda>w. rbind (as_bool w) (\<lambda>rb. Inr (JBool rb)))))"

definition evalBinary :: "'d decimals \<Rightarrow> string \<Rightarrow> (unit \<Rightarrow> jval eres) \<Rightarrow> (unit \<Rightarrow> jval eres) \<Rightarrow> jval eres" where
  "evalBinary D op left right =
     (if op = ''??'' then rbind (left ()) (\<lambda>v. if v \<noteq> JNull then Inr v else right ())
      else if op = ''&&'' \<or> op = ''||'' then evalLogical op (left ()) right
      else case binaryOps D op of
        None \<Rightarrow> Inl (Unsupported op)
      | Some f \<Rightarrow>
          rbind (left ()) (\<lambda>v.
          rbind (right ()) (\<lambda>w.
          rbind (checkResolved v) (\<lambda>_. rbind (checkResolved w) (\<lambda>_. f v w)))))"

definition evalUnary :: "'d decimals \<Rightarrow> string \<Rightarrow> (unit \<Rightarrow> jval eres) \<Rightarrow> jval eres" where
  "evalUnary D op operand =
     (case eval_unaryOps D op of
        None \<Rightarrow> Inl (Unsupported op)
      | Some f \<Rightarrow> rbind (operand ()) (\<lambda>v. rbind (checkResolved v) (\<lambda>_. f v)))"

definition evalConditional :: "jval eres \<Rightarrow> (unit \<Rightarrow> jval eres) \<Rightarrow> (unit \<Rightarrow> jval eres) \<Rightarrow> jval eres" where
  "evalConditional c t f = rbind c (\<lambda>v. if mustBool v then t () else f ())"

lemmas eval_case_defs = evalMember_def evalIndex_def evalKey_def evalArray_def evalObject_def evalCall_def evalLogical_def
  evalBinary_def evalUnary_def evalConditional_def

lemma evalArray_cong [fundef_cong]: "xs = ys \<Longrightarrow> (\<And>x. x \<in> set ys \<Longrightarrow> f x = g x) \<Longrightarrow> evalArray f xs = evalArray g ys"
  unfolding evalArray_def by (metis each_cong)

lemma evalObject_cong [fundef_cong]:
  "ks = ls \<Longrightarrow> xs = ys \<Longrightarrow> (\<And>x. x \<in> set ys \<Longrightarrow> f x = g x) \<Longrightarrow> evalObject f ks xs = evalObject g ls ys"
  unfolding evalObject_def by (metis each_cong)

function (sequential) evalNode :: "'d decimals \<Rightarrow> node \<Rightarrow> env \<Rightarrow> jval eres" where
  "evalNode D (IntNode t) e = Inr (JNumber t)"
| "evalNode D (FloatNode t) e = Inr (JNumber t)"
| "evalNode D (StringNode s) e = Inr (JStr s)"
| "evalNode D (BoolNode b) e = Inr (JBool b)"
| "evalNode D NullNode e = Inr JNull"
| "evalNode D (IdentNode name) e =
     (case lookup_var e name of None \<Rightarrow> Inl (FieldNotFound name) | Some v \<Rightarrow> Inr v)"
| "evalNode D (MemberNode n name) e = evalMember (evalNode D n e) name"
| "evalNode D (IndexNode n i) e = evalIndex (evalNode D n e) i"
| "evalNode D (KeyNode n k) e = evalKey D (evalNode D n e) (\<lambda>_. evalNode D k e)"
| "evalNode D (ArrayNode items) e = evalArray (\<lambda>n. evalNode D n e) items"
| "evalNode D (ObjectNode keys values) e = evalObject (\<lambda>n. evalNode D n e) keys values"
| "evalNode D (CallNode name args) e =
     (if name \<noteq> ''map'' then Inl (Unsupported name)
      else case args of
        a # LambdaNode param index_param body # _ \<Rightarrow>
          evalCall (evalNode D a e) (\<lambda>x i. evalNode D body (bind_vars e (lambda_pairs param index_param x i)))
      | [a] \<Rightarrow> rbind (evalNode D a e) (\<lambda>src. rbind (checkResolved src) (\<lambda>_. rbind (map_items src) (\<lambda>_. Inl IndexPanic)))
      | a # _ \<Rightarrow> rbind (evalNode D a e) (\<lambda>src. rbind (checkResolved src) (\<lambda>_. rbind (map_items src) (\<lambda>_. Inl (Unsupported name))))
      | [] \<Rightarrow> Inl IndexPanic)"
| "evalNode D (UnaryNode op n) e = evalUnary D op (\<lambda>_. evalNode D n e)"
| "evalNode D (BinaryNode op l r) e = evalBinary D op (\<lambda>_. evalNode D l e) (\<lambda>_. evalNode D r e)"
| "evalNode D (CondNode c t f) e = evalConditional (evalNode D c e) (\<lambda>_. evalNode D t e) (\<lambda>_. evalNode D f e)"
| "evalNode D (LambdaNode _ _ _) e = Inl (Unsupported ''lambda'')"
  by pat_completeness auto
termination
  by (relation "measure (\<lambda>(_, n, _). size n)") (auto simp: less_Suc_eq_le dest!: size_list_estimation' [where f = size, OF _ order.refl])

declare evalNode.simps [simp del]

lemmas eval_simps [simp] = evalNode.simps [unfolded eval_case_defs]

end
