(* ===== verification/Refs.thy ===== *)
theory Refs
  imports Syntax
begin

text \<open>
  Which parts of the context an expression reads (\<open>expression/refs.go\<close>). A root is \<^emph>\<open>read through\<close> where
  the expression looks inside its value, and merely copied where the value is only placed somewhere.
\<close>

record through_roots =
  t_Input :: bool
  t_Error :: bool
  t_ErrorData :: bool
  t_AllOutputs :: bool
  t_SelfPrevious :: bool
  t_SelfResult :: bool
  t_LastError :: bool
  t_LastErrorData :: bool
  t_Outputs :: "string list"

record roots =
  ro_Input :: bool
  ro_Error :: bool
  ro_Outputs :: "string list"
  ro_AllOutputs :: bool
  ro_SelfPrevious :: bool
  ro_SelfResult :: bool
  ro_SelfOutput :: bool
  ro_ErrorData :: bool
  ro_LastError :: bool
  ro_LastErrorData :: bool
  ro_Through :: through_roots

definition no_through :: through_roots where
  "no_through = \<lparr>t_Input = False, t_Error = False, t_ErrorData = False, t_AllOutputs = False, t_SelfPrevious = False,
     t_SelfResult = False, t_LastError = False, t_LastErrorData = False, t_Outputs = []\<rparr>"

definition no_roots :: roots where
  "no_roots = \<lparr>ro_Input = False, ro_Error = False, ro_Outputs = [], ro_AllOutputs = False, ro_SelfPrevious = False,
     ro_SelfResult = False, ro_SelfOutput = False, ro_ErrorData = False, ro_LastError = False, ro_LastErrorData = False,
     ro_Through = no_through\<rparr>"

definition Union_roots :: "roots \<Rightarrow> roots \<Rightarrow> roots" where
  "Union_roots r q =
     \<lparr>ro_Input = (ro_Input r \<or> ro_Input q), ro_Error = (ro_Error r \<or> ro_Error q), ro_Outputs = ro_Outputs r @ ro_Outputs q,
      ro_AllOutputs = (ro_AllOutputs r \<or> ro_AllOutputs q), ro_SelfPrevious = (ro_SelfPrevious r \<or> ro_SelfPrevious q),
      ro_SelfResult = (ro_SelfResult r \<or> ro_SelfResult q), ro_SelfOutput = (ro_SelfOutput r \<or> ro_SelfOutput q),
      ro_ErrorData = (ro_ErrorData r \<or> ro_ErrorData q), ro_LastError = (ro_LastError r \<or> ro_LastError q),
      ro_LastErrorData = (ro_LastErrorData r \<or> ro_LastErrorData q),
      ro_Through =
        (let t = ro_Through r; u = ro_Through q in
         \<lparr>t_Input = (t_Input t \<or> t_Input u), t_Error = (t_Error t \<or> t_Error u), t_ErrorData = (t_ErrorData t \<or> t_ErrorData u),
          t_AllOutputs = (t_AllOutputs t \<or> t_AllOutputs u), t_SelfPrevious = (t_SelfPrevious t \<or> t_SelfPrevious u),
          t_SelfResult = (t_SelfResult t \<or> t_SelfResult u), t_LastError = (t_LastError t \<or> t_LastError u),
          t_LastErrorData = (t_LastErrorData t \<or> t_LastErrorData u), t_Outputs = t_Outputs t @ t_Outputs u\<rparr>)\<rparr>"

definition bindParams :: "string list \<Rightarrow> string \<Rightarrow> string \<Rightarrow> string list" where
  "bindParams bound param index_param = (if index_param = [] then param # bound else index_param # param # bound)"

text \<open>What each root adds; \<open>on_through\<close> touches the record of roots read through.\<close>

abbreviation on_through :: "(through_roots \<Rightarrow> through_roots) \<Rightarrow> roots \<Rightarrow> roots" where
  "on_through f r \<equiv> r\<lparr>ro_Through := f (ro_Through r)\<rparr>"

definition add_input :: "bool \<Rightarrow> roots \<Rightarrow> roots" where
  "add_input through r = on_through (\<lambda>t. t\<lparr>t_Input := t_Input t \<or> through\<rparr>) (r\<lparr>ro_Input := True\<rparr>)"

definition add_output :: "string \<Rightarrow> bool \<Rightarrow> roots \<Rightarrow> roots" where
  "add_output i through r =
     on_through (\<lambda>t. if through then t\<lparr>t_Outputs := t_Outputs t @ [i]\<rparr> else t) (r\<lparr>ro_Outputs := ro_Outputs r @ [i]\<rparr>)"

definition add_all_outputs :: "bool \<Rightarrow> roots \<Rightarrow> roots" where
  "add_all_outputs through r = on_through (\<lambda>t. t\<lparr>t_AllOutputs := t_AllOutputs t \<or> through\<rparr>) (r\<lparr>ro_AllOutputs := True\<rparr>)"

definition add_previous :: "bool \<Rightarrow> roots \<Rightarrow> roots" where
  "add_previous through r = on_through (\<lambda>t. t\<lparr>t_SelfPrevious := t_SelfPrevious t \<or> through\<rparr>) (r\<lparr>ro_SelfPrevious := True\<rparr>)"

definition add_result :: "bool \<Rightarrow> roots \<Rightarrow> roots" where
  "add_result through r = on_through (\<lambda>t. t\<lparr>t_SelfResult := t_SelfResult t \<or> through\<rparr>) (r\<lparr>ro_SelfResult := True\<rparr>)"

definition add_error :: "bool \<Rightarrow> bool \<Rightarrow> bool \<Rightarrow> roots \<Rightarrow> roots" where
  "add_error ns data through r =
     on_through (\<lambda>t. t\<lparr>t_Error := t_Error t \<or> ns, t_ErrorData := t_ErrorData t \<or> data \<and> through\<rparr>)
       (r\<lparr>ro_Error := True, ro_ErrorData := ro_ErrorData r \<or> data\<rparr>)"

definition add_last_error :: "bool \<Rightarrow> bool \<Rightarrow> bool \<Rightarrow> roots \<Rightarrow> roots" where
  "add_last_error ns data through r =
     on_through (\<lambda>t. t\<lparr>t_LastError := t_LastError t \<or> ns, t_LastErrorData := t_LastErrorData t \<or> data \<and> through\<rparr>)
       (r\<lparr>ro_LastError := True, ro_LastErrorData := ro_LastErrorData r \<or> data\<rparr>)"

definition outputRefID :: "node \<Rightarrow> string \<Rightarrow> string list \<Rightarrow> string" where
  "outputRefID base name bound = (if base = IdentNode ''outputs'' \<and> ''outputs'' \<notin> set bound then name else [])"

definition isSelfField :: "node \<Rightarrow> string \<Rightarrow> string list \<Rightarrow> string \<Rightarrow> bool" where
  "isSelfField base name bound field \<longleftrightarrow> base = IdentNode ''self'' \<and> ''self'' \<notin> set bound \<and> name = field"

definition ident_root :: "string \<Rightarrow> bool \<Rightarrow> roots \<Rightarrow> roots" where
  "ident_root name through r =
     (if name = ''input'' then add_input through r
      else if name = ''error'' then add_error through True through r
      else if name = ''last_error'' then add_last_error through True through r
      else if name = ''outputs'' then add_all_outputs through r
      else r)"

function (sequential) collectRoots :: "node \<Rightarrow> string list \<Rightarrow> bool \<Rightarrow> roots \<Rightarrow> roots" where
  "collectRoots (MemberNode base name) bound through r =
     (if outputRefID base name bound \<noteq> [] then add_output name through r
      else if isSelfField base name bound ''previous'' then add_previous through r
      else if isSelfField base name bound ''result'' then add_result through r
      else if isSelfField base name bound ''output'' then r\<lparr>ro_SelfOutput := True\<rparr>
      else if base = IdentNode ''error'' \<and> ''error'' \<notin> set bound then add_error True (name = ''data'') through r
      else if base = IdentNode ''last_error'' \<and> ''last_error'' \<notin> set bound then add_last_error True (name = ''data'') through r
      else collectRoots base bound True r)"
| "collectRoots (IndexNode base i) bound through r = collectRoots base bound True r"
| "collectRoots (KeyNode base key) bound through r = collectRoots key bound True (collectRoots base bound True r)"
| "collectRoots (IdentNode name) bound through r = (if name \<in> set bound then r else ident_root name through r)"
| "collectRoots (ArrayNode items) bound through r = fold (\<lambda>n r. collectRoots n bound False r) items r"
| "collectRoots (ObjectNode keys values) bound through r = fold (\<lambda>n r. collectRoots n bound False r) values r"
| "collectRoots (CallNode name args) bound through r = fold (\<lambda>n r. collectRoots n bound True r) args r"
| "collectRoots (LambdaNode param index_param body) bound through r = collectRoots body (bindParams bound param index_param) through r"
| "collectRoots (BinaryNode op l q) bound through r = collectRoots q bound True (collectRoots l bound True r)"
| "collectRoots (UnaryNode op n) bound through r = collectRoots n bound True r"
| "collectRoots (CondNode c t f) bound through r =
     collectRoots f bound through (collectRoots t bound through (collectRoots c bound True r))"
| "collectRoots n bound through r = r"
  by pat_completeness auto
termination
  by (relation "measure (\<lambda>(n, _). size n)") (auto simp: less_Suc_eq_le dest!: size_list_estimation' [where f = size, OF _ order.refl])

definition RootRefsNode :: "node \<Rightarrow> bool \<Rightarrow> roots" where
  "RootRefsNode n through = collectRoots n [] through no_roots"

subsection \<open>Output dependencies\<close>

function (sequential) collectOutputRefs :: "node \<Rightarrow> string list \<Rightarrow> string list" where
  "collectOutputRefs (MemberNode base name) bound =
     (let i = outputRefID base name bound in (if i \<noteq> [] then [i] else []) @ collectOutputRefs base bound)"
| "collectOutputRefs (IndexNode base i) bound = collectOutputRefs base bound"
| "collectOutputRefs (KeyNode base key) bound = collectOutputRefs base bound @ collectOutputRefs key bound"
| "collectOutputRefs (ArrayNode items) bound = concat (map (\<lambda>n. collectOutputRefs n bound) items)"
| "collectOutputRefs (ObjectNode keys values) bound = concat (map (\<lambda>n. collectOutputRefs n bound) values)"
| "collectOutputRefs (CallNode name args) bound = concat (map (\<lambda>n. collectOutputRefs n bound) args)"
| "collectOutputRefs (LambdaNode param index_param body) bound = collectOutputRefs body (bindParams bound param index_param)"
| "collectOutputRefs (BinaryNode op l q) bound = collectOutputRefs l bound @ collectOutputRefs q bound"
| "collectOutputRefs (UnaryNode op n) bound = collectOutputRefs n bound"
| "collectOutputRefs (CondNode c t f) bound = collectOutputRefs c bound @ collectOutputRefs t bound @ collectOutputRefs f bound"
| "collectOutputRefs n bound = []"
  by pat_completeness auto
termination
  by (relation "measure (\<lambda>(n, _). size n)") (auto simp: less_Suc_eq_le dest!: size_list_estimation' [where f = size, OF _ order.refl])

definition OutputRefsNode :: "node \<Rightarrow> string list" where
  "OutputRefsNode n = sort (remdups (collectOutputRefs n []))"

end
