(* ===== verification/Lazy_Env.thy ===== *)
theory Lazy_Env
  imports Eval Refs Context_Read
begin

text \<open>
  The environment an expression is evaluated in (\<open>buildEnv\<close> of \<open>engine/evaluator.go\<close>): a part of the
  context that is only copied keeps its markers, a part that is read through is materialized, and a
  marker that is not read at all is not loaded.
\<close>

fun is_ref :: "jval \<Rightarrow> bool" where
  "is_ref (JRef _ _) = True"
| "is_ref _ = False"

definition include_slot :: "loader \<Rightarrow> jval \<Rightarrow> string \<Rightarrow> bool \<Rightarrow> bool \<Rightarrow> jval ctx" where
  "include_slot load data key referenced thru =
     cbind (At load data [PKey key]) (\<lambda>v.
       if is_ref v \<and> \<not> referenced then cret JNull
       else if \<not> thru then cret v
       else Materialize load_depth load v)"

definition include_error :: "loader \<Rightarrow> jval \<Rightarrow> string \<Rightarrow> bool \<Rightarrow> bool \<Rightarrow> jval ctx" where
  "include_error load data key read thru =
     cbind (include_slot load data key read False) (\<lambda>m.
       case m of
         JObj kvs \<Rightarrow>
           if \<not> thru then cret m
           else cbind (MaterializeAt load data [PKey key, PKey ''data'']) (\<lambda>d. cret (JObj (obj_put ''data'' d kvs)))
       | _ \<Rightarrow> cret m)"

definition include_self :: "loader \<Rightarrow> jval \<Rightarrow> roots \<Rightarrow> jval ctx" where
  "include_self load self r =
     (if \<not> ro_SelfPrevious r then cret self
      else case self of
        JObj sm \<Rightarrow>
          cbind (if t_SelfPrevious (ro_Through r) then Materialize load_depth load (member self ''previous'')
                 else cret (member self ''previous'')) (\<lambda>prev.
          cret (JObj (obj_put ''previous'' prev sm)))
      | _ \<Rightarrow> cret self)"

text \<open>\<open>outputs.<this task>\<close> is the previous output, which \<open>self\<close> carries.\<close>

definition shadowed_outputs :: "string \<Rightarrow> jval \<Rightarrow> jval \<Rightarrow> (string \<times> jval) list" where
  "shadowed_outputs task self outsVal =
     (let outs = (case outsVal of JObj kvs \<Rightarrow> kvs | _ \<Rightarrow> []) in
      case self of
        JObj sm \<Rightarrow> (case map_of sm ''previous'' of None \<Rightarrow> outs | Some prev \<Rightarrow> obj_put task prev outs)
      | _ \<Rightarrow> outs)"

fun include_outputs :: "loader \<Rightarrow> roots \<Rightarrow> (string \<times> jval) list \<Rightarrow> (string \<times> jval) list ctx" where
  "include_outputs load r [] = cret []"
| "include_outputs load r ((k, v) # kvs) =
     (if is_ref v \<and> \<not> ro_AllOutputs r \<and> k \<notin> set (ro_Outputs r) then include_outputs load r kvs
      else
        cbind (if k \<notin> set (t_Outputs (ro_Through r)) \<and> \<not> t_AllOutputs (ro_Through r) then cret v
               else Materialize load_depth load v) (\<lambda>v.
        cbind (include_outputs load r kvs) (\<lambda>kvs. cret ((k, v) # kvs))))"

definition buildEnv :: "loader \<Rightarrow> jval \<Rightarrow> jval \<Rightarrow> string \<Rightarrow> jval \<Rightarrow> roots \<Rightarrow> (string \<rightharpoonup> jval) ctx" where
  "buildEnv load data config task self r =
     (let t = ro_Through r in
      cbind (include_self load self r) (\<lambda>env_self.
      cbind (include_slot load data ''input'' (ro_Input r) (t_Input t)) (\<lambda>input.
      cbind (include_error load data ''error'' (ro_Error r) (t_ErrorData t)) (\<lambda>error.
      cbind (include_error load data ''last_error'' (ro_LastError r) (t_LastErrorData t)) (\<lambda>last_error.
      cbind (At load data [PKey ''outputs'']) (\<lambda>outsVal.
      cbind (include_outputs load r (shadowed_outputs task self outsVal)) (\<lambda>outs.
      cret [''self'' \<mapsto> env_self, ''config'' \<mapsto> config, ''input'' \<mapsto> input, ''error'' \<mapsto> error,
            ''last_error'' \<mapsto> last_error, ''outputs'' \<mapsto> JObj outs])))))))"

subsection \<open>An analysis that is always enough\<close>

text \<open>
  As \<open>collectRoots\<close>, but a literal passes on the position it is in, and a bare \<open>self\<close> counts as a read of
  everything below it.
\<close>

function (sequential) strictRoots :: "node \<Rightarrow> string list \<Rightarrow> bool \<Rightarrow> roots \<Rightarrow> roots" where
  "strictRoots (MemberNode base name) bound thru r =
     (if outputRefID base name bound \<noteq> [] then add_output name thru r
      else if isSelfField base name bound ''previous'' then add_previous thru r
      else if isSelfField base name bound ''result'' then add_result thru r
      else if isSelfField base name bound ''output'' then r\<lparr>ro_SelfOutput := True\<rparr>
      else if isSelfField base name bound name then r
      else if base = IdentNode ''error'' \<and> ''error'' \<notin> set bound then add_error True (name = ''data'') thru r
      else if base = IdentNode ''last_error'' \<and> ''last_error'' \<notin> set bound then add_last_error True (name = ''data'') thru r
      else strictRoots base bound True r)"
| "strictRoots (IndexNode base i) bound thru r = strictRoots base bound True r"
| "strictRoots (KeyNode base key) bound thru r = strictRoots key bound True (strictRoots base bound True r)"
| "strictRoots (IdentNode name) bound thru r =
     (if name \<in> set bound then r else if name = ''self'' then add_previous thru r else ident_root name thru r)"
| "strictRoots (ArrayNode items) bound thru r = fold (\<lambda>n r. strictRoots n bound thru r) items r"
| "strictRoots (ObjectNode keys values) bound thru r = fold (\<lambda>n r. strictRoots n bound thru r) values r"
| "strictRoots (CallNode name args) bound thru r = fold (\<lambda>n r. strictRoots n bound True r) args r"
| "strictRoots (LambdaNode param index_param body) bound thru r = strictRoots body (bindParams bound param index_param) thru r"
| "strictRoots (BinaryNode op l q) bound thru r = strictRoots q bound True (strictRoots l bound True r)"
| "strictRoots (UnaryNode op n) bound thru r = strictRoots n bound True r"
| "strictRoots (CondNode c t f) bound thru r =
     strictRoots f bound thru (strictRoots t bound thru (strictRoots c bound True r))"
| "strictRoots n bound thru r = r"
  by pat_completeness auto
termination
  by (relation "measure (\<lambda>(n, _). size n)") (auto simp: less_Suc_eq_le dest!: size_list_estimation' [where f = size, OF _ order.refl])

definition roots_le :: "roots \<Rightarrow> roots \<Rightarrow> bool" where
  "roots_le r q \<longleftrightarrow>
     (ro_Input r \<longrightarrow> ro_Input q) \<and> (ro_Error r \<longrightarrow> ro_Error q) \<and> set (ro_Outputs r) \<subseteq> set (ro_Outputs q) \<and>
     (ro_AllOutputs r \<longrightarrow> ro_AllOutputs q) \<and> (ro_SelfPrevious r \<longrightarrow> ro_SelfPrevious q) \<and>
     (ro_ErrorData r \<longrightarrow> ro_ErrorData q) \<and> (ro_LastError r \<longrightarrow> ro_LastError q) \<and> (ro_LastErrorData r \<longrightarrow> ro_LastErrorData q) \<and>
     (t_Input (ro_Through r) \<longrightarrow> t_Input (ro_Through q)) \<and> (t_ErrorData (ro_Through r) \<longrightarrow> t_ErrorData (ro_Through q)) \<and>
     (t_AllOutputs (ro_Through r) \<longrightarrow> t_AllOutputs (ro_Through q)) \<and> (t_SelfPrevious (ro_Through r) \<longrightarrow> t_SelfPrevious (ro_Through q)) \<and>
     (t_LastErrorData (ro_Through r) \<longrightarrow> t_LastErrorData (ro_Through q)) \<and>
     set (t_Outputs (ro_Through r)) \<subseteq> set (t_Outputs (ro_Through q))"

lemma roots_le_refl [simp]: "roots_le r r"
  by (simp add: roots_le_def)

lemma roots_le_trans: "roots_le r q \<Longrightarrow> roots_le q p \<Longrightarrow> roots_le r p"
  unfolding roots_le_def by (elim conjE, intro conjI impI) (simp | erule (1) subset_trans)+

lemmas add_root_defs = add_input_def add_output_def add_all_outputs_def add_previous_def add_result_def add_error_def
  add_last_error_def ident_root_def

lemma roots_le_add [simp]:
  "roots_le r (add_input t r)" "roots_le r (add_output i t r)" "roots_le r (add_all_outputs t r)" "roots_le r (add_previous t r)"
  "roots_le r (add_result t r)" "roots_le r (add_error ns d t r)" "roots_le r (add_last_error ns d t r)" "roots_le r (ident_root name t r)"
  "roots_le r (r\<lparr>ro_SelfOutput := b\<rparr>)"
  by (auto simp: add_root_defs roots_le_def)

lemma fold_roots_mono: "(\<And>n r. n \<in> set ns \<Longrightarrow> roots_le r (f n r)) \<Longrightarrow> roots_le r (fold f ns r)"
  by (induction ns arbitrary: r) (auto intro: roots_le_trans)

lemma strictRoots_mono: "roots_le r (strictRoots n bound thru r)"
proof (induction n bound thru r rule: strictRoots.induct)
  case (5 items bound thru r)
  then show ?case by (simp add: fold_roots_mono)
next
  case (6 keys vals bound thru r)
  then show ?case by (simp add: fold_roots_mono)
next
  case (7 name args bound thru r)
  then show ?case by (simp add: fold_roots_mono)
qed (auto intro: roots_le_trans)

lemma fold_roots_each:
  assumes "\<And>n r. roots_le r (f n r)" "n \<in> set ns"
  shows "\<exists>r'. roots_le (f n r') (fold f ns r)"
  using assms(2)
proof (induction ns arbitrary: r)
  case (Cons m ns)
  then show ?case using fold_roots_mono [of ns f "f m r"] assms(1) by (cases "n = m") auto
qed simp

end
