(* ===== verification/Lazy_Props.thy ===== *)
theory Lazy_Props
  imports Lazy_Env
begin


text \<open>
  Lazy evaluation is transparent: an expression evaluated over an environment that still holds markers
  gives the value it would give over the full context, as long as the roots it reads through were loaded.
\<close>

subsection \<open>Values that stand for the same thing\<close>

definition agree :: "loader \<Rightarrow> bool \<Rightarrow> jval \<Rightarrow> jval \<Rightarrow> bool" where
  "agree load t v w \<longleftrightarrow> full load v = Inr w \<and> marker_free w \<and> (t \<longrightarrow> v = w)"

lemma agree_same [simp]: "agree load t v v \<longleftrightarrow> marker_free v"
  by (auto simp: agree_def full_marker_free)

lemma agree_through [simp]: "agree load True v w \<longleftrightarrow> v = w \<and> marker_free v"
  by (auto simp: agree_def full_marker_free)

lemma agree_weaken: "agree load t v w \<Longrightarrow> (t' \<Longrightarrow> t) \<Longrightarrow> agree load t' v w"
  by (auto simp: agree_def)

definition agree_res :: "loader \<Rightarrow> bool \<Rightarrow> jval eres \<Rightarrow> jval eres \<Rightarrow> bool" where
  "agree_res load t = rel_sum (=) (agree load t)"

lemma agree_res_simps [simp]:
  "agree_res load t (Inr v) (Inr w) \<longleftrightarrow> agree load t v w" "agree_res load t (Inl a) (Inl b) \<longleftrightarrow> a = b"
  "\<not> agree_res load t (Inl a) (Inr w)" "\<not> agree_res load t (Inr v) (Inl b)"
  by (simp_all add: agree_res_def)

lemma agree_res_true: "agree_res load True m m' \<longleftrightarrow> m = m' \<and> (\<forall>v. m = Inr v \<longrightarrow> marker_free v)"
  by (cases m; cases m') auto

lemma agree_res_weaken: "agree_res load t m m' \<Longrightarrow> (t' \<Longrightarrow> t) \<Longrightarrow> agree_res load t' m m'"
  by (cases m; cases m') (auto intro: agree_weaken)

lemma agree_rbind:
  assumes "agree_res load t m m'" "\<And>v w. m = Inr v \<Longrightarrow> m' = Inr w \<Longrightarrow> agree load t v w \<Longrightarrow> agree_res load t' (f v) (g w)"
  shows "agree_res load t' (rbind m f) (rbind m' g)"
  using assms by (cases m; cases m') auto

text \<open>A value that has been looked into is the same on both sides, so whatever follows is too.\<close>

lemma agree_inspect:
  assumes "agree_res load True m m'" "\<And>v. m' = Inr v \<Longrightarrow> marker_free v \<Longrightarrow> agree_res load t (f v) (g v)"
  shows "agree_res load t (rbind m f) (rbind m' g)"
  using assms by (cases m; cases m') auto

lemma agree_each:
  assumes "\<And>x. x \<in> set xs \<Longrightarrow> agree_res load t (f x) (g x)"
  shows "rel_sum (=) (list_all2 (agree load t)) (each f xs) (each g xs)"
  using assms
proof (induction xs)
  case (Cons x xs)
  have "agree_res load t (f x) (g x)" "rel_sum (=) (list_all2 (agree load t)) (each f xs) (each g xs)" using Cons by auto
  then show ?case by (cases "f x"; cases "g x"; cases "each f xs"; cases "each g xs") auto
qed simp

lemma agree_arr_simps [simp]:
  "agree load t (JArr []) (JArr ws) \<longleftrightarrow> ws = []" "agree load t (JArr vs) (JArr []) \<longleftrightarrow> vs = []"
  "agree load t (JArr (v # vs)) (JArr (w # ws)) \<longleftrightarrow> agree load t v w \<and> agree load t (JArr vs) (JArr ws)"
proof -
  show "agree load t (JArr []) (JArr ws) \<longleftrightarrow> ws = []" by (auto simp: agree_def)
  show "agree load t (JArr vs) (JArr []) \<longleftrightarrow> vs = []"
    by (cases vs) (auto simp: agree_def map_sum_def split: sum.splits)
  show "agree load t (JArr (v # vs)) (JArr (w # ws)) \<longleftrightarrow> agree load t v w \<and> agree load t (JArr vs) (JArr ws)"
    by (cases "full load v"; cases "full_items load vs") (auto simp: agree_def)
qed

lemma agree_arr: "list_all2 (agree load t) vs ws \<Longrightarrow> agree load t (JArr vs) (JArr ws)"
  by (induction rule: list_all2_induct) auto

lemma agree_arrD: "agree load t (JArr vs) (JArr ws) \<Longrightarrow> list_all2 (agree load t) vs ws"
proof (induction vs arbitrary: ws)
  case (Cons v vs)
  then show ?case by (cases ws) auto
qed simp

lemma agree_obj_simps [simp]:
  "agree load t (JObj []) (JObj ws) \<longleftrightarrow> ws = []" "agree load t (JObj vs) (JObj []) \<longleftrightarrow> vs = []"
  "agree load t (JObj ((k, v) # vs)) (JObj ((l, w) # ws)) \<longleftrightarrow> k = l \<and> agree load t v w \<and> agree load t (JObj vs) (JObj ws)"
proof -
  show "agree load t (JObj []) (JObj ws) \<longleftrightarrow> ws = []" by (auto simp: agree_def)
  have "full_fields load ((k, v) # vs) \<noteq> Inr []" for k v vs by (auto simp: map_sum_def split: sum.splits)
  then show "agree load t (JObj vs) (JObj []) \<longleftrightarrow> vs = []"
    by (cases vs) (auto simp: agree_def map_sum_def split: sum.splits)
  show "agree load t (JObj ((k, v) # vs)) (JObj ((l, w) # ws)) \<longleftrightarrow> k = l \<and> agree load t v w \<and> agree load t (JObj vs) (JObj ws)"
    by (cases "full load v"; cases "full_fields load vs") (auto simp: agree_def)
qed

lemma agree_obj_put:
  "agree load t (JObj vs) (JObj ws) \<Longrightarrow> agree load t v w \<Longrightarrow> agree load t (JObj (obj_put k v vs)) (JObj (obj_put k w ws))"
proof (induction vs arbitrary: ws)
  case (Cons kv vs)
  obtain l x where kv: "kv = (l, x)" by (cases kv)
  obtain y ws' where ws: "ws = (l, y) # ws'" using Cons.prems(1) kv by (cases ws) auto
  show ?case using Cons kv ws by simp
qed simp

lemma agree_obj_fold:
  assumes "list_all2 (agree load t) vs ws" "agree load t (JObj xs) (JObj ys)"
  shows "agree load t (JObj (fold (\<lambda>(k, v). obj_put k v) (zip keys vs) xs)) (JObj (fold (\<lambda>(k, v). obj_put k v) (zip keys ws) ys))"
  using assms
proof (induction keys arbitrary: vs ws xs ys)
  case (Cons k keys)
  show ?case
  proof (cases vs)
    case (Cons v vs')
    then obtain w ws' where ws: "ws = w # ws'" "agree load t v w" "list_all2 (agree load t) vs' ws'"
      using Cons.prems(1) by (auto simp: list_all2_Cons1)
    show ?thesis using Cons.IH [OF ws(3) agree_obj_put [OF Cons.prems(2) ws(2)]] Cons ws by simp
  qed (use Cons.prems in simp)
qed simp

lemma agree_lookup: "agree load t (JObj vs) (JObj ws) \<Longrightarrow> rel_option (agree load t) (map_of vs k) (map_of ws k)"
proof (induction vs arbitrary: ws)
  case (Cons kv vs)
  obtain l x where kv: "kv = (l, x)" by (cases kv)
  obtain y ws' where ws: "ws = (l, y) # ws'" using Cons.prems(1) kv by (cases ws) auto
  show ?case using Cons kv ws by auto
qed simp

text \<open>The shape of a value survives loading, unless it is a marker itself.\<close>

lemma agree_cases:
  assumes "agree load t v w" "\<not> is_ref v"
  obtains vs ws where "v = JObj vs" "w = JObj ws" | vs ws where "v = JArr vs" "w = JArr ws" | "v = w" "marker_free v"
    "\<nexists>kvs. v = JObj kvs" "\<nexists>xs. v = JArr xs"
  using assms by (cases v) (auto simp: agree_def map_sum_def split: sum.splits)

lemma agree_member:
  assumes "agree load t v w" "\<not> is_ref v"
  shows "agree load t (member v k) (member w k)"
  using assms
proof (cases rule: agree_cases)
  case (1 vs ws)
  then have "rel_option (agree load t) (map_of vs k) (map_of ws k)" using assms(1) agree_lookup by simp
  then show ?thesis using 1 by (cases "map_of vs k"; cases "map_of ws k") auto
next
  case (2 vs ws)
  then show ?thesis by simp
next
  case 3
  then show ?thesis by (cases v) auto
qed

lemma marker_free_member: "marker_free v \<Longrightarrow> marker_free (member v k)"
  using agree_member [of _ True v v k] by (cases v) auto

lemma marker_free_item: "marker_free v \<Longrightarrow> marker_free (item v i)"
  by (cases v) (auto simp: list_all_iff in_range_def intro!: nth_mem)

lemma marker_free_keyed: "marker_free v \<Longrightarrow> keyed D v key = Inr w \<Longrightarrow> marker_free w"
  by (cases v) (auto simp: list_all_iff in_range_def split: jval.splits option.splits if_splits dest!: map_of_SomeD intro!: nth_mem)

lemma marker_free_resolved [simp]: "marker_free v \<Longrightarrow> checkResolved v = Inr ()"
  by (cases v) auto

lemma op_results_plain:
  "decimalResult D d = Inr v \<Longrightarrow> marker_free v" "decBinOp D fn l r = Inr v \<Longrightarrow> marker_free v"
  "numCmp D c l r = Inr v \<Longrightarrow> marker_free v" "evalAdd D l r = Inr v \<Longrightarrow> marker_free v" "evalDiv D l r = Inr v \<Longrightarrow> marker_free v"
  "evalMod D l r = Inr v \<Longrightarrow> marker_free v" "negateNum D x = Inr v \<Longrightarrow> marker_free v"
proof -
  show d: "decimalResult D d = Inr v \<Longrightarrow> marker_free v" for d by (auto simp: decimalResult_def split: if_splits option.splits)
  show b: "decBinOp D fn l r = Inr v \<Longrightarrow> marker_free v" for fn by (auto simp: decBinOp_def split: option.splits prod.splits intro: d)
  show "numCmp D c l r = Inr v \<Longrightarrow> marker_free v" by (auto simp: numCmp_def split: option.splits prod.splits)
  show "evalAdd D l r = Inr v \<Longrightarrow> marker_free v" by (auto simp: evalAdd_def split: jval.splits intro: b)
  show "evalDiv D l r = Inr v \<Longrightarrow> marker_free v" by (auto simp: evalDiv_def split: option.splits prod.splits if_splits intro: d)
  show "evalMod D l r = Inr v \<Longrightarrow> marker_free v" by (auto simp: evalMod_def split: option.splits prod.splits if_splits intro: d)
  show "negateNum D x = Inr v \<Longrightarrow> marker_free v" by (auto simp: negateNum_def split: option.splits intro: d)
qed

lemma binaryOps_plain: "binaryOps D op = Some f \<Longrightarrow> f l r = Inr v \<Longrightarrow> marker_free v"
  unfolding binaryOps_def by (auto split: if_splits simp: map_sum_def split: sum.splits dest: op_results_plain)

lemma unaryOps_plain: "eval_unaryOps D op = Some f \<Longrightarrow> f x = Inr v \<Longrightarrow> marker_free x \<Longrightarrow> marker_free v"
  unfolding eval_unaryOps_def requireNum_def
  by (auto split: if_splits option.splits dest: op_results_plain elim!: evalNot.elims)

subsection \<open>Environments that agree on what is read\<close>

definition error_ok :: "loader \<Rightarrow> bool \<Rightarrow> bool \<Rightarrow> jval \<Rightarrow> jval \<Rightarrow> bool" where
  "error_ok load read thru v w \<longleftrightarrow>
     (read \<longrightarrow> \<not> is_ref v \<and> agree load thru v w \<and> (\<forall>f. f \<noteq> ''data'' \<longrightarrow> agree load True (member v f) (member w f)))"

definition self_ok :: "loader \<Rightarrow> bool \<Rightarrow> bool \<Rightarrow> jval \<Rightarrow> jval \<Rightarrow> bool" where
  "self_ok load read thru v w \<longleftrightarrow>
     \<not> is_ref v \<and> (v = JNull \<longleftrightarrow> w = JNull) \<and> marker_free w \<and> (read \<longrightarrow> agree load thru v w) \<and>
     (\<forall>f. f \<noteq> ''previous'' \<longrightarrow> agree load True (member v f) (member w f))"

definition outputs_ok :: "loader \<Rightarrow> roots \<Rightarrow> jval \<Rightarrow> jval \<Rightarrow> bool" where
  "outputs_ok load R v w \<longleftrightarrow>
     (\<exists>vs ws. v = JObj vs \<and> w = JObj ws) \<and>
     (\<forall>i \<in> set (ro_Outputs R). agree load (i \<in> set (t_Outputs (ro_Through R)) \<or> t_AllOutputs (ro_Through R)) (member v i) (member w i)) \<and>
     (ro_AllOutputs R \<longrightarrow> agree load (t_AllOutputs (ro_Through R)) v w)"

definition env_names :: "string list" where
  "env_names = [''self'', ''config'', ''input'', ''error'', ''last_error'', ''outputs'']"

definition env_ok :: "loader \<Rightarrow> roots \<Rightarrow> (string \<rightharpoonup> jval) \<Rightarrow> (string \<rightharpoonup> jval) \<Rightarrow> bool" where
  "env_ok load R c c' \<longleftrightarrow>
     dom c = set env_names \<and> dom c' = set env_names \<and>
     agree load True (the (c ''config'')) (the (c' ''config'')) \<and>
     (ro_Input R \<longrightarrow> agree load (t_Input (ro_Through R)) (the (c ''input'')) (the (c' ''input''))) \<and>
     error_ok load (ro_Error R) (t_ErrorData (ro_Through R)) (the (c ''error'')) (the (c' ''error'')) \<and>
     error_ok load (ro_LastError R) (t_LastErrorData (ro_Through R)) (the (c ''last_error'')) (the (c' ''last_error'')) \<and>
     self_ok load (ro_SelfPrevious R) (t_SelfPrevious (ro_Through R)) (the (c ''self'')) (the (c' ''self'')) \<and>
     outputs_ok load R (the (c ''outputs'')) (the (c' ''outputs''))"

lemma env_ok_Some: "env_ok load R c c' \<Longrightarrow> x \<in> set env_names \<Longrightarrow> c x = Some (the (c x)) \<and> c' x = Some (the (c' x))"
  unfolding env_ok_def by (metis domD option.sel)

lemma env_ok_None: "env_ok load R c c' \<Longrightarrow> x \<notin> set env_names \<Longrightarrow> c x = None \<and> c' x = None"
  unfolding env_ok_def by blast

lemma add_output_le: "roots_le (add_output i thru r) R \<Longrightarrow> i \<in> set (ro_Outputs R) \<and> (thru \<longrightarrow> i \<in> set (t_Outputs (ro_Through R)))"
  by (auto simp: add_output_def roots_le_def split: if_splits)

lemma ident_root_le:
  assumes "roots_le (ident_root name thru r) R"
  shows "name = ''input'' \<Longrightarrow> ro_Input R \<and> (thru \<longrightarrow> t_Input (ro_Through R))"
    "name = ''error'' \<Longrightarrow> ro_Error R \<and> (thru \<longrightarrow> t_ErrorData (ro_Through R))"
    "name = ''last_error'' \<Longrightarrow> ro_LastError R \<and> (thru \<longrightarrow> t_LastErrorData (ro_Through R))"
    "name = ''outputs'' \<Longrightarrow> ro_AllOutputs R \<and> (thru \<longrightarrow> t_AllOutputs (ro_Through R))"
  using assms by (auto simp: ident_root_def add_root_defs roots_le_def)

lemma agree_ident:
  assumes ok: "env_ok load R c c'" and le: "roots_le (if name = ''self'' then add_previous thru r else ident_root name thru r) R"
  shows "rel_option (agree load thru) (c name) (c' name)"
proof (cases "name \<in> set env_names")
  case True
  have "agree load thru (the (c name)) (the (c' name))"
  proof -
    have "name = ''self'' \<or> name = ''config'' \<or> name = ''input'' \<or> name = ''error'' \<or> name = ''last_error'' \<or> name = ''outputs''"
      using True by (simp add: env_names_def)
    then show ?thesis
    proof (elim disjE)
      assume n: "name = ''self''"
      then have "ro_SelfPrevious R" "thru \<longrightarrow> t_SelfPrevious (ro_Through R)" using le by (auto simp: add_previous_def roots_le_def)
      then show ?thesis using ok n by (auto simp: env_ok_def self_ok_def intro: agree_weaken)
    next
      assume n: "name = ''config''"
      then show ?thesis using ok unfolding env_ok_def by (metis agree_same agree_through)
    next
      assume n: "name = ''input''"
      then show ?thesis using ok ident_root_le(1) [of name thru r R] le by (auto simp: env_ok_def intro: agree_weaken)
    next
      assume n: "name = ''error''"
      then show ?thesis using ok ident_root_le(2) [of name thru r R] le by (auto simp: env_ok_def error_ok_def intro: agree_weaken)
    next
      assume n: "name = ''last_error''"
      then show ?thesis using ok ident_root_le(3) [of name thru r R] le by (auto simp: env_ok_def error_ok_def intro: agree_weaken)
    next
      assume n: "name = ''outputs''"
      then show ?thesis using ok ident_root_le(4) [of name thru r R] le by (auto simp: env_ok_def outputs_ok_def intro: agree_weaken)
    qed
  qed
  then show ?thesis using env_ok_Some [OF ok True] by (metis option.rel_intros(2))
next
  case False
  then show ?thesis using env_ok_None [OF ok] by simp
qed

text \<open>A field of one of the roots that are read field by field.\<close>

definition read_field :: "jval \<Rightarrow> string \<Rightarrow> jval eres" where
  "read_field b name = null_or (\<lambda>b. rbind (checkResolved b) (\<lambda>_. Inr (member b name))) b"

lemma read_field_plain: "\<not> is_ref b \<Longrightarrow> read_field b name = Inr (member b name)"
  by (cases b) (auto simp: read_field_def null_or_def)

lemma agree_not_ref: "agree load True v w \<Longrightarrow> \<not> is_ref w"
  by (cases w) auto

lemma marker_free_not_ref: "marker_free w \<Longrightarrow> \<not> is_ref w"
  by (cases w) auto

lemma agree_field:
  assumes ok: "env_ok load R c c'"
    and base: "base = ''self'' \<and> (name = ''previous'' \<longrightarrow> ro_SelfPrevious R \<and> (thru \<longrightarrow> t_SelfPrevious (ro_Through R)))
      \<or> base = ''error'' \<and> ro_Error R \<and> (name = ''data'' \<longrightarrow> thru \<longrightarrow> t_ErrorData (ro_Through R))
      \<or> base = ''last_error'' \<and> ro_LastError R \<and> (name = ''data'' \<longrightarrow> thru \<longrightarrow> t_LastErrorData (ro_Through R))
      \<or> base = ''outputs'' \<and> name \<in> set (ro_Outputs R) \<and> (thru \<longrightarrow> name \<in> set (t_Outputs (ro_Through R)))"
  shows "agree_res load thru (read_field (the (c base)) name) (read_field (the (c' base)) name)"
proof -
  have "\<not> is_ref (the (c base)) \<and> \<not> is_ref (the (c' base)) \<and> agree load thru (member (the (c base)) name) (member (the (c' base)) name)"
    using base
  proof (elim disjE conjE)
    assume b: "base = ''self''" "name = ''previous'' \<longrightarrow> ro_SelfPrevious R \<and> (thru \<longrightarrow> t_SelfPrevious (ro_Through R))"
    then have s: "self_ok load (ro_SelfPrevious R) (t_SelfPrevious (ro_Through R)) (the (c base)) (the (c' base))" using ok by (simp add: env_ok_def)
    then show ?thesis
      using b agree_member [of load "t_SelfPrevious (ro_Through R)" "the (c base)" "the (c' base)" "''previous''"]
      by (cases "name = ''previous''") (auto simp: self_ok_def marker_free_not_ref intro: agree_weaken)
  next
    assume b: "base = ''error''" "ro_Error R" "name = ''data'' \<longrightarrow> thru \<longrightarrow> t_ErrorData (ro_Through R)"
    then have s: "error_ok load True (t_ErrorData (ro_Through R)) (the (c base)) (the (c' base))" using ok by (simp add: env_ok_def)
    then show ?thesis
      using b agree_member [of load "t_ErrorData (ro_Through R)" "the (c base)" "the (c' base)" "''data''"]
      by (cases "name = ''data''") (auto simp: error_ok_def agree_def marker_free_not_ref)
  next
    assume b: "base = ''last_error''" "ro_LastError R" "name = ''data'' \<longrightarrow> thru \<longrightarrow> t_LastErrorData (ro_Through R)"
    then have s: "error_ok load True (t_LastErrorData (ro_Through R)) (the (c base)) (the (c' base))" using ok by (simp add: env_ok_def)
    then show ?thesis
      using b agree_member [of load "t_LastErrorData (ro_Through R)" "the (c base)" "the (c' base)" "''data''"]
      by (cases "name = ''data''") (auto simp: error_ok_def agree_def marker_free_not_ref)
  next
    assume b: "base = ''outputs''" "name \<in> set (ro_Outputs R)" "thru \<longrightarrow> name \<in> set (t_Outputs (ro_Through R))"
    then have "outputs_ok load R (the (c base)) (the (c' base))" using ok by (simp add: env_ok_def)
    then show ?thesis using b by (auto simp: outputs_ok_def intro: agree_weaken)
  qed
  then show ?thesis by (simp add: read_field_plain)
qed


subsection \<open>Evaluation\<close>

definition vars_ok :: "(string \<rightharpoonup> jval) \<Rightarrow> string list \<Rightarrow> bool" where
  "vars_ok m bound \<longleftrightarrow> dom m = set bound \<and> (\<forall>x v. m x = Some v \<longrightarrow> marker_free v)"

abbreviation env_of :: "(string \<rightharpoonup> jval) \<Rightarrow> (string \<rightharpoonup> jval) \<Rightarrow> env" where
  "env_of c m \<equiv> \<lparr>e_ctx = c, e_vars = m\<rparr>"

lemma vars_bind:
  assumes "vars_ok m bound" "marker_free x"
  shows "vars_ok (m ++ lambda_pairs param index_param x i) (bindParams bound param index_param)"
  using assms unfolding vars_ok_def lambda_pairs_def bindParams_def by (auto split: if_splits)

lemma eval_root: "m b = None \<Longrightarrow> c b = Some v \<Longrightarrow> evalNode D (IdentNode b) (env_of c m) = Inr v"
  by (simp add: lookup_var_def)

lemma eval_member: "evalNode D (MemberNode n name) e = rbind (evalNode D n e) (\<lambda>b. read_field b name)"
  by (simp add: read_field_def [abs_def])

lemma read_field_same: "marker_free b \<Longrightarrow> agree_res load t (read_field b name) (read_field b name)"
  by (simp add: read_field_plain marker_free_not_ref marker_free_member)

lemma member_root:
  assumes ok: "env_ok load R c c'" and v: "vars_ok m bound" and b: "b \<notin> set bound" "b \<in> set env_names"
    and f: "agree_res load thru (read_field (the (c b)) name) (read_field (the (c' b)) name)"
  shows "agree_res load thru (evalNode D (MemberNode (IdentNode b) name) (env_of c m)) (evalNode D (MemberNode (IdentNode b) name) (env_of c' m))"
proof -
  have "m b = None" using v b(1) by (auto simp: vars_ok_def)
  then have "evalNode D (IdentNode b) (env_of c m) = Inr (the (c b))" "evalNode D (IdentNode b) (env_of c' m) = Inr (the (c' b))"
    using env_ok_Some [OF ok b(2)] eval_root by blast+
  then show ?thesis using f unfolding eval_member by simp
qed

lemma agree_each_list:
  assumes "\<And>n. n \<in> set ns \<Longrightarrow> agree_res load t (f n) (g n)"
    and "\<And>vs ws. list_all2 (agree load t) vs ws \<Longrightarrow> agree load t (h vs) (h ws)"
  shows "agree_res load t (rbind (each f ns) (\<lambda>vs. Inr (h vs))) (rbind (each g ns) (\<lambda>vs. Inr (h vs)))"
  using agree_each [of ns load t f g, OF assms(1)] assms(2) by (cases "each f ns"; cases "each g ns") auto

lemma lazy_member:
  assumes ok: "env_ok load R c c'" and v: "vars_ok m bound" and le: "roots_le (strictRoots (MemberNode n name) bound thru r) R"
    and ih: "roots_le (strictRoots n bound True r) R \<Longrightarrow> agree_res load True (evalNode D n (env_of c m)) (evalNode D n (env_of c' m))"
  shows "agree_res load thru (evalNode D (MemberNode n name) (env_of c m)) (evalNode D (MemberNode n name) (env_of c' m))"
proof -
  let ?R = "ro_Through R"
  have field: ?thesis if "n = IdentNode b" "b \<notin> set bound" "b \<in> set env_names"
    "b = ''self'' \<and> (name = ''previous'' \<longrightarrow> ro_SelfPrevious R \<and> (thru \<longrightarrow> t_SelfPrevious ?R))
      \<or> b = ''error'' \<and> ro_Error R \<and> (name = ''data'' \<longrightarrow> thru \<longrightarrow> t_ErrorData ?R)
      \<or> b = ''last_error'' \<and> ro_LastError R \<and> (name = ''data'' \<longrightarrow> thru \<longrightarrow> t_LastErrorData ?R)
      \<or> b = ''outputs'' \<and> name \<in> set (ro_Outputs R) \<and> (thru \<longrightarrow> name \<in> set (t_Outputs ?R))" for b
    unfolding that(1) by (rule member_root [OF ok v that(2,3)]) (rule agree_field [OF ok that(4)])
  consider (out) "outputRefID n name bound \<noteq> []" | (self) "isSelfField n name bound name" "outputRefID n name bound = []"
    | (error) "n = IdentNode ''error''" "''error'' \<notin> set bound" | (last) "n = IdentNode ''last_error''" "''last_error'' \<notin> set bound"
    | (base) "outputRefID n name bound = []" "\<not> isSelfField n name bound name" "\<not> (n = IdentNode ''error'' \<and> ''error'' \<notin> set bound)"
      "\<not> (n = IdentNode ''last_error'' \<and> ''last_error'' \<notin> set bound)"
    by blast
  then show ?thesis
  proof cases
    case out
    then have "n = IdentNode ''outputs''" "''outputs'' \<notin> set bound" by (auto simp: outputRefID_def split: if_splits)
    moreover have "name \<in> set (ro_Outputs R) \<and> (thru \<longrightarrow> name \<in> set (t_Outputs ?R))" using le out add_output_le by simp
    ultimately show ?thesis by (intro field [of "''outputs''"]) (simp_all add: env_names_def)
  next
    case self
    then have n: "n = IdentNode ''self''" "''self'' \<notin> set bound" by (auto simp: isSelfField_def)
    have "ro_SelfPrevious R \<and> (thru \<longrightarrow> t_SelfPrevious ?R)" if "name = ''previous''"
      using le self that by (auto simp: isSelfField_def add_previous_def roots_le_def)
    then show ?thesis using n by (intro field [of "''self''"]) (simp_all add: env_names_def)
  next
    case error
    then have "ro_Error R" "name = ''data'' \<longrightarrow> thru \<longrightarrow> t_ErrorData ?R"
      using le by (auto simp: outputRefID_def isSelfField_def add_error_def roots_le_def)
    then show ?thesis using error by (intro field [of "''error''"]) (simp_all add: env_names_def)
  next
    case last
    then have "ro_LastError R" "name = ''data'' \<longrightarrow> thru \<longrightarrow> t_LastErrorData ?R"
      using le by (auto simp: outputRefID_def isSelfField_def add_last_error_def roots_le_def)
    then show ?thesis using last by (intro field [of "''last_error''"]) (simp_all add: env_names_def)
  next
    case base
    then have "\<not> isSelfField n name bound f" for f by (auto simp: isSelfField_def)
    then have "strictRoots (MemberNode n name) bound thru r = strictRoots n bound True r" using base by auto
    then show ?thesis unfolding eval_member using ih le by (intro agree_inspect) (auto intro: read_field_same)
  qed
qed

lemma agree_res_same: "(\<And>v. m = Inr v \<Longrightarrow> marker_free v) \<Longrightarrow> agree_res load t m m"
  by (cases m) auto

lemma strict_each:
  assumes "roots_le (fold (\<lambda>n r. strictRoots n bound t r) ns r) R" "k \<in> set ns"
  shows "\<exists>q. roots_le (strictRoots k bound t q) R"
proof -
  obtain q where "roots_le (strictRoots k bound t q) (fold (\<lambda>n r. strictRoots n bound t r) ns r)"
    using fold_roots_each [of "\<lambda>n r. strictRoots n bound t r", OF strictRoots_mono assms(2)] by blast
  then show ?thesis using assms(1) roots_le_trans by blast
qed

lemma size_of_member: "n \<in> set ns \<Longrightarrow> size n < Suc (size_list size ns)"
  by (induction ns) auto

lemma lazy_binary:
  assumes a: "agree_res load True (evalNode D a e) (evalNode D a e')" and b: "agree_res load True (evalNode D b e) (evalNode D b e')"
  shows "agree_res load t (evalNode D (BinaryNode op a b) e) (evalNode D (BinaryNode op a b) e')"
proof -
  have eq: "evalNode D a e' = evalNode D a e" "evalNode D b e' = evalNode D b e" using a b by (simp_all add: agree_res_true)
  have mf: "\<And>v. evalNode D a e = Inr v \<Longrightarrow> marker_free v" "\<And>v. evalNode D b e = Inr v \<Longrightarrow> marker_free v"
    using a b by (auto simp: agree_res_true)
  have "marker_free v" if r: "evalNode D (BinaryNode op a b) e = Inr v" for v
  proof (cases "op = ''??'' \<or> op = ''&&'' \<or> op = ''||''")
    case True
    then show ?thesis using r mf
      by (cases "evalNode D a e"; cases "evalNode D b e") (auto simp: rbind_def split: if_splits sum.splits)
  next
    case False
    then obtain f where f: "binaryOps D op = Some f" using r by (cases "binaryOps D op") auto
    then obtain x y where "f x y = Inr v" using r False
      by (cases "evalNode D a e"; cases "evalNode D b e") (auto simp: rbind_def split: if_splits sum.splits)
    then show ?thesis using binaryOps_plain [OF f] by blast
  qed
  then show ?thesis unfolding eval_simps eq by (intro agree_res_same) simp
qed

text \<open>A call of the one builtin: its source is looked into, and each element is bound in turn.\<close>

lemma lazy_call:
  assumes same: "\<And>k. k \<in> set args \<Longrightarrow> agree_res load True (evalNode D k e) (evalNode D k e')"
    and body: "\<And>p q b x i. LambdaNode p q b \<in> set args \<Longrightarrow> marker_free x \<Longrightarrow>
      agree_res load True (evalNode D b (bind_vars e (lambda_pairs p q x i))) (evalNode D b (bind_vars e' (lambda_pairs p q x i)))"
  shows "agree_res load t (evalNode D (CallNode name args) e) (evalNode D (CallNode name args) e')"
proof (cases "name = ''map''")
  case True
  show ?thesis
  proof (cases args)
    case (Cons a rest)
    have a: "agree_res load True (evalNode D a e) (evalNode D a e')" using same Cons by simp
    show ?thesis
    proof (cases "\<exists>p q b rest'. rest = LambdaNode p q b # rest'")
      case True
      then obtain p q b rest' where rest: "rest = LambdaNode p q b # rest'" by blast
      have "agree_res load True (rbind (each (\<lambda>(i, x). evalNode D b (bind_vars e (lambda_pairs p q x i))) (enumerate 0 xs)) (\<lambda>vs. Inr (JArr vs)))
          (rbind (each (\<lambda>(i, x). evalNode D b (bind_vars e' (lambda_pairs p q x i))) (enumerate 0 xs)) (\<lambda>vs. Inr (JArr vs)))"
        if "marker_free (JArr xs)" for xs
      proof (intro agree_each_list agree_arr)
        fix n assume mem: "n \<in> set (enumerate 0 xs)"
        obtain i x where n: "n = (i, x)" by fastforce
        then have "x \<in> set xs" using mem set_zip_rightD by (fastforce simp: enumerate_eq_zip)
        then show "agree_res load True ((\<lambda>(i, x). evalNode D b (bind_vars e (lambda_pairs p q x i))) n)
            ((\<lambda>(i, x). evalNode D b (bind_vars e' (lambda_pairs p q x i))) n)"
          using body [of p q b x i] that rest Cons n by (simp add: list_all_iff)
      qed
      note each = this
      have call: "evalNode D (CallNode name args) f = rbind (evalNode D a f) (\<lambda>src. rbind (checkResolved src) (\<lambda>_. rbind (map_items src) (\<lambda>items.
          rbind (each (\<lambda>(i, x). evalNode D b (bind_vars f (lambda_pairs p q x i))) (enumerate 0 items)) (\<lambda>vs. Inr (JArr vs)))))" for f
        using \<open>name = ''map''\<close> Cons rest by simp
      show ?thesis unfolding call using a
      proof (rule agree_inspect)
        fix src assume "marker_free src"
        then show "agree_res load t
            (rbind (checkResolved src) (\<lambda>_. rbind (map_items src) (\<lambda>items.
              rbind (each (\<lambda>(i, x). evalNode D b (bind_vars e (lambda_pairs p q x i))) (enumerate 0 items)) (\<lambda>vs. Inr (JArr vs)))))
            (rbind (checkResolved src) (\<lambda>_. rbind (map_items src) (\<lambda>items.
              rbind (each (\<lambda>(i, x). evalNode D b (bind_vars e' (lambda_pairs p q x i))) (enumerate 0 items)) (\<lambda>vs. Inr (JArr vs)))))"
          using each by (cases src) (auto intro: agree_res_weaken)
      qed
    next
      case False
      have "evalNode D (CallNode name args) f = rbind (evalNode D a f) (\<lambda>src. rbind (checkResolved src) (\<lambda>_. rbind (map_items src)
          (\<lambda>_. Inl (if rest = [] then IndexPanic else Unsupported name))))" for f
        using \<open>name = ''map''\<close> Cons False by (cases rest; cases "hd rest") auto
      note call = this
      have "agree_res load t (rbind (map_items src) (\<lambda>_. Inl x)) (rbind (map_items src) (\<lambda>_. Inl x))" for src x
        by (cases "map_items src") simp_all
      then show ?thesis unfolding call using a by (intro agree_inspect) simp_all
    qed
  qed (use True in simp)
qed simp

theorem lazy_eval:
  assumes ok: "env_ok load R c c'"
  shows "vars_ok m bound \<Longrightarrow> roots_le (strictRoots n bound thru r) R \<Longrightarrow>
    agree_res load thru (evalNode D n (env_of c m)) (evalNode D n (env_of c' m))"
proof (induction n arbitrary: m bound thru r rule: measure_induct_rule [where f = size])
  case (less n)
  note v = less.prems(1) and le = less.prems(2)
  have ih: "agree_res load t (evalNode D k (env_of c m)) (evalNode D k (env_of c' m))"
    if "size k < size n" "roots_le (strictRoots k bound t q) R" for k t q
    using less.IH [OF that(1) v that(2)] .
  show ?case
  proof (cases n)
    case (IdentNode name)
    show ?thesis
    proof (cases "m name")
      case None
      then have "name \<notin> set bound" using v by (auto simp: vars_ok_def)
      then have "rel_option (agree load thru) (c name) (c' name)" using agree_ident [OF ok] le IdentNode by simp
      then show ?thesis using IdentNode None by (auto simp: lookup_var_def option_rel_Some1 option_rel_Some2 split: option.splits)
    next
      case (Some x)
      then show ?thesis using v IdentNode by (simp add: lookup_var_def vars_ok_def)
    qed
  next
    case (MemberNode b name)
    show ?thesis using le ih unfolding MemberNode by (intro lazy_member [OF ok v]) auto
  next
    case (IndexNode b i)
    have "agree_res load True (evalNode D b (env_of c m)) (evalNode D b (env_of c' m))" using ih [of b True r] le IndexNode by simp
    then show ?thesis unfolding IndexNode eval_simps by (rule agree_inspect) (simp add: null_or_def marker_free_item)
  next
    case (KeyNode b k)
    have kb: "roots_le (strictRoots k bound True (strictRoots b bound True r)) R" using le KeyNode by simp
    then have "agree_res load True (evalNode D b (env_of c m)) (evalNode D b (env_of c' m))"
      using ih [of b True r] KeyNode roots_le_trans [OF strictRoots_mono kb] by simp
    moreover have "agree_res load True (evalNode D k (env_of c m)) (evalNode D k (env_of c' m))" using ih [OF _ kb] KeyNode by simp
    then have "agree_res load thru (rbind (evalNode D k (env_of c m)) (keyed D b')) (rbind (evalNode D k (env_of c' m)) (keyed D b'))"
      if "marker_free b'" for b'
      using that marker_free_keyed by (intro agree_inspect agree_res_same) auto
    ultimately show ?thesis unfolding KeyNode eval_simps by (intro agree_inspect) (auto simp: null_or_def)
  next
    case (ArrayNode items)
    have "agree_res load thru (evalNode D k (env_of c m)) (evalNode D k (env_of c' m))" if k: "k \<in> set items" for k
    proof -
      have "\<exists>q. roots_le (strictRoots k bound thru q) R" by (rule strict_each [OF _ k]) (use le ArrayNode in simp)
      then show ?thesis using ih size_of_member [OF k] ArrayNode by auto
    qed
    then show ?thesis unfolding ArrayNode eval_simps by (intro agree_each_list agree_arr)
  next
    case (ObjectNode keys items)
    have "agree_res load thru (evalNode D k (env_of c m)) (evalNode D k (env_of c' m))" if k: "k \<in> set items" for k
    proof -
      have "\<exists>q. roots_le (strictRoots k bound thru q) R" by (rule strict_each [OF _ k]) (use le ObjectNode in simp)
      then show ?thesis using ih size_of_member [OF k] ObjectNode by auto
    qed
    then show ?thesis unfolding ObjectNode eval_simps by (intro agree_each_list agree_obj_fold) auto
  next
    case (UnaryNode op k)
    have "agree_res load True (evalNode D k (env_of c m)) (evalNode D k (env_of c' m))" using ih [of k True r] le UnaryNode by simp
    then show ?thesis unfolding UnaryNode eval_simps
      by (cases "eval_unaryOps D op") (auto intro!: agree_inspect agree_res_same intro: unaryOps_plain)
  next
    case (CondNode a t f)
    have f: "roots_le (strictRoots f bound thru (strictRoots t bound thru (strictRoots a bound True r))) R" using le CondNode by simp
    have t: "roots_le (strictRoots t bound thru (strictRoots a bound True r)) R" using roots_le_trans [OF strictRoots_mono f] .
    have a: "roots_le (strictRoots a bound True r) R" using roots_le_trans [OF strictRoots_mono t] .
    have "agree_res load True (evalNode D a (env_of c m)) (evalNode D a (env_of c' m))" using ih [OF _ a] CondNode by simp
    then show ?thesis using ih [OF _ t] ih [OF _ f] unfolding CondNode eval_simps by (intro agree_inspect) auto
  next
    case (BinaryNode op a b)
    have le_b: "roots_le (strictRoots b bound True (strictRoots a bound True r)) R" using le BinaryNode by simp
    have le_a: "roots_le (strictRoots a bound True r) R" using roots_le_trans [OF strictRoots_mono le_b] .
    show ?thesis unfolding BinaryNode using ih [OF _ le_a] ih [OF _ le_b] BinaryNode by (intro lazy_binary) simp_all
  next
    case (CallNode name args)
    have arg: "\<exists>q. roots_le (strictRoots k bound True q) R" if "k \<in> set args" for k using strict_each [OF _ that] le CallNode by simp
    have same: "agree_res load True (evalNode D k (env_of c m)) (evalNode D k (env_of c' m))" if "k \<in> set args" for k
      using arg [OF that] ih size_of_member [OF that] CallNode by fastforce
    have body: "agree_res load True (evalNode D b (bind_vars (env_of c m) (lambda_pairs p q x i))) (evalNode D b (bind_vars (env_of c' m) (lambda_pairs p q x i)))"
      if lam: "LambdaNode p q b \<in> set args" and x: "marker_free x" for p q b x i
    proof -
      obtain s where "roots_le (strictRoots b (bindParams bound p q) True s) R" using arg [OF lam] by auto
      then show ?thesis using less.IH [of b, OF _ vars_bind [OF v x]] size_of_member [OF lam] CallNode
        by (simp add: bind_vars_def)
    qed
    show ?thesis unfolding CallNode by (rule lazy_call) (use same body in blast)+
  qed (simp_all)
qed

end
