(* ===== verification/Lazy_Build.thy ===== *)
theory Lazy_Build
  imports Lazy_Props
begin

text \<open>
  The environment \<open>buildEnv\<close> builds agrees with the one it would build over the fully loaded context, on
  everything the roots it was given cover.
\<close>

subsection \<open>Building the environment\<close>

lemma full_plain:
  "plain_loader load \<Longrightarrow> full load v = Inr w \<Longrightarrow> marker_free w"
  "plain_loader load \<Longrightarrow> full_fields load kvs = Inr kws \<Longrightarrow> list_all (\<lambda>(_, v). marker_free v) kws"
  "plain_loader load \<Longrightarrow> full_items load xs = Inr ys \<Longrightarrow> list_all marker_free ys"
proof (induction load v and load kvs and load xs arbitrary: w and kws and ys rule: full_full_fields_full_items.induct)
  case (1 load h s)
  then show ?case by (auto simp: plain_loader_def split: option.splits)
qed (auto simp: map_sum_def split: sum.splits)

lemma agree_full: "plain_loader load \<Longrightarrow> full load v = Inr w \<Longrightarrow> agree load False v w"
  by (simp add: agree_def full_plain(1))

lemma agree_materialize:
  assumes "plain_loader load" "agree load t v w"
  shows "computes load (Materialize load_depth load v) (Inr w)"
  using Materialize_full(1) [OF assms(1), of 0 v] assms(2) by (simp add: agree_def load_depth_def)

lemma At_field: "At load (JObj cd) [PKey k] = cret (member (JObj cd) k)"
  by (auto simp: cbind_def cret_def fun_eq_iff split: option.splits)

lemma computes_cret_bind: "computes load (f x) r \<Longrightarrow> computes load (cbind (cret x) f) r"
  by (simp add: cbind_def cret_def computes_def)

lemma build_slot:
  assumes "plain_loader load" "agree load False (member (JObj cd) key) w"
  obtains x where "computes load (include_slot load (JObj cd) key referenced thru) (Inr x)" "referenced \<Longrightarrow> agree load thru x w"
    "\<not> is_ref (member (JObj cd) key) \<Longrightarrow> \<not> thru \<Longrightarrow> x = member (JObj cd) key"
proof -
  let ?v = "member (JObj cd) key"
  have mw: "marker_free w" using assms(2) by (simp add: agree_def)
  have slot: "computes load (include_slot load (JObj cd) key referenced thru) r \<longleftrightarrow>
      computes load (if is_ref ?v \<and> \<not> referenced then cret JNull else if \<not> thru then cret ?v else Materialize load_depth load ?v) r" for r
    unfolding include_slot_def At_field by (simp add: cbind_def cret_def computes_def)
  consider "is_ref ?v" "\<not> referenced" | "\<not> (is_ref ?v \<and> \<not> referenced)" "\<not> thru" | "\<not> (is_ref ?v \<and> \<not> referenced)" thru by blast
  then show thesis
  proof cases
    case 1
    then show thesis using that [of JNull] unfolding slot by (simp add: computes_cret)
  next
    case 2
    have "computes load (include_slot load (JObj cd) key referenced thru) (Inr ?v)"
      unfolding slot using 2 by (auto simp add: computes_cret simp del: member.simps)
    moreover have "agree load thru ?v w" using assms(2) 2(2) by simp
    ultimately show thesis using that by blast
  next
    case 3
    have "computes load (include_slot load (JObj cd) key referenced thru) (Inr w)"
      unfolding slot using 3 agree_materialize [OF assms] by (auto simp del: member.simps)
    then show thesis using that [of w] mw 3(2) by simp
  qed
qed

text \<open>Replacing the one field that may hold markers.\<close>

definition plain_but :: "string \<Rightarrow> jval \<Rightarrow> bool" where
  "plain_but k v \<longleftrightarrow> (case v of JObj kvs \<Rightarrow> list_all (\<lambda>(l, x). l = k \<or> marker_free x) kvs | _ \<Rightarrow> marker_free v)"

lemma agree_plain: "agree load False v w \<Longrightarrow> marker_free v \<Longrightarrow> v = w"
  by (auto simp: agree_def full_marker_free)

lemma agree_put_rest:
  assumes "agree load False (JObj vs) (JObj ws)" "sorted_keys vs" "plain_but k (JObj vs)" "agree load t v w"
  shows "agree load t (JObj (obj_put k v vs)) (JObj (obj_put k w ws))"
  using assms
proof (induction vs arbitrary: ws)
  case (Cons kv vs)
  obtain l x where kv: "kv = (l, x)" by (cases kv)
  obtain y ws' where ws: "ws = (l, y) # ws'" "agree load False x y" "agree load False (JObj vs) (JObj ws')"
    using Cons.prems(1) kv by (cases ws) auto
  have later: "agree load t (JObj vs) (JObj ws')" if "\<forall>k' \<in> fst ` set vs. k < k'"
  proof -
    have "marker_free (JObj vs)" using Cons.prems(3) that kv by (fastforce simp: plain_but_def list_all_iff)
    then show ?thesis using agree_plain [OF ws(3)] by auto
  qed
  have x: "agree load t x y" if "k \<noteq> l"
    using Cons.prems(3) that kv agree_plain [OF ws(2)] by (auto simp: plain_but_def)
  consider "k = l" | "k < l" | "l < k" by fastforce
  then show ?case
  proof cases
    case 1
    then show ?thesis using later Cons.prems kv ws by simp
  next
    case 2
    then have "\<forall>k' \<in> fst ` set vs. k < k'" using Cons.prems(2) kv by fastforce
    then show ?thesis using 2 later x Cons.prems(4) kv ws by simp
  next
    case 3
    then have "\<not> k < l" "k \<noteq> l" by auto
    then show ?thesis using Cons x kv ws by (simp add: plain_but_def)
  qed
qed simp

lemma member_put: "member (JObj (obj_put k v kvs)) f = (if f = k then v else member (JObj kvs) f)"
proof -
  have "map_of (obj_put k v kvs) = (map_of kvs)(k \<mapsto> v)" by (induction kvs) (auto simp: fun_eq_iff)
  then show ?thesis by simp
qed

lemma plain_member: "plain_but k v \<Longrightarrow> \<not> is_ref v \<Longrightarrow> f \<noteq> k \<Longrightarrow> marker_free (member v f)"
  by (cases v) (auto simp: plain_but_def list_all_iff split: option.splits dest!: map_of_SomeD)

lemma agree_other_fields:
  assumes "agree load False v w" "plain_but k v" "\<not> is_ref v" "f \<noteq> k"
  shows "agree load True (member v f) (member w f)"
  using agree_plain [OF agree_member [OF assms(1,3)] plain_member [OF assms(2-4)]] plain_member [OF assms(2-4)] by (metis agree_through)

text \<open>An error namespace: only its \<open>data\<close> may hold markers.\<close>

lemma error_plain:
  "\<nexists>kvs. member (JObj cd) key = JObj kvs \<Longrightarrow> \<not> is_ref (member (JObj cd) key) \<Longrightarrow>
    include_error load (JObj cd) key read thru = cret (member (JObj cd) key)"
  unfolding include_error_def include_slot_def At_field
  by (cases "member (JObj cd) key") (simp_all add: cbind_def cret_def fun_eq_iff del: member.simps)

lemma MaterializeAt_field:
  "member (JObj cd) key = JObj kvs \<Longrightarrow>
    MaterializeAt load (JObj cd) [PKey key, PKey f] = Materialize load_depth load (member (JObj kvs) f)"
  by (auto simp: MaterializeAt_def cbind_def cret_def fun_eq_iff split: option.splits)

lemma error_obj:
  "member (JObj cd) key = JObj kvs \<Longrightarrow>
    include_error load (JObj cd) key read thru =
      (if \<not> thru then cret (JObj kvs)
       else cbind (Materialize load_depth load (member (JObj kvs) ''data'')) (\<lambda>d. cret (JObj (obj_put ''data'' d kvs))))"
  unfolding include_error_def include_slot_def At_field
  by (simp add: MaterializeAt_field cbind_def cret_def fun_eq_iff del: member.simps)

lemma computes_put:
  assumes "plain_loader load" "agree load t v w"
  shows "computes load (cbind (Materialize load_depth load v) (\<lambda>d. cret (f d))) (Inr (f w))"
  using computes_then [OF agree_materialize [OF assms], of "\<lambda>d. cret (f d)", OF computes_cret] .

lemma build_error:
  assumes pl: "plain_loader load" and ag: "agree load False (JObj cd) (JObj cd')"
    and inl: "\<not> is_ref (member (JObj cd) key)" "plain_but ''data'' (member (JObj cd) key)" "wf_val (member (JObj cd) key)"
  obtains x y where "computes load (include_error load (JObj cd) key read thru) (Inr x)"
    "computes load (include_error load (JObj cd') key read thru) (Inr y)" "error_ok load r thru x y"
proof -
  let ?v = "member (JObj cd) key" and ?w = "member (JObj cd') key"
  have vw: "agree load False ?v ?w" using agree_member [OF ag] by simp
  have nr: "\<not> is_ref ?w" using vw marker_free_not_ref by (auto simp: agree_def)
  note rest = agree_other_fields [OF vw inl(2,1)]
  from vw inl(1) show thesis
  proof (cases rule: agree_cases)
    case (1 vs ws)
    have d: "agree load False (member (JObj vs) ''data'') (member (JObj ws) ''data'')" using agree_member [OF vw inl(1)] 1 by metis
    show thesis
    proof (cases thru)
      case True
      let ?x = "JObj (obj_put ''data'' (member (JObj ws) ''data'') vs)" and ?y = "JObj (obj_put ''data'' (member (JObj ws) ''data'') ws)"
      have md: "marker_free (member (JObj ws) ''data'')" using d by (simp add: agree_def)
      have "agree load True ?x ?y" by (rule agree_put_rest) (use vw inl(2,3) 1 md in simp_all)
      then have "?x = ?y" "marker_free ?y" by auto
      then have "error_ok load r thru ?x ?y" using marker_free_member [of ?y] by (auto simp: error_ok_def simp del: member.simps)
      moreover have "computes load (include_error load (JObj cd) key read thru) (Inr ?x)"
        using computes_put [OF pl d] True unfolding error_obj [OF 1(1)] by simp
      moreover have "computes load (include_error load (JObj cd') key read thru) (Inr ?y)"
        using computes_put [OF pl, of False "member (JObj ws) ''data''" "member (JObj ws) ''data''"] md True
        unfolding error_obj [OF 1(2)] by (simp del: member.simps)
      ultimately show thesis using that by blast
    next
      case False
      have "error_ok load r thru ?v ?w" using vw inl(1) rest False by (auto simp: error_ok_def simp del: member.simps agree_through)
      then show thesis using that [of ?v ?w] False 1 by (simp add: error_obj computes_cret del: member.simps)
    qed
  next
    case (2 vs ws)
    then have "marker_free ?v" using inl(2) by (simp add: plain_but_def)
    then have "?v = ?w" using agree_plain [OF vw] by blast
    then have "error_ok load r thru ?v ?w" using \<open>marker_free ?v\<close> marker_free_member inl(1) by (auto simp: error_ok_def simp del: member.simps)
    then show thesis using that [of ?v ?w] error_plain [of cd key load read thru] error_plain [of cd' key load read thru] 2 inl(1) nr
      by (metis computes_cret jval.distinct)
  next
    case 3
    then have "error_ok load r thru ?v ?w" using vw inl(1) rest by (auto simp: error_ok_def simp del: member.simps)
    then show thesis using that [of ?v ?w] error_plain [of cd key load read thru] error_plain [of cd' key load read thru] 3 inl(1) nr
      by (metis computes_cret)
  qed
qed

lemma self_obj:
  "include_self load (JObj sm) r =
     (if \<not> ro_SelfPrevious r then cret (JObj sm)
      else cbind (if t_SelfPrevious (ro_Through r) then Materialize load_depth load (member (JObj sm) ''previous'')
                  else cret (member (JObj sm) ''previous'')) (\<lambda>prev. cret (JObj (obj_put ''previous'' prev sm))))"
  by (simp add: include_self_def)

lemma build_self:
  assumes pl: "plain_loader load" and ag: "agree load False self self'"
    and inl: "plain_but ''previous'' self" "wf_val self" "self = JNull \<or> (\<exists>sm. self = JObj sm)"
  obtains x y where "computes load (include_self load self R) (Inr x)" "computes load (include_self load self' R) (Inr y)"
    "self_ok load (ro_SelfPrevious R) (t_SelfPrevious (ro_Through R)) x y"
proof (cases "\<exists>sm. self = JObj sm")
  case True
  then obtain sm where s: "self = JObj sm" by blast
  then have nr: "\<not> is_ref self" by simp
  obtain sm' where s': "self' = JObj sm'" using ag unfolding s by (auto simp: agree_def map_sum_def split: sum.splits)
  have mf: "marker_free self'" using ag by (simp add: agree_def)
  note rest = agree_other_fields [OF ag inl(1) nr]
  show thesis
  proof (cases "ro_SelfPrevious R")
    case False
    have "self_ok load (ro_SelfPrevious R) (t_SelfPrevious (ro_Through R)) self self'"
      using False s s' mf rest by (auto simp: self_ok_def simp del: member.simps agree_through)
    then show thesis using that [of self self'] False s s' by (simp add: self_obj computes_cret)
  next
    case True
    let ?p = "member self ''previous''" and ?q = "member self' ''previous''" and ?t = "t_SelfPrevious (ro_Through R)"
    have pq: "agree load False ?p ?q" using agree_member [OF ag nr] .
    let ?x = "if ?t then ?q else ?p"
    have qq: "agree load False ?q ?q" using pq by (simp add: agree_def full_marker_free)
    have xq: "agree load ?t ?x ?q" using pq qq by (auto simp: agree_def full_marker_free)
    have e: "agree load ?t (JObj (obj_put ''previous'' ?x sm)) (JObj (obj_put ''previous'' ?q sm'))"
      by (rule agree_put_rest) (use ag inl xq s s' in simp_all)
    have "self_ok load True ?t (JObj (obj_put ''previous'' ?x sm)) (JObj (obj_put ''previous'' ?q sm'))"
      using e rest unfolding self_ok_def member_put s s' by (auto simp: agree_def simp del: member.simps)
    moreover have "computes load (include_self load self R) (Inr (JObj (obj_put ''previous'' ?x sm)))"
      using computes_put [OF pl pq] True unfolding s self_obj by (auto intro: computes_cret_bind computes_cret)
    moreover have "computes load (include_self load self' R) (Inr (JObj (obj_put ''previous'' ?q sm')))"
      using computes_put [OF pl qq] True unfolding s' self_obj by (auto intro: computes_cret_bind computes_cret)
    ultimately show thesis using that True by simp
  qed
next
  case False
  then have "self = JNull" "self' = JNull" using inl(3) ag by (auto simp: agree_def)
  then show thesis using that [of JNull JNull] by (simp add: include_self_def self_ok_def computes_cret)
qed

lemma build_outputs:
  assumes pl: "plain_loader load"
  shows "agree load False (JObj vs) (JObj ws) \<Longrightarrow>
    \<exists>xs. computes load (include_outputs load R vs) (Inr xs) \<and> computes load (include_outputs load R ws) (Inr ws) \<and>
      (\<forall>i \<in> set (ro_Outputs R). rel_option (agree load (i \<in> set (t_Outputs (ro_Through R)) \<or> t_AllOutputs (ro_Through R))) (map_of xs i) (map_of ws i)) \<and>
      (ro_AllOutputs R \<longrightarrow> agree load (t_AllOutputs (ro_Through R)) (JObj xs) (JObj ws))"
proof (induction vs arbitrary: ws)
  case (Cons kv vs)
  obtain k v where kv: "kv = (k, v)" by (cases kv)
  obtain w ws' where ws: "ws = (k, w) # ws'" "agree load False v w" "agree load False (JObj vs) (JObj ws')"
    using Cons.prems kv by (cases ws) auto
  let ?t = "k \<in> set (t_Outputs (ro_Through R)) \<or> t_AllOutputs (ro_Through R)"
  let ?load = "\<lambda>v. if k \<notin> set (t_Outputs (ro_Through R)) \<and> \<not> t_AllOutputs (ro_Through R) then cret v else Materialize load_depth load v"
  obtain xs where xs: "computes load (include_outputs load R vs) (Inr xs)" "computes load (include_outputs load R ws') (Inr ws')"
    "\<forall>i \<in> set (ro_Outputs R). rel_option (agree load (i \<in> set (t_Outputs (ro_Through R)) \<or> t_AllOutputs (ro_Through R))) (map_of xs i) (map_of ws' i)"
    "ro_AllOutputs R \<longrightarrow> agree load (t_AllOutputs (ro_Through R)) (JObj xs) (JObj ws')"
    using Cons.IH [OF ws(3)] by blast
  have mw: "marker_free w" using ws(2) by (simp add: agree_def)
  then have nr: "\<not> is_ref w" by (rule marker_free_not_ref)
  let ?x = "if ?t then w else v"
  have lv: "computes load (?load v) (Inr ?x)" "computes load (?load w) (Inr w)"
    using agree_materialize [OF pl ws(2)] agree_materialize [OF pl, of False w w] mw by (auto intro: computes_cret)
  have put: "computes load (cbind (?load u) (\<lambda>v. cbind (include_outputs load R us) (\<lambda>kvs. cret ((k, v) # kvs)))) (Inr ((k, y) # ys))"
    if "computes load (?load u) (Inr y)" "computes load (include_outputs load R us) (Inr ys)" for u us y ys
    by (rule computes_then [OF that(1)], rule computes_then [OF that(2)], rule computes_cret)
  have w: "computes load (include_outputs load R ws) (Inr ws)" using put [OF lv(2) xs(2)] nr ws(1) by simp
  show ?case
  proof (cases "is_ref v \<and> \<not> ro_AllOutputs R \<and> k \<notin> set (ro_Outputs R)")
    case True
    have "\<forall>i \<in> set (ro_Outputs R). rel_option (agree load (i \<in> set (t_Outputs (ro_Through R)) \<or> t_AllOutputs (ro_Through R))) (map_of xs i) (map_of ws i)"
      using xs(3) True ws(1) by auto
    moreover have "computes load (include_outputs load R (kv # vs)) (Inr xs)" using xs(1) True kv by simp
    ultimately show ?thesis using w True by blast
  next
    case False
    have c: "computes load (include_outputs load R (kv # vs)) (Inr ((k, ?x) # xs))" using put [OF lv(1) xs(1)] False kv by auto
    have ag: "agree load ?t ?x w" using ws(2) mw by auto
    have "\<forall>i \<in> set (ro_Outputs R). rel_option (agree load (i \<in> set (t_Outputs (ro_Through R)) \<or> t_AllOutputs (ro_Through R))) (map_of ((k, ?x) # xs) i) (map_of ws i)"
      using xs(3) ag ws(1) by auto
    moreover have "agree load (t_AllOutputs (ro_Through R)) (JObj ((k, ?x) # xs)) (JObj ws)" if "ro_AllOutputs R"
      using xs(4) that ws(1) agree_weaken [OF ag] by auto
    ultimately show ?thesis using w c by blast
  qed
qed (auto intro!: exI [of _ "[]"] simp: computes_cret)


lemma build_slot_plain:
  assumes "marker_free (member (JObj cd) key)"
  shows "computes load (include_slot load (JObj cd) key referenced thru) (Inr (member (JObj cd) key))"
  using computes_marker_free(1) [OF assms, of load load_depth] marker_free_not_ref [OF assms] computes_cret
  unfolding include_slot_def At_field by (intro computes_cret_bind) (auto simp del: member.simps)

lemma agree_shadowed:
  assumes "agree load False u w" "\<not> is_ref u" "agree load False self self'" "\<not> is_ref self"
  shows "agree load False (JObj (shadowed_outputs task self u)) (JObj (shadowed_outputs task self' w))"
proof -
  let ?outs = "\<lambda>v. case v of JObj kvs \<Rightarrow> kvs | _ \<Rightarrow> []"
  have "agree load False (JObj (?outs u)) (JObj (?outs w))"
    by (rule agree_cases [OF assms(1,2)]) (use assms(1) in \<open>auto split: jval.splits\<close>)
  note out = this
  from assms(3,4) show ?thesis
  proof (cases rule: agree_cases)
    case (1 vs ws)
    then have "rel_option (agree load False) (map_of vs ''previous'') (map_of ws ''previous'')" using agree_lookup assms(3) by simp
    then show ?thesis using 1 out by (auto simp: shadowed_outputs_def Let_def option_rel_Some1 intro: agree_obj_put split: option.splits)
  next
    case (2 vs ws)
    then show ?thesis using out by (simp add: shadowed_outputs_def)
  next
    case 3
    then show ?thesis using out by (cases self) (auto simp: shadowed_outputs_def)
  qed
qed

text \<open>
  What a context looks like when an expression is evaluated: maps are represented once, the configuration
  is never externalized, the outputs are cut one by one, and of an error only its \<open>data\<close>, of \<open>self\<close> only
  the previous output is ever moved out.
\<close>

definition readable :: "(string \<times> jval) list \<Rightarrow> jval \<Rightarrow> jval \<Rightarrow> bool" where
  "readable cd config self \<longleftrightarrow>
     wf_val (JObj cd) \<and> wf_val self \<and> (self = JNull \<or> (case self of JObj _ \<Rightarrow> True | _ \<Rightarrow> False)) \<and>
     plain_but ''previous'' self \<and> marker_free config \<and> \<not> is_ref (member (JObj cd) ''outputs'') \<and>
     plain_but ''data'' (member (JObj cd) ''error'') \<and> plain_but ''data'' (member (JObj cd) ''last_error'')"

lemma plain_not_ref: "plain_but k v \<Longrightarrow> \<not> is_ref v"
  by (cases v) (auto simp: plain_but_def)

lemma wf_member: "wf_val v \<Longrightarrow> wf_val (member v k)"
  by (cases v) (auto simp: list_all_iff split: option.splits dest!: map_of_SomeD)

lemma build_env:
  assumes pl: "plain_loader load" and rd: "readable cd config self"
    and fd: "full load (JObj cd) = Inr (JObj cd')" and fs: "full load self = Inr self'"
  shows "\<exists>c c'. computes load (buildEnv load (JObj cd) config task self R) (Inr c) \<and>
    computes load (buildEnv load (JObj cd') config task self' R) (Inr c') \<and> env_ok load R c c'"
proof -
  have ag: "agree load False (JObj cd) (JObj cd')" and sag: "agree load False self self'" using agree_full [OF pl] fd fs by blast+
  note slot = agree_member [OF ag]
  have mf: "marker_free (member (JObj cd') k)" for k using slot [of k] by (simp add: agree_def)
  let ?t = "ro_Through R"
  obtain s s' where s: "computes load (include_self load self R) (Inr s)" "computes load (include_self load self' R) (Inr s')"
    "self_ok load (ro_SelfPrevious R) (t_SelfPrevious ?t) s s'"
    using rd by (elim build_self [OF pl sag, rotated 3]) (auto simp: readable_def split: jval.splits)
  have ns: "\<not> is_ref (member (JObj cd) k)" "plain_but ''data'' (member (JObj cd) k)" "wf_val (member (JObj cd) k)"
    if "k = ''error'' \<or> k = ''last_error''" for k
    using that rd plain_not_ref [of "''data''"] wf_member [of "JObj cd" k] unfolding readable_def by blast+
  note ne = ns [OF disjI1 [OF refl]] and nl = ns [OF disjI2 [OF refl]]
  obtain i where i: "computes load (include_slot load (JObj cd) ''input'' (ro_Input R) (t_Input ?t)) (Inr i)"
    "ro_Input R \<Longrightarrow> agree load (t_Input ?t) i (member (JObj cd') ''input'')"
    using build_slot [OF pl slot [of "''input''"]] by (metis is_ref.simps(2-))
  obtain e e' where e: "computes load (include_error load (JObj cd) ''error'' (ro_Error R) (t_ErrorData ?t)) (Inr e)"
    "computes load (include_error load (JObj cd') ''error'' (ro_Error R) (t_ErrorData ?t)) (Inr e')" "error_ok load (ro_Error R) (t_ErrorData ?t) e e'"
    by (rule build_error [OF pl ag ne]) (rule that)
  obtain l l' where l: "computes load (include_error load (JObj cd) ''last_error'' (ro_LastError R) (t_LastErrorData ?t)) (Inr l)"
    "computes load (include_error load (JObj cd') ''last_error'' (ro_LastError R) (t_LastErrorData ?t)) (Inr l')"
    "error_ok load (ro_LastError R) (t_LastErrorData ?t) l l'"
    by (rule build_error [OF pl ag nl]) (rule that)
  let ?o = "shadowed_outputs task self (member (JObj cd) ''outputs'')" and ?o' = "shadowed_outputs task self' (member (JObj cd') ''outputs'')"
  have so: "agree load False (JObj ?o) (JObj ?o')"
    using rd plain_not_ref by (intro agree_shadowed [OF slot _ sag]) (auto simp: readable_def simp del: member.simps)
  obtain os where os: "computes load (include_outputs load R ?o) (Inr os)" "computes load (include_outputs load R ?o') (Inr ?o')"
    "\<forall>k \<in> set (ro_Outputs R). rel_option (agree load (k \<in> set (t_Outputs ?t) \<or> t_AllOutputs ?t)) (map_of os k) (map_of ?o' k)"
    "ro_AllOutputs R \<longrightarrow> agree load (t_AllOutputs ?t) (JObj os) (JObj ?o')"
    using build_outputs [OF pl so] by blast
  have built: "computes load (buildEnv load (JObj d) config task sf R) (Inr [''self'' \<mapsto> xs, ''config'' \<mapsto> config, ''input'' \<mapsto> xi, ''error'' \<mapsto> xe,
      ''last_error'' \<mapsto> xl, ''outputs'' \<mapsto> JObj xo])"
    if "computes load (include_self load sf R) (Inr xs)" "computes load (include_slot load (JObj d) ''input'' (ro_Input R) (t_Input ?t)) (Inr xi)"
      "computes load (include_error load (JObj d) ''error'' (ro_Error R) (t_ErrorData ?t)) (Inr xe)"
      "computes load (include_error load (JObj d) ''last_error'' (ro_LastError R) (t_LastErrorData ?t)) (Inr xl)"
      "computes load (include_outputs load R (shadowed_outputs task sf (member (JObj d) ''outputs''))) (Inr xo)" for d sf xs xi xe xl xo
    unfolding buildEnv_def Let_def At_field
    by (rule computes_then [OF that(1)], rule computes_then [OF that(2)], rule computes_then [OF that(3)], rule computes_then [OF that(4)],
        rule computes_cret_bind, rule computes_then [OF that(5)], rule computes_cret)
  have "outputs_ok load R (JObj os) (JObj ?o')"
  proof -
    have "agree load (k \<in> set (t_Outputs ?t) \<or> t_AllOutputs ?t) (member (JObj os) k) (member (JObj ?o') k)" if "k \<in> set (ro_Outputs R)" for k
      using os(3) that by (cases "map_of os k"; cases "map_of ?o' k") fastforce+
    then show ?thesis using os(4) by (auto simp: outputs_ok_def simp del: member.simps)
  qed
  then have "env_ok load R [''self'' \<mapsto> s, ''config'' \<mapsto> config, ''input'' \<mapsto> i, ''error'' \<mapsto> e, ''last_error'' \<mapsto> l, ''outputs'' \<mapsto> JObj os]
      [''self'' \<mapsto> s', ''config'' \<mapsto> config, ''input'' \<mapsto> member (JObj cd') ''input'', ''error'' \<mapsto> e', ''last_error'' \<mapsto> l', ''outputs'' \<mapsto> JObj ?o']"
    using s(3) i(2) e(3) l(3) rd unfolding env_ok_def by (auto simp: env_names_def readable_def simp del: member.simps)
  then show ?thesis using built [OF s(1) i(1) e(1) l(1) os(1)] built [OF s(2) build_slot_plain [OF mf] e(2) l(2) os(2)] by blast
qed

end
