(* ===== verification/Template.thy ===== *)
theory Template
  imports Eval Refs
begin

text \<open>
  Templates and templated values (\<open>template/template.go\<close>, \<open>template/scan.go\<close>, \<open>shape/eval.go\<close>): a string is
  one typed expression after \<open>$:\<close>, or literal text with \<open>${ }\<close> interpolations, which are rendered.

  The expression parser is the parameter \<open>parse\<close>: the lexer it starts from is not part of the sources,
  and everything after it is the function \<open>Parse\<close> of the theory of the syntax.
\<close>

type_synonym 'p parser = "string \<Rightarrow> ('p, node) result"

datatype 'p template_error = BadExpression string 'p | UnclosedBlock

text \<open>A chunk is literal text, or the text of an expression with its node.\<close>

datatype chunk = Literal string | Expression (chunk_text: string) (chunk_node: node)

record template =
  tm_chunks :: "chunk list"
  tm_expr :: bool

definition is_ws :: "char \<Rightarrow> bool" where
  "is_ws c \<longleftrightarrow> c = CHR '' '' \<or> c = CHR 0x09 \<or> c = CHR 0x0D \<or> c = CHR 0x0A"

definition leadingWS :: "string \<Rightarrow> nat" where
  "leadingWS s = length (takeWhile is_ws s)"

text \<open>The block ends at the first brace up to which the text parses; \<open>seen\<close> is what was passed so far.\<close>

fun parseBlock :: "'p parser \<Rightarrow> string \<Rightarrow> 'p template_error \<Rightarrow> string \<Rightarrow> ('p template_error, string \<times> node \<times> string) result" where
  "parseBlock parse seen longest [] = Inl longest"
| "parseBlock parse seen longest (c # s) =
     (if c = CHR ''}'' then
        (case parse seen of
           Inr n \<Rightarrow> Inr (seen, n, s)
         | Inl e \<Rightarrow> parseBlock parse (seen @ [c]) (BadExpression seen e) s)
      else parseBlock parse (seen @ [c]) longest s)"

definition flush :: "string \<Rightarrow> chunk list" where
  "flush lit = (if lit = [] then [] else [Literal lit])"

lemma parseBlock_shorter: "parseBlock parse seen longest s = Inr (body, n, after) \<Longrightarrow> length after < length s"
  by (induction s arbitrary: seen longest) (fastforce split: if_splits sum.splits)+

function scan_chunks :: "'p parser \<Rightarrow> string \<Rightarrow> string \<Rightarrow> ('p template_error, chunk list) result" where
  "scan_chunks parse lit s =
     (case s of
        [] \<Rightarrow> Inr (flush lit)
      | c # r \<Rightarrow>
          if c = CHR ''$'' \<and> r \<noteq> [] \<and> hd r = CHR ''$'' then scan_chunks parse (lit @ ''$'') (tl r)
          else if c = CHR ''$'' \<and> r \<noteq> [] \<and> hd r = CHR ''{'' then
            (case parseBlock parse [] UnclosedBlock (tl r) of
               Inl e \<Rightarrow> Inl e
             | Inr (body, n, after) \<Rightarrow>
                 (case scan_chunks parse [] after of
                    Inl e \<Rightarrow> Inl e
                  | Inr cs \<Rightarrow> Inr (flush lit @ Expression body n # cs)))
          else scan_chunks parse (lit @ [c]) r)"
  by pat_completeness auto
termination
  by (relation "measure (\<lambda>(_, _, s). length s)") (auto simp: less_Suc_eq_le intro: order.trans [OF less_imp_le [OF parseBlock_shorter]])

declare scan_chunks.simps [simp del]

definition scanTemplate :: "'p parser \<Rightarrow> string \<Rightarrow> ('p template_error, template) result" where
  "scanTemplate parse s = map_sum id (\<lambda>cs. \<lparr>tm_chunks = cs, tm_expr = False\<rparr>) (scan_chunks parse [] s)"

definition Parse_template :: "'p parser \<Rightarrow> string \<Rightarrow> ('p template_error, template) result" where
  "Parse_template parse s =
     (let rest = drop (leadingWS s) s in
      if has_prefix rest ''$:'' then
        (let body = trim_space (drop 2 rest) in
         case parse body of
           Inl e \<Rightarrow> Inl (BadExpression body e)
         | Inr n \<Rightarrow> Inr \<lparr>tm_chunks = [Expression body n], tm_expr = True\<rparr>)
      else scanTemplate parse s)"

definition Static :: "template \<Rightarrow> string option" where
  "Static t =
     (if tm_expr t \<or> list_ex (\<lambda>c. case c of Expression _ _ \<Rightarrow> True | _ \<Rightarrow> False) (tm_chunks t) then None
      else Some (concat (map (\<lambda>c. case c of Literal s \<Rightarrow> s | _ \<Rightarrow> []) (tm_chunks t))))"

subsection \<open>Evaluation\<close>

datatype render_error = RenderEval eval_error | CannotStringify

fun stringify :: "jval \<Rightarrow> (render_error, string) result" where
  "stringify (JRef h _) = Inl (RenderEval (UnresolvedRef h))"
| "stringify (JStr s) = Inr s"
| "stringify (JNumber t) = Inr t"
| "stringify (JInt i) = Inr (itoa i)"
| "stringify (JBool b) = Inr (if b then ''true'' else ''false'')"
| "stringify _ = Inl CannotStringify"

definition eval_in :: "'d decimals \<Rightarrow> node \<Rightarrow> (string \<rightharpoonup> jval) \<Rightarrow> (render_error, jval) result" where
  "eval_in D n ctx = map_sum RenderEval id (evalNode D n \<lparr>e_ctx = ctx, e_vars = Map.empty\<rparr>)"

fun render_chunk :: "'d decimals \<Rightarrow> (string \<rightharpoonup> jval) \<Rightarrow> chunk \<Rightarrow> (render_error, string) result" where
  "render_chunk D ctx (Literal s) = Inr s"
| "render_chunk D ctx (Expression _ n) = rbind (eval_in D n ctx) stringify"

definition EvalAny :: "'d decimals \<Rightarrow> template \<Rightarrow> (string \<rightharpoonup> jval) \<Rightarrow> (render_error, jval) result" where
  "EvalAny D t ctx =
     (if tm_expr t then eval_in D (chunk_node (hd (tm_chunks t))) ctx
      else rbind (each (render_chunk D ctx) (tm_chunks t)) (\<lambda>parts. Inr (JStr (concat parts))))"

fun chunk_roots :: "bool \<Rightarrow> chunk \<Rightarrow> roots" where
  "chunk_roots thru (Literal _) = no_roots"
| "chunk_roots thru (Expression _ n) = RootRefsNode n thru"

definition RootRefs_template :: "template \<Rightarrow> roots" where
  "RootRefs_template t = fold (\<lambda>c r. Union_roots r (chunk_roots (\<not> tm_expr t) c)) (tm_chunks t) no_roots"

subsection \<open>Templated values (shape/eval.go)\<close>

datatype 'p shape_error = ShapeTemplate "'p template_error" | ShapeRender render_error | InvalidShapeNode

fun shape_Eval :: "'d decimals \<Rightarrow> 'p parser \<Rightarrow> jval \<Rightarrow> (string \<rightharpoonup> jval) \<Rightarrow> ('p shape_error, jval) result" where
  "shape_Eval D parse (JStr s) env =
     (case Parse_template parse s of
        Inl e \<Rightarrow> Inl (ShapeTemplate e)
      | Inr t \<Rightarrow> map_sum ShapeRender id (EvalAny D t env))"
| "shape_Eval D parse (JArr xs) env = rbind (each (\<lambda>x. shape_Eval D parse x env) xs) (\<lambda>vs. Inr (JArr vs))"
| "shape_Eval D parse (JObj kvs) env =
     rbind (each (\<lambda>(k, x). map_sum id (\<lambda>v. (k, v)) (shape_Eval D parse x env)) kvs) (\<lambda>kvs. Inr (JObj kvs))"
| "shape_Eval D parse (JBool b) env = Inr (JBool b)"
| "shape_Eval D parse (JNumber t) env = Inr (JNumber t)"
| "shape_Eval D parse JNull env = Inr JNull"
| "shape_Eval D parse _ env = Inl InvalidShapeNode"

fun shape_Roots :: "'p parser \<Rightarrow> jval \<Rightarrow> roots \<Rightarrow> ('p shape_error, roots) result"
  and shape_roots_items :: "'p parser \<Rightarrow> jval list \<Rightarrow> roots \<Rightarrow> ('p shape_error, roots) result"
  and shape_roots_fields :: "'p parser \<Rightarrow> (string \<times> jval) list \<Rightarrow> roots \<Rightarrow> ('p shape_error, roots) result" where
  "shape_Roots parse (JStr s) r =
     (case Parse_template parse s of
        Inl e \<Rightarrow> Inl (ShapeTemplate e)
      | Inr t \<Rightarrow> Inr (Union_roots r (RootRefs_template t)))"
| "shape_Roots parse (JArr xs) r = shape_roots_items parse xs r"
| "shape_Roots parse (JObj kvs) r = shape_roots_fields parse kvs r"
| "shape_Roots parse v r = Inr r"
| "shape_roots_items parse [] r = Inr r"
| "shape_roots_items parse (x # xs) r = rbind (shape_Roots parse x r) (shape_roots_items parse xs)"
| "shape_roots_fields parse [] r = Inr r"
| "shape_roots_fields parse ((k, x) # kvs) r = rbind (shape_Roots parse x r) (shape_roots_fields parse kvs)"

text \<open>A whole slot: one bare expression, or a templated value.\<close>

record shape =
  sh_Raw :: jval
  sh_Expr :: bool

definition exprString :: "shape \<Rightarrow> string" where
  "exprString sh = (case sh_Raw sh of JStr s \<Rightarrow> s | _ \<Rightarrow> [])"

definition Shape_Roots :: "'p parser \<Rightarrow> shape \<Rightarrow> ('p shape_error, roots) result" where
  "Shape_Roots parse sh =
     (if sh_Expr sh then
        (case parse (exprString sh) of
           Inl e \<Rightarrow> Inl (ShapeTemplate (BadExpression (exprString sh) e))
         | Inr n \<Rightarrow> Inr (RootRefsNode n False))
      else shape_Roots parse (sh_Raw sh) no_roots)"

definition Shape_Eval :: "'d decimals \<Rightarrow> 'p parser \<Rightarrow> shape \<Rightarrow> (string \<rightharpoonup> jval) \<Rightarrow> ('p shape_error, jval) result" where
  "Shape_Eval D parse sh ctx =
     (if sh_Expr sh then
        (case parse (exprString sh) of
           Inl e \<Rightarrow> Inl (ShapeTemplate (BadExpression (exprString sh) e))
         | Inr n \<Rightarrow> map_sum ShapeRender id (eval_in D n ctx))
      else shape_Eval D parse (sh_Raw sh) ctx)"

subsection \<open>The scanner with positions (template/scan.go)\<close>

text \<open>A span is a pair of byte offsets, half open; \<open>(0, 0)\<close> is the empty span.\<close>

type_synonym span = "nat \<times> nat"

record region =
  rg_Marker :: span
  rg_Body :: span
  rg_Close :: span

definition slice :: "string \<Rightarrow> span \<Rightarrow> string" where
  "slice s sp = take (snd sp - fst sp) (drop (fst sp) s)"

text \<open>Where the block ends, as an offset from where it starts; \<open>first\<close> is the first brace seen.\<close>

fun blockEnd :: "'p parser \<Rightarrow> string \<Rightarrow> nat option \<Rightarrow> string \<Rightarrow> nat" where
  "blockEnd parse seen first [] = (case first of Some n \<Rightarrow> n | None \<Rightarrow> length seen)"
| "blockEnd parse seen first (c # s) =
     (if c = CHR ''}'' then
        (case parse seen of
           Inr _ \<Rightarrow> length seen
         | Inl _ \<Rightarrow> blockEnd parse (seen @ [c]) (case first of None \<Rightarrow> Some (length seen) | Some n \<Rightarrow> Some n) s)
      else blockEnd parse (seen @ [c]) first s)"

definition trimSpan :: "string \<Rightarrow> span \<Rightarrow> span" where
  "trimSpan s sp =
     (let lead = length (takeWhile is_ws (slice s sp));
          from = fst sp + lead;
          tail = length (takeWhile is_ws (rev (slice s (from, snd sp))))
      in (from, snd sp - tail))"

text \<open>The loop of \<open>Scan\<close>: \<open>i\<close> is the offset of \<open>rest\<close> in \<open>s\<close>.\<close>

function scan_regions :: "'p parser \<Rightarrow> string \<Rightarrow> nat \<Rightarrow> region list" where
  "scan_regions parse s i =
     (if i \<ge> length s then []
      else if s ! i \<noteq> CHR ''$'' \<or> i + 1 \<ge> length s then scan_regions parse s (i + 1)
      else if s ! (i + 1) = CHR ''$'' then scan_regions parse s (i + 2)
      else if s ! (i + 1) = CHR ''{'' then
        (let body = i + 2;
             end_at = blockEnd parse [] None (drop body s)
         in \<lparr>rg_Marker = (i, body), rg_Body = trimSpan s (body, body + end_at),
              rg_Close = (if body + end_at < length s then (body + end_at, body + end_at + 1) else (0, 0))\<rparr>
            # scan_regions parse s (body + end_at + 1))
      else scan_regions parse s (i + 1))"
  by pat_completeness auto
termination
  by (relation "measure (\<lambda>(_, s, i). length s - i)") auto

declare scan_regions.simps [simp del]

definition Scan :: "'p parser \<Rightarrow> string \<Rightarrow> region list" where
  "Scan parse s =
     (let ws = leadingWS s in
      if has_prefix (drop ws s) ''$:'' then
        [\<lparr>rg_Marker = (ws, ws + 2), rg_Body = trimSpan s (ws + 2, length s), rg_Close = (0, 0)\<rparr>]
      else scan_regions parse s 0)"

end
