(* ===== verification/Lazy_Shapes.thy ===== *)
theory Lazy_Shapes
  imports Lazy_Build Template
begin

text \<open>
  Evaluating a whole slot over a context with externalized parts (\<open>evalShape\<close> of \<open>engine/evaluator.go\<close>).
\<close>

subsection \<open>Evaluating a slot (evalShape of engine/evaluator.go)\<close>

datatype 'p slot_error = SlotShape "'p shape_error" | SlotLoad ctx_error

definition evalShape :: "'d decimals \<Rightarrow> 'p parser \<Rightarrow> loader \<Rightarrow> jval \<Rightarrow> jval \<Rightarrow> string \<Rightarrow> shape \<Rightarrow> jval \<Rightarrow> memo
    \<Rightarrow> ('p slot_error, jval) result \<times> memo" where
  "evalShape D parse load data config task sh self memo =
     (case Shape_Roots parse sh of
        Inl e \<Rightarrow> (Inl (SlotShape e), memo)
      | Inr r \<Rightarrow>
          (case buildEnv load data config task self r memo of
             (Inl e, memo') \<Rightarrow> (Inl (SlotLoad e), memo')
           | (Inr env, memo') \<Rightarrow> (map_sum SlotShape id (Shape_Eval D parse sh env), memo')))"

text \<open>The expressions of a slot, each with whether its result is rendered.\<close>

fun template_exprs :: "template \<Rightarrow> (node \<times> bool) list" where
  "template_exprs t = concat (map (\<lambda>c. case c of Literal _ \<Rightarrow> [] | Expression _ n \<Rightarrow> [(n, \<not> tm_expr t)]) (tm_chunks t))"

fun raw_exprs :: "'p parser \<Rightarrow> jval \<Rightarrow> (node \<times> bool) list" where
  "raw_exprs parse (JStr s) = (case Parse_template parse s of Inl _ \<Rightarrow> [] | Inr t \<Rightarrow> template_exprs t)"
| "raw_exprs parse (JArr xs) = concat (map (raw_exprs parse) xs)"
| "raw_exprs parse (JObj kvs) = concat (map (\<lambda>(_, x). raw_exprs parse x) kvs)"
| "raw_exprs parse _ = []"

definition shape_exprs :: "'p parser \<Rightarrow> shape \<Rightarrow> (node \<times> bool) list" where
  "shape_exprs parse sh =
     (if sh_Expr sh then (case parse (exprString sh) of Inl _ \<Rightarrow> [] | Inr n \<Rightarrow> [(n, False)]) else raw_exprs parse (sh_Raw sh))"

text \<open>
  No literal under a read hides a root from the analysis: passing the position on into literals reports
  the same roots.
\<close>

definition exact_refs :: "node \<times> bool \<Rightarrow> bool" where
  "exact_refs = (\<lambda>(n, thru). strictRoots n [] thru no_roots = RootRefsNode n thru)"

lemma roots_le_Union: "roots_le r (Union_roots r q)" "roots_le q (Union_roots r q)"
  by (simp_all add: Union_roots_def roots_le_def Let_def)

lemma expr_agrees:
  assumes "env_ok load R c c'" "exact_refs (n, thru)" "roots_le (RootRefsNode n thru) R"
  shows "agree_res load thru (evalNode D n (env_of c Map.empty)) (evalNode D n (env_of c' Map.empty))"
  by (rule lazy_eval [OF assms(1), of Map.empty "[]" n thru no_roots]) (use assms(2,3) in \<open>auto simp: vars_ok_def exact_refs_def\<close>)

text \<open>Results whose errors are the same and whose values stand for the same thing.\<close>

definition same_res :: "loader \<Rightarrow> ('e, jval) result \<Rightarrow> ('e, jval) result \<Rightarrow> bool" where
  "same_res load = rel_sum (=) (agree load False)"

lemma same_res_simps [simp]:
  "same_res load (Inr v) (Inr w) \<longleftrightarrow> agree load False v w" "same_res load (Inl a) (Inl b) \<longleftrightarrow> a = b"
  "\<not> same_res load (Inl a) (Inr w)" "\<not> same_res load (Inr v) (Inl b)"
  by (simp_all add: same_res_def)

lemma same_res_map: "same_res load m m' \<Longrightarrow> same_res load (map_sum f id m) (map_sum f id m')"
  by (cases m; cases m') auto

lemma eval_in_agrees:
  assumes "env_ok load R c c'" "exact_refs (n, thru)" "roots_le (RootRefsNode n thru) R"
  shows "same_res load (eval_in D n c) (eval_in D n c')" "thru \<Longrightarrow> eval_in D n c = eval_in D n c'"
  using expr_agrees [OF assms, of D]
  by (cases "evalNode D n (env_of c Map.empty)"; cases "evalNode D n (env_of c' Map.empty)"; auto simp: eval_in_def agree_def)+

lemma template_roots_each: "c \<in> set (tm_chunks t) \<Longrightarrow> roots_le (chunk_roots (\<not> tm_expr t) c) (RootRefs_template t)"
proof -
  have up: "roots_le r (fold (\<lambda>c r. Union_roots r (f c)) cs r)" for f and cs :: "chunk list" and r
    by (intro fold_roots_mono) (simp add: roots_le_Union)
  have "roots_le (f c) (fold (\<lambda>c r. Union_roots r (f c)) cs r)" if "c \<in> set cs" for f cs r
    using that
  proof (induction cs arbitrary: r)
    case (Cons d cs)
    have "roots_le (f d) (fold (\<lambda>c r. Union_roots r (f c)) cs (Union_roots r (f d)))" using up roots_le_Union(2) roots_le_trans by blast
    then show ?case using Cons by auto
  qed simp
  then show "c \<in> set (tm_chunks t) \<Longrightarrow> ?thesis" by (simp add: RootRefs_template_def)
qed

lemma template_agrees:
  assumes "env_ok load R c c'" "list_all exact_refs (template_exprs t)" "roots_le (RootRefs_template t) R"
    and "tm_expr t \<Longrightarrow> \<exists>s n. tm_chunks t = [Expression s n]"
  shows "same_res load (EvalAny D t c) (EvalAny D t c')"
proof (cases "tm_expr t")
  case True
  then obtain s n where t: "tm_chunks t = [Expression s n]" using assms(4) by blast
  have "roots_le (RootRefsNode n False) R" using template_roots_each [of "Expression s n" t] t True assms(3) roots_le_trans by fastforce
  then show ?thesis using eval_in_agrees(1) [OF assms(1), of n False D] assms(2) t True by (simp add: EvalAny_def)
next
  case False
  have "render_chunk D c ch = render_chunk D c' ch" if "ch \<in> set (tm_chunks t)" for ch
  proof (cases ch)
    case (Expression s n)
    have "roots_le (RootRefsNode n True) R" using template_roots_each [OF that] Expression False assms(3) roots_le_trans by fastforce
    moreover have "exact_refs (n, True)" using assms(2) that Expression False by (auto simp: list_all_iff)
    ultimately have "eval_in D n c = eval_in D n c'" by (intro eval_in_agrees(2) [OF assms(1), of n True]) simp_all
    then show ?thesis using Expression by simp
  qed simp
  then have "each (render_chunk D c) (tm_chunks t) = each (render_chunk D c') (tm_chunks t)" by (rule each_cong [OF refl])
  then show ?thesis using False by (cases "each (render_chunk D c') (tm_chunks t)") (simp_all add: EvalAny_def)
qed

lemma Parse_template_expr: "Parse_template parse s = Inr t \<Longrightarrow> tm_expr t \<Longrightarrow> \<exists>s n. tm_chunks t = [Expression s n]"
  by (auto simp: Parse_template_def scanTemplate_def Let_def map_sum_def split: if_splits sum.splits)

lemma shape_Roots_mono:
  "shape_Roots parse x r = Inr q \<Longrightarrow> roots_le r q"
  "shape_roots_items parse xs r = Inr q \<Longrightarrow> roots_le r q"
  "shape_roots_fields parse kvs r = Inr q \<Longrightarrow> roots_le r q"
proof (induction parse x r and parse xs r and parse kvs r arbitrary: q and q and q rule: shape_Roots_shape_roots_items_shape_roots_fields.induct)
  case (1 parse s r)
  then show ?case using roots_le_Union(1) by (auto split: sum.splits)
qed (auto simp: rbind_def split: sum.splits intro: roots_le_trans)

lemma same_each:
  assumes "\<And>x. x \<in> set xs \<Longrightarrow> same_res load (f x) (g x)"
  shows "rel_sum (=) (list_all2 (agree load False)) (each f xs) (each g xs)"
  using assms
proof (induction xs)
  case (Cons x xs)
  have "same_res load (f x) (g x)" "rel_sum (=) (list_all2 (agree load False)) (each f xs) (each g xs)" using Cons by auto
  then show ?case by (cases "f x"; cases "g x"; cases "each f xs"; cases "each g xs") auto
qed simp

lemma each_fields: "each (\<lambda>(k, x). map_sum id (\<lambda>v. (k, v)) (h x)) kvs = map_sum id (zip (map fst kvs)) (each (\<lambda>(k, x). h x) kvs)"
proof (induction kvs)
  case (Cons kv kvs)
  obtain k x where kv: "kv = (k, x)" by (cases kv)
  show ?case using Cons unfolding kv by (cases "h x"; cases "each (\<lambda>(k, x). h x) kvs") auto
qed simp

lemma agree_zip: "list_all2 (agree load t) vs ws \<Longrightarrow> length ks = length vs \<Longrightarrow> agree load t (JObj (zip ks vs)) (JObj (zip ks ws))"
  by (induction vs ws arbitrary: ks rule: list_all2_induct) (auto simp: length_Suc_conv)

lemma each_length: "each f xs = Inr ys \<Longrightarrow> length ys = length xs"
  by (induction xs arbitrary: ys) (auto simp: rbind_def split: sum.splits)

lemma raw_agrees:
  assumes ok: "env_ok load R c c'"
  shows "shape_Roots parse x r = Inr q \<Longrightarrow> roots_le q R \<Longrightarrow> list_all exact_refs (raw_exprs parse x) \<Longrightarrow>
      same_res load (shape_Eval D parse x c) (shape_Eval D parse x c')"
    "shape_roots_items parse xs r = Inr q \<Longrightarrow> roots_le q R \<Longrightarrow> list_all (\<lambda>x. list_all exact_refs (raw_exprs parse x)) xs \<Longrightarrow>
      list_all (\<lambda>x. same_res load (shape_Eval D parse x c) (shape_Eval D parse x c')) xs"
    "shape_roots_fields parse kvs r = Inr q \<Longrightarrow> roots_le q R \<Longrightarrow> list_all (\<lambda>(_, x). list_all exact_refs (raw_exprs parse x)) kvs \<Longrightarrow>
      list_all (\<lambda>(_, x). same_res load (shape_Eval D parse x c) (shape_Eval D parse x c')) kvs"
proof (induction parse x r and parse xs r and parse kvs r arbitrary: q and q and q rule: shape_Roots_shape_roots_items_shape_roots_fields.induct)
  case (1 parse s r)
  then obtain t where t: "Parse_template parse s = Inr t" by (auto split: sum.splits)
  have "roots_le (RootRefs_template t) R" using 1 t roots_le_Union(2) roots_le_trans by fastforce
  then have "same_res load (EvalAny D t c) (EvalAny D t c')"
    by (intro template_agrees [OF ok]) (use Parse_template_expr [OF t] 1(3) t in \<open>simp_all del: template_exprs.simps\<close>)
  then show ?case using t same_res_map by simp
next
  case (2 parse xs r)
  then have "same_res load (shape_Eval D parse x c) (shape_Eval D parse x c')" if "x \<in> set xs" for x
    using that by (auto simp: list_all_iff)
  then have "rel_sum (=) (list_all2 (agree load False)) (each (\<lambda>x. shape_Eval D parse x c) xs) (each (\<lambda>x. shape_Eval D parse x c') xs)"
    by (rule same_each)
  then show ?case
    by (cases "each (\<lambda>x. shape_Eval D parse x c) xs"; cases "each (\<lambda>x. shape_Eval D parse x c') xs") (auto intro: agree_arr)
next
  case (3 parse kvs r)
  let ?f = "\<lambda>e (k :: string, x). shape_Eval D parse x e"
  have "list_all (\<lambda>(_, x). list_all exact_refs (raw_exprs parse x)) kvs" using 3(4) by (auto simp: list_all_iff)
  then have "list_all (\<lambda>(_, x). same_res load (shape_Eval D parse x c) (shape_Eval D parse x c')) kvs" using 3(1) 3(2,3) by simp
  then have "same_res load (?f c kv) (?f c' kv)" if "kv \<in> set kvs" for kv
    using that by (auto simp: list_all_iff split: prod.splits)
  then have "rel_sum (=) (list_all2 (agree load False)) (each (?f c) kvs) (each (?f c') kvs)" by (rule same_each)
  then show ?case unfolding shape_Eval.simps each_fields [of "\<lambda>x. shape_Eval D parse x e" for e]
    by (cases "each (?f c) kvs"; cases "each (?f c') kvs") (auto intro!: agree_zip dest: each_length)
next
  case (6 parse x xs r)
  then obtain p where p: "shape_Roots parse x r = Inr p" "shape_roots_items parse xs p = Inr q" by (auto simp: rbind_def split: sum.splits)
  then have "roots_le p R" using shape_Roots_mono(2) roots_le_trans 6(4) by blast
  then show ?case using 6 p by simp
next
  case (8 parse k x kvs r)
  then obtain p where p: "shape_Roots parse x r = Inr p" "shape_roots_fields parse kvs p = Inr q" by (auto simp: rbind_def split: sum.splits)
  then have "roots_le p R" using shape_Roots_mono(3) roots_le_trans 8(4) by blast
  then show ?case using 8 p by simp
qed simp_all

lemma Shape_agrees:
  assumes "env_ok load R c c'" "Shape_Roots parse sh = Inr R" "list_all exact_refs (shape_exprs parse sh)"
  shows "same_res load (Shape_Eval D parse sh c) (Shape_Eval D parse sh c')"
proof (cases "sh_Expr sh")
  case True
  then show ?thesis using assms eval_in_agrees(1) [OF assms(1), of _ False D]
    by (auto simp: Shape_Roots_def Shape_Eval_def shape_exprs_def intro!: same_res_map split: sum.splits)
next
  case False
  then show ?thesis using assms raw_agrees(1) [OF assms(1), of parse "sh_Raw sh" no_roots R D]
    by (simp add: Shape_Roots_def Shape_Eval_def shape_exprs_def)
qed

lemma evalShape_computes:
  assumes "computes load (buildEnv load data config task self R) (Inr c)" "Shape_Roots parse sh = Inr R" "consistent load memo"
  shows "fst (evalShape D parse load data config task sh self memo) = map_sum SlotShape id (Shape_Eval D parse sh c)"
proof -
  obtain m' where "buildEnv load data config task self R memo = (Inr c, m')"
    using assms(1,3) unfolding computes_def by (metis prod.collapse)
  then show ?thesis using assms(2) by (simp add: evalShape_def)
qed


end
