(* ===== verification/Lazy_Samples.thy ===== *)
theory Lazy_Samples
  imports Lazy_Shapes State_Codec
begin

text \<open>Concrete contexts and expressions, for the evaluation of slots.\<close>

text \<open>Decimals restricted to whole numbers.\<close>

definition whole_decimals :: "int decimals" where
  "whole_decimals = \<lparr>NewFromString = parse_int64, New = id, Cmp = (\<lambda>x y. x - y), exact_Add = (\<lambda>x y. Some (x + y)),
     exact_Sub = (\<lambda>x y. Some (x - y)), exact_Mul = (\<lambda>x y. Some (x * y)), Quo = (\<lambda>_ x y. Some (x div y)), Rem = (\<lambda>_ x y. Some (x mod y)),
     Neg = uminus, IsZero = (\<lambda>x. x = 0), NumDigits = (\<lambda>x. length (itoa x)), Finite = (\<lambda>_. True), RoundToIntegralValue = Some,
     Int64 = Some, Reduced_Text = itoa\<rparr>"

definition out_field :: node where
  "out_field = MemberNode (MemberNode (IdentNode ''outputs'') ''a'') ''b''"

text \<open>The literal \<open>[outputs.a]\<close>, mapped over and indexed.\<close>

definition map_literal :: node where
  "map_literal = CallNode ''map'' [ArrayNode [MemberNode (IdentNode ''outputs'') ''a''],
     LambdaNode ''x'' [] (MemberNode (IdentNode ''x'') ''b'')]"

definition error_message :: node where
  "error_message = MemberNode (IdentNode ''last_error'') ''message''"

fun sample_parser :: "unit parser" where
  "sample_parser s =
     (if s = ''outputs.a.b'' then Inr out_field
      else if s = ''map([outputs.a], x => x.b)'' then Inr map_literal
      else if s = ''last_error.message'' then Inr error_message
      else Inl ())"

definition sample_load :: loader where
  "sample_load = [''h'' \<mapsto> JObj [(''b'', JStr ''x'')]]"

definition sample_ctx :: "(string \<times> jval) list" where
  "sample_ctx = [(''outputs'', JObj [(''a'', JRef ''h'' 200)])]"

definition loaded_ctx :: "(string \<times> jval) list" where
  "loaded_ctx = [(''outputs'', JObj [(''a'', JObj [(''b'', JStr ''x'')])])]"

definition leaf_slot :: "string \<Rightarrow> shape" where
  "leaf_slot s = \<lparr>sh_Raw = JStr s, sh_Expr = False\<rparr>"

text \<open>A failure whose message was long enough to be moved out of the row.\<close>

definition moved_message :: state_cols where
  "moved_message = \<lparr>c_InputData = [], c_OutputsData = [], c_OutputData = [], c_ErrorInternal = text_of (JObj [(''code'', JStr ''oops''), (''task'', JStr ''t'')]),
     c_ErrorData = [], c_ExternalInput = [], c_ExternalLost = False, c_EngineState = no_engine_state,
     c_Objects = [\<lparr>ref_hash = ''m'', ref_size = 3000, ref_path = [PKey ''last_error'', PKey ''message'']\<rparr>]\<rparr>"

definition message_load :: loader where
  "message_load = [''m'' \<mapsto> JStr ''a long message'']"

lemma plain_samples: "plain_loader sample_load" "plain_loader message_load"
  by (auto simp: plain_loader_def sample_load_def message_load_def split: if_splits)

lemma consistent_empty: "consistent load Map.empty"
  by (simp add: consistent_def)

lemma sample_readable: "readable sample_ctx (JObj []) JNull" "full sample_load (JObj sample_ctx) = Inr (JObj loaded_ctx)"
  "list_all exact_refs (shape_exprs sample_parser (leaf_slot ''$: outputs.a.b''))"
  by code_simp+


text \<open>
  A literal hides what it holds from the reference analysis: \<open>map([outputs.a], x => x.b)\<close> gives its value
  while the output is small, and fails as an engine bug once the same output has been moved out of the
  row, because \<open>collectRoots\<close> takes an element of a literal for a copy whatever the literal is used for.
\<close>

theorem literal_hides_a_marker:
  "full sample_load (JObj sample_ctx) = Inr (JObj loaded_ctx) \<and>
   fst (evalShape whole_decimals sample_parser sample_load (JObj loaded_ctx) (JObj []) ''t'' (leaf_slot ''$: map([outputs.a], x => x.b)'') JNull Map.empty)
     = Inr (JArr [JStr ''x'']) \<and>
   fst (evalShape whole_decimals sample_parser sample_load (JObj sample_ctx) (JObj []) ''t'' (leaf_slot ''$: map([outputs.a], x => x.b)'') JNull Map.empty)
     = Inl (SlotShape (ShapeRender (RenderEval (UnresolvedRef ''h''))))"
  by (intro conjI) code_simp+

text \<open>
  A long error message cannot be read back: a row whose \<open>last_error\<close> was stored with its message moved
  out decodes to a context in which \<open>${last_error.message}\<close> fails as an engine bug, although the message
  loads, because only \<open>data\<close> of an error is ever materialized.
\<close>

theorem moved_message_is_unreadable:
  "case decodeState moved_message of None \<Rightarrow> False
   | Some (cd, _) \<Rightarrow>
       full message_load (member (member (JObj cd) ''last_error'') ''message'') = Inr (JStr ''a long message'') \<and>
       fst (evalShape whole_decimals sample_parser message_load (JObj cd) (JObj []) ''t'' (leaf_slot ''${last_error.message}'') JNull Map.empty)
         = Inl (SlotShape (ShapeRender (RenderEval (UnresolvedRef ''m''))))"
  by code_simp

end
