(* ===== verification/Template_Scan.thy ===== *)
theory Template_Scan
  imports Template
begin

text \<open>The two scanners of a template find the same expressions.\<close>

subsection \<open>Trimming\<close>

definition trim_ws :: "string \<Rightarrow> string" where
  "trim_ws s = rev (dropWhile is_ws (rev (dropWhile is_ws s)))"

lemma is_ws_space: "is_ws c \<Longrightarrow> is_space c"
  by (auto simp: is_ws_def is_space_def)

lemma dropWhile_weaker: "(\<And>c. P c \<Longrightarrow> Q c) \<Longrightarrow> dropWhile Q (dropWhile P s) = dropWhile Q s"
  by (induction s) auto

lemma dropWhile_rev_end:
  assumes "\<And>c. P c \<Longrightarrow> Q c"
  shows "dropWhile Q (rev (dropWhile P (rev s))) = rev (dropWhile P (rev (dropWhile Q s))) \<or> list_all Q s"
proof (induction s)
  case (Cons c s)
  then show ?case using assms by (auto simp: dropWhile_append list_all_iff)
qed simp

lemma trim_twice:
  assumes "\<And>c. P c \<Longrightarrow> Q c"
  shows "rev (dropWhile Q (rev (dropWhile Q (rev (dropWhile P (rev (dropWhile P s))))))) = rev (dropWhile Q (rev (dropWhile Q s)))"
proof -
  let ?t = "dropWhile P s"
  have d: "dropWhile Q ?t = dropWhile Q s" by (rule dropWhile_weaker) (rule assms)
  have all: "dropWhile Q x = []" if "list_all Q x" for x using that by (induction x) auto
  from dropWhile_rev_end [of P Q ?t, OF assms] consider
    "dropWhile Q (rev (dropWhile P (rev ?t))) = rev (dropWhile P (rev (dropWhile Q ?t)))" | "list_all Q ?t" by blast
  then show ?thesis
  proof cases
    case 1
    then show ?thesis unfolding d by (simp add: dropWhile_weaker [OF assms])
  next
    case 2
    then have "list_all Q (rev (dropWhile P (rev ?t)))" by (auto simp: list_all_iff dest: set_dropWhileD)
    then show ?thesis using all 2 d by (metis all)
  qed
qed

lemma trim_trim: "trim_space (trim_ws s) = trim_space s" "trim_space (trim_space s) = trim_space s"
  unfolding trim_space_def trim_ws_def by (intro trim_twice; simp add: is_ws_space)+

lemma length_takeWhile_drop: "drop (length (takeWhile P s)) s = dropWhile P s"
  by (simp add: dropWhile_eq_drop)

lemma slice_shrink:
  assumes "b \<le> length s"
  shows "slice s (c, b - r) = take (length (slice s (c, b)) - r) (slice s (c, b))"
proof -
  have "length (slice s (c, b)) = b - c" using assms by (simp add: slice_def)
  then show ?thesis by (simp add: slice_def min_def add.commute)
qed

lemma slice_trimSpan:
  assumes "fst sp \<le> snd sp" "snd sp \<le> length s"
  shows "slice s (trimSpan s sp) = trim_ws (slice s sp)"
proof -
  obtain a b where sp: "sp = (a, b)" by fastforce
  let ?x = "slice s (a, b)" and ?l = "length (takeWhile is_ws (slice s (a, b)))"
  have lx: "length ?x = b - a" using assms sp by (simp add: slice_def)
  have ll: "?l \<le> b - a" using length_takeWhile_le [of is_ws ?x] lx by simp
  have y: "slice s (a + ?l, b) = dropWhile is_ws ?x"
    unfolding length_takeWhile_drop [symmetric] by (simp add: slice_def drop_take add.commute)
  let ?y = "slice s (a + ?l, b)" and ?r = "length (takeWhile is_ws (rev (slice s (a + ?l, b))))"
  have "slice s (a + ?l, b - ?r) = take (length ?y - ?r) ?y" using assms sp by (intro slice_shrink) simp
  also have "\<dots> = rev (dropWhile is_ws (rev ?y))"
    unfolding length_takeWhile_drop [symmetric] by (simp add: rev_drop)
  finally show ?thesis unfolding sp trim_ws_def y [symmetric] by (simp add: trimSpan_def Let_def)
qed

subsection \<open>Blocks\<close>

lemma parseBlock_blockEnd:
  "parseBlock parse seen longest s = Inr (body, n, after) \<Longrightarrow>
    blockEnd parse seen first s = length body \<and> seen @ s = body @ CHR ''}'' # after"
  by (induction s arbitrary: seen longest first) (fastforce split: if_splits sum.splits)+

fun expr_texts :: "chunk list \<Rightarrow> string list" where
  "expr_texts [] = []"
| "expr_texts (Literal _ # cs) = expr_texts cs"
| "expr_texts (Expression t _ # cs) = t # expr_texts cs"

lemma expr_texts_flush [simp]: "expr_texts (flush lit @ cs) = expr_texts cs" "expr_texts (flush lit) = []"
  by (simp_all add: flush_def)

definition region_ok :: "string \<Rightarrow> region \<Rightarrow> bool" where
  "region_ok s r \<longleftrightarrow> slice s (rg_Marker r) = ''${'' \<and> slice s (rg_Close r) = ''}''"

lemma scan_agrees_from:
  "i \<le> length s \<Longrightarrow> scan_chunks parse lit (drop i s) = Inr cs \<Longrightarrow>
    map (\<lambda>r. trim_space (slice s (rg_Body r))) (scan_regions parse s i) = map trim_space (expr_texts cs) \<and>
    list_all (region_ok s) (scan_regions parse s i)"
proof (induction parse s i arbitrary: lit cs rule: scan_regions.induct)
  case (1 parse s i)
  show ?case
  proof (cases "i = length s")
    case True
    then show ?thesis using "1.prems" by (auto simp: scan_regions.simps [of parse s "length s"] scan_chunks.simps)
  next
    case False
    then have i: "i < length s" using "1.prems" by simp
    then have drop: "drop i s = s ! i # drop (i + 1) s" by (simp add: Cons_nth_drop_Suc)
    have hd: "drop (i + 1) s \<noteq> [] \<Longrightarrow> hd (drop (i + 1) s) = s ! (i + 1) \<and> tl (drop (i + 1) s) = drop (i + 2) s"
      by (auto simp: hd_drop_conv_nth tl_drop drop_Suc [of "Suc i"])
    consider (lit) "s ! i \<noteq> CHR ''$'' \<or> i + 1 \<ge> length s \<or> (s ! (i + 1) \<noteq> CHR ''$'' \<and> s ! (i + 1) \<noteq> CHR ''{'')"
      | (esc) "s ! i = CHR ''$''" "i + 1 < length s" "s ! (i + 1) = CHR ''$''"
      | (block) "s ! i = CHR ''$''" "i + 1 < length s" "s ! (i + 1) = CHR ''{''" by fastforce
    then show ?thesis
    proof cases
      case lit
      have "scan_chunks parse (lit @ [s ! i]) (drop (i + 1) s) = Inr cs"
        using "1.prems"(2) lit hd unfolding drop scan_chunks.simps [of parse lit "s ! i # drop (i + 1) s"] by (auto split: if_splits)
      moreover have "scan_regions parse s i = scan_regions parse s (i + 1)" using lit i by (auto simp: scan_regions.simps [of parse s i])
      ultimately show ?thesis using "1.IH"(1,4) lit i by (cases "s ! i \<noteq> CHR ''$'' \<or> i + 1 \<ge> length s") auto
    next
      case esc
      have "scan_chunks parse (lit @ ''$'') (drop (i + 2) s) = Inr cs"
        using "1.prems"(2) esc hd unfolding drop scan_chunks.simps [of parse lit "s ! i # drop (i + 1) s"] by (auto split: if_splits)
      moreover have "scan_regions parse s i = scan_regions parse s (i + 2)" using esc by (simp add: scan_regions.simps [of parse s i])
      ultimately show ?thesis using "1.IH"(2) esc i by auto
    next
      case block
      have "drop (i + 1) s \<noteq> []" using block by simp
      then obtain body n after cs' where b: "parseBlock parse [] UnclosedBlock (drop (i + 2) s) = Inr (body, n, after)"
        "scan_chunks parse [] after = Inr cs'" "cs = flush lit @ Expression body n # cs'"
        using "1.prems"(2) block hd unfolding drop scan_chunks.simps [of parse lit "s ! i # drop (i + 1) s"]
        by (auto split: if_splits sum.splits prod.splits)
      have e: "blockEnd parse [] None (drop (i + 2) s) = length body" "drop (i + 2) s = body @ CHR ''}'' # after"
        using parseBlock_blockEnd [OF b(1), of None] by auto
      have "length (drop (i + 2) s) = length body + length after + 1" unfolding e(2) by simp
      then have len: "i + 2 + length body < length s" using block by simp
      have after: "after = drop (i + 2 + length body + 1) s"
        using arg_cong [OF e(2), of "drop (length body + 1)"] by (simp add: add.commute add.left_commute)
      let ?r = "\<lparr>rg_Marker = (i, i + 2), rg_Body = trimSpan s (i + 2, i + 2 + length body), rg_Close = (i + 2 + length body, i + 2 + length body + 1)\<rparr>"
      have regs: "scan_regions parse s i = ?r # scan_regions parse s (i + 2 + length body + 1)"
        using block e(1) len i by (simp add: scan_regions.simps [of parse s i] Let_def)
      have body: "slice s (i + 2, i + 2 + length body) = body" using e(2) by (simp add: slice_def)
      have "trim_space (slice s (rg_Body ?r)) = trim_space body" using slice_trimSpan [of "(i + 2, i + 2 + length body)" s] len body trim_trim(1) by simp
      moreover have "region_ok s ?r"
      proof -
        have "take 2 (drop i s) = ''${''" using block i by (simp add: take_Suc_conv_app_nth numeral_2_eq_2 drop Cons_nth_drop_Suc [symmetric])
        moreover have "take 1 (drop (i + 2 + length body) s) = ''}''"
          using arg_cong [OF e(2), of "\<lambda>x. take 1 (drop (length body) x)"] by (simp add: add.commute add.left_commute)
        ultimately show ?thesis by (simp add: region_ok_def slice_def)
      qed
      moreover have "map (\<lambda>r. trim_space (slice s (rg_Body r))) (scan_regions parse s (i + 2 + length body + 1)) = map trim_space (expr_texts cs') \<and>
          list_all (region_ok s) (scan_regions parse s (i + 2 + length body + 1))"
        using "1.IH"(3) [of "i + 2" "length body" "[]" cs'] block i e(1) b(2) len after by auto
      ultimately show ?thesis unfolding regs b(3) by simp
    qed
  qed
qed

text \<open>
  C37: the scanner that reports positions and the parser find the same expressions: on every string the
  parser accepts, the bodies the scanner points at are the parser's expression texts, in order and up
  to surrounding white space, each marker is the text that introduces it, and each interpolation ends
  at its brace.
\<close>

theorem scan_agrees_with_parse:
  "case Parse_template parse s of
     Inl _ \<Rightarrow> True
   | Inr t \<Rightarrow>
       map (\<lambda>r. trim_space (slice s (rg_Body r))) (Scan parse s) = map trim_space (expr_texts (tm_chunks t)) \<and>
       list_all (\<lambda>r. slice s (rg_Marker r) = (if tm_expr t then ''$:'' else ''${'') \<and>
         (tm_expr t \<or> slice s (rg_Close r) = ''}'')) (Scan parse s)"
proof (cases "has_prefix (drop (leadingWS s) s) ''$:''")
  case True
  let ?w = "leadingWS s"
  obtain u where u: "drop ?w s = ''$:'' @ u" using True unfolding has_prefix_iff by blast
  have "length (drop ?w s) = 2 + length u" unfolding u by simp
  then have len: "?w + 2 \<le> length s" by simp
  have "slice s (?w + 2, length s) = drop 2 (drop ?w s)" using len by (simp add: slice_def add.commute)
  then have "trim_space (slice s (trimSpan s (?w + 2, length s))) = trim_space (trim_space (drop 2 (drop ?w s)))"
    using slice_trimSpan [of "(?w + 2, length s)" s] len trim_trim by simp
  moreover have "slice s (?w, ?w + 2) = ''$:''" using u by (simp add: slice_def)
  ultimately show ?thesis using True by (simp add: Parse_template_def Scan_def Let_def split: sum.split)
next
  case False
  then have p: "Parse_template parse s = scanTemplate parse s" "Scan parse s = scan_regions parse s 0"
    by (simp_all add: Parse_template_def Scan_def Let_def)
  show ?thesis
  proof (cases "scan_chunks parse [] s")
    case (Inr cs)
    then show ?thesis using scan_agrees_from [of 0 s parse "[]" cs] p by (simp add: scanTemplate_def region_ok_def [abs_def])
  qed (simp add: p scanTemplate_def)
qed

end
