(* ===== verification/Retry_Policy.thy ===== *)
theory Retry_Policy
  imports Template
begin

text \<open>
  A rule's retry policy (\<open>model/retry.go\<close>) and the backoff curve it feeds (\<open>engine/backoff.go\<close>).

  The sources compute in \<open>float64\<close>. The parameter \<open>floats\<close> has one field for each operation they use;
  what a proof relies on of the format is the hypothesis \<open>float_laws\<close>. A \<open>time.Duration\<close> is an int64
  number of nanoseconds, kept as an \<open>int\<close> with the wrap-around of its one multiplication written out.
\<close>

record 'f floats =
  fl_of_int :: "int \<Rightarrow> 'f"
  fl_parse :: "string \<Rightarrow> 'f option"
  fl_mul :: "'f \<Rightarrow> 'f \<Rightarrow> 'f"
  fl_eq :: "'f \<Rightarrow> 'f \<Rightarrow> bool"
  fl_lt :: "'f \<Rightarrow> 'f \<Rightarrow> bool"
  fl_trunc :: "'f \<Rightarrow> int"

definition wrap64 :: "int \<Rightarrow> int" where
  "wrap64 n = (n + 2 ^ 63) mod 2 ^ 64 - 2 ^ 63"

definition Millisecond :: int where "Millisecond = 1000000"
definition Second :: int where "Second = 1000 * Millisecond"
definition Minute :: int where "Minute = 60 * Second"

definition DefaultRetryDelay :: int where "DefaultRetryDelay = 1 * Second"
definition DefaultRetryFactor :: int where "DefaultRetryFactor = 2"
definition DefaultRetryMaxDelay :: int where "DefaultRetryMaxDelay = 5 * Minute"

subsection \<open>The slots\<close>

record 'f retry_number =
  rn_n :: 'f
  rn_expr :: string

text \<open>\<open>rd_set\<close> is \<open>src != nil\<close>: the slot was written.\<close>

record retry_duration =
  rd_set :: bool
  rd_d :: int
  rd_expr :: string

record 'f retry =
  rt_Retries :: "'f retry_number"
  rt_Delay :: retry_duration
  rt_Factor :: "'f retry_number"
  rt_MaxDelay :: retry_duration

record 'f resolved_retry =
  rr_Retries :: int
  rr_Base :: int
  rr_Factor :: 'f
  rr_Ceiling :: int

definition number_IsZero :: "'f floats \<Rightarrow> 'f retry_number \<Rightarrow> bool" where
  "number_IsZero F v \<longleftrightarrow> rn_expr v = [] \<and> fl_eq F (rn_n v) (fl_of_int F 0)"

definition retry_IsZero :: "'f floats \<Rightarrow> 'f retry \<Rightarrow> bool" where
  "retry_IsZero F r \<longleftrightarrow> number_IsZero F (rt_Retries r) \<and> number_IsZero F (rt_Factor r) \<and>
     \<not> rd_set (rt_Delay r) \<and> \<not> rd_set (rt_MaxDelay r)"

datatype 'e retry_error =
    SlotEval 'e | NotANumber | NotWhole | Negative | Shrinks | NotPositive | ShorterThanDelay

fun retryFloat :: "'f floats \<Rightarrow> jval \<Rightarrow> ('e retry_error, 'f) result" where
  "retryFloat F (JInt n) = Inr (fl_of_int F n)"
| "retryFloat F (JNumber t) = (case fl_parse F t of None \<Rightarrow> Inl NotANumber | Some f \<Rightarrow> Inr f)"
| "retryFloat F _ = Inl NotANumber"

definition number_resolve :: "'f floats \<Rightarrow> (string \<Rightarrow> ('e, jval) result) \<Rightarrow> 'f retry_number
    \<Rightarrow> ('e retry_error, 'f \<times> bool) result" where
  "number_resolve F eval v =
     (if rn_expr v = [] then Inr (rn_n v, \<not> fl_eq F (rn_n v) (fl_of_int F 0))
      else (case eval (rn_expr v) of
              Inl e \<Rightarrow> Inl (SlotEval e)
            | Inr out \<Rightarrow> rbind (retryFloat F out) (\<lambda>n. Inr (n, True))))"

definition whole :: "'f floats \<Rightarrow> 'f \<Rightarrow> bool" where
  "whole F x \<longleftrightarrow> fl_eq F x (fl_of_int F (fl_trunc F x))"

definition duration_resolve :: "'f floats \<Rightarrow> (string \<Rightarrow> ('e, jval) result) \<Rightarrow> retry_duration
    \<Rightarrow> ('e retry_error, int \<times> bool) result" where
  "duration_resolve F eval d =
     (if rd_expr d = [] then Inr (rd_d d, rd_set d)
      else (case eval (rd_expr d) of
              Inl e \<Rightarrow> Inl (SlotEval e)
            | Inr out \<Rightarrow>
                rbind (retryFloat F out) (\<lambda>ms.
                  if \<not> whole F ms then Inl NotWhole
                  else Inr (wrap64 (fl_trunc F ms * Millisecond), True))))"

subsection \<open>Resolve\<close>

definition resolve_retries :: "'f floats \<Rightarrow> (string \<Rightarrow> ('e, jval) result) \<Rightarrow> 'f retry \<Rightarrow> ('e retry_error, int) result" where
  "resolve_retries F eval r =
     rbind (number_resolve F eval (rt_Retries r)) (\<lambda>(retries, _).
       if \<not> whole F retries then Inl NotWhole
       else if fl_lt F retries (fl_of_int F 0) then Inl Negative
       else Inr (fl_trunc F retries))"

definition resolve_factor :: "'f floats \<Rightarrow> (string \<Rightarrow> ('e, jval) result) \<Rightarrow> 'f retry \<Rightarrow> ('e retry_error, 'f) result" where
  "resolve_factor F eval r =
     rbind (number_resolve F eval (rt_Factor r)) (\<lambda>(factor, factorSet).
       if \<not> factorSet then Inr (fl_of_int F DefaultRetryFactor)
       else if fl_lt F factor (fl_of_int F 1) then Inl Shrinks
       else Inr factor)"

definition resolve_base :: "'f floats \<Rightarrow> (string \<Rightarrow> ('e, jval) result) \<Rightarrow> 'f retry \<Rightarrow> ('e retry_error, int) result" where
  "resolve_base F eval r =
     rbind (duration_resolve F eval (rt_Delay r)) (\<lambda>(base, baseSet).
       if \<not> baseSet then Inr DefaultRetryDelay
       else if base \<le> 0 then Inl NotPositive
       else Inr base)"

definition resolve_ceiling :: "'f floats \<Rightarrow> (string \<Rightarrow> ('e, jval) result) \<Rightarrow> 'f retry \<Rightarrow> int \<Rightarrow> ('e retry_error, int) result" where
  "resolve_ceiling F eval r base =
     rbind (duration_resolve F eval (rt_MaxDelay r)) (\<lambda>(ceiling, ceilingSet).
       if \<not> ceilingSet then Inr (max DefaultRetryMaxDelay base)
       else if ceiling \<le> 0 then Inl NotPositive
       else if ceiling < base then Inl ShorterThanDelay
       else Inr ceiling)"

definition Resolve :: "'f floats \<Rightarrow> (string \<Rightarrow> ('e, jval) result) \<Rightarrow> 'f retry \<Rightarrow> ('e retry_error, 'f resolved_retry) result" where
  "Resolve F eval r =
     rbind (resolve_retries F eval r) (\<lambda>retries.
     rbind (resolve_factor F eval r) (\<lambda>factor.
     rbind (resolve_base F eval r) (\<lambda>base.
     rbind (resolve_ceiling F eval r base) (\<lambda>ceiling.
       Inr \<lparr>rr_Retries = retries, rr_Base = base, rr_Factor = factor, rr_Ceiling = ceiling\<rparr>))))"

text \<open>The zero value of \<open>ResolvedRetry\<close>: no retries, no wait.\<close>

definition no_policy :: "'f floats \<Rightarrow> 'f resolved_retry" where
  "no_policy F = \<lparr>rr_Retries = 0, rr_Base = 0, rr_Factor = fl_of_int F 0, rr_Ceiling = 0\<rparr>"

subsection \<open>Backoff\<close>

text \<open>The loop multiplies at most \<open>n\<close> more times, and stops at the ceiling.\<close>

fun grow :: "'f floats \<Rightarrow> 'f \<Rightarrow> 'f \<Rightarrow> nat \<Rightarrow> 'f \<Rightarrow> 'f" where
  "grow F factor limit 0 d = d"
| "grow F factor limit (Suc n) d = (if fl_lt F d limit then grow F factor limit n (fl_mul F d factor) else d)"

definition nominal_delay :: "'f floats \<Rightarrow> int \<Rightarrow> int \<Rightarrow> 'f \<Rightarrow> int \<Rightarrow> int" where
  "nominal_delay F attempt base factor ceiling =
     (let d = fl_of_int F base; limit = fl_of_int F ceiling;
          d = (if fl_lt F (fl_of_int F 1) factor then grow F factor limit (nat (attempt - 1)) d else d)
      in fl_trunc F (if \<not> fl_lt F d limit then limit else d))"

text \<open>The nominal wait is not negative, so \<open>div\<close> is Go's division. \<open>rand.Int64N(n)\<close> is a number below \<open>n\<close>: \<open>draw mod n\<close> for some \<open>draw\<close>.\<close>

definition Int64N :: "nat \<Rightarrow> int \<Rightarrow> int" where
  "Int64N draw n = int draw mod n"

definition backoff :: "'f floats \<Rightarrow> nat \<Rightarrow> int \<Rightarrow> int \<Rightarrow> 'f \<Rightarrow> int \<Rightarrow> int" where
  "backoff F draw attempt base factor ceiling =
     (let nominal = nominal_delay F attempt base factor ceiling
      in nominal div 2 + Int64N draw (nominal div 2 + 1))"

definition retryDelay :: "'f floats \<Rightarrow> bool \<Rightarrow> nat \<Rightarrow> int \<Rightarrow> 'f resolved_retry \<Rightarrow> int" where
  "retryDelay F immediateRetries draw attempt r =
     (if immediateRetries then 0 else backoff F draw attempt (rr_Base r) (rr_Factor r) (rr_Ceiling r))"

subsection \<open>What a resolved policy promises\<close>

lemma rbind_Inr: "rbind m f = Inr y \<longleftrightarrow> (\<exists>x. m = Inr x \<and> f x = Inr y)"
  by (cases m) auto

lemma Resolve_base: "Resolve F eval r = Inr p \<Longrightarrow> 0 < rr_Base p"
  by (auto simp: Resolve_def rbind_Inr resolve_base_def DefaultRetryDelay_def Second_def Millisecond_def split: if_splits)

lemma Resolve_ceiling: "Resolve F eval r = Inr p \<Longrightarrow> rr_Base p \<le> rr_Ceiling p"
  by (auto simp: Resolve_def rbind_Inr resolve_ceiling_def split: if_splits)

text \<open>
  What is assumed of \<open>float64\<close>, for the values \<open>N\<close> that are numbers: they are linearly ordered, an integer
  up to \<open>2 ^ 53\<close> is represented exactly, truncation and conversion are monotone, and a positive number
  does not get smaller when it is multiplied by one above 1.
\<close>

definition float_laws :: "'f floats \<Rightarrow> 'f set \<Rightarrow> bool" where
  "float_laws F N \<longleftrightarrow>
     (\<forall>n. fl_of_int F n \<in> N) \<and>
     (\<forall>t f. fl_parse F t = Some f \<longrightarrow> f \<in> N) \<and>
     (\<forall>n. 0 \<le> n \<and> n \<le> 2 ^ 53 \<longrightarrow> fl_trunc F (fl_of_int F n) = n) \<and>
     (\<forall>m n. m \<le> n \<longrightarrow> \<not> fl_lt F (fl_of_int F n) (fl_of_int F m)) \<and>
     (\<forall>m n. m < n \<and> n \<le> 2 ^ 53 \<and> 0 \<le> m \<longrightarrow> fl_lt F (fl_of_int F m) (fl_of_int F n)) \<and>
     (\<forall>a \<in> N. \<forall>b \<in> N. fl_lt F a b \<longrightarrow> \<not> fl_lt F b a) \<and>
     (\<forall>a \<in> N. \<forall>b \<in> N. \<forall>c \<in> N. \<not> fl_lt F b a \<longrightarrow> \<not> fl_lt F c b \<longrightarrow> \<not> fl_lt F c a) \<and>
     (\<forall>a \<in> N. \<forall>b \<in> N. \<not> fl_lt F b a \<longrightarrow> fl_trunc F a \<le> fl_trunc F b) \<and>
     (\<forall>d \<in> N. \<forall>f \<in> N. fl_lt F (fl_of_int F 0) d \<longrightarrow> fl_lt F (fl_of_int F 1) f \<longrightarrow>
        fl_mul F d f \<in> N \<and> \<not> fl_lt F (fl_mul F d f) d)"

text \<open>The growth before the ceiling: the whole curve of one policy.\<close>

definition curve :: "'f floats \<Rightarrow> int \<Rightarrow> 'f \<Rightarrow> int \<Rightarrow> nat \<Rightarrow> 'f" where
  "curve F base factor ceiling n =
     (if fl_lt F (fl_of_int F 1) factor then grow F factor (fl_of_int F ceiling) n (fl_of_int F base) else fl_of_int F base)"

definition capped :: "'f floats \<Rightarrow> int \<Rightarrow> 'f \<Rightarrow> 'f" where
  "capped F ceiling d = (if \<not> fl_lt F d (fl_of_int F ceiling) then fl_of_int F ceiling else d)"

abbreviation fl_le :: "'f floats \<Rightarrow> 'f \<Rightarrow> 'f \<Rightarrow> bool" where
  "fl_le F a b \<equiv> \<not> fl_lt F b a"

lemma float_lawsD:
  assumes "float_laws F N"
  shows of_int_N: "fl_of_int F n \<in> N"
    and parse_N: "fl_parse F t = Some f \<Longrightarrow> f \<in> N"
    and exact: "0 \<le> n \<Longrightarrow> n \<le> 2 ^ 53 \<Longrightarrow> fl_trunc F (fl_of_int F n) = n"
    and of_int_le: "m \<le> n \<Longrightarrow> fl_le F (fl_of_int F m) (fl_of_int F n)"
    and of_int_lt: "m < n \<Longrightarrow> n \<le> 2 ^ 53 \<Longrightarrow> 0 \<le> m \<Longrightarrow> fl_lt F (fl_of_int F m) (fl_of_int F n)"
  using assms by (simp_all add: float_laws_def)

lemma float_order:
  assumes "float_laws F N" "a \<in> N" "b \<in> N"
  shows lt_le: "fl_lt F a b \<Longrightarrow> fl_le F a b"
    and fl_le_refl: "fl_le F a a"
    and fl_le_trans: "c \<in> N \<Longrightarrow> fl_le F a b \<Longrightarrow> fl_le F b c \<Longrightarrow> fl_le F a c"
    and trunc_mono: "fl_le F a b \<Longrightarrow> fl_trunc F a \<le> fl_trunc F b"
  using assms unfolding float_laws_def by (elim conjE, blast)+

lemma lt_le_trans:
  assumes "float_laws F N" "a \<in> N" "b \<in> N" "c \<in> N" "fl_lt F a b" "fl_le F b c"
  shows "fl_lt F a c"
  using fl_le_trans [OF assms(1,3,4,2,6)] assms(5) by argo

lemma mul_law:
  "float_laws F N \<Longrightarrow> \<forall>d \<in> N. \<forall>f \<in> N. fl_lt F (fl_of_int F 0) d \<longrightarrow> fl_lt F (fl_of_int F 1) f \<longrightarrow>
    fl_mul F d f \<in> N \<and> fl_le F d (fl_mul F d f)"
  unfolding float_laws_def by (elim conjE) assumption

text \<open>A number that may grow: it and the factor are numbers, the one positive, the other above 1.\<close>

definition grows :: "'f floats \<Rightarrow> 'f set \<Rightarrow> 'f \<Rightarrow> 'f \<Rightarrow> bool" where
  "grows F N f d \<longleftrightarrow> float_laws F N \<and> d \<in> N \<and> f \<in> N \<and> fl_lt F (fl_of_int F 0) d \<and> fl_lt F (fl_of_int F 1) f"

lemma grows_refl: "grows F N f d \<Longrightarrow> fl_le F d d"
  unfolding grows_def by (elim conjE) (rule fl_le_refl)

lemma grows_step:
  assumes "grows F N f d"
  shows "grows F N f (fl_mul F d f) \<and> fl_le F d (fl_mul F d f)"
proof -
  have a: "float_laws F N" "d \<in> N" "f \<in> N" "fl_lt F (fl_of_int F 0) d" "fl_lt F (fl_of_int F 1) f"
    using assms by (simp_all add: grows_def)
  have m: "fl_mul F d f \<in> N" "fl_le F d (fl_mul F d f)" using mul_law [OF a(1)] a by blast+
  show ?thesis using m a lt_le_trans [OF a(1) of_int_N [OF a(1)] a(2) m(1) a(4) m(2)] by (simp add: grows_def)
qed

lemma grow_le: "grows F N f d \<Longrightarrow> grow F f limit n d \<in> N \<and> fl_le F d (grow F f limit n d)"
proof (induction n arbitrary: d)
  case 0
  then show ?case using grows_refl [OF 0] by (simp add: grows_def)
next
  case (Suc n)
  have a: "float_laws F N" "d \<in> N" using Suc.prems by (simp_all add: grows_def)
  note step = grows_step [OF Suc.prems]
  then have "grow F f limit n (fl_mul F d f) \<in> N" "fl_le F d (grow F f limit n (fl_mul F d f))"
    using Suc.IH [of "fl_mul F d f"] fl_le_trans [OF a] by (auto simp: grows_def)
  then show ?case using a fl_le_refl [OF a a(2)] by simp
qed

lemma grow_Suc: "grows F N f d \<Longrightarrow> fl_le F (grow F f limit n d) (grow F f limit (Suc n) d)"
proof (induction n arbitrary: d)
  case 0
  then show ?case using grows_step [OF 0] grows_refl [OF 0] by auto
next
  case (Suc n)
  note a = grows_refl [OF Suc.prems]
  have "fl_le F (grow F f limit n (fl_mul F d f)) (grow F f limit (Suc n) (fl_mul F d f))"
    using Suc.IH grows_step [OF Suc.prems] by blast
  then show ?case using a
    by (cases "fl_lt F d limit")
      (simp_all del: grow.simps(2) add: grow.simps(2) [of F f limit "Suc n" d] grow.simps(2) [of F f limit n d])
qed

lemma nominal_curve:
  "nominal_delay F attempt base factor ceiling = fl_trunc F (capped F ceiling (curve F base factor ceiling (nat (attempt - 1))))"
  by (simp add: nominal_delay_def curve_def capped_def Let_def)

text \<open>A policy that was resolved, below the range in which integers are exact.\<close>

definition policy_ok :: "'f floats \<Rightarrow> 'f set \<Rightarrow> int \<Rightarrow> 'f \<Rightarrow> int \<Rightarrow> bool" where
  "policy_ok F N base factor ceiling \<longleftrightarrow>
     float_laws F N \<and> factor \<in> N \<and> 0 < base \<and> base \<le> ceiling \<and> ceiling \<le> 2 ^ 53"

lemma policy_grows:
  "policy_ok F N base factor ceiling \<Longrightarrow> fl_lt F (fl_of_int F 1) factor \<Longrightarrow> grows F N factor (fl_of_int F base)"
  using of_int_lt [of F N 0 base] by (auto simp: policy_ok_def grows_def of_int_N)

lemma curve_facts:
  assumes "policy_ok F N base factor ceiling"
  shows "curve F base factor ceiling n \<in> N" "fl_le F (fl_of_int F base) (curve F base factor ceiling n)"
    "fl_le F (curve F base factor ceiling n) (curve F base factor ceiling (Suc n))"
proof -
  have a: "float_laws F N" using assms by (simp add: policy_ok_def)
  have r: "fl_le F (fl_of_int F base) (fl_of_int F base)" using fl_le_refl [OF a of_int_N [OF a] of_int_N [OF a]] .
  show "curve F base factor ceiling n \<in> N" "fl_le F (fl_of_int F base) (curve F base factor ceiling n)"
    using grow_le [OF policy_grows [OF assms]] of_int_N [OF a] r by (simp_all add: curve_def)
  show "fl_le F (curve F base factor ceiling n) (curve F base factor ceiling (Suc n))"
    using grow_Suc [OF policy_grows [OF assms]] r by (simp add: curve_def del: grow.simps)
qed

lemma capped_facts:
  assumes "float_laws F N" "d \<in> N"
  shows "capped F ceiling d \<in> N" "fl_le F (capped F ceiling d) (fl_of_int F ceiling)"
  using assms of_int_N [OF assms(1)] lt_le [OF assms of_int_N] fl_le_refl [OF assms(1) of_int_N of_int_N]
  by (auto simp: capped_def)

lemma capped_mono:
  assumes "float_laws F N" "a \<in> N" "b \<in> N" "fl_le F a b"
  shows "fl_le F (capped F ceiling a) (capped F ceiling b)"
proof (cases "fl_lt F b (fl_of_int F ceiling)")
  case True
  then have "fl_lt F a (fl_of_int F ceiling)" using fl_le_trans [OF assms(1) of_int_N assms(2,3)] assms(1,4) by blast
  then show ?thesis using True assms(4) by (simp add: capped_def)
next
  case False
  then show ?thesis using capped_facts(2) [OF assms(1,2)] by (simp add: capped_def)
qed

lemma nominal_bounds:
  assumes "policy_ok F N base factor ceiling"
  shows "base \<le> nominal_delay F attempt base factor ceiling" "nominal_delay F attempt base factor ceiling \<le> ceiling"
proof -
  let ?c = "curve F base factor ceiling (nat (attempt - 1))"
  have a: "float_laws F N" "0 < base" "base \<le> ceiling" "ceiling \<le> 2 ^ 53" using assms by (simp_all add: policy_ok_def)
  note c = curve_facts [OF assms, of "nat (attempt - 1)"]
  note N = of_int_N [OF a(1)]
  have "fl_le F (fl_of_int F base) (capped F ceiling (fl_of_int F base))"
    using of_int_le [OF a(1,3)] fl_le_refl [OF a(1) N N] by (simp add: capped_def)
  then have low: "fl_le F (fl_of_int F base) (capped F ceiling ?c)"
    using capped_mono [OF a(1) N c(1,2)]
      fl_le_trans [OF a(1) N capped_facts(1) [OF a(1) N] capped_facts(1) [OF a(1) c(1)]] by blast
  have "fl_trunc F (fl_of_int F base) \<le> fl_trunc F (capped F ceiling ?c)"
    "fl_trunc F (capped F ceiling ?c) \<le> fl_trunc F (fl_of_int F ceiling)"
    using trunc_mono [OF a(1) N capped_facts(1) [OF a(1) c(1)] low]
      trunc_mono [OF a(1) capped_facts(1) [OF a(1) c(1)] N capped_facts(2) [OF a(1) c(1)]] .
  then show "base \<le> nominal_delay F attempt base factor ceiling" "nominal_delay F attempt base factor ceiling \<le> ceiling"
    using exact [OF a(1), of base] exact [OF a(1), of ceiling] a by (simp_all add: nominal_curve)
qed

lemma nominal_mono:
  assumes "policy_ok F N base factor ceiling" "1 \<le> attempt"
  shows "nominal_delay F attempt base factor ceiling \<le> nominal_delay F (attempt + 1) base factor ceiling"
proof -
  have n: "nat (attempt + 1 - 1) = Suc (nat (attempt - 1))" using assms(2) by simp
  have a: "float_laws F N" using assms(1) by (simp add: policy_ok_def)
  note c = curve_facts [OF assms(1)]
  show ?thesis unfolding nominal_curve n
    using trunc_mono [OF a capped_facts(1) [OF a c(1)] capped_facts(1) [OF a c(1)] capped_mono [OF a c(1,1,3)]] .
qed

lemma nominal_first:
  assumes "policy_ok F N base factor ceiling"
  shows "nominal_delay F 1 base factor ceiling = base"
proof -
  have a: "float_laws F N" "0 < base" "base \<le> ceiling" "ceiling \<le> 2 ^ 53" using assms by (simp_all add: policy_ok_def)
  show ?thesis
  proof (cases "base = ceiling")
    case False
    then have "fl_lt F (fl_of_int F base) (fl_of_int F ceiling)" using of_int_lt [OF a(1), of base ceiling] a by simp
    then show ?thesis using a exact [OF a(1), of base] by (simp add: nominal_delay_def Let_def)
  qed (use a exact [OF a(1), of base] fl_le_refl [OF a(1) of_int_N of_int_N] in \<open>simp add: nominal_delay_def Let_def\<close>)
qed

lemma number_resolve_N:
  fixes eval :: "string \<Rightarrow> ('e, jval) result" and F :: "'f floats"
  assumes "float_laws F N" "rn_n v \<in> N" "number_resolve F eval v = Inr (x, b)"
  shows "x \<in> N"
proof (cases "rn_expr v = []")
  case False
  then obtain out where "eval (rn_expr v) = Inr out" "(retryFloat F out :: ('e retry_error, 'f) result) = Inr x"
    using assms(3) by (auto simp: number_resolve_def rbind_Inr split: sum.splits)
  then show ?thesis using assms(1) by (cases out) (auto simp: parse_N of_int_N split: option.splits)
qed (use assms in \<open>simp add: number_resolve_def\<close>)

lemma Resolve_factor_N:
  "float_laws F N \<Longrightarrow> rn_n (rt_Factor r) \<in> N \<Longrightarrow> Resolve F eval r = Inr p \<Longrightarrow> rr_Factor p \<in> N"
  by (auto simp: Resolve_def rbind_Inr resolve_factor_def of_int_N split: if_splits intro: number_resolve_N)

lemma backoff_half:
  assumes "0 \<le> nominal_delay F attempt base factor ceiling"
  shows "nominal_delay F attempt base factor ceiling div 2 \<le> backoff F draw attempt base factor ceiling \<and>
    backoff F draw attempt base factor ceiling \<le> nominal_delay F attempt base factor ceiling"
proof -
  let ?n = "nominal_delay F attempt base factor ceiling"
  have "0 \<le> Int64N draw (?n div 2 + 1)" "Int64N draw (?n div 2 + 1) < ?n div 2 + 1"
    unfolding Int64N_def using assms by (intro pos_mod_sign pos_mod_bound; simp)+
  then show ?thesis by (simp add: backoff_def Let_def)
qed


text \<open>A number format of whole numbers, and the policy \<open>{retries: 3, delay: 10s}\<close> on it.\<close>

definition whole_floats :: "int floats" where
  "whole_floats = \<lparr>fl_of_int = id, fl_parse = parse_int64, fl_mul = (*), fl_eq = (=), fl_lt = (<), fl_trunc = id\<rparr>"

lemma whole_float_laws: "float_laws whole_floats UNIV"
  by (auto simp: float_laws_def whole_floats_def)

definition sample_retry :: "int retry" where
  "sample_retry = \<lparr>rt_Retries = \<lparr>rn_n = 3, rn_expr = []\<rparr>, rt_Delay = \<lparr>rd_set = True, rd_d = 10 * Second, rd_expr = []\<rparr>,
     rt_Factor = \<lparr>rn_n = 0, rn_expr = []\<rparr>, rt_MaxDelay = \<lparr>rd_set = False, rd_d = 0, rd_expr = []\<rparr>\<rparr>"

definition sample_policy :: "int resolved_retry" where
  "sample_policy = \<lparr>rr_Retries = 3, rr_Base = 10 * Second, rr_Factor = 2, rr_Ceiling = 5 * Minute\<rparr>"

lemma sample_resolves: "Resolve whole_floats (\<lambda>_. Inl ()) sample_retry = Inr sample_policy"
  by code_simp


end
