(* ===== verification/Transport.thy ===== *)
theory Transport
  imports Json Instance_Model
begin

text \<open>
  One HTTP call of a fetch (\<open>internal/transport\<close>): the request it makes, the classification of what
  came back, and the mark that tells a call the remote cannot have seen from one it may have seen.

  \<open>net/http\<close>, the network and the streaming JSON decoder are the parameter \<open>net\<close>. A failed \<open>Do\<close> says
  whether its error is a deadline or a cancel, and whether a connection was acquired before it (the
  \<open>httptrace\<close> hooks); a body comes with the bytes the size limit lets through.
\<close>

type_synonym headers = "(string \<times> string) list"

record request =
  rq_Method :: string
  rq_URL :: string
  rq_Header :: headers
  rq_Body :: "string option"

record http_answer =
  ha_StatusCode :: int
  ha_Header :: "(string \<times> string list) list"
  ha_Body :: string

datatype do_result = DoFailed (df_deadline: bool) (df_mayHaveSent: bool) | DoAnswered http_answer

datatype decoded = DecodedEOF | DecodedBad | DecodedValue jval

record net =
  NewRequestOk :: "string \<Rightarrow> string \<Rightarrow> bool"
  Do :: "request \<Rightarrow> do_result"
  json_decode :: "string \<Rightarrow> decoded"
  decoder_drains :: "string \<Rightarrow> bool"

definition MaxResponseBytes :: nat where "MaxResponseBytes = 8 * 2 ^ 20"
definition errorMessageBytes :: nat where "errorMessageBytes = 512"

record response =
  rs_Body :: jval
  rs_Headers :: headers
  rs_BodyCode :: code
  rs_ErrorCode :: code
  rs_ErrorMessage :: string
  rs_Status :: int

datatype send_cause = UnknownCallType | EmptyMethod | BodyNotMarshalled | RequestNotBuilt | DoError bool

text \<open>An error of \<open>Send\<close>, with whether it carries the mark \<open>notSent\<close>.\<close>

record send_error =
  se_cause :: send_cause
  se_notSent :: bool

subsection \<open>Pieces\<close>

definition upper :: "string \<Rightarrow> string" where
  "upper = map (\<lambda>c. if CHR ''a'' \<le> c \<and> c \<le> CHR ''z'' then char_of ((of_char c :: nat) - 32) else c)"

definition lower :: "string \<Rightarrow> string" where
  "lower = map (\<lambda>c. if CHR ''A'' \<le> c \<and> c \<le> CHR ''Z'' then char_of ((of_char c :: nat) + 32) else c)"

definition methodAllowsBody :: "string \<Rightarrow> bool" where
  "methodAllowsBody method = (upper method \<noteq> ''GET'' \<and> upper method \<noteq> ''HEAD'')"

fun comma_join :: "string list \<Rightarrow> string" where
  "comma_join [] = []"
| "comma_join [x] = x"
| "comma_join (x # xs) = x @ '', '' @ comma_join xs"

definition responseHeaders :: "(string \<times> string list) list \<Rightarrow> headers" where
  "responseHeaders h = fold (\<lambda>(k, vs). obj_put (lower k) (comma_join vs)) h []"

definition decodeBytes :: "net \<Rightarrow> string \<Rightarrow> jval \<times> code" where
  "decodeBytes N raw =
     (if length raw > MaxResponseBytes then (JNull, ResultTooLarge)
      else if trim_space raw = [] then (JNull, [])
      else (case json_decode N raw of
              DecodedValue v \<Rightarrow> (v, [])
            | _ \<Rightarrow> (JNull, ResultParse)))"

text \<open>
  \<open>http.Header.Set\<close> stores under the canonical form of the name: each word of it starts upper case and
  goes on lower case, unless the name has a byte no header name may have.
\<close>

definition header_byte :: "char \<Rightarrow> bool" where
  "header_byte c \<longleftrightarrow> is_digit c \<or> CHR ''a'' \<le> c \<and> c \<le> CHR ''z'' \<or> CHR ''A'' \<le> c \<and> c \<le> CHR ''Z'' \<or>
     c \<in> set ''!#$%&*+-.^_|~'' \<or> c = CHR 0x27 \<or> c = CHR 0x60"

fun canonical_words :: "bool \<Rightarrow> string \<Rightarrow> string" where
  "canonical_words up [] = []"
| "canonical_words up (c # cs) = (if up then upper [c] else lower [c]) @ canonical_words (c = CHR ''-'') cs"

definition CanonicalHeaderKey :: "string \<Rightarrow> string" where
  "CanonicalHeaderKey k = (if list_all header_byte k then canonical_words True k else k)"

text \<open>
  The loop over the header map. Go ranges over it in no fixed order, so the order of \<open>headers\<close> is one of
  the possible ones.
\<close>

definition setHeaders :: "headers \<Rightarrow> headers \<Rightarrow> headers" where
  "setHeaders headers h = fold (\<lambda>(k, v). obj_put (CanonicalHeaderKey k) v) headers h"

definition body_reader :: "string \<Rightarrow> jval \<Rightarrow> (send_cause, string option \<times> bool) result" where
  "body_reader method body =
     (if body = JNull \<or> \<not> methodAllowsBody method then Inr (None, False)
      else (case body of
              JStr b \<Rightarrow> Inr (Some b, False)
            | _ \<Rightarrow> (case Marshal body of None \<Rightarrow> Inl BodyNotMarshalled | Some raw \<Rightarrow> Inr (Some raw, True))))"

definition buildRequest :: "net \<Rightarrow> string \<Rightarrow> string \<Rightarrow> headers \<Rightarrow> jval \<Rightarrow> (send_cause, request) result" where
  "buildRequest N url method headers body =
     (if method = [] then Inl EmptyMethod
      else (case body_reader method body of
              Inl e \<Rightarrow> Inl e
            | Inr (b, jsonBody) \<Rightarrow>
                if \<not> NewRequestOk N method url then Inl RequestNotBuilt
                else Inr \<lparr>rq_Method = method, rq_URL = url,
                          rq_Header = setHeaders headers (if jsonBody then [(''Content-Type'', ''application/json'')] else []),
                          rq_Body = b\<rparr>))"

definition unaccepted :: "net \<Rightarrow> http_answer \<Rightarrow> response" where
  "unaccepted N a =
     (let raw = take (MaxResponseBytes + 1) (ha_Body a);
          msg = take errorMessageBytes (trim_space raw);
          msg = (if msg = [] then ''request failed with status '' @ itoa (ha_StatusCode a) @ '' without response body'' else msg)
      in case decodeBytes N raw of (body, c) \<Rightarrow>
         \<lparr>rs_Body = body, rs_Headers = responseHeaders (ha_Header a), rs_BodyCode = c,
          rs_ErrorCode = HTTP (ha_StatusCode a), rs_ErrorMessage = msg, rs_Status = ha_StatusCode a\<rparr>)"

definition accepted :: "net \<Rightarrow> http_answer \<Rightarrow> response" where
  "accepted N a =
     (let limited = take (MaxResponseBytes + 1) (ha_Body a);
          r = \<lparr>rs_Body = JNull, rs_Headers = responseHeaders (ha_Header a), rs_BodyCode = [], rs_ErrorCode = [],
               rs_ErrorMessage = [], rs_Status = ha_StatusCode a\<rparr>
      in if length limited = MaxResponseBytes + 1 \<and> decoder_drains N limited then
           r\<lparr>rs_BodyCode := ResultTooLarge,
             rs_ErrorMessage := ''response body exceeds the '' @ itoa (int MaxResponseBytes) @ ''-byte limit a fetch will read''\<rparr>
         else (case json_decode N limited of
                 DecodedEOF \<Rightarrow> r
               | DecodedBad \<Rightarrow> r\<lparr>rs_BodyCode := ResultParse\<rparr>
               | DecodedValue v \<Rightarrow> r\<lparr>rs_Body := v\<rparr>))"

subsection \<open>The call\<close>

text \<open>The result of \<open>doHTTP\<close> and what the trace saw: whether a connection was acquired.\<close>

definition doHTTP :: "net \<Rightarrow> string \<Rightarrow> string \<Rightarrow> string list \<Rightarrow> headers \<Rightarrow> jval
    \<Rightarrow> (send_cause, response) result \<times> bool" where
  "doHTTP N url method acceptedStatus headers body =
     (case buildRequest N url method headers body of
        Inl e \<Rightarrow> (Inl e, False)
      | Inr req \<Rightarrow>
          (case Do N req of
             DoFailed deadline mayHaveSent \<Rightarrow> (Inl (DoError deadline), mayHaveSent)
           | DoAnswered a \<Rightarrow>
               (Inr (if \<not> MatchAnyStatus (ha_StatusCode a) acceptedStatus then unaccepted N a else accepted N a), True)))"

definition sendHTTP :: "net \<Rightarrow> string \<Rightarrow> string \<Rightarrow> string list \<Rightarrow> headers \<Rightarrow> jval
    \<Rightarrow> (send_error, response) result \<times> bool" where
  "sendHTTP N url method acceptedStatus headers body =
     (case doHTTP N url method acceptedStatus headers body of
        (Inr resp, sent) \<Rightarrow> (Inr resp, sent)
      | (Inl e, mayHaveSent) \<Rightarrow> (Inl \<lparr>se_cause = e, se_notSent = (\<not> mayHaveSent)\<rparr>, mayHaveSent))"

definition ClassifyGoError :: "send_error \<Rightarrow> code" where
  "ClassifyGoError e =
     (let sent = (\<not> se_notSent e) in
      if se_cause e = DoError True then (if sent then HTTPTimeout else PreTimeout)
      else if sent then HTTPDisconnected else PreError)"

subsection \<open>The mark is evidence\<close>

lemma IsNotReached_codes [simp]:
  "IsNotReached PreTimeout" "IsNotReached PreError" "\<not> IsNotReached HTTPTimeout" "\<not> IsNotReached HTTPDisconnected"
  "\<not> IsNotReached ResultTooLarge" "\<not> IsNotReached ResultParse" "\<not> IsNotReached ResultInvalid"
  "\<not> IsNotReached OnlyOnceInterrupted" "\<not> IsNotReached ExternalTimeout" "\<not> IsNotReached ExternalLost"
  by code_simp+

lemma IsUnknowable_codes [simp]:
  "IsUnknowable HTTPTimeout" "IsUnknowable HTTPDisconnected" "IsUnknowable OnlyOnceInterrupted"
  "IsUnknowable ExternalTimeout" "IsUnknowable ExternalLost"
  by code_simp+

lemma classified: "IsNotReached (ClassifyGoError e) = se_notSent e" "IsUnknowable (ClassifyGoError e) = (\<not> se_notSent e)"
proof -
  have u: "\<not> IsUnknowable PreTimeout" "\<not> IsUnknowable PreError" by code_simp+
  show "IsNotReached (ClassifyGoError e) = se_notSent e" "IsUnknowable (ClassifyGoError e) = (\<not> se_notSent e)"
    by (simp_all add: ClassifyGoError_def Let_def u)
qed

lemma sendHTTP_cases:
  obtains resp where "sendHTTP N url method st headers body = (Inr resp, True)"
  | e where "sendHTTP N url method st headers body = (Inl e, False)" "se_notSent e"
  | e where "sendHTTP N url method st headers body = (Inl e, True)" "\<not> se_notSent e"
proof -
  obtain r m where d: "doHTTP N url method st headers body = (r, m)" by fastforce
  show thesis
  proof (cases r)
    case (Inl e)
    then show ?thesis using d that(2,3) by (cases m) (auto simp: sendHTTP_def)
  next
    case (Inr resp)
    then have "m" using d by (auto simp: doHTTP_def split: sum.splits if_splits do_result.splits)
    then show ?thesis using d Inr that(1) by (auto simp: sendHTTP_def)
  qed
qed


subsection \<open>The identity headers\<close>

definition HeaderInstanceID :: string where "HeaderInstanceID = ''X-Genroc-Instance-Id''"
definition HeaderTaskID :: string where "HeaderTaskID = ''X-Genroc-Task-Id''"

text \<open>
  The identity headers are stamped on every fetch so that a header of the definition cannot stand in
  for them, which holds for the exact spelling only. A definition that spells the name in lower case
  puts a second key into the map; both have one canonical form, the loop over the map has no order, and
  when it takes the definition's key last the request carries the definition's value.
\<close>

theorem identity_header_can_be_spoofed:
  "\<exists>order. set order = {(HeaderInstanceID, own), (''x-genroc-instance-id'', forged)} \<and>
     map_of (setHeaders order []) HeaderInstanceID = Some forged"
proof (intro exI conjI)
  have c: "CanonicalHeaderKey HeaderInstanceID = HeaderInstanceID" "CanonicalHeaderKey ''x-genroc-instance-id'' = HeaderInstanceID"
    by code_simp+
  show "map_of (setHeaders [(HeaderInstanceID, own), (''x-genroc-instance-id'', forged)] []) HeaderInstanceID = Some forged"
    unfolding setHeaders_def by (simp add: c)
qed simp

end
