(* ===== verification/Engine_Defs.thy ===== *)
theory Engine_Defs
  imports Retry_Policy Transport Responses Lazy_Shapes State_Codec Spawn
begin

text \<open>
  What the engine works on: definitions as \<open>internal/model\<close> has them, the instance in memory, and the
  parameters that stand for what one advance reads from outside.
\<close>

subsection \<open>Definitions (model/definition.go, model/wire.go)\<close>

text \<open>
  A \<open>*Shape\<close> is its raw value, \<open>JNull\<close> when the slot is absent. A schema is of a type \<open>'sc\<close> of its own: the
  engine only hands it to \<open>Validate\<close>.
\<close>

record fault =
  f_Code :: string
  f_Message :: string
  f_Data :: jval

record switch_case =
  sc_Case :: string
  sc_Goto :: string
  sc_Raise :: "fault option"
  sc_Panic :: "fault option"

record 'f error_case =
  ec_Code :: "string list"
  ec_Case :: string
  ec_Retry :: "'f retry"
  ec_Goto :: string
  ec_Raise :: "fault option"
  ec_Panic :: "fault option"
  ec_NotReached :: "bool option"

record delay_spec =
  ds_For :: jval
  ds_Until :: jval
  ds_TZ :: string

datatype action_type =
    ActionTypeFetch | ActionTypeChild | ActionTypeChildMap | ActionTypeChildList | ActionTypeDelay
  | ActionTypeExternal | ActionTypeOther string

record 'sc child_entry =
  ce_Name :: string
  ce_Version :: int
  ce_Input :: jval
  ce_InputSchema :: "'sc option"
  ce_ResultSchema :: "'sc option"
  ce_Raises :: "(string \<times> 'sc option) list"

record 'sc action =
  ac_Type :: action_type
  ac_URL :: string
  ac_Method :: string
  ac_Headers :: jval
  ac_Query :: jval
  ac_AcceptedStatus :: jval
  ac_Responses :: "'sc responses"
  ac_ResultSchema :: "'sc option"
  ac_Raises :: "(string \<times> 'sc option) list"
  ac_Name :: string
  ac_Version :: int
  ac_Body :: jval
  ac_Input :: jval
  ac_BodySchema :: "'sc option"
  ac_QuerySchema :: "'sc option"
  ac_InputSchema :: "'sc option"
  ac_Children :: "(string \<times> 'sc child_entry) list"
  ac_Over :: string
  ac_Timeout :: delay_spec
  ac_Delay :: delay_spec

record ('sc, 'f) task =
  tk_ID :: string
  tk_Action :: "'sc action option"
  tk_OnlyOnce :: "bool option"
  tk_OnError :: "'f error_case list"
  tk_Output :: jval
  tk_OutputSchema :: "'sc option"
  tk_Switch :: "switch_case list"

record ('sc, 'f) process_definition =
  pd_Name :: string
  pd_Tasks :: "('sc, 'f) task list"
  pd_InputSchema :: "'sc option"
  pd_ConfigSchema :: "'sc option"
  pd_Output :: jval
  pd_OutputSchema :: "'sc option"

definition GotoEnd :: string where "GotoEnd = ''end''"
definition GotoNext :: string where "GotoNext = ''next''"

definition Present :: "jval \<Rightarrow> bool" where
  "Present v \<longleftrightarrow> v \<noteq> JNull"

definition timeout_IsZero :: "delay_spec \<Rightarrow> bool" where
  "timeout_IsZero t \<longleftrightarrow> ds_For t = JNull \<and> ds_Until t = JNull \<and> ds_TZ t = []"

definition OnlyOnceAction :: "('sc, 'f) task \<Rightarrow> bool" where
  "OnlyOnceAction t \<longleftrightarrow> tk_Action t \<noteq> None \<and> tk_OnlyOnce t = Some True"

subsection \<open>The instance in memory (model/instance.go)\<close>

text \<open>
  The database's view of an instance, extended by what only the engine reads. \<open>e_State\<close> holds the value
  slots and \<open>e_Engine\<close> the bookkeeping keys of the Go map \<open>State\<close>. The cache of loaded objects is left
  out: an evaluation starts from an empty one, which changes no result (\<open>computes\<close> of \<open>Context_Read\<close>).
  Two fields record what an advance does to the world: \<open>e_trail\<close> the audit events, by event, task and
  code, and \<open>e_reached\<close> the tasks whose request acquired a connection.
\<close>

datatype engine_event =
    EventWorkStarted | EventActionStarted | EventActionSucceeded | EventActionFailed | EventTaskCompleted
  | EventRetryScheduled | EventErrorRoute | EventErrorCompleted | EventInstanceDone | EventInstanceRaised
  | EventInstanceFailed | EventFaultMessage | EventWorkerPaused | EventWorkerCancelled | EventChildrenSpawned
  | EventChildrenCollect | EventDelayArmed | EventExternalArmed | EventExternalResolved | EventExternalTimeout
  | EventExternalFailed | EventExternalLost | EventLeaseLost | EventAbandoned | EventInstanceCreated

record einst = inst +
  e_State :: state
  e_Engine :: engine_state
  e_Config :: jval
  e_ExternalLost :: bool
  e_UpdatedAt :: int
  e_trail :: "(engine_event \<times> string \<times> code) list"
  e_reached :: "string list"

definition StateError :: string where "StateError = ''error''"
definition StateLastError :: string where "StateLastError = ''last_error''"
definition StateErrorData :: string where "StateErrorData = ''_error_data''"
definition StateExternalInput :: string where "StateExternalInput = ''external_input''"

definition audit :: "engine_event \<Rightarrow> string \<Rightarrow> code \<Rightarrow> einst \<Rightarrow> einst" where
  "audit ev task c i = i\<lparr>e_trail := e_trail i @ [(ev, task, c)]\<rparr>"

definition put_state :: "string \<Rightarrow> jval \<Rightarrow> einst \<Rightarrow> einst" where
  "put_state k v i = i\<lparr>e_State := obj_put k v (e_State i)\<rparr>"

definition del_state :: "string \<Rightarrow> einst \<Rightarrow> einst" where
  "del_state k i = i\<lparr>e_State := obj_del k (e_State i)\<rparr>"

subsection \<open>What one advance reads\<close>

text \<open>The submitted outcome of an external task (model/outcome.go).\<close>

record external_failure =
  xf_Code :: string
  xf_Message :: string
  xf_Data :: jval
  xf_HasData :: bool

datatype external_outcome = Result jval | Failure external_failure

text \<open>
  A definition is read at several places of one advance, and each read is tried three times: the site
  and the attempt are arguments of \<open>GetDefinition\<close>, so that a database that answers one and not another
  is among the models. \<open>Validate\<close>, \<open>Conform\<close>, \<open>ResolveConfig\<close>, \<open>ResolveChildVersion\<close> and the three functions
  of \<open>delayspec\<close> stand for code of their packages. The clock is read once for a delay, a timeout or an
  arming, and once more when a retry is scheduled. \<open>quote\<close> is \<open>%q\<close>, \<open>err_text\<close> and \<open>retry_text\<close> give an
  error's text.
\<close>

datatype site = AtPrepare | AtOutput | AtGoto | AtLookup | AtPersist | AtChild

record ('sc, 'd, 'p, 'f) engine =
  x_decimals :: "'d decimals"
  x_parse :: "'p parser"
  x_floats :: "'f floats"
  x_load :: loader
  x_net :: net
  GetDefinition :: "site \<Rightarrow> nat \<Rightarrow> string \<Rightarrow> int \<Rightarrow> (string, ('sc, 'f) process_definition) result"
  Validate :: "'sc \<Rightarrow> jval \<Rightarrow> (string, jval) result"
  Conform :: "'sc \<Rightarrow> jval \<Rightarrow> (string, jval) result"
  ResolveConfig :: "('sc, 'f) process_definition \<Rightarrow> (string, jval) result"
  ResolveChildVersion :: "string \<Rightarrow> int \<Rightarrow> string \<Rightarrow> string \<Rightarrow> int \<Rightarrow> string \<Rightarrow> (string, int) result"
  NextID :: "nat \<Rightarrow> string"
  ChildrenForTask :: "string \<Rightarrow> string \<Rightarrow> int \<Rightarrow> (string, einst list) result"
  PeekSignal :: "nat \<Rightarrow> string \<Rightarrow> string \<Rightarrow> (string, (string \<times> external_outcome) option) result"
  LoadLocation :: "string \<Rightarrow> (string, string) result"
  ParseDuration :: "string \<Rightarrow> (string, int \<Rightarrow> string \<Rightarrow> int) result"
  ParseInstant :: "string \<Rightarrow> (string, int \<Rightarrow> string \<Rightarrow> (string, int) result) result"
  x_now :: int
  x_now_retry :: int
  x_draw :: nat
  x_immediateRetries :: bool
  quote :: "string \<Rightarrow> string"
  err_text :: "'p slot_error \<Rightarrow> string"
  retry_text :: "string retry_error \<Rightarrow> string"
  sprint_ref :: "string \<Rightarrow> int \<Rightarrow> string"

definition readAttempts :: nat where "readAttempts = 3"

fun retry_from :: "nat \<Rightarrow> nat \<Rightarrow> (nat \<Rightarrow> ('e, 'a) result) \<Rightarrow> ('e, 'a) result" where
  "retry_from attempt 0 read = read attempt"
| "retry_from attempt (Suc n) read =
     (case read attempt of Inr v \<Rightarrow> Inr v | Inl _ \<Rightarrow> retry_from (Suc attempt) n read)"

definition retryRead :: "(nat \<Rightarrow> ('e, 'a) result) \<Rightarrow> ('e, 'a) result" where
  "retryRead read = retry_from 0 (readAttempts - 1) read"

definition definition_at :: "('sc, 'd, 'p, 'f) engine \<Rightarrow> site \<Rightarrow> einst \<Rightarrow> (string, ('sc, 'f) process_definition) result" where
  "definition_at X s i = retryRead (\<lambda>n. GetDefinition X s n (i_ProcessName i) (i_ProcessVersion i))"

definition evalSlot :: "('sc, 'd, 'p, 'f) engine \<Rightarrow> einst \<Rightarrow> shape \<Rightarrow> jval \<Rightarrow> (string, jval) result" where
  "evalSlot X i sh self =
     map_sum (err_text X) id (fst (evalShape (x_decimals X) (x_parse X) (x_load X) (JObj (e_State i)) (e_Config i)
       (i_Task i) sh self Map.empty))"

abbreviation evalRaw :: "('sc, 'd, 'p, 'f) engine \<Rightarrow> einst \<Rightarrow> jval \<Rightarrow> jval \<Rightarrow> (string, jval) result" where
  "evalRaw X i raw self \<equiv> evalSlot X i \<lparr>sh_Raw = raw, sh_Expr = False\<rparr> self"

text \<open>\<open>fmt.Sprint\<close> of a dynamic value; a map prints its keys in order.\<close>

fun spaced :: "string list \<Rightarrow> string" where
  "spaced [] = []"
| "spaced [x] = x"
| "spaced (x # xs) = x @ '' '' @ spaced xs"

fun Sprint :: "('sc, 'd, 'p, 'f) engine \<Rightarrow> jval \<Rightarrow> string" where
  "Sprint X JNull = ''<nil>''"
| "Sprint X (JBool b) = (if b then ''true'' else ''false'')"
| "Sprint X (JNumber s) = s"
| "Sprint X (JInt n) = itoa n"
| "Sprint X (JStr s) = s"
| "Sprint X (JArr xs) = ''['' @ spaced (map (Sprint X) xs) @ '']''"
| "Sprint X (JObj kvs) = ''map['' @ spaced (map (\<lambda>(k, v). k @ '':'' @ Sprint X v) kvs) @ '']''"
| "Sprint X (JRef h n) = sprint_ref X h n"

text \<open>\<open>%T\<close> of a dynamic value.\<close>

fun go_type :: "jval \<Rightarrow> string" where
  "go_type JNull = ''<nil>''"
| "go_type (JBool _) = ''bool''"
| "go_type (JNumber _) = ''json.Number''"
| "go_type (JInt _) = ''int''"
| "go_type (JStr _) = ''string''"
| "go_type (JArr _) = ''[]interface {}''"
| "go_type (JObj _) = ''map[string]interface {}''"
| "go_type (JRef _ _) = ''*model.ObjectRef''"

subsection \<open>Declared slots (engine/declared.go)\<close>

text \<open>An error, and whether it is \<open>errDeclaredViolation\<close>.\<close>

datatype slot_failure = Ordinary string | Violation string

fun failure_text :: "slot_failure \<Rightarrow> string" where
  "failure_text (Ordinary s) = s"
| "failure_text (Violation s) = s"

definition conformDeclared :: "('sc, 'd, 'p, 'f) engine \<Rightarrow> jval \<Rightarrow> 'sc option \<Rightarrow> string \<Rightarrow> (slot_failure, jval) result" where
  "conformDeclared X v decl what =
     (case decl of
        None \<Rightarrow> Inr v
      | Some sc \<Rightarrow>
          (case Conform X sc v of
             Inr out \<Rightarrow> Inr out
           | Inl e \<Rightarrow> Inl (Violation (what @ '': the value does not satisfy the schema declared for this slot: '' @ e @
               '' '' @ [CHR 0xE2, CHR 0x80, CHR 0x94] @ '' this is a defect in genroc'' @ [CHR 0x27] @ ''s type checking, which should have refused the definition at registration''))))"

fun declaredFailureCode :: "slot_failure \<Rightarrow> code \<Rightarrow> code \<Rightarrow> code" where
  "declaredFailureCode (Violation _) violation ordinary = violation"
| "declaredFailureCode (Ordinary _) violation ordinary = ordinary"

abbreviation plain :: "(string, 'a) result \<Rightarrow> (slot_failure, 'a) result" where
  "plain r \<equiv> map_sum Ordinary id r"

subsection \<open>Tasks of a definition\<close>

fun index_from :: "int \<Rightarrow> ('sc, 'f) task list \<Rightarrow> string \<Rightarrow> int" where
  "index_from n [] taskID = -1"
| "index_from n (t # ts) taskID = (if tk_ID t = taskID then n else index_from (n + 1) ts taskID)"

definition taskIndex :: "('sc, 'f) task list \<Rightarrow> string \<Rightarrow> int" where
  "taskIndex tasks taskID = (if taskID = [] then -1 else index_from 0 tasks taskID)"

definition taskIDAt :: "('sc, 'f) task list \<Rightarrow> int \<Rightarrow> string" where
  "taskIDAt tasks idx = (if idx < 0 \<or> int (length tasks) \<le> idx then [] else tk_ID (tasks ! nat idx))"

definition lookupTask :: "('sc, 'd, 'p, 'f) engine \<Rightarrow> site \<Rightarrow> einst \<Rightarrow> ('sc, 'f) task option" where
  "lookupTask X s i =
     (if i_Task i = [] then None
      else (case definition_at X s i of
              Inl _ \<Rightarrow> None
            | Inr def \<Rightarrow>
                (let idx = taskIndex (pd_Tasks def) (i_Task i) in
                 if idx < 0 then None else Some (pd_Tasks def ! nat idx))))"

text \<open>Every transition, a goto to itself included.\<close>

definition enterTask :: "string \<Rightarrow> einst \<Rightarrow> einst" where
  "enterTask taskID i = i\<lparr>i_Task := taskID, i_TaskEpoch := i_TaskEpoch i + 1\<rparr>"

definition interruptedOnlyOnce :: "('sc, 'f) task option \<Rightarrow> bool" where
  "interruptedOnlyOnce task = (case task of None \<Rightarrow> False | Some t \<Rightarrow> OnlyOnceAction t)"

subsection \<open>How a step ends\<close>

record external_arm =
  ar_taskID :: string
  ar_input :: jval
  ar_wakeAt :: "int option"

datatype advance_outcome =
    OutcomeProgress
  | OutcomeUpdate
  | OutcomeTerminal
  | OutcomeSpawn "einst list"
  | OutcomeArm external_arm
  | OutcomeRespawn "string list" "einst list"

text \<open>Within a task: go on with a value, stop with an outcome, or a Go panic.\<close>

datatype 'a task_verdict = Continue 'a | Stop advance_outcome | Panics

end
