(* ===== verification/Engine_Errors.thy ===== *)
theory Engine_Errors
  imports Engine_Defs
begin

text \<open>
  How an instance concludes or carries on after an error (\<open>engine/error.go\<close>): the rule that catches it,
  the retry it may grant, and the ends \<open>raise\<close>, \<open>panic\<close>, \<open>goto\<close> and \<open>failed\<close>.
\<close>

subsection \<open>Ends\<close>

definition failInstance :: "code \<Rightarrow> string \<Rightarrow> einst \<Rightarrow> einst" where
  "failInstance c reason i =
     audit EventInstanceFailed [] c
       (i\<lparr>i_Status := StatusFailed, i_Phase := PhaseNone, i_ErrorMessage := reason, i_ErrorCode := c, i_WakeAt := None\<rparr>)"

definition setErrorData :: "jval \<Rightarrow> einst \<Rightarrow> einst" where
  "setErrorData data i = (if data = JNull then del_state StateErrorData i else put_state StateErrorData data i)"

text \<open>\<open>outputs\<close> of the state when it is a map.\<close>

definition outputs_of :: "einst \<Rightarrow> (string \<times> jval) list" where
  "outputs_of i = (case map_of (e_State i) ''outputs'' of Some (JObj outs) \<Rightarrow> outs | _ \<Rightarrow> [])"

definition previous_output :: "string \<Rightarrow> einst \<Rightarrow> jval" where
  "previous_output task i = (case map_of (outputs_of i) task of None \<Rightarrow> JNull | Some v \<Rightarrow> v)"

definition selfBeforeOutput :: "einst \<Rightarrow> jval" where
  "selfBeforeOutput i = JObj [(''previous'', previous_output (i_Task i) i)]"

definition evalFaultData :: "('sc, 'd, 'p, 'f) engine \<Rightarrow> einst \<Rightarrow> fault \<Rightarrow> jval \<Rightarrow> (string, jval) result" where
  "evalFaultData X i f self = (if \<not> Present (f_Data f) then Inr JNull else evalRaw X i (f_Data f) self)"

definition faultMessage :: "('sc, 'd, 'p, 'f) engine \<Rightarrow> fault \<Rightarrow> jval \<Rightarrow> einst \<Rightarrow> string \<times> einst" where
  "faultMessage X f self i =
     (case evalRaw X i (JStr (f_Message f)) self of
        Inl e \<Rightarrow> (f_Message f, audit EventFaultMessage (i_Task i) [] i)
      | Inr (JStr s) \<Rightarrow> (s, i)
      | Inr v \<Rightarrow> (Sprint X v, audit EventFaultMessage (i_Task i) [] i))"

definition raiseInstance :: "('sc, 'd, 'p, 'f) engine \<Rightarrow> ('sc, 'f) task \<Rightarrow> fault \<Rightarrow> jval \<Rightarrow> einst \<Rightarrow> einst" where
  "raiseInstance X t f self i =
     (case evalFaultData X i f self of
        Inl e \<Rightarrow> failInstance EngineExpression (''task '' @ quote X (tk_ID t) @ '' raise data: '' @ e) i
      | Inr data \<Rightarrow>
          (case faultMessage X f self i of (msg, i) \<Rightarrow>
             setErrorData data (audit EventInstanceRaised (tk_ID t) (f_Code f)
               (i\<lparr>i_Status := StatusRaised, i_Phase := PhaseNone, i_ErrorMessage := msg, i_ErrorCode := f_Code f,
                  i_WakeAt := None\<rparr>))))"

definition panicInstance :: "('sc, 'd, 'p, 'f) engine \<Rightarrow> ('sc, 'f) task \<Rightarrow> fault \<Rightarrow> jval \<Rightarrow> einst \<Rightarrow> einst" where
  "panicInstance X t f self i =
     (case evalFaultData X i f self of
        Inl e \<Rightarrow> failInstance EngineExpression (''task '' @ quote X (tk_ID t) @ '' panic data: '' @ e) i
      | Inr data \<Rightarrow>
          (case faultMessage X f self i of (msg, i) \<Rightarrow> setErrorData data (failInstance (f_Code f) msg i)))"

text \<open>\<open>computeOutput\<close> of engine/advance.go: the process output, or why there is none.\<close>

definition computeOutput :: "('sc, 'd, 'p, 'f) engine \<Rightarrow> einst \<Rightarrow> (slot_failure, einst) result" where
  "computeOutput X i =
     (case definition_at X AtOutput i of
        Inl e \<Rightarrow> Inl (Ordinary (''load definition for output: '' @ e))
      | Inr def \<Rightarrow>
          if \<not> Present (pd_Output def) then Inr i
          else (case evalRaw X i (pd_Output def) JNull of
                  Inl e \<Rightarrow> Inl (Ordinary (''output: '' @ e))
                | Inr out \<Rightarrow>
                    (case conformDeclared X out (pd_OutputSchema def) ''output'' of
                       Inl e \<Rightarrow> Inl e
                     | Inr out \<Rightarrow> Inr (put_state ''output'' out i))))"

text \<open>The tail every completing path shares.\<close>

definition complete :: "('sc, 'd, 'p, 'f) engine \<Rightarrow> engine_event \<Rightarrow> string \<Rightarrow> code \<Rightarrow> einst \<Rightarrow> einst" where
  "complete X ev task c i =
     (case computeOutput X i of
        Inl e \<Rightarrow> failInstance (declaredFailureCode e EngineOutput EngineExpression) (failure_text e) i
      | Inr i \<Rightarrow> audit ev task c i)"

definition completeViaErrorHandler :: "('sc, 'd, 'p, 'f) engine \<Rightarrow> ('sc, 'f) task \<Rightarrow> code \<Rightarrow> einst \<Rightarrow> einst" where
  "completeViaErrorHandler X t c i =
     complete X EventErrorCompleted (tk_ID t) c (i\<lparr>i_Status := StatusCompleted, i_RetryCount := 0, i_WakeAt := None\<rparr>)"

definition settlePausing :: "einst \<Rightarrow> einst" where
  "settlePausing i = audit EventWorkerPaused (i_Task i) [] (i\<lparr>i_Status := StatusPaused\<rparr>)"

definition settleCancelling :: "einst \<Rightarrow> einst" where
  "settleCancelling i = audit EventWorkerCancelled (i_Task i) [] (i\<lparr>i_Status := StatusCancelled\<rparr>)"

subsection \<open>Rules\<close>

definition isRetryAllowed :: "('sc, 'f) task \<Rightarrow> code \<Rightarrow> 'f error_case option \<Rightarrow> bool" where
  "isRetryAllowed t errCode matched =
     (if tk_OnlyOnce t \<noteq> Some True then True
      else if IsUnknowable errCode then False
      else if (case matched of Some c \<Rightarrow> ec_NotReached c = Some True | None \<Rightarrow> False) then True
      else IsNotReached errCode)"

fun match_rules :: "code \<Rightarrow> (string \<Rightarrow> (string, bool) result) \<Rightarrow> 'f error_case list \<Rightarrow> (string, 'f error_case option) result" where
  "match_rules errCode eval [] = Inr None"
| "match_rules errCode eval (c # cs) =
     (if \<not> (ec_Code c = [] \<or> list_ex (\<lambda>pat. MatchCode pat errCode) (ec_Code c)) then match_rules errCode eval cs
      else if ec_Case c = [] then Inr (Some c)
      else (case eval (ec_Case c) of
              Inl e \<Rightarrow> Inl e
            | Inr b \<Rightarrow> if b then Inr (Some c) else match_rules errCode eval cs))"

text \<open>\<open>matchOnErrorWith\<close>; the engine never passes it a nil evaluator.\<close>

definition matchOnErrorWith :: "('sc, 'f) task \<Rightarrow> code \<Rightarrow> (string \<Rightarrow> (string, bool) result) \<Rightarrow> (string, 'f error_case option) result" where
  "matchOnErrorWith t errCode eval = match_rules errCode eval (tk_OnError t)"

text \<open>
  \<open>bindCaught\<close>: the instance with \<open>error\<close> bound, and the one with the binding that was there before
  restored.
\<close>

definition bindCaught :: "(string \<times> jval) list \<Rightarrow> einst \<Rightarrow> einst" where
  "bindCaught errVal i = put_state StateError (JObj errVal) i"

definition releaseCaught :: "einst \<Rightarrow> einst \<Rightarrow> einst" where
  "releaseCaught old i =
     (case map_of (e_State old) StateError of
        Some prev \<Rightarrow> put_state StateError prev i
      | None \<Rightarrow> del_state StateError i)"

definition caseEvaluator :: "('sc, 'd, 'p, 'f) engine \<Rightarrow> einst \<Rightarrow> (string \<times> jval) list \<Rightarrow> string \<Rightarrow> (string, bool) result" where
  "caseEvaluator X i errVal expr =
     (case evalSlot X (bindCaught errVal i) \<lparr>sh_Raw = JStr expr, sh_Expr = True\<rparr> (selfBeforeOutput i) of
        Inl e \<Rightarrow> Inl (''on_error case '' @ quote X expr @ '': '' @ e)
      | Inr (JBool b) \<Rightarrow> Inr b
      | Inr v \<Rightarrow> Inl (''on_error case '' @ quote X expr @ '' evaluated to '' @ go_type v @ '', not a boolean''))"

definition resolveRetry :: "('sc, 'd, 'p, 'f) engine \<Rightarrow> einst \<Rightarrow> 'f retry \<Rightarrow> (string \<times> jval) list \<Rightarrow> (string, 'f resolved_retry) result" where
  "resolveRetry X i r errVal =
     map_sum (retry_text X) id (Resolve (x_floats X) (\<lambda>expr. evalRaw X (bindCaught errVal i) (JStr expr) (selfBeforeOutput i)) r)"

subsection \<open>A failed call\<close>

definition call_error :: "('sc, 'f) task \<Rightarrow> string \<Rightarrow> code \<Rightarrow> (string \<times> jval) list \<Rightarrow> (string \<times> jval) list" where
  "call_error t errMsg errCode extra =
     fold (\<lambda>(k, v). obj_put k v) extra
       (obj_put ''task'' (JStr (tk_ID t)) (obj_put ''message'' (JStr errMsg) [(''code'', JStr errCode)]))"

definition resolveGoto :: "('sc, 'd, 'p, 'f) engine \<Rightarrow> einst \<Rightarrow> string \<Rightarrow> (string, unit) result" where
  "resolveGoto X i taskID =
     (case definition_at X AtGoto i of
        Inl e \<Rightarrow> Inl (''resolve goto: '' @ e)
      | Inr def \<Rightarrow>
          if taskIndex (pd_Tasks def) taskID < 0 then
            Inl (''goto task '' @ quote X taskID @ '' not found in '' @ quote X (i_ProcessName i) @ '' v'' @ itoa (i_ProcessVersion i))
          else Inr ())"

text \<open>The policy of a matched rule; none when no rule matched or it has no \<open>retry\<close>.\<close>

definition policy_of :: "('sc, 'd, 'p, 'f) engine \<Rightarrow> einst \<Rightarrow> 'f error_case option \<Rightarrow> (string \<times> jval) list
    \<Rightarrow> (string, 'f resolved_retry) result" where
  "policy_of X i matched errVal =
     (case matched of
        None \<Rightarrow> Inr (no_policy (x_floats X))
      | Some c \<Rightarrow> if retry_IsZero (x_floats X) (ec_Retry c) then Inr (no_policy (x_floats X)) else resolveRetry X i (ec_Retry c) errVal)"

definition grantRetry :: "('sc, 'd, 'p, 'f) engine \<Rightarrow> ('sc, 'f) task \<Rightarrow> code \<Rightarrow> 'f resolved_retry \<Rightarrow> einst \<Rightarrow> einst" where
  "grantRetry X t errCode policy i =
     (let n = i_RetryCount i + 1 in
      audit EventRetryScheduled (tk_ID t) errCode
        (i\<lparr>i_RetryCount := n, i_TaskEpoch := i_TaskEpoch i + 1,
           i_WakeAt := Some (x_now_retry X + retryDelay (x_floats X) (x_immediateRetries X) (x_draw X) n policy)\<rparr>))"

text \<open>
  The clause of a rule whose retries ran out, or no rule at all. A failed call and a raised batch go
  through the same clauses and differ in the text of an error nothing handles.
\<close>

definition routeError :: "('sc, 'd, 'p, 'f) engine \<Rightarrow> ('sc, 'f) task \<Rightarrow> string \<Rightarrow> code \<Rightarrow> 'f error_case option \<Rightarrow> einst
    \<Rightarrow> einst \<times> advance_outcome" where
  "routeError X t unhandledMsg errCode matched i =
     (let unhandled = (failInstance errCode unhandledMsg i, OutcomeTerminal) in
      case matched of
        None \<Rightarrow> unhandled
      | Some c \<Rightarrow>
          (case ec_Raise c of
             Some f \<Rightarrow> (raiseInstance X t f (selfBeforeOutput i) i, OutcomeTerminal)
           | None \<Rightarrow>
          (case ec_Panic c of
             Some f \<Rightarrow> (panicInstance X t f (selfBeforeOutput i) i, OutcomeTerminal)
           | None \<Rightarrow>
               if ec_Goto c = [] then unhandled
               else if ec_Goto c = GotoEnd then (completeViaErrorHandler X t errCode i, OutcomeTerminal)
               else (case resolveGoto X i (ec_Goto c) of
                       Inl e \<Rightarrow> (failInstance EngineDefinition e i, OutcomeTerminal)
                     | Inr _ \<Rightarrow>
                         (audit EventErrorRoute (tk_ID t) errCode
                            ((enterTask (ec_Goto c) i)\<lparr>i_RetryCount := 0, i_WakeAt := None\<rparr>), OutcomeUpdate)))))"

definition handleCallErrorWith :: "('sc, 'd, 'p, 'f) engine \<Rightarrow> ('sc, 'f) task \<Rightarrow> string \<Rightarrow> code \<Rightarrow> (string \<times> jval) list
    \<Rightarrow> einst \<Rightarrow> einst \<times> advance_outcome" where
  "handleCallErrorWith X t errMsg errCode extra i =
     (let errVal = call_error t errMsg errCode extra in
      case matchOnErrorWith t errCode (caseEvaluator X i errVal) of
        Inl e \<Rightarrow> (failInstance EngineExpression (''task '' @ quote X (tk_ID t) @ '': '' @ e) i, OutcomeTerminal)
      | Inr matched \<Rightarrow>
          (case policy_of X i matched errVal of
             Inl e \<Rightarrow> (failInstance EngineExpression (''task '' @ quote X (tk_ID t) @ '' on_error: '' @ e) i, OutcomeTerminal)
           | Inr policy \<Rightarrow>
               if i_RetryCount i < rr_Retries policy \<and> isRetryAllowed t errCode matched
               then (grantRetry X t errCode policy i, OutcomeUpdate)
               else (case routeError X t (''task '' @ quote X (tk_ID t) @ '': '' @ errCode @ '': '' @ errMsg) errCode matched
                             (bindCaught errVal i) of (j, out) \<Rightarrow>
                       (put_state StateLastError (JObj errVal) (releaseCaught i j), out))))"

definition handleCallError :: "('sc, 'd, 'p, 'f) engine \<Rightarrow> ('sc, 'f) task \<Rightarrow> string \<Rightarrow> code \<Rightarrow> einst \<Rightarrow> einst \<times> advance_outcome" where
  "handleCallError X t errMsg errCode i = handleCallErrorWith X t errMsg errCode [] i"

definition interruptedMessage :: string where
  "interruptedMessage = ''its previous attempt was interrupted; the engine will not re-run it''"

end
