(* ===== verification/Engine_Actions.thy ===== *)
theory Engine_Actions
  imports Engine_Errors
begin

text \<open>
  The actions that are not child processes (\<open>engine/action.go\<close>): one fetch attempt, a delay, and the three
  phases of an external task.
\<close>

subsection \<open>Instants\<close>

definition delayArity :: "delay_spec \<Rightarrow> (string, unit) result" where
  "delayArity spec =
     (if ds_For spec \<noteq> JNull \<and> ds_Until spec \<noteq> JNull then Inl ''both `for` and `until` are set: exactly one is required''
      else if ds_For spec = JNull \<and> ds_Until spec = JNull then Inl ''no delay set: exactly one of `for` or `until` is required''
      else Inr ())"

definition delayLiteral :: "('sc, 'd, 'p, 'f) engine \<Rightarrow> jval \<Rightarrow> string option" where
  "delayLiteral X raw =
     (case raw of
        JStr src \<Rightarrow> (case Parse_template (x_parse X) src of Inl _ \<Rightarrow> None | Inr t \<Rightarrow> Static t)
      | _ \<Rightarrow> None)"

text \<open>\<open>json.Number.Int64\<close> is \<open>ParseInt\<close> on the number's text.\<close>

fun delayMillis :: "jval \<Rightarrow> (string, int) result" where
  "delayMillis (JInt n) = Inr n"
| "delayMillis (JNumber s) =
     (case parse_int64 s of None \<Rightarrow> Inl (s @ '' is not a whole number of milliseconds'') | Some n \<Rightarrow> Inr n)"
| "delayMillis v = Inl (''must evaluate to a number, got '' @ go_type v)"

definition delayNumber :: "('sc, 'd, 'p, 'f) engine \<Rightarrow> einst \<Rightarrow> jval \<Rightarrow> (string, int) result" where
  "delayNumber X i raw =
     (case raw of
        JStr src \<Rightarrow> rbind (evalRaw X i (JStr src) (selfBeforeOutput i)) delayMillis
      | _ \<Rightarrow> delayMillis raw)"

text \<open>A \<open>for\<close> slot resolved from \<open>now\<close>: a literal by the grammar, a number as that many milliseconds.\<close>

definition resolveDuration :: "('sc, 'd, 'p, 'f) engine \<Rightarrow> einst \<Rightarrow> jval \<Rightarrow> (string, int \<Rightarrow> string \<Rightarrow> int) result" where
  "resolveDuration X i raw =
     (case delayLiteral X raw of
        Some lit \<Rightarrow> ParseDuration X lit
      | None \<Rightarrow>
          rbind (delayNumber X i raw) (\<lambda>ms.
            if ms < 0 then Inl (''must be non-negative, got '' @ itoa ms)
            else Inr (\<lambda>now loc. now + ms * Millisecond)))"

definition resolveSpec :: "('sc, 'd, 'p, 'f) engine \<Rightarrow> einst \<Rightarrow> delay_spec \<Rightarrow> int \<Rightarrow> (string, int) result" where
  "resolveSpec X i spec now =
     rbind (LoadLocation X (ds_TZ spec)) (\<lambda>loc.
     rbind (delayArity spec) (\<lambda>_.
       if ds_For spec \<noteq> JNull then
         map_sum (\<lambda>e. ''for: '' @ e) (\<lambda>d. d now loc) (resolveDuration X i (ds_For spec))
       else map_sum (\<lambda>e. ''until: '' @ e) id
         (case delayLiteral X (ds_Until spec) of
            Some lit \<Rightarrow> rbind (ParseInstant X lit) (\<lambda>target. target now loc)
          | None \<Rightarrow> rbind (delayNumber X i (ds_Until spec)) (\<lambda>ms. Inr (ms * Millisecond)))))"

definition resolveTimeout :: "('sc, 'd, 'p, 'f) engine \<Rightarrow> einst \<Rightarrow> ('sc, 'f) task \<Rightarrow> int \<Rightarrow> (string, int option) result" where
  "resolveTimeout X i t now =
     (case tk_Action t of
        None \<Rightarrow> Inr None
      | Some a \<Rightarrow>
          if timeout_IsZero (ac_Timeout a) then Inr None
          else map_sum id Some (resolveSpec X i (ac_Timeout a) now))"

definition defaultActionTimeout :: int where "defaultActionTimeout = 30 * Second"

definition fetchTimeout :: "('sc, 'd, 'p, 'f) engine \<Rightarrow> einst \<Rightarrow> ('sc, 'f) task \<Rightarrow> int \<Rightarrow> (string, int) result" where
  "fetchTimeout X i t now =
     rbind (resolveTimeout X i t now) (\<lambda>at.
       case at of
         None \<Rightarrow> Inr defaultActionTimeout
       | Some deadline \<Rightarrow>
           if deadline \<le> now then Inl ''not in the future: a request would time out before it was sent''
           else Inr (deadline - now))"

subsection \<open>The slots of a fetch\<close>

definition resolveURL :: "('sc, 'd, 'p, 'f) engine \<Rightarrow> einst \<Rightarrow> 'sc action \<Rightarrow> (string, string) result" where
  "resolveURL X i a =
     (if ac_URL a = [] then Inr []
      else map_sum id (Sprint X) (evalRaw X i (JStr (ac_URL a)) (selfBeforeOutput i)))"

definition resolveMethod :: "('sc, 'd, 'p, 'f) engine \<Rightarrow> einst \<Rightarrow> 'sc action \<Rightarrow> (string, string) result" where
  "resolveMethod X i a =
     rbind (evalRaw X i (JStr (ac_Method a)) (selfBeforeOutput i)) (\<lambda>val.
       let m = upper (trim_space (Sprint X val)) in
       if m = [] then Inl ''resolved to empty: name the verb, e.g. method: post'' else Inr m)"

definition resolveHeaders :: "('sc, 'd, 'p, 'f) engine \<Rightarrow> einst \<Rightarrow> 'sc action \<Rightarrow> (string, headers) result" where
  "resolveHeaders X i a =
     (if \<not> Present (ac_Headers a) then Inr []
      else rbind (evalRaw X i (ac_Headers a) (selfBeforeOutput i)) (\<lambda>val.
        case val of
          JObj kvs \<Rightarrow> Inr (map (\<lambda>(k, v). (k, Sprint X v)) kvs)
        | _ \<Rightarrow> Inl (''headers must evaluate to an object, got '' @ go_type val)))"

text \<open>The parameters one member of \<open>query\<close> gives: none for a null, one for each element of an array.\<close>

definition query_values :: "('sc, 'd, 'p, 'f) engine \<Rightarrow> jval \<Rightarrow> string list" where
  "query_values X v =
     (case v of
        JNull \<Rightarrow> []
      | JArr items \<Rightarrow> map (Sprint X) (filter (\<lambda>x. x \<noteq> JNull) items)
      | _ \<Rightarrow> [Sprint X v])"

definition unreserved :: "char \<Rightarrow> bool" where
  "unreserved c \<longleftrightarrow> is_digit c \<or> CHR ''a'' \<le> c \<and> c \<le> CHR ''z'' \<or> CHR ''A'' \<le> c \<and> c \<le> CHR ''Z'' \<or> c \<in> set ''-_.~''"

definition hex_upper :: "nat \<Rightarrow> char" where
  "hex_upper n = (if n < 10 then char_of (48 + n) else char_of (55 + n))"

text \<open>\<open>url.QueryEscape\<close>, with the space already as \<open>%20\<close>: the code replaces each \<open>+\<close> of the encoding.\<close>

definition query_escape :: "string \<Rightarrow> string" where
  "query_escape s = concat (map (\<lambda>c. if unreserved c then [c]
     else (let n = of_char c :: nat in [CHR ''%'', hex_upper (n div 16), hex_upper (n mod 16)])) s)"

fun join_with :: "string \<Rightarrow> string list \<Rightarrow> string" where
  "join_with sep [] = []"
| "join_with sep [x] = x"
| "join_with sep (x # xs) = x @ sep @ join_with sep xs"

text \<open>\<open>Values.Encode\<close> sorts by key; the members of a map are sorted already.\<close>

definition encode_query :: "('sc, 'd, 'p, 'f) engine \<Rightarrow> (string \<times> jval) list \<Rightarrow> string" where
  "encode_query X kvs =
     join_with ''&'' (concat (map (\<lambda>(k, v). map (\<lambda>x. query_escape k @ ''='' @ query_escape x) (query_values X v)) kvs))"

definition appendQuery :: "('sc, 'd, 'p, 'f) engine \<Rightarrow> einst \<Rightarrow> 'sc action \<Rightarrow> string \<Rightarrow> (slot_failure, string) result" where
  "appendQuery X i a rawURL =
     (if \<not> Present (ac_Query a) then Inr rawURL
      else rbind (plain (evalRaw X i (ac_Query a) (selfBeforeOutput i))) (\<lambda>val.
           rbind (conformDeclared X val (ac_QuerySchema a) ''query'') (\<lambda>val.
             case val of
               JObj kvs \<Rightarrow>
                 (if list_all (\<lambda>(_, v). query_values X v = []) kvs then Inr rawURL
                  else Inr (rawURL @ (if CHR ''?'' \<in> set rawURL then ''&'' else ''?'') @ encode_query X kvs))
             | _ \<Rightarrow> Inl (Ordinary (''query must evaluate to an object, got '' @ go_type val)))))"

definition resolveAcceptedStatus :: "('sc, 'd, 'p, 'f) engine \<Rightarrow> einst \<Rightarrow> 'sc action \<Rightarrow> (string, string list) result" where
  "resolveAcceptedStatus X i a =
     (if \<not> Present (ac_AcceptedStatus a) then Inr []
      else rbind (evalRaw X i (ac_AcceptedStatus a) (selfBeforeOutput i)) (\<lambda>val.
        case val of
          JArr xs \<Rightarrow> Inr (map (Sprint X) xs)
        | _ \<Rightarrow> Inl (''accepted_status must evaluate to an array, got '' @ go_type val)))"

definition maxInlineResolveBytes :: int where "maxInlineResolveBytes = 8 * 2 ^ 20"

definition materialize :: "('sc, 'd, 'p, 'f) engine \<Rightarrow> jval \<Rightarrow> (string, jval) result" where
  "materialize X v = map_sum (\<lambda>e. err_text X (SlotLoad e)) id (fst (Materialize load_depth (x_load X) v Map.empty))"

definition resolveRefsInPlace :: "('sc, 'd, 'p, 'f) engine \<Rightarrow> jval \<Rightarrow> (string, jval) result" where
  "resolveRefsInPlace X v =
     (let refs = snd (Extract v []); total = sum_list (map ref_size refs) in
      if refs = [] then Inr v
      else if maxInlineResolveBytes < total then
        Inl (''request body needs '' @ itoa total @ '' bytes of externalized values, over the '' @ itoa maxInlineResolveBytes @ ''-byte limit'')
      else materialize X v)"

definition resolveBody :: "('sc, 'd, 'p, 'f) engine \<Rightarrow> einst \<Rightarrow> ('sc, 'f) task \<Rightarrow> 'sc action \<Rightarrow> (slot_failure, jval) result" where
  "resolveBody X i t a =
     (if \<not> Present (ac_Body a) then Inr JNull
      else rbind (plain (evalRaw X i (ac_Body a) (selfBeforeOutput i))) (\<lambda>body.
           rbind (plain (resolveRefsInPlace X body)) (\<lambda>body.
             conformDeclared X body (ac_BodySchema a) (''task '' @ quote X (tk_ID t) @ '' body''))))"

definition ValidateResponse :: "('sc, 'd, 'p, 'f) engine \<Rightarrow> 'sc action \<Rightarrow> int \<Rightarrow> jval \<Rightarrow> (string, jval) result \<times> bool" where
  "ValidateResponse X a status body =
     (case ResponseFor (ac_Responses a) status of
        (_, False) \<Rightarrow> (Inr body, False)
      | (None, True) \<Rightarrow> (Inr JNull, True)
      | (Some sc, True) \<Rightarrow> (Validate X sc body, True))"

subsection \<open>One attempt of a fetch\<close>

record fetch_request =
  fr_url :: string
  fr_method :: string
  fr_headers :: headers
  fr_body :: jval
  fr_accepted :: "string list"

text \<open>The slots in the order the code resolves them, each with the code its failure gets.\<close>

definition at_slot :: "string \<Rightarrow> string \<Rightarrow> (string, 'a) result \<Rightarrow> (code \<times> string, 'a) result" where
  "at_slot task what r = map_sum (\<lambda>e. (EngineExpression, ''task '' @ task @ '' '' @ what @ '': '' @ e)) id r"

definition at_declared :: "string \<Rightarrow> string \<Rightarrow> (slot_failure, 'a) result \<Rightarrow> (code \<times> string, 'a) result" where
  "at_declared task what r =
     map_sum (\<lambda>e. (declaredFailureCode e EngineInput EngineExpression, ''task '' @ task @ '' '' @ what @ '': '' @ failure_text e)) id r"

definition resolveRequest :: "('sc, 'd, 'p, 'f) engine \<Rightarrow> ('sc, 'f) task \<Rightarrow> 'sc action \<Rightarrow> einst \<Rightarrow> (code \<times> string, fetch_request) result" where
  "resolveRequest X t a i =
     (let q = quote X (tk_ID t) in
      rbind (at_slot q ''timeout'' (fetchTimeout X i t (x_now X))) (\<lambda>timeout.
      rbind (at_slot q ''url'' (resolveURL X i a)) (\<lambda>url.
      rbind (at_slot q ''method'' (resolveMethod X i a)) (\<lambda>method.
      rbind (at_slot q ''headers'' (resolveHeaders X i a)) (\<lambda>hs.
      rbind (at_declared q ''query'' (appendQuery X i a url)) (\<lambda>url.
      rbind (at_declared q ''body'' (resolveBody X i t a)) (\<lambda>body.
      rbind (at_slot q ''accepted_status'' (resolveAcceptedStatus X i a)) (\<lambda>resolvedStatus.
        Inr \<lparr>fr_url = url, fr_method = method,
             fr_headers = obj_put HeaderTaskID (tk_ID t) (obj_put HeaderInstanceID (i_ID i) hs),
             fr_body = body, fr_accepted = EffectiveAcceptedStatus (ac_Responses a) resolvedStatus\<rparr>))))))))"

text \<open>\<open>transport.Send\<close>, and whether the request acquired a connection.\<close>

definition Send :: "('sc, 'd, 'p, 'f) engine \<Rightarrow> 'sc action \<Rightarrow> fetch_request \<Rightarrow> (send_error, response) result \<times> bool" where
  "Send X a r =
     (if ac_Type a = ActionTypeFetch then
        sendHTTP (x_net X) (fr_url r) (fr_method r) (fr_accepted r) (fr_headers r) (fr_body r)
      else (Inl \<lparr>se_cause = UnknownCallType, se_notSent = True\<rparr>, False))"

definition noteReached :: "string \<Rightarrow> bool \<Rightarrow> einst \<Rightarrow> einst" where
  "noteReached task reached i = (if reached then i\<lparr>e_reached := e_reached i @ [task]\<rparr> else i)"

text \<open>A declared \<open>null\<close> entry ignores the body on both channels.\<close>

definition ignoreBody :: "'sc action \<Rightarrow> response \<Rightarrow> response" where
  "ignoreBody a resp =
     (if ResponseFor (ac_Responses a) (rs_Status resp) = (None, True) then resp\<lparr>rs_Body := JNull, rs_BodyCode := []\<rparr> else resp)"

text \<open>The code, message and \<open>error.data\<close> of an unaccepted status.\<close>

definition statusError :: "('sc, 'd, 'p, 'f) engine \<Rightarrow> 'sc action \<Rightarrow> response \<Rightarrow> code \<times> string \<times> (string \<times> jval) list" where
  "statusError X a resp =
     (let msg = (if rs_ErrorMessage resp = [] then rs_ErrorCode resp else rs_ErrorMessage resp);
          pre = ''status '' @ itoa (rs_Status resp) @ '': '' in
      case ValidateResponse X a (rs_Status resp) (rs_Body resp) of
        (_, False) \<Rightarrow> (rs_ErrorCode resp, msg, [])
      | (v, True) \<Rightarrow>
          if rs_BodyCode resp \<noteq> [] then (rs_BodyCode resp, pre @ msg, [])
          else (case v of
                  Inl e \<Rightarrow> (ResultInvalid, pre @ e, [])
                | Inr value \<Rightarrow> (rs_ErrorCode resp, msg, [(''data'', value)])))"

record fetch_meta =
  fm_status :: int
  fm_headers :: headers

type_synonym fetch_result = "jval \<times> fetch_meta"

text \<open>The text of a transport error is a parameter of no consequence; its code is what routes.\<close>

fun send_text :: "send_cause \<Rightarrow> string" where
  "send_text UnknownCallType = ''unknown call type''"
| "send_text EmptyMethod = ''http method is empty''"
| "send_text BodyNotMarshalled = ''marshal body''"
| "send_text RequestNotBuilt = ''build http request''"
| "send_text (DoError deadline) = (if deadline then ''context deadline exceeded'' else ''request failed'')"

definition handle_stop :: "einst \<times> advance_outcome \<Rightarrow> einst \<times> 'a task_verdict" where
  "handle_stop r = (case r of (i, out) \<Rightarrow> (i, Stop out))"

definition answerAction :: "('sc, 'd, 'p, 'f) engine \<Rightarrow> ('sc, 'f) task \<Rightarrow> 'sc action \<Rightarrow> response \<Rightarrow> einst
    \<Rightarrow> einst \<times> fetch_result task_verdict" where
  "answerAction X t a resp i =
     (let resp = ignoreBody a resp in
      if rs_ErrorCode resp \<noteq> [] then
        (case statusError X a resp of (c, msg, extra) \<Rightarrow>
           handle_stop (handleCallErrorWith X t msg c extra (audit EventActionFailed (tk_ID t) c i)))
      else if rs_BodyCode resp \<noteq> [] then
        (let msg = (if rs_ErrorMessage resp = [] then rs_BodyCode resp else rs_ErrorMessage resp) in
         handle_stop (handleCallError X t msg (rs_BodyCode resp) (audit EventActionFailed (tk_ID t) (rs_BodyCode resp) i)))
      else (case fst (ValidateResponse X a (rs_Status resp) (rs_Body resp)) of
              Inl e \<Rightarrow> handle_stop (handleCallError X t e ResultInvalid i)
            | Inr normalized \<Rightarrow>
                (audit EventActionSucceeded (tk_ID t) [] (i\<lparr>i_RetryCount := 0\<rparr>),
                 Continue (normalized, \<lparr>fm_status = rs_Status resp, fm_headers = rs_Headers resp\<rparr>))))"

definition executeAction :: "('sc, 'd, 'p, 'f) engine \<Rightarrow> ('sc, 'f) task \<Rightarrow> 'sc action \<Rightarrow> einst \<Rightarrow> einst \<times> fetch_result task_verdict" where
  "executeAction X t a i =
     (case resolveRequest X t a i of
        Inl (c, msg) \<Rightarrow> (failInstance c msg i, Stop OutcomeTerminal)
      | Inr r \<Rightarrow>
          (let i = audit EventActionStarted (tk_ID t) [] i in
           case Send X a r of
             (Inl e, reached) \<Rightarrow>
               (let c = ClassifyGoError e in
                handle_stop (handleCallError X t (send_text (se_cause e)) c
                  (audit EventActionFailed (tk_ID t) c (noteReached (tk_ID t) reached i))))
           | (Inr resp, reached) \<Rightarrow> answerAction X t a resp (noteReached (tk_ID t) reached i)))"

subsection \<open>Delay\<close>

definition runDelay :: "('sc, 'd, 'p, 'f) engine \<Rightarrow> ('sc, 'f) task \<Rightarrow> 'sc action \<Rightarrow> einst \<Rightarrow> einst \<times> unit task_verdict" where
  "runDelay X t a i =
     (if i_WakeAt i = None then
        (case resolveSpec X i (ac_Delay a) (x_now X) of
           Inl e \<Rightarrow> (failInstance EngineExpression (''task '' @ quote X (tk_ID t) @ '' delay: '' @ e) i, Stop OutcomeTerminal)
         | Inr wake \<Rightarrow>
             (audit EventDelayArmed (tk_ID t) [] (i\<lparr>i_WakeAt := Some (if wake < x_now X then x_now X else wake)\<rparr>),
              Stop OutcomeProgress))
      else (i, Continue ()))"

subsection \<open>External tasks\<close>

definition buildTaskData :: "('sc, 'd, 'p, 'f) engine \<Rightarrow> einst \<Rightarrow> ('sc, 'f) task \<Rightarrow> 'sc action \<Rightarrow> (slot_failure, jval) result" where
  "buildTaskData X i t a =
     rbind (if \<not> Present (ac_Input a) then Inr (JObj []) else plain (evalRaw X i (ac_Input a) (selfBeforeOutput i)))
       (\<lambda>val. conformDeclared X val (ac_InputSchema a) (''task '' @ quote X (tk_ID t) @ '' input''))"

definition clearExternalPark :: "einst \<Rightarrow> einst" where
  "clearExternalPark i = (del_state StateExternalInput i)\<lparr>e_ExternalLost := False\<rparr>"

text \<open>Phase 2: the buffered answer.\<close>

definition consumeAnswer :: "('sc, 'd, 'p, 'f) engine \<Rightarrow> ('sc, 'f) task \<Rightarrow> string \<Rightarrow> external_outcome \<Rightarrow> einst \<Rightarrow> einst \<times> jval task_verdict" where
  "consumeAnswer X t sigID outcome i =
     (let i = (clearExternalPark (i\<lparr>i_ConsumedSignalID := sigID\<rparr>))\<lparr>i_Phase := PhaseNone\<rparr> in
      case outcome of
        Failure f \<Rightarrow>
          handle_stop (handleCallErrorWith X t (xf_Message f) (xf_Code f) (if xf_HasData f then [(''data'', xf_Data f)] else [])
            (audit EventExternalFailed (tk_ID t) (xf_Code f) i))
      | Result v \<Rightarrow> (audit EventExternalResolved (tk_ID t) [] i, Continue v))"

text \<open>Phase 3: parked with no answer.\<close>

definition lapsePark :: "('sc, 'd, 'p, 'f) engine \<Rightarrow> ('sc, 'f) task \<Rightarrow> einst \<Rightarrow> einst \<times> jval task_verdict" where
  "lapsePark X t i =
     (let (c, msg, ev) =
        (if e_ExternalLost i
         then (ExternalLost, ''the worker holding this task did not answer before its claim expired'', EventExternalLost)
         else (ExternalTimeout, ''external task timed out'', EventExternalTimeout)) in
      handle_stop (handleCallError X t msg c (audit ev (tk_ID t) c (clearExternalPark (i\<lparr>i_Phase := PhaseNone\<rparr>)))))"

text \<open>Phase 1: first arrival.\<close>

definition armExternal :: "('sc, 'd, 'p, 'f) engine \<Rightarrow> ('sc, 'f) task \<Rightarrow> 'sc action \<Rightarrow> einst \<Rightarrow> einst \<times> jval task_verdict" where
  "armExternal X t a i =
     (case buildTaskData X i t a of
        Inl e \<Rightarrow> (failInstance EngineExpression (''task '' @ quote X (tk_ID t) @ '' input: '' @ failure_text e) i, Stop OutcomeTerminal)
      | Inr input \<Rightarrow>
          (case resolveTimeout X i t (x_now X) of
             Inl e \<Rightarrow> (failInstance EngineExpression (''task '' @ quote X (tk_ID t) @ '' timeout: '' @ e) i, Stop OutcomeTerminal)
           | Inr deadline \<Rightarrow>
               (i, Stop (OutcomeArm \<lparr>ar_taskID = tk_ID t, ar_input = input,
                  ar_wakeAt = map_option (max (x_now X)) deadline\<rparr>))))"

definition runExternal :: "('sc, 'd, 'p, 'f) engine \<Rightarrow> ('sc, 'f) task \<Rightarrow> 'sc action \<Rightarrow> einst \<Rightarrow> einst \<times> jval task_verdict" where
  "runExternal X t a i =
     (case retryRead (\<lambda>n. PeekSignal X n (i_ID i) (tk_ID t)) of
        Inl e \<Rightarrow>
          (failInstance EngineSpawn (''task '' @ quote X (tk_ID t) @ '': reading the buffered answer: '' @ e) i, Stop OutcomeTerminal)
      | Inr (Some (sigID, outcome)) \<Rightarrow> consumeAnswer X t sigID outcome i
      | Inr None \<Rightarrow> if i_Phase i = PhaseExternal then lapsePark X t i else armExternal X t a i)"

end
