(* ===== verification/Engine_Children.thy ===== *)
theory Engine_Children
  imports Engine_Actions
begin

text \<open>
  Child processes (\<open>engine/child.go\<close>, \<open>engine/collect.go\<close>): building a batch, collecting what it returned, and
  retrying or routing the slots that raised.
\<close>

subsection \<open>Slots\<close>

definition spawnKey :: "einst \<Rightarrow> string" where
  "spawnKey c = (case es_spawn_child_key (e_Engine c) of None \<Rightarrow> [] | Some k \<Rightarrow> k)"

definition spawnIndex :: "einst \<Rightarrow> int option" where
  "spawnIndex c = es_spawn_index (e_Engine c)"

definition spawnAttempt :: "einst \<Rightarrow> int" where
  "spawnAttempt c = (case es_spawn_attempt (e_Engine c) of None \<Rightarrow> 0 | Some n \<Rightarrow> n)"

definition slotID :: "einst \<Rightarrow> string" where
  "slotID c =
     (if spawnKey c \<noteq> [] then ''key:'' @ spawnKey c
      else (case spawnIndex c of Some n \<Rightarrow> ''idx:'' @ itoa n | None \<Rightarrow> ''single''))"

definition childSlotLabel :: "('sc, 'd, 'p, 'f) engine \<Rightarrow> 'sc action \<Rightarrow> einst \<Rightarrow> string" where
  "childSlotLabel X a c =
     (if spawnKey c \<noteq> [] then ''child_key '' @ quote X (spawnKey c)
      else (case spawnIndex c of
              Some n \<Rightarrow> ''child_index '' @ itoa n
            | None \<Rightarrow> if ac_Type a = ActionTypeChild then ''single child'' else ''child ?''))"

definition raisedInSlotOrder :: "'sc action \<Rightarrow> einst list \<Rightarrow> einst list" where
  "raisedInSlotOrder a siblings =
     (let raised = filter (\<lambda>c. i_Status c = StatusRaised) siblings in
      if ac_Type a = ActionTypeChildList
      then sort_key (\<lambda>c. case spawnIndex c of None \<Rightarrow> 0 | Some n \<Rightarrow> n) raised
      else sort_key spawnKey raised)"

subsection \<open>Building a batch\<close>

datatype build_fail = FailWith code string | BuildPanics

definition unset_cols :: state_cols where
  "unset_cols = \<lparr>c_InputData = [], c_OutputsData = [], c_OutputData = [], c_ErrorInternal = [], c_ErrorData = [],
     c_ExternalInput = [], c_ExternalLost = False, c_EngineState = no_engine_state, c_Objects = []\<rparr>"

definition newChildInstance :: "einst \<Rightarrow> ('sc, 'f) task \<Rightarrow> ('sc, 'f) process_definition \<Rightarrow> int \<Rightarrow> jval \<Rightarrow> string \<Rightarrow> engine_state
    \<Rightarrow> (build_fail, einst) result" where
  "newChildInstance parent t def version input nid spawnCtx =
     (case pd_Tasks def of
        [] \<Rightarrow> Inl BuildPanics
      | first # _ \<Rightarrow> Inr \<lparr>
          i_ID = nid, i_ProcessName = pd_Name def, i_ProcessVersion = version, i_Task = tk_ID first,
          i_NextReplayable = (\<not> OnlyOnceAction first), i_ParentID = i_ID parent, i_RootID = [],
          i_SpawnTaskID = tk_ID t, i_ParentTaskEpoch = i_TaskEpoch parent,
          i_CallStack = i_CallStack parent @ [i_ID parent], i_RetryCount = 0, i_WakeAt = None,
          i_Status = StatusRunning, i_Phase = PhaseNone, i_ErrorMessage = [], i_ErrorCode = [], i_WorkerID = None,
          i_LeaseExpiresAt = None, i_LeaseEpoch = 0, i_TaskEpoch = 0, i_ExternalClaimEpoch = 0, i_cols = unset_cols,
          i_pending = [], i_referenced = [], i_loaded = [], i_ConsumedSignalID = [], i_ReclaimedExpired = False,
          e_State = [(''input'', input), (StateLastError, JNull), (''outputs'', JObj [])],
          e_Engine = spawnCtx, e_Config = JObj [], e_ExternalLost = False, e_UpdatedAt = 0, e_trail = [], e_reached = []\<rparr>)"

definition child_definition :: "('sc, 'd, 'p, 'f) engine \<Rightarrow> string \<Rightarrow> int \<Rightarrow> (string, ('sc, 'f) process_definition) result" where
  "child_definition X name version = retryRead (\<lambda>n. GetDefinition X AtChild n name version)"

definition concrete :: "('sc, 'd, 'p, 'f) engine \<Rightarrow> jval \<Rightarrow> (string, jval) result" where
  "concrete X v = materialize X v"

definition evalChildInput :: "('sc, 'd, 'p, 'f) engine \<Rightarrow> einst \<Rightarrow> string \<Rightarrow> string \<Rightarrow> jval \<Rightarrow> 'sc option \<Rightarrow> (slot_failure, jval) result" where
  "evalChildInput X i taskID label input decl =
     (let what = ''task '' @ quote X taskID @ '' '' @ label @ '' input'' in
      rbind (if \<not> Present input then Inr (JObj [])
             else rbind (map_sum (\<lambda>e. Ordinary (what @ '': '' @ e)) id (evalRaw X i input (selfBeforeOutput i)))
                    (\<lambda>v. plain (concrete X v)))
        (\<lambda>val. conformDeclared X val decl what))"

definition ValidateInput :: "('sc, 'd, 'p, 'f) engine \<Rightarrow> ('sc, 'f) process_definition \<Rightarrow> jval \<Rightarrow> (string, jval) result" where
  "ValidateInput X def input = (case pd_InputSchema def of None \<Rightarrow> Inr input | Some sc \<Rightarrow> Validate X sc input)"

definition at_child :: "code \<Rightarrow> string \<Rightarrow> (string, 'a) result \<Rightarrow> (build_fail, 'a) result" where
  "at_child c what r = map_sum (\<lambda>e. FailWith c (what @ '': '' @ e)) id r"

text \<open>The version and the definition a slot names.\<close>

definition child_target :: "('sc, 'd, 'p, 'f) engine \<Rightarrow> einst \<Rightarrow> ('sc, 'f) task \<Rightarrow> string \<Rightarrow> string \<Rightarrow> int \<Rightarrow> string
    \<Rightarrow> (build_fail, int \<times> ('sc, 'f) process_definition) result" where
  "child_target X i t label name version depKey =
     (let what = ''task '' @ quote X (tk_ID t) @ '' '' @ label in
      rbind (at_child EngineDefinition what
               (ResolveChildVersion X (i_ProcessName i) (i_ProcessVersion i) (tk_ID t) name version depKey)) (\<lambda>v.
      rbind (at_child EngineDefinition what (child_definition X name v)) (\<lambda>def. Inr (v, def))))"

text \<open>One child of a \<open>child\<close> or \<open>child_map\<close> task.\<close>

definition buildChild :: "('sc, 'd, 'p, 'f) engine \<Rightarrow> ('sc, 'f) task \<Rightarrow> einst \<Rightarrow> string \<Rightarrow> string \<Rightarrow> int \<Rightarrow> string \<Rightarrow> jval
    \<Rightarrow> 'sc option \<Rightarrow> nat \<Rightarrow> engine_state \<Rightarrow> (build_fail, einst) result" where
  "buildChild X t i label name version depKey input decl n spawnCtx =
     (let what = ''task '' @ quote X (tk_ID t) @ '' '' @ label in
      rbind (child_target X i t label name version depKey) (\<lambda>(v, def).
      rbind (map_sum (\<lambda>e. FailWith (declaredFailureCode e EngineInput EngineExpression) (failure_text e)) id
               (evalChildInput X i (tk_ID t) label input decl)) (\<lambda>input.
      rbind (at_child EngineInput (what @ '' input validation'') (ValidateInput X def input)) (\<lambda>input.
        newChildInstance i t def v input (NextID X n) spawnCtx))))"

definition buildSingleChild :: "('sc, 'd, 'p, 'f) engine \<Rightarrow> ('sc, 'f) task \<Rightarrow> 'sc action \<Rightarrow> einst \<Rightarrow> (build_fail, einst) result" where
  "buildSingleChild X t a i =
     buildChild X t i ''child'' (ac_Name a) (ac_Version a) [] (ac_Input a) (ac_InputSchema a) 0 no_engine_state"

fun build_entries :: "('sc, 'd, 'p, 'f) engine \<Rightarrow> ('sc, 'f) task \<Rightarrow> einst \<Rightarrow> nat \<Rightarrow> (string \<times> 'sc child_entry) list
    \<Rightarrow> (build_fail, einst list) result" where
  "build_entries X t i n [] = Inr []"
| "build_entries X t i n ((key, entry) # rest) =
     rbind (buildChild X t i (''child_map['' @ quote X key @ '']'') (ce_Name entry) (ce_Version entry) key (ce_Input entry)
              (ce_InputSchema entry) n (no_engine_state\<lparr>es_spawn_child_key := Some key\<rparr>)) (\<lambda>c.
     rbind (build_entries X t i (Suc n) rest) (\<lambda>cs. Inr (c # cs)))"

definition buildMapChildren :: "('sc, 'd, 'p, 'f) engine \<Rightarrow> ('sc, 'f) task \<Rightarrow> 'sc action \<Rightarrow> einst \<Rightarrow> (build_fail, einst list) result" where
  "buildMapChildren X t a i = build_entries X t i 0 (sort_key fst (ac_Children a))"

fun build_elements :: "('sc, 'd, 'p, 'f) engine \<Rightarrow> ('sc, 'f) task \<Rightarrow> 'sc action \<Rightarrow> einst \<Rightarrow> int \<Rightarrow> ('sc, 'f) process_definition \<Rightarrow> nat
    \<Rightarrow> jval list \<Rightarrow> (build_fail, einst list) result" where
  "build_elements X t a i v def n [] = Inr []"
| "build_elements X t a i v def n (elem # rest) =
     (let what = ''task '' @ quote X (tk_ID t) @ '' child_list['' @ itoa (int n) @ ''] input'' in
      rbind (map_sum (\<lambda>e. FailWith EngineInput (failure_text e)) id (conformDeclared X elem (ac_InputSchema a) what)) (\<lambda>elem.
      rbind (at_child EngineInput (what @ '' validation'') (ValidateInput X def elem)) (\<lambda>input.
      rbind (newChildInstance i t def v input (NextID X n) (no_engine_state\<lparr>es_spawn_index := Some (int n)\<rparr>)) (\<lambda>c.
      rbind (build_elements X t a i v def (Suc n) rest) (\<lambda>cs. Inr (c # cs))))))"

definition buildListChildren :: "('sc, 'd, 'p, 'f) engine \<Rightarrow> ('sc, 'f) task \<Rightarrow> 'sc action \<Rightarrow> einst \<Rightarrow> (build_fail, einst list) result" where
  "buildListChildren X t a i =
     (let what = ''task '' @ quote X (tk_ID t) @ '' child_list'' in
      rbind (child_target X i t ''child_list'' (ac_Name a) (ac_Version a) []) (\<lambda>(v, def).
      rbind (at_child EngineExpression (what @ '' over'') (evalRaw X i (JStr (ac_Over a)) (selfBeforeOutput i))) (\<lambda>arr.
        if arr = JNull then Inr []
        else rbind (at_child EngineExpression (what @ '' over'') (concrete X arr)) (\<lambda>arr.
          case arr of
            JArr items \<Rightarrow> build_elements X t a i v def 0 items
          | _ \<Rightarrow> Inl (FailWith EngineExpression (what @ '': over did not evaluate to an array (got '' @ go_type arr @ '')''))))))"

definition build_batch :: "('sc, 'd, 'p, 'f) engine \<Rightarrow> ('sc, 'f) task \<Rightarrow> 'sc action \<Rightarrow> einst \<Rightarrow> (build_fail, einst list) result" where
  "build_batch X t a i =
     (if ac_Type a = ActionTypeChildMap then buildMapChildren X t a i
      else if ac_Type a = ActionTypeChildList then buildListChildren X t a i
      else rbind (buildSingleChild X t a i) (\<lambda>c. Inr [c]))"

text \<open>\<open>freshBatch\<close>: the children phase 1 would spawn, by slot; a later one replaces an earlier one.\<close>

definition freshBatch :: "('sc, 'd, 'p, 'f) engine \<Rightarrow> ('sc, 'f) task \<Rightarrow> 'sc action \<Rightarrow> einst \<Rightarrow> (build_fail, string \<rightharpoonup> einst) result" where
  "freshBatch X t a i = map_sum id (\<lambda>cs. map_of (map (\<lambda>c. (slotID c, c)) (rev cs))) (build_batch X t a i)"

definition build_stop :: "build_fail \<Rightarrow> einst \<Rightarrow> einst \<times> 'a task_verdict" where
  "build_stop f i = (case f of FailWith c msg \<Rightarrow> (failInstance c msg i, Stop OutcomeTerminal) | BuildPanics \<Rightarrow> (i, Panics))"

subsection \<open>Collecting\<close>

datatype collect_error = Corrupt string | ResultInvalidError string

definition resolveAndValidateChildOutput :: "('sc, 'd, 'p, 'f) engine \<Rightarrow> 'sc option \<Rightarrow> einst \<Rightarrow> (collect_error, jval) result" where
  "resolveAndValidateChildOutput X resultSchema c =
     rbind (map_sum Corrupt id (materialize X (case map_of (e_State c) ''output'' of None \<Rightarrow> JNull | Some v \<Rightarrow> v))) (\<lambda>out.
       case resultSchema of
         None \<Rightarrow> Inr out
       | Some sc \<Rightarrow>
           map_sum (\<lambda>e. ResultInvalidError (''child process '' @ quote X (i_ID c) @ '' ('' @ i_ProcessName c @ '') output validation: '' @ e)) id
             (Validate X sc out))"

definition entry_schema :: "'sc action \<Rightarrow> string \<Rightarrow> 'sc option" where
  "entry_schema a key = (case map_of (ac_Children a) key of None \<Rightarrow> None | Some e \<Rightarrow> ce_ResultSchema e)"

definition buildSingleChildOutput :: "('sc, 'd, 'p, 'f) engine \<Rightarrow> 'sc action \<Rightarrow> einst list \<Rightarrow> (collect_error, jval) result" where
  "buildSingleChildOutput X a siblings =
     (case siblings of
        [c] \<Rightarrow> resolveAndValidateChildOutput X (ac_ResultSchema a) c
      | _ \<Rightarrow> Inl (Corrupt (''child task expected exactly one child, got '' @ itoa (int (length siblings)))))"

fun map_outputs :: "('sc, 'd, 'p, 'f) engine \<Rightarrow> 'sc action \<Rightarrow> einst list \<Rightarrow> (string \<times> jval) list \<Rightarrow> (collect_error, (string \<times> jval) list) result" where
  "map_outputs X a [] result = Inr result"
| "map_outputs X a (c # cs) result =
     rbind (resolveAndValidateChildOutput X (entry_schema a (spawnKey c)) c) (\<lambda>out.
       map_outputs X a cs (obj_put (spawnKey c) out result))"

definition buildMapChildOutput :: "('sc, 'd, 'p, 'f) engine \<Rightarrow> 'sc action \<Rightarrow> einst list \<Rightarrow> (collect_error, jval) result" where
  "buildMapChildOutput X a siblings = map_sum id JObj (map_outputs X a siblings [])"

fun list_outputs :: "('sc, 'd, 'p, 'f) engine \<Rightarrow> 'sc action \<Rightarrow> nat \<Rightarrow> einst list \<Rightarrow> jval list \<Rightarrow> (collect_error, jval list) result" where
  "list_outputs X a n [] result = Inr result"
| "list_outputs X a n (c # cs) result =
     (case spawnIndex c of
        Some idx \<Rightarrow>
          if idx < 0 \<or> int n \<le> idx then Inl (Corrupt (''child process '' @ quote X (i_ID c) @ '' has an invalid _spawn_index''))
          else rbind (resolveAndValidateChildOutput X (ac_ResultSchema a) c) (\<lambda>out.
                 list_outputs X a n cs (result[nat idx := out]))
      | None \<Rightarrow> Inl (Corrupt (''child process '' @ quote X (i_ID c) @ '' has an invalid _spawn_index'')))"

definition buildListChildOutput :: "('sc, 'd, 'p, 'f) engine \<Rightarrow> 'sc action \<Rightarrow> einst list \<Rightarrow> (collect_error, jval) result" where
  "buildListChildOutput X a siblings =
     map_sum id JArr (list_outputs X a (length siblings) siblings (replicate (length siblings) JNull))"

definition buildChildOutput :: "('sc, 'd, 'p, 'f) engine \<Rightarrow> 'sc action \<Rightarrow> einst list \<Rightarrow> (collect_error, jval) result" where
  "buildChildOutput X a siblings =
     (case find (\<lambda>c. i_Status c \<noteq> StatusCompleted) siblings of
        Some c \<Rightarrow> Inl (Corrupt (''child '' @ quote X (i_ID c) @ '' is not completed; outputs can only be collected when all children completed''))
      | None \<Rightarrow>
          if ac_Type a = ActionTypeChild then buildSingleChildOutput X a siblings
          else if ac_Type a = ActionTypeChildList then buildListChildOutput X a siblings
          else buildMapChildOutput X a siblings)"

subsection \<open>Raised slots\<close>

text \<open>The outer \<open>None\<close>: the code is not declared, or declared without a payload.\<close>

definition declaredRaiseSchema :: "'sc action \<Rightarrow> einst \<Rightarrow> code \<Rightarrow> 'sc option" where
  "declaredRaiseSchema a c raised =
     (let raises = (if ac_Type a = ActionTypeChildMap
                    then (case map_of (ac_Children a) (spawnKey c) of None \<Rightarrow> [] | Some e \<Rightarrow> ce_Raises e)
                    else ac_Raises a) in
      case map_of raises raised of Some (Some sc) \<Rightarrow> Some sc | _ \<Rightarrow> None)"

definition raisedData :: "('sc, 'd, 'p, 'f) engine \<Rightarrow> 'sc action \<Rightarrow> einst \<Rightarrow> code \<Rightarrow> (collect_error, jval option) result" where
  "raisedData X a c raised =
     (case declaredRaiseSchema a c raised of
        None \<Rightarrow> Inr None
      | Some sc \<Rightarrow>
          rbind (map_sum (\<lambda>e. Corrupt (''resolving its data: '' @ e)) id
                   (materialize X (case map_of (e_State c) StateErrorData of None \<Rightarrow> JNull | Some v \<Rightarrow> v))) (\<lambda>raw.
            map_sum (\<lambda>e. ResultInvalidError (''data validation: '' @ e)) Some (Validate X sc raw)))"

definition addChildSlot :: "einst \<Rightarrow> (string \<times> jval) list \<Rightarrow> (string \<times> jval) list" where
  "addChildSlot c m =
     (if spawnKey c \<noteq> [] then obj_put ''child_key'' (JStr (spawnKey c)) m
      else (case spawnIndex c of Some n \<Rightarrow> obj_put ''child_index'' (JInt n) m | None \<Rightarrow> m))"

definition batchErrorValue :: "('sc, 'f) task \<Rightarrow> einst \<Rightarrow> jval option \<Rightarrow> (string \<times> jval) list" where
  "batchErrorValue t c data =
     addChildSlot c (call_error t (i_ErrorMessage c) (i_ErrorCode c) (case data of None \<Rightarrow> [] | Some v \<Rightarrow> [(''data'', v)]))"

definition slotError :: "('sc, 'd, 'p, 'f) engine \<Rightarrow> ('sc, 'f) task \<Rightarrow> 'sc action \<Rightarrow> einst \<Rightarrow> (string, code \<times> (string \<times> jval) list) result" where
  "slotError X t a c =
     (case raisedData X a c (i_ErrorCode c) of
        Inl (Corrupt e) \<Rightarrow> Inl e
      | Inl (ResultInvalidError _) \<Rightarrow> Inr (ResultInvalid, batchErrorValue t c None)
      | Inr data \<Rightarrow> Inr (i_ErrorCode c, batchErrorValue t c data))"

definition respawnChild :: "('sc, 'd, 'p, 'f) engine \<Rightarrow> einst \<Rightarrow> (string \<rightharpoonup> einst) \<Rightarrow> int \<Rightarrow> 'f resolved_retry \<Rightarrow> (string, einst) result" where
  "respawnChild X old fresh attempt policy =
     (case fresh (slotID old) of
        None \<Rightarrow> Inl (''slot '' @ slotID old @ '' is no longer declared by task '' @ quote X (i_SpawnTaskID old))
      | Some r \<Rightarrow> Inr (r\<lparr>i_ParentTaskEpoch := i_ParentTaskEpoch old,
          e_Engine := (e_Engine r)\<lparr>es_spawn_attempt := Some attempt\<rparr>,
          i_WakeAt := Some (e_UpdatedAt old + retryDelay (x_floats X) (x_immediateRetries X) (x_draw X) attempt policy)\<rparr>))"

definition raised_text :: "('sc, 'd, 'p, 'f) engine \<Rightarrow> 'sc action \<Rightarrow> einst \<Rightarrow> string" where
  "raised_text X a c = ''child '' @ quote X (i_ProcessName c) @ '' ('' @ childSlotLabel X a c @ '') raised '' @ quote X (i_ErrorCode c)"

text \<open>What one raised slot is admitted with: nothing, or the policy its rule resolved to.\<close>

definition admission :: "('sc, 'd, 'p, 'f) engine \<Rightarrow> ('sc, 'f) task \<Rightarrow> 'sc action \<Rightarrow> einst \<Rightarrow> bool \<Rightarrow> einst
    \<Rightarrow> (build_fail, 'f resolved_retry option) result" where
  "admission X t a i override c =
     rbind (map_sum (\<lambda>e. FailWith EngineCollect (''task '' @ quote X (tk_ID t) @ '' collect: '' @ raised_text X a c @ '': '' @ e)) id
              (slotError X t a c)) (\<lambda>(raised, errVal).
       if override then Inr (Some (no_policy (x_floats X)))
       else rbind (at_child EngineExpression (''task '' @ quote X (tk_ID t)) (matchOnErrorWith t raised (caseEvaluator X i errVal))) (\<lambda>rule.
         case rule of
           None \<Rightarrow> Inr None
         | Some r \<Rightarrow>
             if retry_IsZero (x_floats X) (ec_Retry r) then Inr None
             else rbind (at_child EngineExpression (''task '' @ quote X (tk_ID t) @ '' on_error'') (resolveRetry X i (ec_Retry r) errVal)) (\<lambda>policy.
               if rr_Retries policy \<le> spawnAttempt c then Inr None else Inr (Some policy))))"

fun admitRetries :: "('sc, 'd, 'p, 'f) engine \<Rightarrow> ('sc, 'f) task \<Rightarrow> 'sc action \<Rightarrow> einst \<Rightarrow> bool \<Rightarrow> einst list
    \<Rightarrow> (build_fail, (string \<times> einst) list) result" where
  "admitRetries X t a i override [] = Inr []"
| "admitRetries X t a i override (c # cs) =
     rbind (admission X t a i override c) (\<lambda>adm.
       case adm of
         None \<Rightarrow> admitRetries X t a i override cs
       | Some policy \<Rightarrow>
           rbind (freshBatch X t a i) (\<lambda>fresh.
           rbind (at_child EngineSpawn (''task '' @ quote X (tk_ID t) @ '' retry'') (respawnChild X c fresh (spawnAttempt c + 1) policy)) (\<lambda>r.
           rbind (admitRetries X t a i override cs) (\<lambda>rest. Inr ((i_ID c, r) # rest)))))"

text \<open>The first raised slot routed through the rules.\<close>

definition routeBatch :: "('sc, 'd, 'p, 'f) engine \<Rightarrow> ('sc, 'f) task \<Rightarrow> 'sc action \<Rightarrow> einst \<Rightarrow> einst \<Rightarrow> einst \<times> advance_outcome" where
  "routeBatch X t a first i =
     (case raisedData X a first (i_ErrorCode first) of
        Inl (ResultInvalidError e) \<Rightarrow> handleCallError X t (raised_text X a first @ '': '' @ e) ResultInvalid i
      | Inl (Corrupt e) \<Rightarrow>
          (failInstance EngineCollect (''task '' @ quote X (tk_ID t) @ '' collect: '' @ raised_text X a first @ '': '' @ e) i, OutcomeTerminal)
      | Inr data \<Rightarrow>
          (let errVal = batchErrorValue t first data; j = bindCaught errVal i in
           case (case matchOnErrorWith t (i_ErrorCode first) (caseEvaluator X j errVal) of
                   Inl e \<Rightarrow> (failInstance EngineExpression (''task '' @ quote X (tk_ID t) @ '': '' @ e) j, OutcomeTerminal)
                 | Inr rule \<Rightarrow>
                     routeError X t (''task '' @ quote X (tk_ID t) @ '': '' @ raised_text X a first @ '': '' @ i_ErrorMessage first @
                       ''; no on_error rule matches'') (i_ErrorCode first) rule j) of
             (k, out) \<Rightarrow> (put_state StateLastError (JObj errVal) (releaseCaught i k), out)))"

definition resolveRaisedBatch :: "('sc, 'd, 'p, 'f) engine \<Rightarrow> ('sc, 'f) task \<Rightarrow> 'sc action \<Rightarrow> einst list \<Rightarrow> einst \<Rightarrow> einst \<times> 'a task_verdict" where
  "resolveRaisedBatch X t a raised i =
     (let override = es_retry_override (e_Engine i);
          i = i\<lparr>e_Engine := (e_Engine i)\<lparr>es_retry_override := False\<rparr>\<rparr> in
      case admitRetries X t a i override raised of
        Inl f \<Rightarrow> build_stop f i
      | Inr admitted \<Rightarrow>
          if admitted \<noteq> [] then (i\<lparr>i_Phase := PhaseChildren\<rparr>, Stop (OutcomeRespawn (map fst admitted) (map snd admitted)))
          else handle_stop (routeBatch X t a (hd raised) (i\<lparr>i_Phase := PhaseNone\<rparr>)))"

subsection \<open>The task\<close>

definition collectBatch :: "('sc, 'd, 'p, 'f) engine \<Rightarrow> ('sc, 'f) task \<Rightarrow> 'sc action \<Rightarrow> einst \<Rightarrow> einst \<times> jval task_verdict" where
  "collectBatch X t a i =
     (let failed = (\<lambda>e. (failInstance EngineCollect (''task '' @ quote X (tk_ID t) @ '' collect: '' @ e) (i\<lparr>i_Phase := PhaseNone\<rparr>),
                         Stop OutcomeTerminal)) in
      case ChildrenForTask X (i_ID i) (tk_ID t) (i_TaskEpoch i) of
        Inl e \<Rightarrow> failed e
      | Inr siblings \<Rightarrow>
          (let raised = raisedInSlotOrder a siblings in
           if raised \<noteq> [] then resolveRaisedBatch X t a raised i
           else (case buildChildOutput X a siblings of
                   Inl (ResultInvalidError e) \<Rightarrow> handle_stop (handleCallError X t e ResultInvalid (i\<lparr>i_Phase := PhaseNone\<rparr>))
                 | Inl (Corrupt e) \<Rightarrow> failed e
                 | Inr output \<Rightarrow> (audit EventChildrenCollect (tk_ID t) [] (i\<lparr>i_Phase := PhaseNone\<rparr>), Continue output))))"

definition runChildProcesses :: "('sc, 'd, 'p, 'f) engine \<Rightarrow> ('sc, 'f) task \<Rightarrow> 'sc action \<Rightarrow> einst \<Rightarrow> einst \<times> jval task_verdict" where
  "runChildProcesses X t a i =
     (if i_Phase i = PhaseCollecting then collectBatch X t a i
      else (case build_batch X t a i of
              Inl f \<Rightarrow> build_stop f i
            | Inr children \<Rightarrow>
                if ac_Type a = ActionTypeChildList \<and> children = [] then
                  (audit EventChildrenSpawned (tk_ID t) [] i, Continue (JArr []))
                else (i\<lparr>i_RetryCount := 0, i_WakeAt := None\<rparr>, Stop (OutcomeSpawn children))))"

end
