(* ===== verification/Engine_Advance.thy ===== *)
theory Engine_Advance
  imports Engine_Children External
begin

text \<open>
  One advance of an instance (\<open>engine/advance.go\<close>): the chain of tasks that runs in one claim, the barrier
  around it, and the one write that persists what it reached.
\<close>

subsection \<open>A task's own scope\<close>

definition headers_value :: "headers \<Rightarrow> jval" where
  "headers_value hs = JObj (map (\<lambda>(k, v). (k, JStr v)) hs)"

definition taskSelf :: "jval \<Rightarrow> jval \<Rightarrow> fetch_meta option \<Rightarrow> (string \<times> jval) list" where
  "taskSelf result previous meta =
     (let self = obj_put ''result'' result [(''previous'', previous)] in
      case meta of
        None \<Rightarrow> self
      | Some m \<Rightarrow> obj_put ''headers'' (headers_value (fm_headers m)) (obj_put ''status'' (JInt (fm_status m)) self))"

definition evalTaskOutput :: "('sc, 'd, 'p, 'f) engine \<Rightarrow> ('sc, 'f) task \<Rightarrow> jval \<Rightarrow> jval \<Rightarrow> fetch_meta option \<Rightarrow> einst
    \<Rightarrow> (slot_failure, jval) result" where
  "evalTaskOutput X t result previous meta i =
     rbind (plain (evalRaw X i (tk_Output t) (JObj (taskSelf result previous meta)))) (\<lambda>out.
       conformDeclared X out (tk_OutputSchema t) (''task '' @ quote X (tk_ID t) @ '' output''))"

text \<open>\<open>None\<close>: \<open>outputs\<close> is neither absent nor a map, and the type assertion panics.\<close>

definition setTaskOutput :: "string \<Rightarrow> jval \<Rightarrow> einst \<Rightarrow> einst option" where
  "setTaskOutput taskID v i =
     (case map_of (e_State i) ''outputs'' of
        None \<Rightarrow> Some (put_state ''outputs'' (JObj [(taskID, v)]) i)
      | Some JNull \<Rightarrow> Some (put_state ''outputs'' (JObj [(taskID, v)]) i)
      | Some (JObj outs) \<Rightarrow> Some (put_state ''outputs'' (JObj (obj_put taskID v outs)) i)
      | Some _ \<Rightarrow> None)"

fun evalSwitch :: "('sc, 'd, 'p, 'f) engine \<Rightarrow> einst \<Rightarrow> jval \<Rightarrow> switch_case list \<Rightarrow> (string, switch_case option) result" where
  "evalSwitch X i self [] = Inr None"
| "evalSwitch X i self (c # cs) =
     (if sc_Case c = [] then Inr (Some c)
      else (case evalSlot X i \<lparr>sh_Raw = JStr (sc_Case c), sh_Expr = True\<rparr> self of
              Inl e \<Rightarrow> Inl (''case '' @ quote X (sc_Case c) @ '': '' @ e)
            | Inr (JBool b) \<Rightarrow> if b then Inr (Some c) else evalSwitch X i self cs
            | Inr v \<Rightarrow> Inl (''case '' @ quote X (sc_Case c) @ '': expected bool, got '' @ go_type v)))"

subsection \<open>One task\<close>

text \<open>The result of a task's action: what the switch sees, with the metadata of a fetch.\<close>

definition no_meta :: "einst \<times> jval task_verdict \<Rightarrow> einst \<times> (jval \<times> fetch_meta option) task_verdict" where
  "no_meta r = (case r of
     (i, Continue v) \<Rightarrow> (i, Continue (v, None)) | (i, Stop out) \<Rightarrow> (i, Stop out) | (i, Panics) \<Rightarrow> (i, Panics))"

definition runAction :: "('sc, 'd, 'p, 'f) engine \<Rightarrow> ('sc, 'f) task \<Rightarrow> 'sc action \<Rightarrow> einst \<Rightarrow> einst \<times> (jval \<times> fetch_meta option) task_verdict" where
  "runAction X t a i =
     (if ac_Type a \<in> {ActionTypeChild, ActionTypeChildMap, ActionTypeChildList} then no_meta (runChildProcesses X t a i)
      else if ac_Type a = ActionTypeDelay then
        (case runDelay X t a i of
           (i, Continue _) \<Rightarrow> (i, Continue (JNull, None)) | (i, Stop out) \<Rightarrow> (i, Stop out) | (i, Panics) \<Rightarrow> (i, Panics))
      else if ac_Type a = ActionTypeExternal then no_meta (runExternal X t a i)
      else (case executeAction X t a i of
              (i, Continue (v, m)) \<Rightarrow> (i, Continue (v, Some m)) | (i, Stop out) \<Rightarrow> (i, Stop out) | (i, Panics) \<Rightarrow> (i, Panics)))"

datatype advance_step = Finished einst advance_outcome | Crashed einst | Moved einst int bool

definition failed :: "code \<Rightarrow> string \<Rightarrow> einst \<Rightarrow> advance_step" where
  "failed c msg i = Finished (failInstance c msg i) OutcomeTerminal"

text \<open>Where the matched case goes.\<close>

definition followCase :: "('sc, 'd, 'p, 'f) engine \<Rightarrow> ('sc, 'f) process_definition \<Rightarrow> int \<Rightarrow> ('sc, 'f) task \<Rightarrow> (string \<times> jval) list
    \<Rightarrow> switch_case \<Rightarrow> einst \<Rightarrow> advance_step" where
  "followCase X def idx t self c i =
     (case sc_Raise c of
        Some f \<Rightarrow> Finished (raiseInstance X t f (JObj self) i) OutcomeTerminal
      | None \<Rightarrow>
     (case sc_Panic c of
        Some f \<Rightarrow> Finished (panicInstance X t f (JObj self) i) OutcomeTerminal
      | None \<Rightarrow>
          if sc_Goto c = GotoEnd then
            Finished (complete X EventInstanceDone (tk_ID t) [] (i\<lparr>i_Status := StatusCompleted, i_RetryCount := 0, i_WakeAt := None\<rparr>))
              OutcomeTerminal
          else if sc_Goto c = [] then Crashed i
          else
            (let next = (if sc_Goto c = GotoNext then idx + 1 else taskIndex (pd_Tasks def) (tl (sc_Goto c))) in
             if sc_Goto c \<noteq> GotoNext \<and> next < 0 then
               failed EngineDefinition (''goto task '' @ quote X (tl (sc_Goto c)) @ '' not found in '' @ quote X (i_ProcessName i) @
                 '' v'' @ itoa (i_ProcessVersion i)) i
             else Moved (audit EventTaskCompleted (tk_ID t) []
               ((del_state StateLastError (enterTask (taskIDAt (pd_Tasks def) next) i))\<lparr>i_RetryCount := 0, i_WakeAt := None\<rparr>))
               next (tk_Action t \<noteq> None))))"

text \<open>After the action: the task's output, then its switch.\<close>

definition finishTask :: "('sc, 'd, 'p, 'f) engine \<Rightarrow> ('sc, 'f) process_definition \<Rightarrow> int \<Rightarrow> ('sc, 'f) task \<Rightarrow> jval \<Rightarrow> jval
    \<Rightarrow> fetch_meta option \<Rightarrow> einst \<Rightarrow> advance_step" where
  "finishTask X def idx t result prior meta i =
     (let hasOutput = Present (tk_Output t);
          route = (\<lambda>self i.
            (case evalSwitch X i (JObj self) (tk_Switch t) of
               Inl e \<Rightarrow> failed EngineExpression (''task '' @ quote X (tk_ID t) @ '' switch: '' @ e) i
             | Inr None \<Rightarrow> failed EngineDefinition (''task '' @ quote X (tk_ID t) @ '' switch: no case matched'') i
             | Inr (Some c) \<Rightarrow> followCase X def idx t self c i)) in
      if \<not> hasOutput then route (taskSelf result prior meta) i
      else (case evalTaskOutput X t result prior meta i of
              Inl e \<Rightarrow> failed (declaredFailureCode e EngineOutput EngineExpression)
                (''task '' @ quote X (tk_ID t) @ '' output: '' @ failure_text e) i
            | Inr out \<Rightarrow>
                (case setTaskOutput (tk_ID t) out i of
                   None \<Rightarrow> Crashed i
                 | Some i \<Rightarrow> route (obj_put ''output'' out (taskSelf result prior meta)) i)))"

definition runTask :: "('sc, 'd, 'p, 'f) engine \<Rightarrow> ('sc, 'f) process_definition \<Rightarrow> bool \<Rightarrow> int \<Rightarrow> einst \<Rightarrow> advance_step" where
  "runTask X def first idx i =
     (if idx < 0 \<or> int (length (pd_Tasks def)) \<le> idx then
        Finished (complete X EventInstanceDone [] [] (i\<lparr>i_Task := [], i_Status := StatusCompleted, i_WakeAt := None\<rparr>)) OutcomeTerminal
      else
        (let t = pd_Tasks def ! nat idx; i = i\<lparr>i_Task := tk_ID t\<rparr>;
             prior = (if Present (tk_Output t) then previous_output (tk_ID t) i else JNull) in
         case tk_Action t of
           None \<Rightarrow> finishTask X def idx t JNull prior None i
         | Some a \<Rightarrow>
             if \<not> first \<and> OnlyOnceAction t then Finished i OutcomeProgress
             else (case runAction X t a i of
                     (i, Stop out) \<Rightarrow> Finished i out
                   | (i, Panics) \<Rightarrow> Crashed i
                   | (i, Continue (result, meta)) \<Rightarrow> finishTask X def idx t result prior meta i)))"

subsection \<open>The chain of one claim\<close>

definition maxInlineTasks :: nat where "maxInlineTasks = 1000"

text \<open>The loop; \<open>n\<close> is how many more tasks may follow the current one in this claim.\<close>

fun advance_loop :: "('sc, 'd, 'p, 'f) engine \<Rightarrow> ('sc, 'f) process_definition \<Rightarrow> bool \<Rightarrow> nat \<Rightarrow> int \<Rightarrow> einst \<Rightarrow> advance_step" where
  "advance_loop X def first 0 idx i =
     (case runTask X def first idx i of Moved i _ _ \<Rightarrow> Finished i OutcomeProgress | s \<Rightarrow> s)"
| "advance_loop X def first (Suc n) idx i =
     (case runTask X def first idx i of
        Moved i idx hasCall \<Rightarrow> if hasCall then Finished i OutcomeProgress else advance_loop X def False n idx i
      | s \<Rightarrow> s)"

definition prepareAdvance :: "('sc, 'd, 'p, 'f) engine \<Rightarrow> einst \<Rightarrow> einst \<times> (advance_outcome, ('sc, 'f) process_definition \<times> int) result" where
  "prepareAdvance X i =
     (case definition_at X AtPrepare i of
        Inl e \<Rightarrow> (failInstance EngineDefinition (''load definition: '' @ e) i, Inl OutcomeTerminal)
      | Inr def \<Rightarrow>
          (case (if pd_ConfigSchema def = None then Inr (e_Config i) else ResolveConfig X def) of
             Inl e \<Rightarrow> (failInstance EngineConfig (''config: '' @ e) i, Inl OutcomeTerminal)
           | Inr cfg \<Rightarrow>
               (let i = i\<lparr>e_Config := cfg\<rparr>; idx = taskIndex (pd_Tasks def) (i_Task i) in
                if i_Task i \<noteq> [] \<and> idx < 0 then
                  (failInstance EngineDefinition (''current task '' @ quote X (i_Task i) @ '' not found in definition'') i, Inl OutcomeTerminal)
                else if i_ReclaimedExpired i \<and> 0 \<le> idx \<and> OnlyOnceAction (pd_Tasks def ! nat idx) then
                  (case handleCallError X (pd_Tasks def ! nat idx) interruptedMessage OnlyOnceInterrupted i of (i, out) \<Rightarrow> (i, Inl out))
                else (if 0 \<le> idx then audit EventWorkStarted (i_Task i) [] i else i, Inr (def, idx)))))"

definition advance :: "('sc, 'd, 'p, 'f) engine \<Rightarrow> einst \<Rightarrow> advance_step" where
  "advance X i =
     (if i_Status i = StatusCancelling then Finished (settleCancelling i) OutcomeTerminal
      else if i_Status i = StatusPausing then
        (case (if i_ReclaimedExpired i then lookupTask X AtLookup i else None) of
           Some t \<Rightarrow>
             if OnlyOnceAction t then
               (case handleCallError X t interruptedMessage OnlyOnceInterrupted (i\<lparr>i_Status := StatusRunning\<rparr>) of (i, out) \<Rightarrow> Finished i out)
             else Finished (settlePausing i) OutcomeTerminal
         | None \<Rightarrow> Finished (settlePausing i) OutcomeTerminal)
      else (case prepareAdvance X i of
              (i, Inl out) \<Rightarrow> Finished i out
            | (i, Inr (def, idx)) \<Rightarrow> advance_loop X def True maxInlineTasks idx i))"

definition advanceGuarded :: "('sc, 'd, 'p, 'f) engine \<Rightarrow> einst \<Rightarrow> einst \<times> advance_outcome" where
  "advanceGuarded X i =
     (case advance X i of
        Finished i out \<Rightarrow> (i, out)
      | Crashed i \<Rightarrow>
          (audit EventInstanceFailed (i_Task i) EnginePanic
             (failInstance EnginePanic (''panic while advancing task '' @ quote X (i_Task i)) i), OutcomeTerminal)
      | Moved i _ _ \<Rightarrow> (i, OutcomeProgress))"

end
