(* ===== verification/Engine_Persist.thy ===== *)
theory Engine_Persist
  imports Engine_Advance
begin

text \<open>
  The one write of an advance (\<open>persist\<close>, \<open>saveAndNotify\<close> and \<open>runAdvance\<close> of \<open>engine/advance.go\<close>), and how a
  row becomes the instance an advance works on.

  \<open>H\<close> is the content hash, \<open>postgres\<close> the dialect and \<open>now\<close> the database clock at the write.
\<close>

definition encoded :: "(string \<Rightarrow> string) \<Rightarrow> einst \<Rightarrow> (state_cols \<times> pending_object list \<times> string list) option" where
  "encoded H i = encodeState H (e_Engine i) (e_ExternalLost i) (e_State i)"

text \<open>The instance as the writes take it; \<open>None\<close> when a value cannot be encoded.\<close>

definition to_db :: "(string \<Rightarrow> string) \<Rightarrow> einst \<Rightarrow> inst option" where
  "to_db H i =
     (case encoded H i of
        None \<Rightarrow> None
      | Some (cols, pending, referenced) \<Rightarrow>
          Some ((inst.truncate i)\<lparr>i_cols := cols, i_pending := pending, i_referenced := referenced\<rparr>))"

fun all_to_db :: "(string \<Rightarrow> string) \<Rightarrow> einst list \<Rightarrow> inst list option" where
  "all_to_db H [] = Some []"
| "all_to_db H (i # is) =
     (case to_db H i of None \<Rightarrow> None | Some d \<Rightarrow> (case all_to_db H is of None \<Rightarrow> None | Some ds \<Rightarrow> Some (d # ds)))"

definition from_db :: "inst \<Rightarrow> int \<Rightarrow> einst option" where
  "from_db i updatedAt =
     (case decodeState (i_cols i) of
        None \<Rightarrow> None
      | Some (cd, loaded) \<Rightarrow>
          Some (inst.extend (i\<lparr>i_loaded := loaded\<rparr>)
            \<lparr>e_State = cd, e_Engine = c_EngineState (i_cols i), e_Config = JObj [], e_ExternalLost = c_ExternalLost (i_cols i),
             e_UpdatedAt = updatedAt, e_trail = [], e_reached = []\<rparr>))"

text \<open>\<open>taskIsOnlyOnce\<close>: a task that cannot be read counts as one that is not.\<close>

definition taskIsOnlyOnce :: "('sc, 'd, 'p, 'f) engine \<Rightarrow> einst \<Rightarrow> bool" where
  "taskIsOnlyOnce X i = interruptedOnlyOnce (lookupTask X AtPersist i)"

type_synonym write_result = "(db_error, unit) result \<times> store"

definition with_db :: "(string \<Rightarrow> string) \<Rightarrow> einst \<Rightarrow> (inst \<Rightarrow> store \<Rightarrow> write_result) \<Rightarrow> store \<Rightarrow> write_result" where
  "with_db H i f s = (case to_db H i of None \<Rightarrow> (Inl ErrInternal, s) | Some d \<Rightarrow> f d s)"

definition saveAndNotify :: "(string \<Rightarrow> string) \<Rightarrow> bool \<Rightarrow> int \<Rightarrow> einst \<Rightarrow> store \<Rightarrow> write_result" where
  "saveAndNotify H postgres now i =
     with_db H i (\<lambda>d.
       if i_ParentID i = [] then UpdateInstance d now
       else if i_Status i = StatusFailed then FailInstanceAndAncestors postgres d now
       else FinishChild postgres d now)"

definition persistArm :: "(string \<Rightarrow> string) \<Rightarrow> int \<Rightarrow> einst \<Rightarrow> external_arm \<Rightarrow> store \<Rightarrow> write_result" where
  "persistArm H now i a s =
     with_db H i (\<lambda>d s.
       case encoded H (put_state StateExternalInput (ar_input a) i) of
         None \<Rightarrow> (Inl ErrInternal, s)
       | Some enc \<Rightarrow>
           (case ArmExternalUnlessSignalled d enc (ar_taskID a) (ar_wakeAt a) now s of
              (Inl e, s) \<Rightarrow> (Inl e, s) | (Inr _, s) \<Rightarrow> (Inr (), s))) s"

definition persist :: "('sc, 'd, 'p, 'f) engine \<Rightarrow> (string \<Rightarrow> string) \<Rightarrow> bool \<Rightarrow> int \<Rightarrow> einst \<Rightarrow> advance_outcome \<Rightarrow> store \<Rightarrow> write_result" where
  "persist X H postgres now i out s =
     (let i = i\<lparr>i_NextReplayable := \<not> taskIsOnlyOnce X i\<rparr> in
      case out of
        OutcomeTerminal \<Rightarrow> saveAndNotify H postgres now i s
      | OutcomeProgress \<Rightarrow> with_db H i (\<lambda>d. UpdateInstanceProgress d now) s
      | OutcomeUpdate \<Rightarrow> with_db H i (\<lambda>d. UpdateInstance d now) s
      | OutcomeSpawn children \<Rightarrow>
          with_db H i (\<lambda>d s. case all_to_db H children of
             None \<Rightarrow> (Inl ErrInternal, s) | Some cs \<Rightarrow> SpawnChildrenAndWait d cs now s) s
      | OutcomeRespawn retired children \<Rightarrow>
          with_db H i (\<lambda>d s. case all_to_db H children of
             None \<Rightarrow> (Inl ErrInternal, s) | Some cs \<Rightarrow> RespawnSlotsAndWait d retired cs now s) s
      | OutcomeArm a \<Rightarrow> persistArm H now i a s)"

definition writeVerb :: "advance_outcome \<Rightarrow> string" where
  "writeVerb out =
     (case out of OutcomeSpawn _ \<Rightarrow> ''spawn'' | OutcomeRespawn _ _ \<Rightarrow> ''spawn'' | OutcomeArm _ \<Rightarrow> ''arm'' | _ \<Rightarrow> [])"

datatype run_result = Persisted | Abandoned | LeaseLost | WriteFailed db_error

text \<open>
  The write of an advance and what follows when it fails. The audit entries that a spawn, a respawn and an
  arming add after their commit are left out.
\<close>

definition writeAdvance :: "('sc, 'd, 'p, 'f) engine \<Rightarrow> (string \<Rightarrow> string) \<Rightarrow> bool \<Rightarrow> int \<Rightarrow> einst \<Rightarrow> advance_outcome \<Rightarrow> store
    \<Rightarrow> einst \<times> run_result \<times> store" where
  "writeAdvance X H postgres now i out s =
     (case persist X H postgres now i out s of
        (Inr _, s) \<Rightarrow> (i, Persisted, s)
      | (Inl e, s) \<Rightarrow>
          if e = ErrLeaseLost then (audit EventLeaseLost (i_Task i) [] i, LeaseLost, s)
          else if writeVerb out = [] then (i, WriteFailed e, s)
          else
            (let j = failInstance EngineSpawn (''task '' @ quote X (i_Task i) @ '' '' @ writeVerb out) i in
             case persist X H postgres now j OutcomeTerminal s of
               (Inr _, s) \<Rightarrow> (j, Persisted, s)
             | (Inl e, s) \<Rightarrow>
                 if e = ErrLeaseLost then (audit EventLeaseLost (i_Task j) [] j, LeaseLost, s)
                 else (j, WriteFailed e, s)))"

text \<open>
  \<open>runAdvance\<close>. The in-memory marks, the closing flush of the database's log and the wake-up of the pump
  are left out. \<open>abandoned\<close>: the shutdown grace ran out and the advance was cancelled under way.
\<close>

definition runAdvance :: "('sc, 'd, 'p, 'f) engine \<Rightarrow> (string \<Rightarrow> string) \<Rightarrow> bool \<Rightarrow> bool \<Rightarrow> int \<Rightarrow> einst \<Rightarrow> store
    \<Rightarrow> einst \<times> run_result \<times> store" where
  "runAdvance X H postgres abandoned now i s =
     (case advanceGuarded X i of (i, out) \<Rightarrow>
        if abandoned then (audit EventAbandoned (i_Task i) [] i, Abandoned, s)
        else writeAdvance X H postgres now i out s)"

end
