(* ===== verification/Engine_Frame.thy ===== *)
theory Engine_Frame
  imports Engine_Persist
begin

text \<open>
  What an advance may change. Each step of the engine is given a contract: the columns that say whose
  row it is never move, a path that ends a task says how, and a request may_reach the network in one place
  only.
\<close>

named_theorems engine_frame \<open>the fields a step of the engine leaves alone\<close>

text \<open>The columns that place a row in its tree and fence its writes.\<close>

definition ident :: "einst \<Rightarrow> (string \<times> string \<times> int \<times> string) \<times> (string \<times> string \<times> int \<times> string list)
    \<times> (string option \<times> int \<times> bool)" where
  "ident i = ((i_ID i, i_ProcessName i, i_ProcessVersion i, i_RootID i),
     (i_ParentID i, i_SpawnTaskID i, i_ParentTaskEpoch i, i_CallStack i), (i_WorkerID i, i_LeaseEpoch i, i_ReclaimedExpired i))"

text \<open>A step that changes values only: not the place in the process, nor what reached the network.\<close>

definition still :: "einst \<Rightarrow> einst \<Rightarrow> bool" where
  "still i j \<longleftrightarrow> ident j = ident i \<and> e_reached j = e_reached i \<and> i_Task j = i_Task i \<and> i_TaskEpoch j = i_TaskEpoch i"

lemma still_refl [simp, intro]: "still i i"
  by (simp add: still_def)

lemma still_trans [trans]: "still i j \<Longrightarrow> still j k \<Longrightarrow> still i k"
  by (simp add: still_def)

lemma still_updates [simp, engine_frame]:
  "still i (j\<lparr>i_Status := st\<rparr>) = still i j" "still i (j\<lparr>i_Phase := ph\<rparr>) = still i j"
  "still i (j\<lparr>i_ErrorMessage := m\<rparr>) = still i j" "still i (j\<lparr>i_ErrorCode := c\<rparr>) = still i j"
  "still i (j\<lparr>i_WakeAt := w\<rparr>) = still i j" "still i (j\<lparr>i_RetryCount := n\<rparr>) = still i j"
  "still i (j\<lparr>i_ConsumedSignalID := g\<rparr>) = still i j" "still i (j\<lparr>e_State := cd\<rparr>) = still i j"
  "still i (j\<lparr>e_Engine := es\<rparr>) = still i j" "still i (j\<lparr>e_Config := cfg\<rparr>) = still i j"
  "still i (j\<lparr>e_ExternalLost := b\<rparr>) = still i j" "still i (j\<lparr>e_trail := tr\<rparr>) = still i j"
  "still i (audit ev task c j) = still i j" "still i (put_state k v j) = still i j" "still i (del_state k j) = still i j"
  "still i (setErrorData v j) = still i j" "still i (bindCaught ev' j) = still i j" "still i (releaseCaught old j) = still i j"
  by (simp_all add: still_def ident_def audit_def put_state_def del_state_def setErrorData_def bindCaught_def releaseCaught_def
      split: option.split)

lemma status_updates [simp]:
  "i_Status (audit ev task c j) = i_Status j" "i_Status (put_state k v j) = i_Status j" "i_Status (del_state k j) = i_Status j"
  "i_Status (setErrorData v j) = i_Status j" "i_Status (bindCaught ev' j) = i_Status j" "i_Status (releaseCaught old j) = i_Status j"
  "i_Phase (audit ev task c j) = i_Phase j" "i_Phase (put_state k v j) = i_Phase j" "i_Phase (del_state k j) = i_Phase j"
  "i_Phase (setErrorData v j) = i_Phase j" "i_Phase (bindCaught ev' j) = i_Phase j" "i_Phase (releaseCaught old j) = i_Phase j"
  "i_ErrorCode (audit ev task c j) = i_ErrorCode j" "i_ErrorCode (put_state k v j) = i_ErrorCode j" "i_ErrorCode (del_state k j) = i_ErrorCode j"
  "i_ErrorCode (setErrorData v j) = i_ErrorCode j" "i_ErrorCode (bindCaught ev' j) = i_ErrorCode j" "i_ErrorCode (releaseCaught old j) = i_ErrorCode j"
  "i_RetryCount (audit ev task c j) = i_RetryCount j" "i_RetryCount (put_state k v j) = i_RetryCount j" "i_RetryCount (del_state k j) = i_RetryCount j"
  "i_RetryCount (setErrorData v j) = i_RetryCount j" "i_RetryCount (bindCaught ev' j) = i_RetryCount j" "i_RetryCount (releaseCaught old j) = i_RetryCount j"
  by (simp_all add: audit_def put_state_def del_state_def setErrorData_def bindCaught_def releaseCaught_def split: option.split)

lemma place_updates [simp]:
  "i_Task (audit ev task c j) = i_Task j" "i_TaskEpoch (audit ev task c j) = i_TaskEpoch j" "ident (audit ev task c j) = ident j"
  "i_Task (put_state k v j) = i_Task j" "i_TaskEpoch (put_state k v j) = i_TaskEpoch j" "ident (put_state k v j) = ident j"
  "i_Task (del_state k j) = i_Task j" "i_TaskEpoch (del_state k j) = i_TaskEpoch j" "ident (del_state k j) = ident j"
  "i_Task (releaseCaught old j) = i_Task j" "i_TaskEpoch (releaseCaught old j) = i_TaskEpoch j" "ident (releaseCaught old j) = ident j"
  "i_Task (bindCaught ev' j) = i_Task j" "i_TaskEpoch (bindCaught ev' j) = i_TaskEpoch j" "ident (bindCaught ev' j) = ident j"
  "e_reached (audit ev task c j) = e_reached j" "e_reached (put_state k v j) = e_reached j" "e_reached (del_state k j) = e_reached j"
  "e_reached (releaseCaught old j) = e_reached j" "e_reached (bindCaught ev' j) = e_reached j"
  by (simp_all add: audit_def put_state_def del_state_def bindCaught_def releaseCaught_def ident_def split: option.split)

lemma ident_updates [simp]:
  "ident (j\<lparr>i_Status := st\<rparr>) = ident j" "ident (j\<lparr>i_Phase := ph\<rparr>) = ident j"
  "ident (j\<lparr>i_ErrorMessage := m\<rparr>) = ident j" "ident (j\<lparr>i_ErrorCode := c\<rparr>) = ident j"
  "ident (j\<lparr>i_WakeAt := w\<rparr>) = ident j" "ident (j\<lparr>i_RetryCount := n\<rparr>) = ident j" "ident (j\<lparr>i_Task := t\<rparr>) = ident j"
  "ident (j\<lparr>i_TaskEpoch := e\<rparr>) = ident j" "ident (j\<lparr>e_reached := r\<rparr>) = ident j" "ident (j\<lparr>e_Engine := es\<rparr>) = ident j"
  "ident (j\<lparr>e_Config := cfg\<rparr>) = ident j" "ident (j\<lparr>i_NextReplayable := b\<rparr>) = ident j" "ident (j\<lparr>e_ExternalLost := lost\<rparr>) = ident j"
  "ident (j\<lparr>i_ConsumedSignalID := g\<rparr>) = ident j"
  by (simp_all add: ident_def)

lemma failInstance_simps [simp]:
  "still i (failInstance c m j) = still i j" "i_Status (failInstance c m i) = StatusFailed"
  "i_Phase (failInstance c m i) = PhaseNone" "i_ErrorCode (failInstance c m i) = c" "ident (failInstance c m i) = ident i"
  "i_Task (failInstance c m i) = i_Task i" "i_TaskEpoch (failInstance c m i) = i_TaskEpoch i" "e_reached (failInstance c m i) = e_reached i"
  by (simp_all add: failInstance_def)

subsection \<open>Ends of a task\<close>

text \<open>An end: the row concludes in place, with a code unless it completed.\<close>

definition ended :: "einst \<Rightarrow> einst \<Rightarrow> bool" where
  "ended i j \<longleftrightarrow> still i j \<and> i_Status j \<in> {StatusCompleted, StatusFailed, StatusRaised} \<and> i_Phase j \<in> {i_Phase i, PhaseNone}"

lemma ended_updates [simp]:
  "ended i (audit ev task c j) = ended i j" "ended i (put_state k v j) = ended i j" "ended i (del_state k j) = ended i j"
  "ended i (setErrorData v j) = ended i j" "ended i (releaseCaught old j) = ended i j"
  by (simp_all add: ended_def)

lemma ended_from: "still i i' \<Longrightarrow> i_Phase i' \<in> {i_Phase i, PhaseNone} \<Longrightarrow> ended i' j \<Longrightarrow> ended i j"
  by (auto simp: ended_def intro: still_trans)

lemma failInstance_ended: "ended i (failInstance c m i)"
  by (simp add: ended_def)

lemma faultMessage_still: "faultMessage X f self i = (msg, j) \<Longrightarrow> still i j \<and> i_Phase j = i_Phase i \<and> i_Status j = i_Status i"
  by (auto simp: faultMessage_def split: sum.splits jval.splits)

lemma raiseInstance_ended: "ended i (raiseInstance X t f self i)"
  by (auto simp: raiseInstance_def ended_def dest: faultMessage_still split: sum.splits prod.splits)

lemma panicInstance_ended: "ended i (panicInstance X t f self i)"
  by (auto simp: panicInstance_def ended_def dest: faultMessage_still split: sum.splits prod.splits)

lemma computeOutput_still: "computeOutput X i = Inr j \<Longrightarrow> still i j \<and> i_Phase j = i_Phase i \<and> i_Status j = i_Status i"
  by (auto simp: computeOutput_def split: sum.splits if_splits)

lemma complete_ended: "i_Status i = StatusCompleted \<Longrightarrow> ended i (complete X ev task c i)"
  by (auto simp: complete_def ended_def dest: computeOutput_still split: sum.splits)

lemma completeViaErrorHandler_ended: "ended i (completeViaErrorHandler X t c i)"
  unfolding completeViaErrorHandler_def by (rule ended_from [OF _ _ complete_ended]) simp_all

subsection \<open>A failed call\<close>

text \<open>A failed call concludes the row, or moves it to the next occurrence of some task, still running.\<close>

definition handled :: "einst \<Rightarrow> einst \<times> advance_outcome \<Rightarrow> bool" where
  "handled i r \<longleftrightarrow> (case r of (j, out) \<Rightarrow>
     out = OutcomeTerminal \<and> ended i j \<or>
     out = OutcomeUpdate \<and> ident j = ident i \<and> e_reached j = e_reached i \<and> i_TaskEpoch j = i_TaskEpoch i + 1 \<and>
       i_Status j = i_Status i \<and> i_Phase j \<in> {i_Phase i, PhaseNone})"

lemma handledI_end: "ended i j \<Longrightarrow> handled i (j, OutcomeTerminal)"
  by (simp add: handled_def)

lemma handled_from:
  assumes "still i i'" "i_Phase i' \<in> {i_Phase i, PhaseNone}" "i_Status i' = i_Status i" "handled i' r"
  shows "handled i r"
  using assms by (auto simp: handled_def still_def ended_def split: prod.splits)

lemma routeError_handled: "handled i (routeError X t m c matched i)"
  by (auto simp: routeError_def Let_def enterTask_def failInstance_ended raiseInstance_ended panicInstance_ended
      completeViaErrorHandler_ended intro!: handledI_end split: option.splits sum.splits)
    (simp add: handled_def)

lemma handleCallErrorWith_handled: "handled i (handleCallErrorWith X t m c extra i)"
proof (cases "\<exists>matched policy. matchOnErrorWith t c (caseEvaluator X i (call_error t m c extra)) = Inr matched \<and>
    policy_of X i matched (call_error t m c extra) = Inr policy")
  case True
  then obtain matched policy where m: "matchOnErrorWith t c (caseEvaluator X i (call_error t m c extra)) = Inr matched"
    "policy_of X i matched (call_error t m c extra) = Inr policy" by blast
  let ?msg = "''task '' @ quote X (tk_ID t) @ '': '' @ c @ '': '' @ m"
  obtain j out where r: "routeError X t ?msg c matched (bindCaught (call_error t m c extra) i) = (j, out)" by fastforce
  have "handled i (j, out)"
    using routeError_handled [of "bindCaught (call_error t m c extra) i" X t ?msg c matched] r
    by (auto intro: handled_from [rotated -1])
  then show ?thesis
    using m r by (auto simp: handleCallErrorWith_def Let_def grantRetry_def handled_def ended_def)
next
  case False
  then show ?thesis
    by (auto simp: handleCallErrorWith_def Let_def failInstance_ended intro: handledI_end split: sum.splits)
qed

lemma handleCallError_handled: "handled i (handleCallError X t m c i)"
  by (simp add: handleCallError_def handleCallErrorWith_handled)


subsection \<open>Actions\<close>

text \<open>A child that belongs to the batch its parent is about to wait for.\<close>

definition fits :: "('sc, 'd, 'p, 'f) engine \<Rightarrow> string \<Rightarrow> einst \<Rightarrow> einst \<Rightarrow> bool" where
  "fits X task p c \<longleftrightarrow> i_ParentID c = i_ID p \<and> i_CallStack c = i_CallStack p @ [i_ID p] \<and> i_SpawnTaskID c = task \<and>
     i_ParentTaskEpoch c = i_TaskEpoch p \<and> i_Phase c = PhaseNone \<and> (\<exists>n. i_ID c = NextID X n)"

text \<open>What was reached: nothing, or the task's request.\<close>

definition may_reach :: "string \<Rightarrow> einst \<Rightarrow> einst \<Rightarrow> bool" where
  "may_reach task i j \<longleftrightarrow> e_reached j \<in> {e_reached i, e_reached i @ [task]}"

text \<open>How a task may stop an advance. Only an end and a move to the next occurrence follow a request.\<close>

fun stopped :: "('sc, 'd, 'p, 'f) engine \<Rightarrow> string \<Rightarrow> einst \<Rightarrow> einst \<Rightarrow> advance_outcome \<Rightarrow> bool" where
  "stopped X task i j OutcomeTerminal \<longleftrightarrow> may_reach task i j \<and> i_Task j = i_Task i \<and> i_TaskEpoch j = i_TaskEpoch i \<and>
     i_Status j \<in> {StatusCompleted, StatusFailed, StatusRaised} \<and> i_Phase j \<in> {i_Phase i, PhaseNone}"
| "stopped X task i j OutcomeUpdate \<longleftrightarrow> may_reach task i j \<and> i_TaskEpoch j = i_TaskEpoch i + 1 \<and>
     i_Status j = i_Status i \<and> i_Phase j \<in> {i_Phase i, PhaseNone}"
| "stopped X task i j OutcomeProgress \<longleftrightarrow> still i j \<and> i_Status j = i_Status i \<and> i_Phase j = i_Phase i"
| "stopped X task i j (OutcomeArm a) \<longleftrightarrow> still i j \<and> i_Status j = i_Status i \<and> i_Phase j = i_Phase i"
| "stopped X task i j (OutcomeSpawn cs) \<longleftrightarrow> still i j \<and> i_Status j = i_Status i \<and> i_Phase j = i_Phase i \<and> (\<forall>c \<in> set cs. fits X task j c)"
| "stopped X task i j (OutcomeRespawn retired cs) \<longleftrightarrow> still i j \<and> i_Status j = i_Status i \<and>
     (\<exists>siblings. ChildrenForTask X (i_ID i) task (i_TaskEpoch i) = Inr siblings \<and>
        set retired \<subseteq> i_ID ` {c \<in> set siblings. i_Status c = StatusRaised} \<and>
        ((\<forall>c \<in> set siblings. i_ParentTaskEpoch c = i_TaskEpoch i) \<longrightarrow> (\<forall>c \<in> set cs. fits X task j c)))"

definition acted :: "('sc, 'd, 'p, 'f) engine \<Rightarrow> string \<Rightarrow> einst \<Rightarrow> einst \<times> 'a task_verdict \<Rightarrow> bool" where
  "acted X task i r \<longleftrightarrow> (case r of (j, v) \<Rightarrow> ident j = ident i \<and>
     (case v of
        Continue _ \<Rightarrow> may_reach task i j \<and> i_Task j = i_Task i \<and> i_TaskEpoch j = i_TaskEpoch i \<and> i_Status j = i_Status i \<and>
          i_Phase j \<in> {i_Phase i, PhaseNone}
      | Panics \<Rightarrow> still i j \<and> i_Status j = i_Status i \<and> i_Phase j = i_Phase i
      | Stop out \<Rightarrow> stopped X task i j out))"

lemma still_simps:
  "still i j \<Longrightarrow> ident j = ident i" "still i j \<Longrightarrow> i_Task j = i_Task i" "still i j \<Longrightarrow> i_TaskEpoch j = i_TaskEpoch i"
  "still i j \<Longrightarrow> e_reached j = e_reached i"
  by (simp_all add: still_def)

lemma handled_acted:
  assumes "handled i' r" "ident i' = ident i" "may_reach task i i'" "i_Task i' = i_Task i" "i_TaskEpoch i' = i_TaskEpoch i"
    "i_Status i' = i_Status i" "i_Phase i' \<in> {i_Phase i, PhaseNone}"
  shows "acted X task i (handle_stop r)"
  using assms by (auto simp: handled_def acted_def handle_stop_def ended_def still_def may_reach_def split: prod.splits)

lemma acted_fail: "acted X task i (failInstance c m i, Stop OutcomeTerminal)"
  by (simp add: acted_def may_reach_def still_simps [of i "failInstance c m i"])

lemma noteReached_simps [simp]:
  "ident (noteReached task b i) = ident i" "may_reach task i (noteReached task b i)" "i_Task (noteReached task b i) = i_Task i"
  "i_TaskEpoch (noteReached task b i) = i_TaskEpoch i" "i_Status (noteReached task b i) = i_Status i" "i_Phase (noteReached task b i) = i_Phase i"
  "may_reach task i (noteReached task b (audit ev tk c i))"
  by (simp_all add: noteReached_def may_reach_def)

lemma may_reach_updates [simp]:
  "may_reach task i (audit ev tk c j) = may_reach task i j" "may_reach task i (j\<lparr>i_RetryCount := n\<rparr>) = may_reach task i j"
  "may_reach task i i"
  by (simp_all add: may_reach_def)

lemma answerAction_acted:
  assumes "ident i' = ident i" "may_reach task i i'" "i_Task i' = i_Task i" "i_TaskEpoch i' = i_TaskEpoch i" "i_Status i' = i_Status i"
    "i_Phase i' = i_Phase i"
  shows "acted X task i (answerAction X t a resp i')"
proof -
  have h: "acted X task i (handle_stop r)" if "handled i' r" for r
    by (rule handled_acted [OF that]) (simp_all add: assms)
  have h': "acted X task i (handle_stop r)" if "handled (audit ev tk c i') r" for ev tk c r
    by (rule handled_acted [OF that]) (simp_all add: assms)
  have "acted X task i (audit ev tk c (i'\<lparr>i_RetryCount := 0\<rparr>), Continue v)" for ev tk c v
    using assms by (simp add: acted_def)
  then show ?thesis
    unfolding answerAction_def Let_def
    by (auto intro!: h' [OF handleCallErrorWith_handled] h' [OF handleCallError_handled] h [OF handleCallError_handled]
        split: prod.split sum.split)
qed

lemma executeAction_acted: "acted X (tk_ID t) i (executeAction X t a i)"
  unfolding executeAction_def Let_def
  by (auto intro!: acted_fail handled_acted [OF handleCallError_handled] answerAction_acted split: sum.splits prod.splits)

lemma runDelay_acted: "acted X task i (runDelay X t a i)"
  by (auto simp: runDelay_def acted_fail split: sum.splits) (simp_all add: acted_def)

lemma clearExternalPark_simps [simp]:
  "still i (clearExternalPark j) = still i j" "i_Status (clearExternalPark j) = i_Status j" "i_Phase (clearExternalPark j) = i_Phase j"
  "i_Task (clearExternalPark j) = i_Task j" "i_TaskEpoch (clearExternalPark j) = i_TaskEpoch j" "e_reached (clearExternalPark j) = e_reached j"
  "ident (clearExternalPark j) = ident j"
  by (simp_all add: clearExternalPark_def)

lemma stop_acted:
  assumes "still i i'" "i_Status i' = i_Status i" "i_Phase i' \<in> {i_Phase i, PhaseNone}" "handled i' r"
  shows "acted X task i (handle_stop r)"
  using handled_acted [OF assms(4), of i task] assms(1-3) by (auto simp: still_def may_reach_def)

lemma runExternal_acted: "acted X task i (runExternal X t a i)"
proof -
  have c: "acted X task i (consumeAnswer X t sid outcome i)" for sid outcome
    by (auto simp: consumeAnswer_def Let_def intro!: stop_acted [OF _ _ _ handleCallErrorWith_handled] split: external_outcome.splits)
      (simp_all add: acted_def may_reach_def)
  have l: "acted X task i (lapsePark X t i)"
    by (auto simp: lapsePark_def Let_def intro!: stop_acted [OF _ _ _ handleCallError_handled])
  have "acted X task i (armExternal X t a i)"
    by (auto simp: armExternal_def acted_fail split: sum.splits) (simp add: acted_def)
  then show ?thesis using c l by (auto simp: runExternal_def acted_fail split: sum.splits option.splits)
qed

end
