(* ===== verification/Engine_Contract.thy ===== *)
theory Engine_Contract
  imports Engine_Frame
begin

text \<open>The contract of a whole advance, from those of its actions.\<close>

subsection \<open>Batches\<close>

lemma at_child_Inr [simp]: "at_child c what r = Inr x \<longleftrightarrow> r = Inr x"
  by (cases r) (simp_all add: at_child_def)

lemma newChildInstance_fits: "newChildInstance i t def v input (NextID X n) ctx = Inr c \<Longrightarrow> fits X (tk_ID t) i c"
  by (auto simp: newChildInstance_def fits_def split: list.splits)

lemma buildChild_fits: "buildChild X t i label name version depKey input decl n ctx = Inr c \<Longrightarrow> fits X (tk_ID t) i c"
  by (auto simp: buildChild_def Let_def rbind_Inr intro: newChildInstance_fits)

lemma build_entries_fits: "build_entries X t i n es = Inr cs \<Longrightarrow> \<forall>c \<in> set cs. fits X (tk_ID t) i c"
  by (induction X t i n es arbitrary: cs rule: build_entries.induct) (auto simp: rbind_Inr dest: buildChild_fits)

lemma build_elements_fits: "build_elements X t a i v def n xs = Inr cs \<Longrightarrow> \<forall>c \<in> set cs. fits X (tk_ID t) i c"
  by (induction X t a i v def n xs arbitrary: cs rule: build_elements.induct)
    (auto simp: rbind_Inr Let_def dest: newChildInstance_fits)

lemma array_case_Inr:
  "(case v of JArr items \<Rightarrow> f items | _ \<Rightarrow> Inl e) = Inr y \<longleftrightarrow> (\<exists>items. v = JArr items \<and> f items = Inr y)"
  by (cases v) simp_all

lemma buildListChildren_fits: "buildListChildren X t a i = Inr cs \<Longrightarrow> \<forall>c \<in> set cs. fits X (tk_ID t) i c"
  unfolding buildListChildren_def Let_def rbind_Inr
  by (auto simp: rbind_Inr array_case_Inr split: if_splits dest!: build_elements_fits)

lemma build_batch_fits: "build_batch X t a i = Inr cs \<Longrightarrow> \<forall>c \<in> set cs. fits X (tk_ID t) i c"
  using buildListChildren_fits [of X t a i cs] build_entries_fits [of X t i 0 "sort_key fst (ac_Children a)" cs]
  by (auto simp: build_batch_def buildMapChildren_def buildSingleChild_def rbind_Inr dest: buildChild_fits split: if_splits)

lemma freshBatch_fits:
  assumes "freshBatch X t a i = Inr fresh" "fresh slot = Some c"
  shows "fits X (tk_ID t) i c"
proof -
  obtain cs where cs: "build_batch X t a i = Inr cs" "fresh = map_of (map (\<lambda>c. (slotID c, c)) (rev cs))"
    using assms(1) by (cases "build_batch X t a i") (auto simp: freshBatch_def)
  then have "c \<in> set cs" using map_of_SomeD [of _ slot c] assms(2) by fastforce
  then show ?thesis using build_batch_fits [OF cs(1)] by blast
qed

lemma admitRetries_fits:
  assumes "admitRetries X t a i override raised = Inr adm"
  shows "fst ` set adm \<subseteq> i_ID ` set raised \<and>
    ((\<forall>c \<in> set raised. i_ParentTaskEpoch c = i_TaskEpoch i) \<longrightarrow> (\<forall>c \<in> snd ` set adm. fits X (tk_ID t) i c))"
  using assms
proof (induction raised arbitrary: adm)
  case (Cons c cs)
  from Cons.prems consider "admitRetries X t a i override cs = Inr adm"
    | policy fresh r rest where "freshBatch X t a i = Inr fresh" "respawnChild X c fresh (spawnAttempt c + 1) policy = Inr r"
        "admitRetries X t a i override cs = Inr rest" "adm = (i_ID c, r) # rest"
    by (auto simp: rbind_Inr split: option.splits)
  then show ?case
  proof cases
    case 2
    then obtain f where f: "fresh (slotID c) = Some f" "i_ParentID r = i_ParentID f" "i_CallStack r = i_CallStack f"
      "i_SpawnTaskID r = i_SpawnTaskID f" "i_ParentTaskEpoch r = i_ParentTaskEpoch c" "i_Phase r = i_Phase f" "i_ID r = i_ID f"
      by (auto simp: respawnChild_def split: option.splits)
    have "fits X (tk_ID t) i r" if "i_ParentTaskEpoch c = i_TaskEpoch i"
      using freshBatch_fits [OF 2(1) f(1)] f that by (auto simp: fits_def)
    then show ?thesis using Cons.IH [OF 2(3)] 2(4) by auto
  qed (use Cons.IH in auto)
qed simp

lemma raised_siblings: "set (raisedInSlotOrder a siblings) = {c \<in> set siblings. i_Status c = StatusRaised}"
  by (simp add: raisedInSlotOrder_def Let_def)

lemma build_stop_acted:
  "still i i' \<Longrightarrow> i_Status i' = i_Status i \<Longrightarrow> i_Phase i' = i_Phase i \<Longrightarrow> acted X task i (build_stop f i')"
  by (auto simp: build_stop_def acted_def may_reach_def dest: still_simps split: build_fail.splits)

lemma released_handled:
  assumes "handled (bindCaught ev i) r"
  shows "handled i (case r of (k, out) \<Rightarrow> (put_state StateLastError v (releaseCaught i k), out))"
  using handled_from [of i "bindCaught ev i" r] assms by (auto simp: handled_def ended_def split: prod.splits)

lemma fail_handled: "handled i (failInstance c m i, OutcomeTerminal)"
  by (rule handledI_end) (rule failInstance_ended)

lemma routeBatch_handled: "handled i (routeBatch X t a first i)"
proof (cases "raisedData X a first (i_ErrorCode first)")
  case (Inl e)
  then show ?thesis by (cases e) (simp_all add: routeBatch_def handleCallError_handled fail_handled)
next
  case (Inr data)
  let ?j = "bindCaught (batchErrorValue t first data) i"
  have h: "handled ?j (case matchOnErrorWith t c eval of Inl e \<Rightarrow> (failInstance c' (m e) ?j, OutcomeTerminal)
      | Inr rule \<Rightarrow> routeError X t m' c rule ?j)" for c c' eval m m'
    by (auto simp: fail_handled routeError_handled split: sum.split)
  show ?thesis unfolding routeBatch_def Inr Let_def sum.case by (rule released_handled) (rule h)
qed

lemma resolveRaisedBatch_acted:
  assumes "ChildrenForTask X (i_ID i) (tk_ID t) (i_TaskEpoch i) = Inr siblings"
  shows "acted X (tk_ID t) i (resolveRaisedBatch X t a (raisedInSlotOrder a siblings) i :: einst \<times> 'b task_verdict)"
proof -
  let ?i = "i\<lparr>e_Engine := (e_Engine i)\<lparr>es_retry_override := False\<rparr>\<rparr>" and ?raised = "raisedInSlotOrder a siblings"
  show ?thesis
  proof (cases "admitRetries X t a ?i (es_retry_override (e_Engine i)) ?raised")
    case (Inl f)
    then show ?thesis by (simp add: resolveRaisedBatch_def build_stop_acted)
  next
    case (Inr adm)
    note fit = admitRetries_fits [OF Inr]
    have stop: "stopped X (tk_ID t) i (?i\<lparr>i_Phase := PhaseChildren\<rparr>) (OutcomeRespawn (map fst adm) (map snd adm))"
      using fit assms by (auto simp: raised_siblings fits_def image_iff) (metis+)?
    have route: "acted X (tk_ID t) i (handle_stop (routeBatch X t a (hd ?raised) (?i\<lparr>i_Phase := PhaseNone\<rparr>)))"
      by (rule stop_acted [OF _ _ _ routeBatch_handled]) simp_all
    have ident: "ident (?i\<lparr>i_Phase := PhaseChildren\<rparr>) = ident i" by simp
    show ?thesis
    proof (cases "adm = []")
      case True
      then show ?thesis using Inr route by (simp add: resolveRaisedBatch_def Let_def)
    next
      case False
      then have "(resolveRaisedBatch X t a ?raised i :: einst \<times> 'b task_verdict) = (?i\<lparr>i_Phase := PhaseChildren\<rparr>, Stop (OutcomeRespawn (map fst adm) (map snd adm)))"
        using Inr by (simp add: resolveRaisedBatch_def Let_def)
      then show ?thesis using stop ident by (simp only: acted_def prod.case task_verdict.case)
    qed
  qed
qed


lemma collectBatch_acted: "acted X (tk_ID t) i (collectBatch X t a i)"
proof (cases "ChildrenForTask X (i_ID i) (tk_ID t) (i_TaskEpoch i)")
  case (Inl e)
  then show ?thesis by (simp add: collectBatch_def Let_def acted_def may_reach_def)
next
  case (Inr siblings)
  have f: "acted X (tk_ID t) i (failInstance c m (i\<lparr>i_Phase := PhaseNone\<rparr>), Stop OutcomeTerminal)" for c m
    by (simp add: acted_def may_reach_def)
  have o: "acted X (tk_ID t) i (audit ev tk c (i\<lparr>i_Phase := PhaseNone\<rparr>), Continue v)" for ev tk c v
    by (simp add: acted_def may_reach_def)
  have h: "acted X (tk_ID t) i (handle_stop (handleCallError X t m c (i\<lparr>i_Phase := PhaseNone\<rparr>)))" for m c
    by (rule stop_acted [OF _ _ _ handleCallError_handled]) simp_all
  show ?thesis
    using Inr by (auto simp: collectBatch_def Let_def f o h resolveRaisedBatch_acted split: sum.split collect_error.split)
qed

lemma runChildProcesses_acted: "acted X (tk_ID t) i (runChildProcesses X t a i)"
proof (cases "i_Phase i = PhaseCollecting")
  case False
  show ?thesis
  proof (cases "build_batch X t a i")
    case (Inr cs)
    have "acted X (tk_ID t) i (i\<lparr>i_RetryCount := 0, i_WakeAt := None\<rparr>, Stop (OutcomeSpawn cs) :: jval task_verdict)"
      using build_batch_fits [OF Inr] by (auto simp: acted_def fits_def)
    moreover have "acted X (tk_ID t) i (audit ev tk c i, Continue v)" for ev tk c and v :: jval
      by (simp add: acted_def)
    ultimately show ?thesis using False Inr by (simp add: runChildProcesses_def)
  qed (use False in \<open>simp add: runChildProcesses_def build_stop_acted\<close>)
qed (simp add: runChildProcesses_def collectBatch_acted)

lemma runAction_acted: "acted X (tk_ID t) i (runAction X t a i)"
proof -
  have "acted X (tk_ID t) i (no_meta r)" if "acted X (tk_ID t) i r" for r
    using that by (auto simp: no_meta_def acted_def split: prod.splits task_verdict.splits)
  moreover have "acted X (tk_ID t) i (case r of (i, Continue x) \<Rightarrow> (i, Continue (f x)) | (i, Stop out) \<Rightarrow> (i, Stop out) | (i, Panics) \<Rightarrow> (i, Panics))"
    if "acted X (tk_ID t) i r" for r :: "einst \<times> 'x task_verdict" and f :: "'x \<Rightarrow> 'y"
    using that by (auto simp: acted_def split: prod.splits task_verdict.splits)
  note lift = this [of _ "\<lambda>_. (JNull, None)"] this [of _ "\<lambda>(v, m). (v, Some m)"]
  ultimately show ?thesis
    using runChildProcesses_acted [of X t i a] runExternal_acted [of X "tk_ID t" i t a]
      lift(1) [OF runDelay_acted [of X "tk_ID t" i t a]] lift(2) [OF executeAction_acted [of X t i a]]
    by (auto simp: runAction_def case_prod_unfold)
qed

subsection \<open>One task\<close>

text \<open>What a stopped advance may write.\<close>

fun writable :: "('sc, 'd, 'p, 'f) engine \<Rightarrow> ('sc, 'f) process_definition \<Rightarrow> einst \<Rightarrow> advance_outcome \<Rightarrow> bool" where
  "writable X def j OutcomeTerminal \<longleftrightarrow> i_Status j \<in> {StatusCompleted, StatusFailed, StatusRaised} \<and> i_Phase j \<noteq> PhaseChildren"
| "writable X def j (OutcomeSpawn cs) \<longleftrightarrow> i_Status j = StatusRunning \<and> i_Task j \<in> tk_ID ` set (pd_Tasks def) \<and> (\<forall>c \<in> set cs. fits X (i_Task j) j c)"
| "writable X def j (OutcomeRespawn retired cs) \<longleftrightarrow> i_Status j = StatusRunning \<and> i_Task j \<in> tk_ID ` set (pd_Tasks def) \<and>
     (\<exists>siblings. ChildrenForTask X (i_ID j) (i_Task j) (i_TaskEpoch j) = Inr siblings \<and>
        set retired \<subseteq> i_ID ` {c \<in> set siblings. i_Status c = StatusRaised} \<and>
        ((\<forall>c \<in> set siblings. i_ParentTaskEpoch c = i_TaskEpoch j) \<longrightarrow> (\<forall>c \<in> set cs. fits X (i_Task j) j c)))"
| "writable X def j out \<longleftrightarrow> i_Status j = StatusRunning \<and> i_Phase j \<noteq> PhaseChildren"

text \<open>
  What an advance that began at task number \<open>idx\<close> may have reached: one task, and one marked \<open>only_once\<close>
  only if the advance began there.
\<close>

definition reach_rule :: "('sc, 'f) process_definition \<Rightarrow> bool \<Rightarrow> int \<Rightarrow> einst \<Rightarrow> einst \<Rightarrow> bool" where
  "reach_rule def first idx i j \<longleftrightarrow> e_reached j = e_reached i \<or>
     (\<exists>t \<in> set (pd_Tasks def). e_reached j = e_reached i @ [tk_ID t] \<and>
        (OnlyOnceAction t \<longrightarrow> first \<and> 0 \<le> idx \<and> idx < int (length (pd_Tasks def)) \<and> t = pd_Tasks def ! nat idx))"

fun ran_ok :: "('sc, 'd, 'p, 'f) engine \<Rightarrow> ('sc, 'f) process_definition \<Rightarrow> bool \<Rightarrow> int \<Rightarrow> einst \<Rightarrow> advance_step \<Rightarrow> bool" where
  "ran_ok X def first idx i (Finished j out) \<longleftrightarrow> ident j = ident i \<and> writable X def j out \<and> reach_rule def first idx i j \<and>
     i_TaskEpoch i \<le> i_TaskEpoch j \<and> (e_reached j \<noteq> e_reached i \<longrightarrow> out = OutcomeTerminal \<or> i_TaskEpoch i < i_TaskEpoch j)"
| "ran_ok X def first idx i (Crashed j) \<longleftrightarrow> ident j = ident i \<and> i_Phase j \<noteq> PhaseChildren \<and> reach_rule def first idx i j \<and>
     i_TaskEpoch i \<le> i_TaskEpoch j"
| "ran_ok X def first idx i (Moved j n hasCall) \<longleftrightarrow> ident j = ident i \<and> i_Status j = StatusRunning \<and> i_Phase j \<noteq> PhaseChildren \<and>
     reach_rule def first idx i j \<and> i_TaskEpoch i < i_TaskEpoch j \<and> (\<not> hasCall \<longrightarrow> e_reached j = e_reached i)"


lemma followCase_ran:
  assumes i: "ident i' = ident i" "i_Status i' = StatusRunning" "i_Phase i' \<noteq> PhaseChildren" "i_TaskEpoch i' = i_TaskEpoch i"
    and r: "reach_rule def first idx i i'" "tk_Action t = None \<longrightarrow> e_reached i' = e_reached i"
  shows "ran_ok X def first idx i (followCase X def idx t self c i')"
proof -
  have e: "ran_ok X def first idx i (Finished j OutcomeTerminal)" if "ended i' j" for j
    using that assms by (auto simp: ended_def still_def reach_rule_def)
  have c: "ran_ok X def first idx i (Finished (complete X EventInstanceDone (tk_ID t) [] (i'\<lparr>i_Status := StatusCompleted, i_RetryCount := 0, i_WakeAt := None\<rparr>)) OutcomeTerminal)"
    by (rule e) (rule ended_from [OF _ _ complete_ended]; simp)
  have m: "ran_ok X def first idx i (Moved (audit EventTaskCompleted (tk_ID t) []
      ((del_state StateLastError (enterTask task i'))\<lparr>i_RetryCount := 0, i_WakeAt := None\<rparr>)) n (tk_Action t \<noteq> None))" for task n
    using assms by (auto simp: enterTask_def reach_rule_def)
  have k: "ran_ok X def first idx i (Crashed i')" using assms by simp
  note ends = e [OF raiseInstance_ended] e [OF panicInstance_ended] e [OF failInstance_ended] c m k
  show ?thesis
    by (simp only: followCase_def failed_def Let_def split: option.split if_split) (intro conjI allI impI ends)
qed


lemma setTaskOutput_put: "setTaskOutput task v i = Some j \<Longrightarrow> \<exists>w. j = put_state ''outputs'' w i"
  by (auto simp: setTaskOutput_def split: option.splits jval.splits)

text \<open>Where a task stands when its action is done.\<close>

definition midway :: "('sc, 'f) process_definition \<Rightarrow> bool \<Rightarrow> int \<Rightarrow> ('sc, 'f) task \<Rightarrow> einst \<Rightarrow> einst \<Rightarrow> bool" where
  "midway def first idx t i j \<longleftrightarrow> ident j = ident i \<and> i_Status j = StatusRunning \<and> i_Phase j \<noteq> PhaseChildren \<and>
     i_TaskEpoch j = i_TaskEpoch i \<and> reach_rule def first idx i j \<and> (tk_Action t = None \<longrightarrow> e_reached j = e_reached i)"

lemma midway_fail: "midway def first idx t i j \<Longrightarrow> ran_ok X def first idx i (failed c m j)"
  by (auto simp: midway_def failed_def reach_rule_def)

lemma finishTask_ran:
  assumes "midway def first idx t i i'"
  shows "ran_ok X def first idx i (finishTask X def idx t result prior meta i')"
proof -
  have f: "ran_ok X def first idx i (followCase X def idx t self c j)" if "midway def first idx t i j" for self c j
    by (rule followCase_ran) (use that in \<open>auto simp: midway_def\<close>)
  have p: "midway def first idx t i (put_state k v i')" for k v
    using assms by (simp add: midway_def reach_rule_def)
  have k: "ran_ok X def first idx i (Crashed i')" using assms by (simp add: midway_def)
  have r: "ran_ok X def first idx i (case r of Inl e \<Rightarrow> failed EngineExpression (m e) j | Inr None \<Rightarrow> failed EngineDefinition m' j
      | Inr (Some c) \<Rightarrow> followCase X def idx t self c j)" if "midway def first idx t i j" for r m m' self j
    by (auto intro: midway_fail [OF that] f [OF that] split: sum.split option.split simp del: ran_ok.simps)
  show ?thesis
  proof (cases "Present (tk_Output t)")
    case False
    then show ?thesis using r [OF assms] by (simp add: finishTask_def Let_def del: ran_ok.simps)
  next
    case True
    show ?thesis
    proof (cases "evalTaskOutput X t result prior meta i'")
      case (Inl e)
      then show ?thesis using True midway_fail [OF assms] by (simp add: finishTask_def Let_def del: ran_ok.simps)
    next
      case (Inr out)
      show ?thesis
      proof (cases "setTaskOutput (tk_ID t) out i'")
        case None
        then show ?thesis using True Inr k by (simp add: finishTask_def Let_def)
      next
        case (Some j)
        then have "midway def first idx t i j" using setTaskOutput_put p by blast
        then show ?thesis using True Inr Some r by (simp add: finishTask_def Let_def del: ran_ok.simps)
      qed
    qed
  qed
qed

lemma acted_stop_writable:
  assumes a: "acted X (tk_ID t) i' (j, Stop out :: 'a task_verdict)" and t: "t \<in> set (pd_Tasks def)" "i_Task i' = tk_ID t"
    and i: "i_Status i' = StatusRunning" "i_Phase i' \<noteq> PhaseChildren"
  shows "writable X def j out"
proof -
  have "i_ID j = i_ID i'" using a by (simp add: acted_def ident_def)
  then show ?thesis using a t i
    by (cases out) (auto simp: acted_def still_def)
qed

lemma acted_stop_reach:
  assumes "acted X task i' (j, Stop out :: 'a task_verdict)"
  shows "may_reach task i' j" "e_reached j \<noteq> e_reached i' \<Longrightarrow> out = OutcomeTerminal \<or> i_TaskEpoch i' < i_TaskEpoch j"
    "i_TaskEpoch i' \<le> i_TaskEpoch j"
  using assms by (cases out; auto simp: acted_def still_def may_reach_def)+

lemma runTask_ran:
  assumes i: "i_Status i = StatusRunning" "i_Phase i \<noteq> PhaseChildren"
  shows "ran_ok X def first idx i (runTask X def first idx i)"
proof (cases "idx < 0 \<or> int (length (pd_Tasks def)) \<le> idx")
  case True
  have "ended (i\<lparr>i_Task := [], i_Status := StatusCompleted, i_WakeAt := None\<rparr>)
      (complete X EventInstanceDone [] [] (i\<lparr>i_Task := [], i_Status := StatusCompleted, i_WakeAt := None\<rparr>))"
    by (rule complete_ended) simp
  then show ?thesis using True i by (auto simp: runTask_def ended_def still_def reach_rule_def)
next
  case False
  define t where "t = pd_Tasks def ! nat idx"
  define i' where "i' = i\<lparr>i_Task := tk_ID t\<rparr>"
  have t: "t \<in> set (pd_Tasks def)" using False by (auto simp: t_def)
  have i': "ident i' = ident i" "i_Task i' = tk_ID t" "i_Status i' = StatusRunning" "i_Phase i' \<noteq> PhaseChildren"
    "i_TaskEpoch i' = i_TaskEpoch i" "e_reached i' = e_reached i"
    using i by (simp_all add: i'_def)
  have rule: "reach_rule def first idx i j" if "may_reach (tk_ID t) i' j" "first \<or> \<not> OnlyOnceAction t" for j
    using that t False i'(6) by (auto simp: reach_rule_def may_reach_def t_def)
  show ?thesis
  proof (cases "tk_Action t")
    case None
    have m: "midway def first idx t i i'" using i' None by (simp add: midway_def reach_rule_def)
    show ?thesis using None False finishTask_ran [OF m, of X] by (simp add: runTask_def Let_def t_def [symmetric] i'_def [symmetric] del: ran_ok.simps)
  next
    case (Some a)
    show ?thesis
    proof (cases "\<not> first \<and> OnlyOnceAction t")
      case True
      then show ?thesis using Some False i'
        by (simp add: runTask_def Let_def t_def [symmetric] i'_def [symmetric] reach_rule_def)
    next
      case go: False
      obtain j v where r: "runAction X t a i' = (j, v)" by fastforce
      have act: "acted X (tk_ID t) i' (j, v)" using runAction_acted [of X t i' a] r by simp
      have run: "runTask X def first idx i = (case v of Stop out \<Rightarrow> Finished j out | Panics \<Rightarrow> Crashed j
          | Continue rm \<Rightarrow> (case rm of (result, meta) \<Rightarrow> finishTask X def idx t result
              (if Present (tk_Output t) then previous_output (tk_ID t) i' else JNull) meta j))"
        using Some False go r by (auto simp: runTask_def Let_def t_def [symmetric] i'_def [symmetric] split: task_verdict.split)
      show ?thesis
      proof (cases v)
        case (Stop out)
        then have "acted X (tk_ID t) i' (j, Stop out :: (jval \<times> fetch_meta option) task_verdict)" using act by simp
        then show ?thesis
          using Stop run acted_stop_writable [OF _ t i'(2-4)] acted_stop_reach [of X "tk_ID t" i' j out] rule [of j] go i'(1,5,6)
          by (auto simp: acted_def)
      next
        case Panics
        then show ?thesis using run act rule [of j] go i' by (auto simp: acted_def may_reach_def still_def)
      next
        case (Continue rm)
        then have m: "midway def first idx t i j" using act rule [of j] go i' Some by (auto simp: acted_def midway_def)
        show ?thesis using Continue run finishTask_ran [OF m, of X] by (simp del: ran_ok.simps split: prod.split)
      qed
    qed
  qed
qed


subsection \<open>The chain\<close>

lemma ran_ok_chain:
  assumes "ran_ok X def first idx i (Moved j n False)" "ran_ok X def False n j s"
  shows "ran_ok X def first idx i s"
proof (cases s)
  case (Finished k out)
  then show ?thesis using assms by (auto simp: reach_rule_def)
next
  case (Crashed k)
  then show ?thesis using assms by (auto simp: reach_rule_def)
next
  case (Moved k m hasCall)
  then show ?thesis using assms by (auto simp: reach_rule_def)
qed

lemma ran_ok_yield: "ran_ok X def first idx i (Moved j n hasCall) \<Longrightarrow> ran_ok X def first idx i (Finished j OutcomeProgress)"
  by auto

lemma advance_loop_ran:
  assumes "i_Status i = StatusRunning" "i_Phase i \<noteq> PhaseChildren"
  shows "ran_ok X def first idx i (advance_loop X def first n idx i)"
  using assms
proof (induction X def first n idx i rule: advance_loop.induct)
  case (1 X def first idx i)
  show ?case using runTask_ran [OF 1, of X def first idx] ran_ok_yield
    by (cases "runTask X def first idx i") (auto simp del: ran_ok.simps)
next
  case (2 X def first n idx i)
  show ?case
  proof (cases "runTask X def first idx i")
    case (Moved j m hasCall)
    have r: "ran_ok X def first idx i (Moved j m hasCall)" using runTask_ran [OF 2(2,3), of X def first idx] Moved by simp
    show ?thesis
    proof (cases hasCall)
      case True
      then show ?thesis using Moved ran_ok_yield [OF r] by (simp del: ran_ok.simps)
    next
      case False
      have "ran_ok X def False m j (advance_loop X def False n m j)"
        using 2(1) [OF Moved False] r by simp
      then show ?thesis using ran_ok_chain r Moved False by (simp del: ran_ok.simps) blast
    qed
  qed (use runTask_ran [OF 2(2,3), of X def first idx] in \<open>simp_all del: ran_ok.simps\<close>)
qed

lemma advance_loop_stops: "advance_loop X def first n idx i \<noteq> Moved j m b"
  by (induction X def first n idx i rule: advance_loop.induct) (auto split: advance_step.split)

end
