(* ===== verification/Engine_Refine.thy ===== *)
theory Engine_Refine
  imports Engine_Contract Tree_Epochs
begin

text \<open>
  The engine and the database together: whatever an advance reached, what it writes is one of the steps
  the tree invariant was proved for.
\<close>

subsection \<open>A whole advance\<close>

lemma retry_from_Inr: "retry_from k n read = Inr v \<Longrightarrow> \<exists>m. read m = Inr v"
  by (induction k n read rule: retry_from.induct) (auto split: sum.splits)

lemma retryRead_Inr: "retryRead read = Inr v \<Longrightarrow> \<exists>m. read m = Inr v"
  by (auto simp: retryRead_def dest: retry_from_Inr)

lemma handled_writable:
  "handled i (j, out) \<Longrightarrow> i_Status i = StatusRunning \<Longrightarrow> i_Phase i \<noteq> PhaseChildren \<Longrightarrow> writable X def j out"
  by (auto simp: handled_def ended_def)

lemma writable_fail: "writable X def (failInstance c m i) OutcomeTerminal"
  by simp

text \<open>How a claimed instance leaves its advance, by the status it was claimed in.\<close>

definition advanced :: "('sc, 'd, 'p, 'f) engine \<Rightarrow> einst \<Rightarrow> einst \<Rightarrow> advance_outcome \<Rightarrow> bool" where
  "advanced X i j out \<longleftrightarrow> ident j = ident i \<and> i_TaskEpoch i \<le> i_TaskEpoch j \<and>
     ((\<exists>def. writable X def j out \<and>
         ((\<exists>m. GetDefinition X AtPrepare m (i_ProcessName i) (i_ProcessVersion i) = Inr def) \<or> out \<in> {OutcomeTerminal, OutcomeUpdate})) \<or>
      out = OutcomeTerminal \<and> i_Phase j = i_Phase i \<and>
        (i_Status i = StatusPausing \<and> i_Status j = StatusPaused \<or> i_Status i = StatusCancelling \<and> i_Status j = StatusCancelled))"

lemma prepareAdvance_cases:
  assumes "prepareAdvance X i = (j, r)" "i_Status i = StatusRunning" "i_Phase i \<noteq> PhaseChildren"
  obtains out where "r = Inl out" "handled i (j, out)"
  | def idx where "r = Inr (def, idx)" "still i j" "i_Status j = StatusRunning" "i_Phase j \<noteq> PhaseChildren"
      "definition_at X AtPrepare i = Inr def" "idx = taskIndex (pd_Tasks def) (i_Task i)"
      "\<not> (i_ReclaimedExpired i \<and> 0 \<le> idx \<and> OnlyOnceAction (pd_Tasks def ! nat idx))"
proof (cases "definition_at X AtPrepare i")
  case (Inl e)
  then show thesis using that(1) assms by (auto simp: prepareAdvance_def intro: fail_handled)
next
  case (Inr def)
  show thesis
  proof (cases "if pd_ConfigSchema def = None then Inr (e_Config i) else ResolveConfig X def")
    case (Inl e)
    then show thesis using that(1) Inr assms by (auto simp: prepareAdvance_def intro: fail_handled split: if_splits)
  next
    case cfg: (Inr cfg)
    let ?i = "i\<lparr>e_Config := cfg\<rparr>" and ?idx = "taskIndex (pd_Tasks def) (i_Task i)"
    have h: "handled i r'" if "handled ?i r'" for r' by (rule handled_from [OF _ _ _ that]) simp_all
    consider "i_Task i \<noteq> [] \<and> ?idx < 0" | "\<not> (i_Task i \<noteq> [] \<and> ?idx < 0)" "i_ReclaimedExpired i \<and> 0 \<le> ?idx \<and> OnlyOnceAction (pd_Tasks def ! nat ?idx)"
      | "\<not> (i_Task i \<noteq> [] \<and> ?idx < 0)" "\<not> (i_ReclaimedExpired i \<and> 0 \<le> ?idx \<and> OnlyOnceAction (pd_Tasks def ! nat ?idx))" by blast
    then show thesis
    proof cases
      case 1
      then have "j = failInstance EngineDefinition (''current task '' @ quote X (i_Task i) @ '' not found in definition'') ?i" "r = Inl OutcomeTerminal"
        using Inr cfg assms(1) by (auto simp: prepareAdvance_def Let_def)
      then show thesis using that(1) h [OF fail_handled] by blast
    next
      case 2
      then obtain out where "handleCallError X (pd_Tasks def ! nat ?idx) interruptedMessage OnlyOnceInterrupted ?i = (j, out)" "r = Inl out"
        using Inr cfg assms(1) by (auto simp: prepareAdvance_def Let_def split: prod.splits)
      then show thesis using that(1) h [OF handleCallError_handled] by metis
    next
      case 3
      then have "j = (if 0 \<le> ?idx then audit EventWorkStarted (i_Task i) [] ?i else ?i)" "r = Inr (def, ?idx)"
        using Inr cfg assms(1) by (auto simp: prepareAdvance_def Let_def)
      then show thesis using that(2) [of def ?idx] Inr 3 assms(2,3) by auto
    qed
  qed
qed

lemma advanceGuarded_advanced:
  assumes "advanceGuarded X i = (j, out)" "i_Status i \<in> {StatusRunning, StatusPausing, StatusCancelling}" "i_Phase i \<noteq> PhaseChildren"
  shows "advanced X i j out"
proof -
  consider "i_Status i = StatusCancelling" | "i_Status i = StatusPausing" | "i_Status i = StatusRunning" using assms(2) by blast
  then show ?thesis
  proof cases
    case 1
    then show ?thesis using assms(1) by (auto simp: advanceGuarded_def advance_def settleCancelling_def advanced_def)
  next
    case 2
    have settle: "advanced X i (settlePausing i) OutcomeTerminal" using 2 by (simp add: settlePausing_def advanced_def)
    have int: "advanced X i k out" if "handleCallError X t m c (i\<lparr>i_Status := StatusRunning\<rparr>) = (k, out)" for t m c k out
    proof -
      have h: "handled (i\<lparr>i_Status := StatusRunning\<rparr>) (k, out)" using handleCallError_handled [of "i\<lparr>i_Status := StatusRunning\<rparr>" X t m c] that by simp
      then show ?thesis using handled_writable [OF h] assms(3) by (auto simp: advanced_def handled_def ended_def still_def)
    qed
    show ?thesis using 2 assms(1) settle int
      by (auto simp: advanceGuarded_def advance_def split: option.splits if_splits prod.splits)
  next
    case 3
    obtain k r where p: "prepareAdvance X i = (k, r)" by fastforce
    from p 3 assms(3) show ?thesis
    proof (cases rule: prepareAdvance_cases)
      case (1 out')
      then have "j = k" "out = out'" using assms(1) 3 p by (auto simp: advanceGuarded_def advance_def)
      moreover have "out' \<in> {OutcomeTerminal, OutcomeUpdate}" "ident k = ident i" "i_TaskEpoch i \<le> i_TaskEpoch k"
        using 1(2) by (auto simp: handled_def ended_def still_def)
      ultimately show ?thesis using handled_writable [OF 1(2) 3 assms(3)] by (auto simp: advanced_def)
    next
      case (2 def idx)
      have run: "advance X i = advance_loop X def True maxInlineTasks idx k" using 3 p 2(1) by (simp add: advance_def)
      have ok: "ran_ok X def True idx k (advance X i)" using advance_loop_ran [OF 2(3,4)] run by simp
      have def: "\<exists>m. GetDefinition X AtPrepare m (i_ProcessName i) (i_ProcessVersion i) = Inr def"
        using retryRead_Inr 2(5) by (auto simp: definition_at_def)
      have k: "ident k = ident i" "i_TaskEpoch k = i_TaskEpoch i" using 2(2) by (simp_all add: still_def)
      show ?thesis
      proof (cases "advance X i")
        case (Finished l out')
        then have "j = l" "out = out'" using assms(1) by (auto simp: advanceGuarded_def)
        then show ?thesis using ok Finished def k by (auto simp: advanced_def)
      next
        case (Crashed l)
        then show ?thesis using ok assms(1) k by (auto simp: advanceGuarded_def advanced_def)
      next
        case (Moved l n b)
        then show ?thesis using advance_loop_stops run by metis
      qed
    qed
  qed
qed


subsection \<open>The write\<close>

lemma to_db_fields:
  assumes "to_db H i = Some d"
  shows "i_ID d = i_ID i" "i_ParentID d = i_ParentID i" "i_SpawnTaskID d = i_SpawnTaskID i" "i_ParentTaskEpoch d = i_ParentTaskEpoch i"
    "i_CallStack d = i_CallStack i" "i_WorkerID d = i_WorkerID i" "i_LeaseEpoch d = i_LeaseEpoch i" "i_Status d = i_Status i"
    "i_Phase d = i_Phase i" "i_Task d = i_Task i" "i_TaskEpoch d = i_TaskEpoch i"
  using assms by (auto simp: to_db_def inst.truncate_def split: option.splits)

lemma all_to_db_in: "all_to_db H is = Some ds \<Longrightarrow> d \<in> set ds \<Longrightarrow> \<exists>i \<in> set is. to_db H i = Some d"
  by (induction "is" arbitrary: ds) (auto split: option.splits)

text \<open>
  A worker holds the row it advances: its grant names a worker, the row is there and in the place the
  instance says, and a stop the instance was claimed with still stands on the row the fence matches.
\<close>

definition holds_row :: "row list \<Rightarrow> einst \<Rightarrow> bool" where
  "holds_row rows i \<longleftrightarrow> (\<exists>w. i_WorkerID i = Some w \<and> w \<noteq> []) \<and> (\<exists>x \<in> set rows. r_id x = i_ID i) \<and>
     (\<forall>x \<in> set rows. r_id x = i_ID i \<longrightarrow>
        i_ParentID i = r_parent_id x \<and> i_SpawnTaskID i = r_spawn_task_id x \<and> i_ParentTaskEpoch i = r_parent_task_epoch x \<and>
        i_CallStack i = r_call_stack x \<and> i_LeaseEpoch i \<le> r_lease_epoch x \<and>
        (r_lease_epoch x = i_LeaseEpoch i \<and> r_worker_id x = i_WorkerID i \<longrightarrow>
           i_Status i \<in> {StatusPausing, StatusCancelling} \<longrightarrow> r_status x = i_Status i))"

text \<open>What is assumed of the reads: names are not empty, and a batch is read by its epoch.\<close>

definition reads_ok :: "('sc, 'd, 'p, 'f) engine \<Rightarrow> bool" where
  "reads_ok X \<longleftrightarrow> (\<forall>n. NextID X n \<noteq> []) \<and>
     (\<forall>m name v def. GetDefinition X AtPrepare m name v = Inr def \<longrightarrow> (\<forall>t \<in> set (pd_Tasks def). tk_ID t \<noteq> [])) \<and>
     (\<forall>p task epoch cs. ChildrenForTask X p task epoch = Inr cs \<longrightarrow> (\<forall>c \<in> set cs. i_ParentTaskEpoch c = epoch))"

text \<open>The children a retry replaces, as read, are still raised when it writes.\<close>

definition retired_raised :: "row list \<Rightarrow> advance_outcome \<Rightarrow> bool" where
  "retired_raised rows out \<longleftrightarrow>
     (case out of OutcomeRespawn retired _ \<Rightarrow> \<forall>r \<in> set rows. r_id r \<in> set retired \<longrightarrow> r_status r = StatusRaised | _ \<Rightarrow> True)"

lemma coalesce_worker: "i_WorkerID d = Some w \<Longrightarrow> w \<noteq> [] \<Longrightarrow> coalesce_str x = fenceWorker d \<Longrightarrow> x = Some w"
  by (auto simp: fenceWorker_def coalesce_str_def split: option.splits)

lemma holds_engine_inst:
  assumes "holds_row rows i" "ident j = ident i" "to_db H (j\<lparr>i_NextReplayable := b\<rparr>) = Some d"
  shows "engine_inst rows d"
  using assms to_db_fields [OF assms(3)] by (auto simp: holds_row_def engine_inst_def ident_def)

lemma holds_fence:
  assumes "holds_row rows i" "ident j = ident i" "to_db H (j\<lparr>i_NextReplayable := b\<rparr>) = Some d" "x \<in> set rows" "inst_fence d x"
    "i_Status i \<in> {StatusPausing, StatusCancelling}"
  shows "r_status x = i_Status i"
proof -
  obtain w where w: "i_WorkerID i = Some w" "w \<noteq> []" using assms(1) by (auto simp: holds_row_def)
  have f: "r_id x = i_ID i" "r_lease_epoch x = i_LeaseEpoch i" "i_WorkerID d = i_WorkerID i" "coalesce_str (r_worker_id x) = fenceWorker d"
    using assms(2,5) to_db_fields [OF assms(3)] by (auto simp: inst_fence_def ident_def)
  have "r_worker_id x = i_WorkerID i" using coalesce_worker [of d w "r_worker_id x"] f w by simp
  then show ?thesis using assms(1,4,6) f by (auto simp: holds_row_def)
qed

lemma fits_batch_child:
  assumes "holds_row rows i" "ident j = ident i" "to_db H (j\<lparr>i_NextReplayable := b\<rparr>) = Some d" "all_to_db H cs = Some ds"
    "\<forall>c \<in> set cs. fits X (i_Task j) j c" "reads_ok X" "i_Task j \<noteq> []"
  shows "spawn_ok rows d ds"
proof -
  have "batch_child x d c" if x: "x \<in> set rows" "r_id x = i_ID d" and c: "c \<in> set ds" for x c
  proof -
    obtain k where k: "k \<in> set cs" "to_db H k = Some c" using all_to_db_in [OF assms(4) c] by blast
    have fit: "fits X (i_Task j) j k" using assms(5) k(1) by blast
    then have "i_ID k \<noteq> []" using assms(6) by (metis fits_def reads_ok_def)
    then show ?thesis
      using fit to_db_fields [OF k(2)] to_db_fields [OF assms(3)] assms(1,2,6,7) x
      by (auto simp: batch_child_def fits_def reads_ok_def holds_row_def ident_def)
  qed
  then show ?thesis using assms(1,2) to_db_fields(6) [OF assms(3)] by (auto simp: spawn_ok_def holds_row_def ident_def)
qed

text \<open>A conclusion: its status is one the engine ends with, and a stop is settled only where the row still shows it.\<close>

lemma saveAndNotify_is_step:
  assumes h: "holds_row (s_rows s) i" and j: "ident j = ident i" "to_db H (j\<lparr>i_NextReplayable := b\<rparr>) = Some d" "i_Phase j \<noteq> PhaseChildren"
    and st: "i_Status j \<in> {StatusCompleted, StatusFailed, StatusRaised} \<or>
       i_Status i = StatusPausing \<and> i_Status j = StatusPaused \<or> i_Status i = StatusCancelling \<and> i_Status j = StatusCancelled"
  shows "op_step s (snd (saveAndNotify H postgres now (j\<lparr>i_NextReplayable := b\<rparr>) s))"
proof -
  note f = to_db_fields [OF j(2)]
  note e = holds_engine_inst [OF h j(1,2)]
  have id: "\<exists>x \<in> set (s_rows s). r_id x = i_ID d" using h j(1) f(1) by (auto simp: holds_row_def ident_def)
  consider "i_ParentID j = []" | "i_ParentID j \<noteq> []" "i_Status j = StatusFailed" | "i_ParentID j \<noteq> []" "i_Status j \<noteq> StatusFailed" by blast
  then show ?thesis
  proof cases
    case 1
    then have "op_step s (snd (UpdateInstance d now s))" using e f j(3) st by (intro step_update) auto
    then show ?thesis using 1 j(2) by (simp add: saveAndNotify_def with_db_def)
  next
    case 2
    then have "op_step s (snd (FailInstanceAndAncestors postgres d now s))" using e f j(3) id by (intro step_fail) (auto simp: fail_ok_def)
    then show ?thesis using 2 j(2) by (simp add: saveAndNotify_def with_db_def)
  next
    case 3
    have "finish_ok (s_rows s) d"
      using st 3(2) f j(3) holds_fence [OF h j(1,2)] by (auto simp: finish_ok_def)
    then have "op_step s (snd (FinishChild postgres d now s))" using e by (intro step_finish)
    then show ?thesis using 3 j(2) by (simp add: saveAndNotify_def with_db_def)
  qed
qed

lemma batch_is_step:
  assumes h: "holds_row (s_rows s) i" and j: "ident j = ident i" "to_db H (j\<lparr>i_NextReplayable := b\<rparr>) = Some d"
    and cs: "\<forall>c \<in> set cs. fits X (i_Task j) j c" "all_to_db H cs = Some ds" and X: "reads_ok X"
    and def: "GetDefinition X AtPrepare m p v = Inr def" "i_Task j \<in> tk_ID ` set (pd_Tasks def)"
  shows "spawn_ok (s_rows s) d ds"
proof (rule fits_batch_child [OF h j cs(2,1) X])
  show "i_Task j \<noteq> []" using X def by (fastforce simp: reads_ok_def)
qed

lemma persist_is_step:
  assumes h: "holds_row (s_rows s) i" and a: "advanced X i j out" and X: "reads_ok X" and r: "retired_raised (s_rows s) out"
    and ph: "i_Phase i \<noteq> PhaseChildren"
  shows "snd (persist X H postgres now j out s) = s \<or> op_step s (snd (persist X H postgres now j out s))"
proof (cases "to_db H (j\<lparr>i_NextReplayable := \<not> taskIsOnlyOnce X j\<rparr>)")
  case None
  then show ?thesis
    by (cases out) (simp_all add: persist_def saveAndNotify_def persistArm_def with_db_def Let_def)
next
  case (Some d)
  note f = to_db_fields [OF Some]
  have j: "ident j = ident i" using a by (simp add: advanced_def)
  note e = holds_engine_inst [OF h j Some]
  show ?thesis
  proof (cases "out = OutcomeTerminal")
    case True
    have "i_Phase j \<noteq> PhaseChildren" using a True ph by (auto simp: advanced_def)
    then show ?thesis using saveAndNotify_is_step [OF h j Some, of postgres now] a True by (auto simp: advanced_def persist_def)
  next
    case False
    then obtain def where w: "writable X def j out"
      and g: "out \<noteq> OutcomeUpdate \<longrightarrow> (\<exists>m. GetDefinition X AtPrepare m (i_ProcessName i) (i_ProcessVersion i) = Inr def)"
      using a by (auto simp: advanced_def)
    note batch = batch_is_step [OF h j Some]
    show ?thesis
    proof (cases out)
      case OutcomeTerminal
      then show ?thesis using False by simp
    next
      case OutcomeProgress
      then show ?thesis using w e f Some step_progress [of s d now] by (auto simp: persist_def with_db_def)
    next
      case OutcomeUpdate
      then show ?thesis using w e f Some step_update [of s d now] by (auto simp: persist_def with_db_def)
    next
      case (OutcomeSpawn cs)
      show ?thesis
      proof (cases "all_to_db H cs")
        case None
        then show ?thesis using OutcomeSpawn Some by (simp add: persist_def with_db_def)
      next
        case ds: (Some ds)
        have "spawn_ok (s_rows s) d ds" using w g OutcomeSpawn batch [OF _ ds X] by auto
        then show ?thesis using OutcomeSpawn Some ds step_spawn by (simp add: persist_def with_db_def)
      qed
    next
      case (OutcomeRespawn retired cs)
      show ?thesis
      proof (cases "all_to_db H cs")
        case None
        then show ?thesis using OutcomeRespawn Some by (simp add: persist_def with_db_def)
      next
        case ds: (Some ds)
        note w' = w [unfolded OutcomeRespawn writable.simps]
        have fit: "\<forall>c \<in> set cs. fits X (i_Task j) j c" using w' X unfolding reads_ok_def by blast
        have "spawn_ok (s_rows s) d ds" using w' g OutcomeRespawn batch [OF fit ds X] by blast
        moreover have "\<forall>x \<in> set (s_rows s). r_id x \<in> set retired \<longrightarrow> r_status x = StatusRaised"
          using r OutcomeRespawn by (simp add: retired_raised_def)
        ultimately show ?thesis using OutcomeRespawn Some ds step_respawn by (simp add: persist_def with_db_def)
      qed
    next
      case (OutcomeArm arm)
      have "arm_ok (s_rows s) d" using e w OutcomeArm f by (simp add: arm_ok_def)
      then have "op_step s (snd (ArmExternalUnlessSignalled d enc (ar_taskID arm) (ar_wakeAt arm) now s))" for enc by (rule step_arm)
      then show ?thesis using OutcomeArm Some
        by (auto simp: persist_def persistArm_def with_db_def Let_def split: option.split sum.split prod.split) (metis snd_conv)+
    qed
  qed
qed

end
