(* ===== verification/Engine_Props.thy ===== *)
theory Engine_Props
  imports Engine_Refine
begin

text \<open>What an advance guarantees: the trees stay well formed, and a call that must not run twice does not.\<close>

subsection \<open>The write of an advance\<close>

lemma logged_error:
  "(case r of (Inl e, t) \<Rightarrow> (Inl e, t) | (Inr x, t) \<Rightarrow> (Inr (), g x t)) = (Inl e, t) \<longleftrightarrow> r = (Inl e, t)"
  by (auto split: prod.splits sum.splits)

lemma writes_error:
  "UpdateInstance d now s = (Inl e, t) \<Longrightarrow> t = s" "UpdateInstanceProgress d now s = (Inl e, t) \<Longrightarrow> t = s"
  "FinishChild postgres d now s = (Inl e, t) \<Longrightarrow> t = s" "FailInstanceAndAncestors postgres d now s = (Inl e, t) \<Longrightarrow> t = s"
  "SpawnChildrenAndWait d cs now s = (Inl e, t) \<Longrightarrow> t = s" "RespawnSlotsAndWait d retired cs now s = (Inl e, t) \<Longrightarrow> t = s"
  "ArmExternalUnlessSignalled d enc task wake now s = (Inl e, t) \<Longrightarrow> t = s"
  by (auto simp: UpdateInstance_def UpdateInstanceProgress_def FinishChild_def FailInstanceAndAncestors_def SpawnChildrenAndWait_def
      RespawnSlotsAndWait_def ArmExternalUnlessSignalled_def withChildTx_def split: if_splits prod.splits sum.splits)

lemma persist_error: "persist X H postgres now j out s = (Inl e, t) \<Longrightarrow> t = s"
  by (cases out) (auto simp: persist_def saveAndNotify_def persistArm_def with_db_def Let_def
      split: option.splits if_splits prod.splits sum.splits dest: writes_error)

lemma runAdvance_store:
  assumes "runAdvance X H postgres abandoned now i s = (j, res, t)" "advanceGuarded X i = (k, out)"
  obtains "t = s" "res \<noteq> Persisted"
  | "t = snd (persist X H postgres now k out s)" "res = Persisted"
  | "t = snd (persist X H postgres now (failInstance EngineSpawn (''task '' @ quote X (i_Task k) @ '' '' @ writeVerb out) k) OutcomeTerminal s)"
      "res = Persisted"
proof (cases "persist X H postgres now k out s")
  case (Pair r u)
  let ?k = "failInstance EngineSpawn (''task '' @ quote X (i_Task k) @ '' '' @ writeVerb out) k"
  have u: "u = s" if "r = Inl e" for e using persist_error Pair that by blast
  obtain r' u' where p': "persist X H postgres now ?k OutcomeTerminal s = (r', u')" by fastforce
  have u': "u' = s" if "r' = Inl e" for e using persist_error p' that by blast
  show thesis
    using assms Pair p' u u' that by (auto simp: runAdvance_def writeAdvance_def Let_def split: if_splits sum.splits)
qed

lemma advanced_fail: "advanced X i k out \<Longrightarrow> advanced X i (failInstance c m k) OutcomeTerminal"
  by (auto simp: advanced_def)

text \<open>
  C5: whatever an advance reached, its effect on the database is nothing or one step of the kind the tree
  invariant is proved for, so the process trees stay well formed; and nothing is written when the write
  failed, the lease was lost or the advance was abandoned. This holds for an instance that was claimed
  running, pausing or cancelling and is not parked on children, while its worker holds the row.
\<close>

theorem engine_write_is_a_tree_step:
  assumes "holds_row (s_rows s) i" "i_Status i \<in> {StatusRunning, StatusPausing, StatusCancelling}" "i_Phase i \<noteq> PhaseChildren"
    and "reads_ok X" "retired_raised (s_rows s) (snd (advanceGuarded X i))"
    and run: "runAdvance X H postgres abandoned now i s = (j, res, t)"
  shows "(t = s \<or> op_step s t) \<and> (res \<noteq> Persisted \<longrightarrow> t = s) \<and> (tree_inv (s_rows s) \<longrightarrow> tree_inv (s_rows t))"
proof -
  obtain k out where g: "advanceGuarded X i = (k, out)" by fastforce
  note a = advanceGuarded_advanced [OF g assms(2,3)]
  have "(t = s \<or> op_step s t) \<and> (res \<noteq> Persisted \<longrightarrow> t = s)"
    using run g
  proof (cases rule: runAdvance_store)
    case 1
    then show ?thesis by simp
  next
    case 2
    then show ?thesis using persist_is_step [OF assms(1) a assms(4) _ assms(3)] assms(5) g by simp
  next
    case 3
    have "retired_raised (s_rows s) OutcomeTerminal" by (simp add: retired_raised_def)
    then show ?thesis using persist_is_step [OF assms(1) advanced_fail [OF a] assms(4) _ assms(3)] 3 by simp
  qed
  then show ?thesis using op_step_inv by blast
qed


subsection \<open>What follows a failed call\<close>

lemma match_rules_in: "match_rules c eval cs = Inr (Some r) \<Longrightarrow> r \<in> set cs"
  by (induction c eval cs rule: match_rules.induct) (auto split: if_splits sum.splits)

text \<open>A retry is granted by a rule that allows it; a rule's \<open>goto\<close> starts its task afresh.\<close>

definition granted :: "('sc, 'd, 'p, 'f) engine \<Rightarrow> ('sc, 'f) task \<Rightarrow> code \<Rightarrow> einst \<Rightarrow> einst \<Rightarrow> bool" where
  "granted X t c i j \<longleftrightarrow> (\<exists>rule \<in> set (tk_OnError t). \<exists>errVal policy.
     resolveRetry X i (ec_Retry rule) errVal = Inr policy \<and> i_RetryCount i < rr_Retries policy \<and> isRetryAllowed t c (Some rule) \<and>
     (ec_Code rule = [] \<or> (\<exists>pat \<in> set (ec_Code rule). MatchCode pat c)) \<and> j = grantRetry X t c policy i)"

definition routed :: "('sc, 'f) task \<Rightarrow> einst \<Rightarrow> einst \<Rightarrow> bool" where
  "routed t i j \<longleftrightarrow> (\<exists>rule \<in> set (tk_OnError t). ec_Goto rule \<notin> {[], GotoEnd} \<and> i_Task j = ec_Goto rule) \<and> i_RetryCount j = 0 \<and>
     i_TaskEpoch j = i_TaskEpoch i + 1"

lemma match_rules_code:
  "match_rules c eval cs = Inr (Some r) \<Longrightarrow> ec_Code r = [] \<or> (\<exists>pat \<in> set (ec_Code r). MatchCode pat c)"
  by (induction c eval cs rule: match_rules.induct) (auto simp: list_ex_iff split: if_splits sum.splits)

lemma routeError_routed:
  assumes "routeError X t m c matched i = (j, OutcomeUpdate)" "\<And>r. matched = Some r \<Longrightarrow> r \<in> set (tk_OnError t)"
  shows "routed t i j"
  using assms by (auto simp: routeError_def Let_def routed_def enterTask_def audit_def split: option.splits if_splits sum.splits)

lemma policy_of_retries: "policy_of X i matched errVal = Inr policy \<Longrightarrow> n < rr_Retries policy \<Longrightarrow> 0 \<le> n \<Longrightarrow>
    \<exists>r. matched = Some r \<and> resolveRetry X i (ec_Retry r) errVal = Inr policy"
  by (auto simp: policy_of_def no_policy_def split: option.splits if_splits)

lemma routed_updates [simp]: "routed t i (put_state k v j) = routed t i j" "routed t i (releaseCaught old j) = routed t i j"
  "routed t (bindCaught ev i) j = routed t i j"
  by (simp_all add: routed_def)

lemma handleCallErrorWith_update:
  assumes "handleCallErrorWith X t m c extra i = (j, OutcomeUpdate)" "0 \<le> i_RetryCount i"
  shows "granted X t c i j \<or> routed t i j"
proof -
  let ?ev = "call_error t m c extra"
  obtain matched policy where m: "matchOnErrorWith t c (caseEvaluator X i ?ev) = Inr matched" "policy_of X i matched ?ev = Inr policy"
    using assms(1) by (auto simp: handleCallErrorWith_def Let_def split: sum.splits)
  have rule: "r \<in> set (tk_OnError t)" "ec_Code r = [] \<or> (\<exists>pat \<in> set (ec_Code r). MatchCode pat c)" if "matched = Some r" for r
    using m(1) that match_rules_in match_rules_code by (fastforce simp: matchOnErrorWith_def)+
  show ?thesis
  proof (cases "i_RetryCount i < rr_Retries policy \<and> isRetryAllowed t c matched")
    case True
    obtain r where r: "matched = Some r" "resolveRetry X i (ec_Retry r) ?ev = Inr policy"
      using policy_of_retries [OF m(2) _ assms(2)] True by blast
    have "j = grantRetry X t c policy i" using assms(1) m True by (simp add: handleCallErrorWith_def Let_def)
    then show ?thesis using True r rule [OF r(1)] unfolding granted_def by metis
  next
    case False
    let ?msg = "''task '' @ quote X (tk_ID t) @ '': '' @ c @ '': '' @ m"
    obtain k out where k: "routeError X t ?msg c matched (bindCaught ?ev i) = (k, out)" by fastforce
    then have "out = OutcomeUpdate" "j = put_state StateLastError (JObj ?ev) (releaseCaught i k)"
      using assms(1) m False by (simp_all add: handleCallErrorWith_def Let_def)
    then show ?thesis using routeError_routed k rule(1) by fastforce
  qed
qed

lemma interrupted_never_granted: "tk_OnlyOnce t = Some True \<Longrightarrow> IsUnknowable c \<Longrightarrow> \<not> granted X t c i j"
  by (auto simp: granted_def isRetryAllowed_def)



subsection \<open>Retries of a call that must run once\<close>

lemma granted_safe:
  assumes "tk_OnlyOnce t = Some True" "granted X t c k j"
  shows "\<exists>rule \<in> set (tk_OnError t). (ec_Code rule = [] \<or> (\<exists>pat \<in> set (ec_Code rule). MatchCode pat c)) \<and> \<not> IsUnknowable c \<and>
    (IsNotReached c \<and> e_reached j = e_reached k \<or> ec_NotReached rule = Some True)"
  using assms by (auto simp: granted_def isRetryAllowed_def grantRetry_def Let_def split: if_splits)

lemma routed_count: "routed t i j \<Longrightarrow> i_RetryCount j = 0"
  by (simp add: routed_def)

lemma answer_codes:
  assumes "sendHTTP N url method st hs body = (Inr resp, b)"
  shows "rs_ErrorCode resp = [] \<or> (\<exists>n. rs_ErrorCode resp = HTTP n)" "rs_BodyCode resp \<in> {[], ResultTooLarge, ResultParse}"
  using assms
  by (auto simp: sendHTTP_def doHTTP_def unaccepted_def accepted_def Let_def decodeBytes_def
      split: sum.splits if_splits do_result.splits prod.splits decoded.splits)

lemma HTTP_reached [simp]: "\<not> IsNotReached (HTTP n)"
  by (simp add: IsNotReached_def HTTP_def NotReached_def has_prefix_def)

lemma no_code_reached [simp]: "\<not> IsNotReached []"
  by (simp add: IsNotReached_def NotReached_def has_prefix_def)

lemma handle_stop_Stop: "handle_stop r = (j, Stop out) \<longleftrightarrow> r = (j, out)"
  by (cases r) (simp add: handle_stop_def)

lemma ignoreBody_codes: "rs_ErrorCode (ignoreBody a resp) = rs_ErrorCode resp" "rs_BodyCode (ignoreBody a resp) \<in> {[], rs_BodyCode resp}"
  by (auto simp: ignoreBody_def)

lemma answerAction_update:
  assumes "answerAction X t a resp i = (j, Stop OutcomeUpdate)" "0 \<le> i_RetryCount i"
    and "rs_ErrorCode resp = [] \<or> (\<exists>n. rs_ErrorCode resp = HTTP n)" "rs_BodyCode resp \<in> {[], ResultTooLarge, ResultParse}"
  obtains c k where "\<not> IsNotReached c" "granted X t c k j \<or> routed t k j"
proof -
  let ?r = "ignoreBody a resp"
  have codes: "\<not> IsNotReached (rs_ErrorCode ?r)" "\<not> IsNotReached (rs_BodyCode ?r)"
    using assms(3,4) ignoreBody_codes [of a resp] by auto
  have st: "\<not> IsNotReached c" if "statusError X a ?r = (c, msg, extra)" for c msg extra
    using that codes by (auto simp: statusError_def Let_def split: prod.splits bool.splits if_splits sum.splits)
  have "\<exists>c msg extra k. \<not> IsNotReached c \<and> handleCallErrorWith X t msg c extra k = (j, OutcomeUpdate) \<and> i_RetryCount k = i_RetryCount i"
  proof (cases "rs_ErrorCode ?r \<noteq> []")
    case True
    obtain c msg extra where e: "statusError X a ?r = (c, msg, extra)" by (cases "statusError X a ?r") auto
    then have "handleCallErrorWith X t msg c extra (audit EventActionFailed (tk_ID t) c i) = (j, OutcomeUpdate)"
      using assms(1) True by (simp add: answerAction_def Let_def handle_stop_Stop)
    then show ?thesis using st [OF e] by (metis status_updates(19))
  next
    case no_error: False
    show ?thesis
    proof (cases "rs_BodyCode ?r \<noteq> []")
      case True
      then obtain msg where "handleCallErrorWith X t msg (rs_BodyCode ?r) [] (audit EventActionFailed (tk_ID t) (rs_BodyCode ?r) i) = (j, OutcomeUpdate)"
        using assms(1) no_error by (auto simp: answerAction_def Let_def handle_stop_Stop handleCallError_def)
      then show ?thesis using codes(2) by (metis status_updates(19))
    next
      case False
      then obtain msg where "handleCallErrorWith X t msg ResultInvalid [] i = (j, OutcomeUpdate)"
        using assms(1) no_error by (auto simp: answerAction_def Let_def handle_stop_Stop handleCallError_def split: sum.splits)
      then show ?thesis by (metis IsNotReached_codes(7))
    qed
  qed
  then show thesis using that handleCallErrorWith_update assms(2) by metis
qed



subsection \<open>One request for each claim\<close>

lemma lookup_at_index:
  assumes "definition_at X AtPrepare i = Inr def" "0 \<le> taskIndex (pd_Tasks def) (i_Task i)"
  shows "lookupTask X AtPrepare i = Some (pd_Tasks def ! nat (taskIndex (pd_Tasks def) (i_Task i)))"
  using assms by (auto simp: lookupTask_def Let_def taskIndex_def split: if_splits)

lemma stopping_reaches_nothing:
  assumes "i_Status i \<in> {StatusPausing, StatusCancelling}" "advanceGuarded X i = (j, out)"
  shows "e_reached j = e_reached i"
proof -
  have "e_reached j = e_reached i" if "handleCallError X t m c (i\<lparr>i_Status := StatusRunning\<rparr>) = (j, out)" for t m c
    using handleCallError_handled [of "i\<lparr>i_Status := StatusRunning\<rparr>" X t m c] that by (auto simp: handled_def ended_def still_def)
  then show ?thesis
    using assms by (auto simp: advanceGuarded_def advance_def settlePausing_def settleCancelling_def split: option.splits if_splits prod.splits)
qed

lemma request_rule:
  assumes "i_Status i \<in> {StatusRunning, StatusPausing, StatusCancelling}" "i_Phase i \<noteq> PhaseChildren"
    and "advanceGuarded X i = (j, out)" "e_reached j \<noteq> e_reached i"
  shows "i_Status i = StatusRunning \<and> (out = OutcomeTerminal \<or> i_TaskEpoch i < i_TaskEpoch j) \<and>
    (\<exists>def t. definition_at X AtPrepare i = Inr def \<and> t \<in> set (pd_Tasks def) \<and> e_reached j = e_reached i @ [tk_ID t] \<and>
       (OnlyOnceAction t \<longrightarrow> lookupTask X AtPrepare i = Some t \<and> \<not> i_ReclaimedExpired i))"
proof -
  have st: "i_Status i = StatusRunning" using stopping_reaches_nothing [OF _ assms(3)] assms(1,4) by blast
  obtain k r where p: "prepareAdvance X i = (k, r)" by fastforce
  from p st assms(2) show ?thesis
  proof (cases rule: prepareAdvance_cases)
    case (1 out')
    then have "j = k" using assms(3) st p by (auto simp: advanceGuarded_def advance_def)
    then show ?thesis using 1(2) assms(4) by (auto simp: handled_def ended_def still_def)
  next
    case (2 def idx)
    have run: "advance X i = advance_loop X def True maxInlineTasks idx k" using st p 2(1) by (simp add: advance_def)
    have ok: "ran_ok X def True idx k (advance X i)" using advance_loop_ran [OF 2(3,4)] run by simp
    have k: "e_reached k = e_reached i" "i_TaskEpoch k = i_TaskEpoch i" using 2(2) by (simp_all add: still_def)
    have rule: "reach_rule def True idx k j \<and> (out = OutcomeTerminal \<or> i_TaskEpoch i < i_TaskEpoch j)"
    proof (cases "advance X i")
      case (Finished l out')
      then show ?thesis using ok assms(3,4) k by (auto simp: advanceGuarded_def)
    next
      case (Crashed l)
      then show ?thesis using ok assms(3) by (auto simp: advanceGuarded_def reach_rule_def)
    next
      case (Moved l n b)
      then show ?thesis using advance_loop_stops run by metis
    qed
    then obtain t where t: "t \<in> set (pd_Tasks def)" "e_reached j = e_reached i @ [tk_ID t]"
      "OnlyOnceAction t \<Longrightarrow> 0 \<le> idx" "OnlyOnceAction t \<Longrightarrow> t = pd_Tasks def ! nat idx"
      using assms(4) k(1) by (auto simp: reach_rule_def)
    have "lookupTask X AtPrepare i = Some t \<and> \<not> i_ReclaimedExpired i" if "OnlyOnceAction t"
      using t(3,4) [OF that] that 2(6,7) lookup_at_index [OF 2(5)] by auto
    then show ?thesis using st rule t(1,2) 2(5) by blast
  qed
qed

text \<open>
  C6: one claim sends at most one request. An advance that stops a row sends none; one that runs it sends at
  most one, after which the row ends or its task epoch has moved; and when the request belongs to a task
  marked \<open>only_once\<close>, the claim began at that task and did not take over an expired lease.
\<close>

theorem one_request_per_claim:
  assumes "i_Status i \<in> {StatusRunning, StatusPausing, StatusCancelling}" "i_Phase i \<noteq> PhaseChildren"
    and "advanceGuarded X i = (j, out)" "e_reached j \<noteq> e_reached i"
  shows "i_Status i = StatusRunning \<and> (out = OutcomeTerminal \<or> i_TaskEpoch i < i_TaskEpoch j) \<and>
    (\<exists>def t. definition_at X AtPrepare i = Inr def \<and> t \<in> set (pd_Tasks def) \<and> e_reached j = e_reached i @ [tk_ID t] \<and>
       (OnlyOnceAction t \<longrightarrow> lookupTask X AtPrepare i = Some t \<and> \<not> i_ReclaimedExpired i))"
  using request_rule [OF assms] .

subsection \<open>Batches\<close>

lemma list_outputs_filled:
  assumes "list_outputs X a n cs result = Inr out" "length result = n"
  shows "length out = n \<and> (\<forall>c \<in> set cs. \<exists>k. spawnIndex c = Some (int k) \<and> k < n) \<and>
    (\<forall>c k. c \<in> set cs \<longrightarrow> distinct (map spawnIndex cs) \<longrightarrow> spawnIndex c = Some (int k) \<longrightarrow> resolveAndValidateChildOutput X (ac_ResultSchema a) c = Inr (out ! k)) \<and>
    (\<forall>k < n. Some (int k) \<notin> set (map spawnIndex cs) \<longrightarrow> out ! k = result ! k)"
  using assms
proof (induction X a n cs result arbitrary: out rule: list_outputs.induct)
  case (2 X a n c cs result)
  from "2.prems" obtain idx v where "spawnIndex c = Some idx" "0 \<le> idx" "idx < int n"
      "resolveAndValidateChildOutput X (ac_ResultSchema a) c = Inr v" "list_outputs X a n cs (result[nat idx := v]) = Inr out"
    by (auto simp: rbind_Inr split: option.splits if_splits)
  then obtain m where i: "spawnIndex c = Some (int m)" "m < n" "resolveAndValidateChildOutput X (ac_ResultSchema a) c = Inr v"
      "list_outputs X a n cs (result[m := v]) = Inr out"
    by (metis nat_less_iff int_nat_eq)
  then have IH: "length out = n \<and> (\<forall>c \<in> set cs. \<exists>k. spawnIndex c = Some (int k) \<and> k < n) \<and>
    (\<forall>c k. c \<in> set cs \<longrightarrow> distinct (map spawnIndex cs) \<longrightarrow> spawnIndex c = Some (int k) \<longrightarrow> resolveAndValidateChildOutput X (ac_ResultSchema a) c = Inr (out ! k)) \<and>
    (\<forall>k < n. Some (int k) \<notin> set (map spawnIndex cs) \<longrightarrow> out ! k = result[m := v] ! k)"
    using "2.IH" [of "int m" v] "2.prems"(2) by auto
  have "resolveAndValidateChildOutput X (ac_ResultSchema a) c = Inr (out ! m)" if "distinct (map spawnIndex (c # cs))"
    using IH i(1-3) that "2.prems"(2) by (metis distinct.simps(2) list.simps(9) nth_list_update_eq)
  then show ?case using IH i(1,2) "2.prems"(2) by (auto simp: nth_list_update)
qed simp



text \<open>A child that takes over the slot of one that raised.\<close>

definition takes_over :: "('sc, 'd, 'p, 'f) engine \<Rightarrow> ('sc, 'f) task \<Rightarrow> einst \<Rightarrow> einst \<Rightarrow> einst \<Rightarrow> bool" where
  "takes_over X t i old c \<longleftrightarrow> i_Status old = StatusRaised \<and> slotID c = slotID old \<and> spawnAttempt c = spawnAttempt old + 1 \<and>
     i_ParentTaskEpoch c = i_ParentTaskEpoch old \<and> i_ParentID c = i_ID i \<and>
     (es_retry_override (e_Engine i) \<or>
      (\<exists>rule \<in> set (tk_OnError t). \<exists>errVal k policy. resolveRetry X k (ec_Retry rule) errVal = Inr policy \<and> spawnAttempt c \<le> rr_Retries policy))"

lemma freshBatch_slot:
  assumes "freshBatch X t a i = Inr fresh" "fresh slot = Some c"
  shows "slotID c = slot"
proof -
  obtain cs where "build_batch X t a i = Inr cs" "fresh = map_of (map (\<lambda>c. (slotID c, c)) (rev cs))"
    using assms(1) by (cases "build_batch X t a i") (auto simp: freshBatch_def)
  then show ?thesis using map_of_SomeD [of _ slot c] assms(2) by fastforce
qed

lemma admission_Some:
  assumes "admission X t a i override c = Inr (Some policy)" "\<not> override"
  shows "\<exists>rule \<in> set (tk_OnError t). \<exists>errVal. resolveRetry X i (ec_Retry rule) errVal = Inr policy \<and> spawnAttempt c < rr_Retries policy"
  using assms match_rules_in
  by (fastforce simp: admission_def rbind_Inr matchOnErrorWith_def split: option.splits if_splits prod.splits)

lemma admitRetries_over:
  assumes "admitRetries X t a i override cs = Inr adm" "\<forall>c \<in> set cs. i_Status c = StatusRaised" "es_retry_override (e_Engine p) = override"
    "i_ID p = i_ID i"
  shows "\<forall>(r, c) \<in> set adm. \<exists>old \<in> set cs. i_ID old = r \<and> takes_over X t p old c"
  using assms(1,2)
proof (induction cs arbitrary: adm)
  case (Cons old cs)
  from Cons.prems(1) consider "admitRetries X t a i override cs = Inr adm"
    | policy fresh r rest where "freshBatch X t a i = Inr fresh" "respawnChild X old fresh (spawnAttempt old + 1) policy = Inr r"
        "admitRetries X t a i override cs = Inr rest" "adm = (i_ID old, r) # rest" "admission X t a i override old = Inr (Some policy)"
    by (auto simp: rbind_Inr split: option.splits)
  then show ?case
  proof cases
    case 1
    then show ?thesis using Cons.IH Cons.prems(2) by fastforce
  next
    case 2
    then obtain f where f: "fresh (slotID old) = Some f" "r = f\<lparr>i_ParentTaskEpoch := i_ParentTaskEpoch old,
          e_Engine := (e_Engine f)\<lparr>es_spawn_attempt := Some (spawnAttempt old + 1)\<rparr>,
          i_WakeAt := Some (e_UpdatedAt old + retryDelay (x_floats X) (x_immediateRetries X) (x_draw X) (spawnAttempt old + 1) policy)\<rparr>"
      by (auto simp: respawnChild_def split: option.splits)
    have s: "slotID r = slotID f" "spawnAttempt r = spawnAttempt old + 1" "i_ParentTaskEpoch r = i_ParentTaskEpoch old"
      using f(2) by (simp_all add: slotID_def spawnKey_def spawnIndex_def spawnAttempt_def)
    have "i_ParentID r = i_ID p" using freshBatch_fits [OF 2(1) f(1)] f(2) assms(4) by (simp add: fits_def)
    moreover have "\<exists>rule \<in> set (tk_OnError t). \<exists>errVal k policy. resolveRetry X k (ec_Retry rule) errVal = Inr policy \<and> spawnAttempt r \<le> rr_Retries policy"
      if "\<not> override"
      using admission_Some [OF 2(5) that] s(2) by (metis zless_imp_add1_zle)
    ultimately have "takes_over X t p old r"
      using s freshBatch_slot [OF 2(1) f(1)] Cons.prems(2) assms(3) by (auto simp: takes_over_def)
    then show ?thesis using Cons.IH [OF 2(3)] Cons.prems(2) 2(4) by fastforce
  qed
qed simp

text \<open>
  C17: a batch with raised children is retried slot by slot. Each child the retry replaces had raised, and its
  replacement takes the same slot of the same batch under the same parent, one attempt further; unless an
  operator forced the retry, a rule of \<open>on_error\<close> allows that many attempts.
\<close>

theorem respawn_takes_over_raised_slots:
  assumes "collectBatch X t a i = (j, Stop (OutcomeRespawn retired cs))"
  shows "\<exists>siblings. ChildrenForTask X (i_ID i) (tk_ID t) (i_TaskEpoch i) = Inr siblings \<and> length retired = length cs \<and> cs \<noteq> [] \<and>
    (\<forall>k < length cs. \<exists>old \<in> set siblings. i_ID old = retired ! k \<and> takes_over X t i old (cs ! k)) \<and>
    i_Phase j = PhaseChildren \<and> \<not> es_retry_override (e_Engine j)"
proof -
  have nr: "handle_stop r \<noteq> (k, Stop (OutcomeRespawn retired cs) :: jval task_verdict)" if "handled p r" for p k and r
    using that by (auto simp: handle_stop_def handled_def split: prod.splits)
  note nc = nr [OF handleCallError_handled [of _ X t]] and nb = nr [OF routeBatch_handled [of _ X t a]]
  obtain siblings where s: "ChildrenForTask X (i_ID i) (tk_ID t) (i_TaskEpoch i) = Inr siblings"
    using assms by (auto simp: collectBatch_def Let_def split: sum.splits)
  let ?raised = "raisedInSlotOrder a siblings" and ?i = "i\<lparr>e_Engine := (e_Engine i)\<lparr>es_retry_override := False\<rparr>\<rparr>"
  have "resolveRaisedBatch X t a ?raised i = (j, Stop (OutcomeRespawn retired cs) :: jval task_verdict)"
    using assms s nc by (auto simp: collectBatch_def Let_def split: sum.splits if_splits collect_error.splits)
  then obtain adm where adm: "admitRetries X t a ?i (es_retry_override (e_Engine i)) ?raised = Inr adm" "adm \<noteq> []"
      "retired = map fst adm" "cs = map snd adm" "j = ?i\<lparr>i_Phase := PhaseChildren\<rparr>"
    using nb
    by (auto simp: resolveRaisedBatch_def Let_def build_stop_def split: sum.splits if_splits build_fail.splits)
  have over: "\<forall>(r, c) \<in> set adm. \<exists>old \<in> set ?raised. i_ID old = r \<and> takes_over X t i old c"
    by (rule admitRetries_over [OF adm(1)]) (simp_all add: raised_siblings)
  have "\<exists>old \<in> set siblings. i_ID old = retired ! k \<and> takes_over X t i old (cs ! k)" if "k < length cs" for k
  proof -
    have "adm ! k \<in> set adm" "retired ! k = fst (adm ! k)" "cs ! k = snd (adm ! k)" using that adm(3,4) by simp_all
    then show ?thesis using over raised_siblings [of a siblings] by fastforce
  qed
  then show ?thesis using s adm(2-5) by simp
qed

end
