(* ===== verification/At_Most_Once.thy ===== *)
theory At_Most_Once
  imports Engine_Props Row_Order
begin

text \<open>
  The whole system around \<open>only_once\<close>: workers that claim, call, write and crash at any point, while the
  database changes under them. A request of a task marked \<open>only_once\<close> is sent at most once for each
  occurrence of the task.
\<close>

subsection \<open>What the writes do to the columns of a grant\<close>

text \<open>A row whose place in its process and whose grant stand, and that stays concluded once it is.\<close>

definition kept :: "row \<Rightarrow> row \<Rightarrow> bool" where
  "kept x y \<longleftrightarrow> r_id y = r_id x \<and> r_worker_id y = r_worker_id x \<and> r_lease_epoch y = r_lease_epoch x \<and> r_task y = r_task x \<and>
     r_task_epoch y = r_task_epoch x \<and> r_process_name y = r_process_name x \<and> r_process_version y = r_process_version x \<and>
     (Terminal (r_status x) \<longrightarrow> Terminal (r_status y))"

lemma kept_setters:
  "\<not> Terminal (r_status x) \<Longrightarrow> kept x (set_status st now x)"
  "r_status x \<in> {StatusPausing, StatusCancelling, StatusFailing} \<Longrightarrow> kept x (set_drained now x)"
  "r_status x \<in> {StatusRunning, StatusPausing, StatusPaused} \<Longrightarrow> kept x (set_failing msg code now x)"
  "kept x (set_woken now x)" "kept x (x\<lparr>r_superseded_at := Some now\<rparr>)" "kept x (set_expiry e x)" "kept x (set_unparked now x)"
  "kept x (set_ext_grant w e x)" "kept x (set_ext_expiry e x)" "kept x (set_ext_free x)" "kept x (set_lost now x)"
  by (auto simp: kept_def Terminal_def set_status_def set_drained_def set_failing_def set_woken_def set_expiry_def set_unparked_def
      set_ext_grant_def set_ext_expiry_def set_ext_free_def set_lost_def)

interpretation kept_rows: row_order kept "\<lambda>x. \<not> Terminal (r_status x)"
proof
  show "kept x z" if "kept x y" "kept y z" for x y z using that by (simp add: kept_def)
  show "kept x x" for x by (simp add: kept_def)
  show "\<not> Terminal (r_status x)" if "r_status x \<in> {StatusRunning, StatusPaused}" for x using that by (auto simp: Terminal_def)
qed (fact kept_setters)+

text \<open>A row as it was, or as an instance wrote it.\<close>

definition wrote :: "inst \<Rightarrow> row \<Rightarrow> row \<Rightarrow> bool" where
  "wrote d x y \<longleftrightarrow> kept x y \<or> inst_fence d x \<and> r_id y = r_id x \<and> r_worker_id y = None \<and> r_lease_epoch y = r_lease_epoch x \<and>
     r_task_epoch y = i_TaskEpoch d \<and> (Terminal (i_Status d) \<longrightarrow> Terminal (r_status y))"

lemma wrote_trans: "wrote d x y \<Longrightarrow> wrote d y z \<Longrightarrow> wrote d x z"
  by (auto simp: wrote_def kept_def inst_fence_def)

lemma wrote_update:
  "written_by d (\<not> Terminal (i_Status d)) p \<Longrightarrow> fence p x \<Longrightarrow> wrote d x (set_update p x)"
  by (auto simp: wrote_def written_by_def fence_def inst_fence_def set_update_def kept_status_def Terminal_def)

lemma wrote_progress:
  "written_by d True p \<and> \<not> Terminal (i_Status d) \<Longrightarrow> fence p x \<Longrightarrow> wrote d x (set_progress p x)"
  by (auto simp: wrote_def written_by_def fence_def inst_fence_def set_progress_def)

interpretation wrote_rows: write_order "wrote d" "\<lambda>x. \<not> Terminal (r_status x)" "written_by d (\<not> Terminal (i_Status d))"
    "\<lambda>p. written_by d True p \<and> \<not> Terminal (i_Status d)" for d
proof
  show "wrote d x z" if "wrote d x y" "wrote d y z" for x y z using wrote_trans that .
  show "wrote d x (set_update p x)" if "written_by d (\<not> Terminal (i_Status d)) p" "fence p x" for p x using wrote_update that .
  show "wrote d x (set_progress p x)" if "written_by d True p \<and> \<not> Terminal (i_Status d)" "fence p x" for p x using wrote_progress that .
qed (simp_all add: wrote_def kept_setters kept_rows.le_refl kept_rows.open_row)


subsection \<open>Workers and the database\<close>

type_synonym ('sc, 'f) definitions = "string \<Rightarrow> int \<Rightarrow> ('sc, 'f) process_definition option"

definition once_at :: "('sc, 'f) definitions \<Rightarrow> string \<Rightarrow> int \<Rightarrow> string \<Rightarrow> bool" where
  "once_at D name version task =
     (case D name version of
        None \<Rightarrow> False
      | Some def \<Rightarrow> (let idx = taskIndex (pd_Tasks def) task in 0 \<le> idx \<and> OnlyOnceAction (pd_Tasks def ! nat idx)))"

text \<open>A registered version never changes: a read gives it or fails.\<close>

definition agrees :: "('sc, 'f) definitions \<Rightarrow> ('sc, 'd, 'p, 'f) engine \<Rightarrow> bool" where
  "agrees D X \<longleftrightarrow> (\<forall>site m n v def. GetDefinition X site m n v = Inr def \<longrightarrow> D n v = Some def)"

text \<open>The read that settles a pausing row whose worker vanished does not fail.\<close>

definition lookup_answers :: "('sc, 'f) definitions \<Rightarrow> ('sc, 'd, 'p, 'f) engine \<Rightarrow> bool" where
  "lookup_answers D X \<longleftrightarrow> (\<forall>i. D (i_ProcessName i) (i_ProcessVersion i) \<noteq> None \<longrightarrow> (\<exists>def. definition_at X AtLookup i = Inr def))"

text \<open>
  Work in flight: an instance as it was claimed, or also as its advance left it, with the write it asks
  for. A worker may stall or crash between any two of the three, or be abandoned at shutdown.
\<close>

datatype flight = Claimed einst | Advanced einst einst advance_outcome

fun claim_of :: "flight \<Rightarrow> einst" where
  "claim_of (Claimed i) = i"
| "claim_of (Advanced i j out) = i"

text \<open>The store, the work in flight, and the occurrences whose \<open>only_once\<close> request was sent.\<close>

type_synonym system = "store \<times> flight list \<times> (string \<times> int) list"

definition sent_once :: "('sc, 'f) definitions \<Rightarrow> einst \<Rightarrow> einst \<Rightarrow> bool" where
  "sent_once D i j \<longleftrightarrow> e_reached j \<noteq> e_reached i \<and>
     (case D (i_ProcessName i) (i_ProcessVersion i) of
        None \<Rightarrow> False
      | Some def \<Rightarrow> list_ex (\<lambda>t. OnlyOnceAction t \<and> tk_ID t = last (e_reached j)) (pd_Tasks def))"

text \<open>
  What happens to the database without a lease on an instance. An operator's retry starts a failed
  occurrence again by decision, and an upgrade changes the definition under it: neither is a step here,
  nor is the retention sweep, which forgets rows.
\<close>

inductive world_step :: "store \<Rightarrow> store \<Rightarrow> bool" where
  "world_step s (snd (SaveInstance i now s))"
| "world_step s (snd (RenewWorkerLeases w ids dur now s))"
| "world_step s (snd (PauseProcess n now s))"
| "world_step s (snd (CancelProcess n now s))"
| "world_step s (snd (ResumeProcess n now s))"
| "world_step s (snd (DeliverSignal n task mint outcome now s))"
| "world_step s (snd (ResolveExternalTask n epoch claim mint outcome now s))"
| "world_step s (snd (ClaimExternalTasks_pg locked w dur limit f now s))"
| "world_step s (snd (ClaimExternalTasks_sqlite w dur limit f now s))"
| "world_step s (snd (RenewExternalClaims w cs dur now s))"
| "world_step s (snd (ReleaseExternalClaim n te ce now s))"
| "world_step s (snd (MarkExternalClaimLost n te now s))"
| "world_step s (snd (CollectObjects grace now s))"

inductive system_step :: "('sc, 'f) definitions \<Rightarrow> (('sc, 'd, 'p, 'f) engine \<Rightarrow> bool) \<Rightarrow> system \<Rightarrow> system \<Rightarrow> bool"
  for D :: "('sc, 'f) definitions" and ok :: "('sc, 'd, 'p, 'f) engine \<Rightarrow> bool" where
  sys_world: "world_step s t \<Longrightarrow> system_step D ok (s, fl, log) (t, fl, log)"
| sys_claim: "w \<noteq> [] \<Longrightarrow> ClaimInstances locked w dur limit cutoff now s = (gs, t) \<Longrightarrow>
     system_step D ok (s, fl, log) (t, fl @ map Claimed (List.map_filter (\<lambda>g. from_db g (u g)) gs), log)"
| sys_advance: "ok X \<Longrightarrow> advanceGuarded X i = (j, out) \<Longrightarrow>
     system_step D ok (s, a @ Claimed i # b, log)
       (s, a @ Advanced i j out # b, if sent_once D i j then (i_ID i, i_TaskEpoch i) # log else log)"
| sys_write: "writeAdvance (X :: ('sc, 'd, 'p, 'f) engine) H postgres now j out s = (k, res, t) \<Longrightarrow>
     system_step D ok (s, a @ Advanced i j out # b, log) (t, a @ b, log)"
| sys_crash: "system_step D ok (s, a @ f # b, log) (s, a @ b, log)"

lemma world_kept: "world_step s t \<Longrightarrow> distinct (map r_id (s_rows s)) \<Longrightarrow> rows_le kept (s_rows s) (s_rows t)"
  by (induction rule: world_step.induct)
    (simp_all add: kept_rows.rows_save kept_rows.rows_renew kept_rows.rows_verbs kept_rows.rows_resume kept_rows.rows_signals
      kept_rows.rows_queue kept_rows.rows_renew_claims CollectObjects_rows)

subsection \<open>One advance\<close>

text \<open>After the write of such an advance no claim finds the occurrence waiting to run.\<close>

definition moves :: "einst \<Rightarrow> einst \<Rightarrow> advance_outcome \<Rightarrow> bool" where
  "moves i j out \<longleftrightarrow> out = OutcomeTerminal \<and> Terminal (i_Status j) \<or> i_TaskEpoch i < i_TaskEpoch j"

lemma handled_moves: "handled i (j, out) \<Longrightarrow> moves i j out \<and> e_reached j = e_reached i"
  by (auto simp: handled_def ended_def still_def moves_def Terminal_def)

lemma moves_from: "moves k j out \<Longrightarrow> i_TaskEpoch k = i_TaskEpoch i \<Longrightarrow> moves i j out"
  by (simp add: moves_def)

lemma reached_moves:
  assumes "i_Status i \<in> {StatusRunning, StatusPausing, StatusCancelling}" "i_Phase i \<noteq> PhaseChildren" "advanceGuarded X i = (j, out)"
    "e_reached j \<noteq> e_reached i"
  shows "moves i j out"
  using request_rule [OF assms] advanceGuarded_advanced [OF assms(3,1,2)]
  by (auto simp: moves_def advanced_def Terminal_def)


lemma definition_agrees: "agrees D X \<Longrightarrow> definition_at X site i = Inr def \<Longrightarrow> D (i_ProcessName i) (i_ProcessVersion i) = Some def"
  unfolding definition_at_def agrees_def using retryRead_Inr by metis

lemma reclaimed_moves:
  assumes i: "i_Status i \<in> {StatusRunning, StatusPausing, StatusCancelling}" "i_ReclaimedExpired i" "i_Phase i \<noteq> PhaseChildren"
    and D: "agrees D X" "lookup_answers D X" "once_at D (i_ProcessName i) (i_ProcessVersion i) (i_Task i)"
    and run: "advanceGuarded X i = (j, out)"
  shows "moves i j out"
proof -
  obtain def where d: "D (i_ProcessName i) (i_ProcessVersion i) = Some def" "0 \<le> taskIndex (pd_Tasks def) (i_Task i)"
    "OnlyOnceAction (pd_Tasks def ! nat (taskIndex (pd_Tasks def) (i_Task i)))"
    using D(3) by (auto simp: once_at_def Let_def split: option.splits)
  then have task: "i_Task i \<noteq> []" by (auto simp: taskIndex_def)
  consider "i_Status i = StatusCancelling" | "i_Status i = StatusPausing" | "i_Status i = StatusRunning" using i(1) by blast
  then show ?thesis
  proof cases
    case 1
    then show ?thesis using run by (auto simp: advanceGuarded_def advance_def settleCancelling_def moves_def Terminal_def)
  next
    case 2
    obtain def' where "definition_at X AtLookup i = Inr def'" using D(2) d(1) by (auto simp: lookup_answers_def)
    moreover from this have "def' = def" using definition_agrees [OF D(1)] d(1) by fastforce
    ultimately have l: "lookupTask X AtLookup i = Some (pd_Tasks def ! nat (taskIndex (pd_Tasks def) (i_Task i)))"
      using d(2) task by (simp add: lookupTask_def Let_def)
    obtain k o' where h: "handleCallError X (pd_Tasks def ! nat (taskIndex (pd_Tasks def) (i_Task i))) interruptedMessage OnlyOnceInterrupted
        (i\<lparr>i_Status := StatusRunning\<rparr>) = (k, o')" by fastforce
    then have "j = k" "out = o'" using 2 l d(3) i(2) run by (auto simp: advanceGuarded_def advance_def)
    moreover have "handled (i\<lparr>i_Status := StatusRunning\<rparr>) (k, o')"
      using h handleCallError_handled [of "i\<lparr>i_Status := StatusRunning\<rparr>" X _ interruptedMessage OnlyOnceInterrupted] by metis
    ultimately show ?thesis using handled_moves [of "i\<lparr>i_Status := StatusRunning\<rparr>" k o'] by (simp add: moves_def)
  next
    case 3
    obtain k r where p: "prepareAdvance X i = (k, r)" by fastforce
    from p 3 i(3) show ?thesis
    proof (cases rule: prepareAdvance_cases)
      case (1 out')
      then have "j = k" "out = out'" using run 3 p by (auto simp: advanceGuarded_def advance_def)
      then show ?thesis using handled_moves 1(2) by blast
    next
      case (2 def' idx)
      then have "def' = def" using definition_agrees [OF D(1)] d(1) by fastforce
      then show ?thesis using 2(6,7) d(2,3) i(2) by simp
    qed
  qed
qed

lemma sent_pending:
  assumes i: "i_Status i \<in> {StatusRunning, StatusPausing, StatusCancelling}" "i_Phase i \<noteq> PhaseChildren" "advanceGuarded X i = (j, out)"
    and D: "agrees D X" "\<And>n v def. D n v = Some def \<Longrightarrow> distinct (map tk_ID (pd_Tasks def))" "sent_once D i j"
  shows "i_Status i = StatusRunning \<and> \<not> i_ReclaimedExpired i \<and> once_at D (i_ProcessName i) (i_ProcessVersion i) (i_Task i)"
proof -
  obtain def where d: "D (i_ProcessName i) (i_ProcessVersion i) = Some def" using D(3) by (auto simp: sent_once_def split: option.splits)
  obtain def' t where t: "definition_at X AtPrepare i = Inr def'" "t \<in> set (pd_Tasks def')" "e_reached j = e_reached i @ [tk_ID t]"
      "OnlyOnceAction t \<longrightarrow> lookupTask X AtPrepare i = Some t \<and> \<not> i_ReclaimedExpired i" and st: "i_Status i = StatusRunning"
    using request_rule [OF i] D(3) by (auto simp: sent_once_def)
  have def': "def' = def" using definition_agrees [OF D(1) t(1)] d by simp
  obtain t' where t': "t' \<in> set (pd_Tasks def)" "OnlyOnceAction t'" "tk_ID t' = tk_ID t"
    using D(3) d t(3) by (auto simp: sent_once_def list_ex_iff)
  then have "t' = t" using D(2) [OF d] t(2) def' by (auto simp: distinct_map inj_on_def)
  then have once: "lookupTask X AtPrepare i = Some t" "\<not> i_ReclaimedExpired i" "OnlyOnceAction t" using t(4) t'(2) by auto
  then have "once_at D (i_ProcessName i) (i_ProcessVersion i) (i_Task i)"
    using t(1) d def' by (auto simp: lookupTask_def once_at_def Let_def split: if_splits)
  then show ?thesis using st once by blast
qed


subsection \<open>Its write\<close>

text \<open>The grant and the occurrence an instance writes with.\<close>

definition writes_as :: "einst \<Rightarrow> inst \<Rightarrow> bool" where
  "writes_as j d \<longleftrightarrow> i_ID d = i_ID j \<and> i_LeaseEpoch d = i_LeaseEpoch j \<and> i_WorkerID d = i_WorkerID j \<and> i_TaskEpoch d = i_TaskEpoch j"

lemma to_db_as: "to_db H (j\<lparr>i_NextReplayable := b\<rparr>) = Some d \<Longrightarrow> writes_as j d \<and> i_Status d = i_Status j"
  by (auto simp: writes_as_def dest: to_db_fields)

lemma written_by_True: "written_by d False p \<Longrightarrow> written_by d any p"
  by (auto simp: written_by_def)

lemma running_writer: "i_Status d = StatusRunning \<Longrightarrow> wrote_rows.writer d d any \<and> wrote_rows.marker d d"
  by (auto simp: written_by_def Terminal_def)

lemma any_writer: "wrote_rows.writer d d False"
  by (auto simp: written_by_def)

lemma persist_wrote:
  assumes p: "persist X H postgres now j out s = (r, t)" and st: "out \<noteq> OutcomeTerminal \<Longrightarrow> i_Status j = StatusRunning"
  shows "t = s \<or> (\<exists>d. rows_le (wrote d) (s_rows s) (s_rows t) \<and> writes_as j d \<and> i_Status d = i_Status j)"
proof (cases "to_db H (j\<lparr>i_NextReplayable := \<not> taskIsOnlyOnce X j\<rparr>)")
  case None
  then show ?thesis using p by (cases out) (auto simp: persist_def saveAndNotify_def persistArm_def with_db_def Let_def)
next
  case (Some d)
  note d = to_db_as [OF Some]
  have run: "wrote_rows.writer d d any \<and> wrote_rows.marker d d" if "out \<noteq> OutcomeTerminal" for any
    using running_writer d st [OF that] by metis
  have "t = s \<or> rows_le (wrote d) (s_rows s) (s_rows t)"
  proof (cases out)
    case OutcomeTerminal
    then show ?thesis
      using p Some wrote_rows.rows_update [OF any_writer, of d s now] wrote_rows.rows_fail [OF any_writer, of d s postgres now]
        wrote_rows.rows_finish [OF any_writer, of d s postgres now]
      by (auto simp: persist_def saveAndNotify_def with_db_def Let_def split: if_splits)
  next
    case OutcomeProgress
    then show ?thesis using p Some wrote_rows.rows_progress [of d d s now] run by (auto simp: persist_def with_db_def)
  next
    case OutcomeUpdate
    then show ?thesis using p Some wrote_rows.rows_update [OF any_writer, of d s now] by (auto simp: persist_def with_db_def)
  next
    case (OutcomeSpawn cs)
    then show ?thesis using p Some wrote_rows.rows_spawn [of d d s _ now] run by (auto simp: persist_def with_db_def split: option.splits) (metis snd_conv)
  next
    case (OutcomeRespawn retired cs)
    then show ?thesis using p Some wrote_rows.rows_respawn [of d d s retired _ now] run by (auto simp: persist_def with_db_def split: option.splits) (metis snd_conv)
  next
    case (OutcomeArm a)
    then show ?thesis using p Some wrote_rows.rows_arm [of d d s _ _ _ now] run
      by (auto simp: persist_def persistArm_def with_db_def Let_def split: option.splits sum.splits prod.splits) (metis snd_conv)+
  qed
  then show ?thesis using d by blast
qed


lemma writeAdvance_wrote:
  assumes w: "writeAdvance X H postgres now j out s = (k, res, t)" and st: "out \<noteq> OutcomeTerminal \<Longrightarrow> i_Status j = StatusRunning"
  shows "t = s \<or> (\<exists>d. rows_le (wrote d) (s_rows s) (s_rows t) \<and> writes_as j d \<and> (out = OutcomeTerminal \<longrightarrow> i_Status d = i_Status j))"
proof -
  let ?j = "failInstance EngineSpawn (''task '' @ quote X (i_Task j) @ '' '' @ writeVerb out) j"
  obtain r u where p: "persist X H postgres now j out s = (r, u)" by fastforce
  obtain r' u' where p': "persist X H postgres now ?j OutcomeTerminal s = (r', u')" by fastforce
  have u: "u = s" if "r = Inl e" for e using persist_error p that by blast
  have u': "u' = s" if "r' = Inl e" for e using persist_error p' that by blast
  consider "t = s" | "t = u" | "t = u'" "out \<noteq> OutcomeTerminal"
    using w p p' u u' by (auto simp: writeAdvance_def writeVerb_def Let_def split: if_splits sum.splits advance_outcome.splits)
  then show ?thesis
  proof cases
    case 2
    then show ?thesis using persist_wrote [OF p st] by blast
  next
    case 3
    have as: "writes_as ?j d \<Longrightarrow> writes_as j d" for d by (simp add: writes_as_def failInstance_def audit_def)
    show ?thesis using persist_wrote [OF p'] 3 as by blast
  qed simp
qed

subsection \<open>The invariant\<close>

type_synonym occurrence = "string \<times> int"

definition key :: "einst \<Rightarrow> occurrence" where
  "key i = (i_ID i, i_TaskEpoch i)"

text \<open>A claim that may still send the request of its occurrence.\<close>

fun pending :: "('sc, 'f) definitions \<Rightarrow> occurrence \<Rightarrow> flight \<Rightarrow> bool" where
  "pending D k (Claimed i) \<longleftrightarrow> key i = k \<and> \<not> i_ReclaimedExpired i \<and> i_Status i = StatusRunning \<and>
     once_at D (i_ProcessName i) (i_ProcessVersion i) (i_Task i)"
| "pending D k (Advanced i j out) \<longleftrightarrow> False"

text \<open>How often an occurrence was sent or may still be.\<close>

definition uses :: "('sc, 'f) definitions \<Rightarrow> occurrence \<Rightarrow> flight list \<Rightarrow> occurrence list \<Rightarrow> nat" where
  "uses D k fl log = count_list log k + length (filter (pending D k) fl)"

text \<open>A row no fresh claim of which starts the occurrence: it is past it, has concluded, or is held there.\<close>

definition guarded :: "('sc, 'f) definitions \<Rightarrow> occurrence \<Rightarrow> row \<Rightarrow> bool" where
  "guarded D k x \<longleftrightarrow> r_id x = fst k \<and> (snd k < r_task_epoch x \<or> snd k = r_task_epoch x \<and>
     (if r_worker_id x = None then Terminal (r_status x)
      else once_at D (r_process_name x) (r_process_version x) (r_task x)))"

definition holds :: "einst \<Rightarrow> row \<Rightarrow> bool" where
  "holds i x \<longleftrightarrow> r_lease_epoch x = i_LeaseEpoch i \<and> r_worker_id x = i_WorkerID i"

definition at_place :: "einst \<Rightarrow> row \<Rightarrow> bool" where
  "at_place i x \<longleftrightarrow> r_task_epoch x = i_TaskEpoch i \<and> r_task x = i_Task i \<and> r_process_name x = i_ProcessName i \<and>
     r_process_version x = i_ProcessVersion i"

text \<open>While its grant stands, a flight that cannot send leaves the occurrence free, or its write moves the row on.\<close>

fun settled :: "('sc, 'f) definitions \<Rightarrow> flight list \<Rightarrow> occurrence list \<Rightarrow> flight \<Rightarrow> bool" where
  "settled D fl log (Claimed i) \<longleftrightarrow> i_ReclaimedExpired i \<or> pending D (key i) (Claimed i) \<or> uses D (key i) fl log = 0"
| "settled D fl log (Advanced i j out) \<longleftrightarrow> moves i j out \<or> uses D (key i) fl log = 0"

fun sound :: "flight \<Rightarrow> bool" where
  "sound (Claimed i) \<longleftrightarrow> True"
| "sound (Advanced i j out) \<longleftrightarrow> ident j = ident i \<and> i_TaskEpoch i \<le> i_TaskEpoch j \<and> (out \<noteq> OutcomeTerminal \<longrightarrow> i_Status j = StatusRunning)"

definition claimed_ok :: "einst \<Rightarrow> bool" where
  "claimed_ok i \<longleftrightarrow> (\<exists>w. i_WorkerID i = Some w \<and> w \<noteq> []) \<and> i_Status i \<in> {StatusRunning, StatusPausing, StatusCancelling} \<and>
     i_Phase i \<noteq> PhaseChildren"

definition flight_ok :: "('sc, 'f) definitions \<Rightarrow> flight list \<Rightarrow> occurrence list \<Rightarrow> row list \<Rightarrow> flight \<Rightarrow> bool" where
  "flight_ok D fl log rows f \<longleftrightarrow> claimed_ok (claim_of f) \<and> sound f \<and>
     (\<exists>x \<in> set rows. r_id x = i_ID (claim_of f) \<and> i_LeaseEpoch (claim_of f) \<le> r_lease_epoch x \<and>
        (holds (claim_of f) x \<longrightarrow> at_place (claim_of f) x \<and> settled D fl log f))"

definition system_ok :: "('sc, 'f) definitions \<Rightarrow> system \<Rightarrow> bool" where
  "system_ok D = (\<lambda>(s, fl, log). distinct (map r_id (s_rows s)) \<and> (\<forall>f \<in> set fl. flight_ok D fl log (s_rows s) f) \<and>
     (\<forall>k. uses D k fl log \<le> 1 \<and> (0 < uses D k fl log \<longrightarrow> (\<exists>x \<in> set (s_rows s). guarded D k x))))"

lemma uses_simps:
  "uses D k (a @ f # b) log = uses D k (a @ b) log + (if pending D k f then 1 else 0)"
  "uses D k fl (l # log) = uses D k fl log + (if l = k then 1 else 0)"
  "uses D k (a @ b) [] = length (filter (pending D k) a) + length (filter (pending D k) b)"
  by (auto simp: uses_def)

lemma settled_mono: "settled D fl log f \<Longrightarrow> uses D (key (claim_of f)) fl' log' \<le> uses D (key (claim_of f)) fl log \<Longrightarrow> settled D fl' log' f"
  by (cases f) auto

lemma flight_ok_mono:
  assumes "flight_ok D fl log rows f" "\<And>k. uses D k fl' log' \<le> uses D k fl log"
  shows "flight_ok D fl' log' rows f"
  using assms(1) settled_mono [OF _ assms(2)] unfolding flight_ok_def by blast

lemma system_ok_initial: "system_ok D (empty_store, [], [])"
  by (simp add: system_ok_def empty_store_def uses_def)


text \<open>Two rows of one id are the same row.\<close>

lemma same_row: "distinct (map r_id rows) \<Longrightarrow> x \<in> set rows \<Longrightarrow> y \<in> set rows \<Longrightarrow> r_id x = r_id y \<Longrightarrow> x = y"
  by (auto simp: distinct_map inj_on_def)

lemma kept_guarded: "kept x y \<Longrightarrow> guarded D k x \<Longrightarrow> guarded D k y"
  by (auto simp: kept_def guarded_def split: if_splits)

lemma kept_holds: "kept x y \<Longrightarrow> holds i y = holds i x \<and> at_place i y = at_place i x"
  by (simp add: kept_def holds_def at_place_def)

lemma flight_okI:
  assumes "claimed_ok (claim_of f)" "sound f" "y \<in> set rows" "r_id y = i_ID (claim_of f)" "i_LeaseEpoch (claim_of f) \<le> r_lease_epoch y"
    "holds (claim_of f) y \<Longrightarrow> at_place (claim_of f) y \<and> settled D fl log f"
  shows "flight_ok D fl log rows f"
  using assms unfolding flight_ok_def by blast

lemma flight_okE:
  assumes "flight_ok D fl log rows f"
  obtains x where "claimed_ok (claim_of f)" "sound f" "x \<in> set rows" "r_id x = i_ID (claim_of f)"
    "i_LeaseEpoch (claim_of f) \<le> r_lease_epoch x" "holds (claim_of f) x \<longrightarrow> at_place (claim_of f) x \<and> settled D fl log f"
  using assms unfolding flight_ok_def by blast

lemma system_okD:
  assumes "system_ok D (s, fl, log)"
  shows "distinct (map r_id (s_rows s))" "f \<in> set fl \<Longrightarrow> flight_ok D fl log (s_rows s) f" "uses D k fl log \<le> 1"
    "0 < uses D k fl log \<Longrightarrow> \<exists>x \<in> set (s_rows s). guarded D k x"
  using assms unfolding system_ok_def case_prod_conv by blast+

lemma system_okI:
  assumes "distinct (map r_id (s_rows s))" "\<And>f. f \<in> set fl \<Longrightarrow> flight_ok D fl log (s_rows s) f"
    "\<And>k. uses D k fl log \<le> 1" "\<And>k. 0 < uses D k fl log \<Longrightarrow> \<exists>x \<in> set (s_rows s). guarded D k x"
  shows "system_ok D (s, fl, log)"
  using assms unfolding system_ok_def by simp

lemma claimed_held: "claimed_ok i \<Longrightarrow> holds i x \<Longrightarrow> r_worker_id x \<noteq> None"
  by (auto simp: claimed_ok_def holds_def)

lemma ok_world:
  assumes ok: "system_ok D (s, fl, log)" and k: "rows_le kept (s_rows s) (s_rows t)"
  shows "system_ok D (t, fl, log)"
proof -
  have next_row: "\<exists>y \<in> set (s_rows t). kept x y" if "x \<in> set (s_rows s)" for x using k that by (auto simp: rows_le_def)
  have "flight_ok D fl log (s_rows t) f" if f: "f \<in> set fl" for f
  proof -
    from system_okD(2) [OF ok f] have "flight_ok D fl log (s_rows s) f" .
    then obtain x where x: "claimed_ok (claim_of f)" "sound f" "x \<in> set (s_rows s)" "r_id x = i_ID (claim_of f)"
      "i_LeaseEpoch (claim_of f) \<le> r_lease_epoch x" "holds (claim_of f) x \<longrightarrow> at_place (claim_of f) x \<and> settled D fl log f"
      by (rule flight_okE)
    obtain y where y: "y \<in> set (s_rows t)" "kept x y" using next_row [OF x(3)] by blast
    show ?thesis
      using x(6) y(2) kept_holds [OF y(2)] by (intro flight_okI [OF x(1,2) y(1)]) (auto simp: kept_def x(4,5))
  qed
  moreover have "distinct (map r_id (s_rows t))" using system_okD(1) [OF ok] k by (simp add: rows_le_def)
  moreover have "\<exists>y \<in> set (s_rows t). guarded D k y" if "0 < uses D k fl log" for k
    using system_okD(4) [OF ok that] next_row kept_guarded by meson
  ultimately show ?thesis using system_okD(3) [OF ok] by (intro system_okI)
qed

lemma ok_fewer:
  assumes ok: "system_ok D (s, fl, log)" and f: "set fl' \<subseteq> set fl" and u: "\<And>k. uses D k fl' log' \<le> uses D k fl log"
  shows "system_ok D (s, fl', log')"
proof (rule system_okI)
  show "flight_ok D fl' log' (s_rows s) g" if "g \<in> set fl'" for g
    using system_okD(2) [OF ok, of g] f that flight_ok_mono [OF _ u] by blast
  show "uses D k fl' log' \<le> 1" for k using le_trans [OF u system_okD(3) [OF ok]] .
  show "\<exists>x \<in> set (s_rows s). guarded D k x" if "0 < uses D k fl' log'" for k
    using system_okD(4) [OF ok less_le_trans [OF that u]] .
qed (rule system_okD [OF ok])

lemma ok_crash: "system_ok D (s, a @ f # b, log) \<Longrightarrow> system_ok D (s, a @ b, log)"
  by (erule ok_fewer) (auto simp: uses_simps)


subsection \<open>The write keeps it\<close>

lemma wrote_holds:
  assumes "writes_as j d" "ident j = ident i" "claimed_ok i" "inst_fence d x"
  shows "holds i x" "r_id x = i_ID i"
proof -
  obtain w where w: "i_WorkerID i = Some w" "w \<noteq> []" using assms(3) by (auto simp: claimed_ok_def)
  then have "i_WorkerID d = Some w" using assms(1,2) by (simp add: writes_as_def ident_def)
  then have "r_worker_id x = Some w" using coalesce_worker w(2) assms(4) by (simp add: inst_fence_def)
  then show "holds i x" "r_id x = i_ID i" using assms w(1) by (simp_all add: holds_def writes_as_def ident_def inst_fence_def)
qed

lemma wrote_guarded:
  assumes w: "wrote d x y" "\<not> kept x y" and d: "i_TaskEpoch d = i_TaskEpoch j" "out = OutcomeTerminal \<longrightarrow> i_Status d = i_Status j"
    and j: "i_TaskEpoch i \<le> i_TaskEpoch j" "at_place i x" "r_id x = i_ID i"
    and m: "k = key i \<Longrightarrow> moves i j out" and g: "guarded D k x"
  shows "guarded D k y"
proof -
  have y: "r_id y = i_ID i" "r_task_epoch y = i_TaskEpoch j" "r_worker_id y = None" "Terminal (i_Status d) \<Longrightarrow> Terminal (r_status y)"
    using w d(1) j(3) by (simp_all add: wrote_def)
  have k: "fst k = i_ID i" using g j(3) by (simp add: guarded_def)
  consider "snd k < i_TaskEpoch i" | "k = key i" using g j(2) k by (cases k) (auto simp: guarded_def at_place_def key_def)
  then show ?thesis
  proof cases
    case 1
    then show ?thesis using y j(1) k by (simp add: guarded_def)
  next
    case 2
    then show ?thesis using m [OF 2] y j(1) d(2) by (auto simp: guarded_def moves_def key_def)
  qed
qed

lemma ok_write:
  assumes ok: "system_ok D (s, a @ Advanced i j out # b, log)" and w: "writeAdvance X H postgres now j out s = (k, res, t)"
  shows "system_ok D (t, a @ b, log)"
proof -
  let ?fl = "a @ Advanced i j out # b"
  have u [simp]: "uses D k ?fl log = uses D k (a @ b) log" for k by (simp add: uses_simps)
  have "flight_ok D ?fl log (s_rows s) (Advanced i j out)" by (rule system_okD(2) [OF ok]) simp
  then obtain x where x: "claimed_ok i" "sound (Advanced i j out)" "x \<in> set (s_rows s)" "r_id x = i_ID i"
    "holds i x \<longrightarrow> at_place i x \<and> settled D ?fl log (Advanced i j out)"
    by (rule flight_okE) simp
  then have j: "ident j = ident i" "i_TaskEpoch i \<le> i_TaskEpoch j" "out \<noteq> OutcomeTerminal \<Longrightarrow> i_Status j = StatusRunning" by auto
  show ?thesis
  proof (cases "t = s")
    case True
    then show ?thesis using ok_crash [OF ok] by simp
  next
    case False
    then obtain d where d: "rows_le (wrote d) (s_rows s) (s_rows t)" "writes_as j d" "out = OutcomeTerminal \<longrightarrow> i_Status d = i_Status j"
      using writeAdvance_wrote [OF w j(3)] by blast
    have ids: "distinct (map r_id (s_rows s))" "distinct (map r_id (s_rows t))" using system_okD(1) [OF ok] d(1) by (simp_all add: rows_le_def)
    have next_row: "\<exists>y \<in> set (s_rows t). wrote d z y" if "z \<in> set (s_rows s)" for z using d(1) that by (auto simp: rows_le_def)
    have "flight_ok D (a @ b) log (s_rows t) f" if f: "f \<in> set (a @ b)" for f
    proof -
      have "flight_ok D ?fl log (s_rows s) f" by (rule system_okD(2) [OF ok]) (use f in auto)
      then have "flight_ok D (a @ b) log (s_rows s) f" by (rule flight_ok_mono) simp
      then obtain z where z: "claimed_ok (claim_of f)" "sound f" "z \<in> set (s_rows s)" "r_id z = i_ID (claim_of f)"
        "i_LeaseEpoch (claim_of f) \<le> r_lease_epoch z" "holds (claim_of f) z \<longrightarrow> at_place (claim_of f) z \<and> settled D (a @ b) log f"
        by (rule flight_okE)
      obtain y where y: "y \<in> set (s_rows t)" "wrote d z y" using next_row [OF z(3)] by blast
      have row: "r_id y = r_id z" "r_lease_epoch y = r_lease_epoch z" using y(2) by (auto simp: wrote_def kept_def)
      have "kept z y" if "holds (claim_of f) y" using y(2) claimed_held [OF z(1) that] by (auto simp: wrote_def)
      then show ?thesis
        using z(6) kept_holds by (intro flight_okI [OF z(1,2) y(1)]) (auto simp: row z(4,5))
    qed
    moreover have "\<exists>y \<in> set (s_rows t). guarded D k y" if k: "0 < uses D k (a @ b) log" for k
    proof -
      obtain z where z: "z \<in> set (s_rows s)" "guarded D k z" using system_okD(4) [OF ok, of k] k by auto
      obtain y where y: "y \<in> set (s_rows t)" "wrote d z y" using next_row [OF z(1)] by blast
      have "guarded D k y"
      proof (cases "kept z y")
        case False
        then have h: "holds i z" "r_id z = i_ID i" using y(2) wrote_holds [OF d(2) j(1) x(1)] by (simp_all add: wrote_def)
        then have "z = x" using same_row [OF ids(1) z(1) x(3)] x(4) by simp
        then have s: "at_place i z" "settled D ?fl log (Advanced i j out)" using x(5) h(1) by auto
        then have "k = key i \<Longrightarrow> moves i j out" using k by auto
        then show ?thesis
          using wrote_guarded [OF y(2) False _ d(3) j(2) s(1) h(2) _ z(2)] d(2) by (simp add: writes_as_def)
      qed (use kept_guarded z(2) in blast)
      then show ?thesis using y(1) by blast
    qed
    ultimately show ?thesis using ids(2) system_okD(3) [OF ok] by (intro system_okI) simp_all
  qed
qed

subsection \<open>The advance keeps it\<close>

lemma advanced_sound:
  assumes "claimed_ok i" "advanceGuarded X i = (j, out)"
  shows "sound (Advanced i j out)"
  using advanceGuarded_advanced [OF assms(2)] assms(1)
  by (cases out) (auto simp: claimed_ok_def advanced_def)

lemma held_once:
  assumes "system_ok D (s, fl, log)" "0 < uses D (key i) fl log" "x \<in> set (s_rows s)" "r_id x = i_ID i" "claimed_ok i" "holds i x" "at_place i x"
  shows "once_at D (i_ProcessName i) (i_ProcessVersion i) (i_Task i)"
proof -
  obtain z where z: "z \<in> set (s_rows s)" "guarded D (key i) z" using system_okD(4) [OF assms(1,2)] by blast
  then have "z = x" using same_row [OF system_okD(1) [OF assms(1)] _ assms(3)] assms(4) by (simp add: guarded_def key_def)
  then show ?thesis
    using z(2) assms(7) claimed_held [OF assms(5,6)] by (auto simp: guarded_def key_def at_place_def split: if_splits)
qed

definition careful :: "('sc, 'f) definitions \<Rightarrow> ('sc, 'd, 'p, 'f) engine \<Rightarrow> bool" where
  "careful D X \<longleftrightarrow> agrees D X \<and> lookup_answers D X"

definition distinct_tasks :: "('sc, 'f) definitions \<Rightarrow> bool" where
  "distinct_tasks D \<longleftrightarrow> (\<forall>n v def. D n v = Some def \<longrightarrow> distinct (map tk_ID (pd_Tasks def)))"

lemma advance_settles:
  assumes ok: "system_ok D (s, a @ Claimed i # b, log)" and X: "careful D X"
    and run: "advanceGuarded X i = (j, out)"
    and x: "claimed_ok i" "x \<in> set (s_rows s)" "r_id x = i_ID i" "holds i x" "at_place i x" "settled D (a @ Claimed i # b) log (Claimed i)"
    and le: "uses D (key i) fl' log' \<le> uses D (key i) (a @ Claimed i # b) log"
    and quiet: "e_reached j = e_reached i \<Longrightarrow> uses D (key i) fl' log' \<le> uses D (key i) (a @ b) log"
  shows "settled D fl' log' (Advanced i j out)"
proof -
  have i: "i_Status i \<in> {StatusRunning, StatusPausing, StatusCancelling}" "i_Phase i \<noteq> PhaseChildren" using x(1) by (simp_all add: claimed_ok_def)
  consider "e_reached j \<noteq> e_reached i" | "uses D (key i) (a @ Claimed i # b) log = 0"
    | "e_reached j = e_reached i" "pending D (key i) (Claimed i)"
    | "i_ReclaimedExpired i" "0 < uses D (key i) (a @ Claimed i # b) log" using x(6) by auto
  then show ?thesis
  proof cases
    case 1
    then show ?thesis using reached_moves [OF i run] by simp
  next
    case 2
    then show ?thesis using le by simp
  next
    case 3
    have "uses D (key i) (a @ Claimed i # b) log \<le> 1" by (rule system_okD(3) [OF ok])
    then show ?thesis using 3 quiet by (simp add: uses_simps del: pending.simps)
  next
    case 4
    then show ?thesis
      using reclaimed_moves [OF i(1) 4(1) i(2) _ _ held_once [OF ok 4(2) x(2,3,1,4,5)] run] X by (simp add: careful_def)
  qed
qed

lemma ok_advance:
  assumes ok: "system_ok D (s, a @ Claimed i # b, log)" and X: "careful D X" and D: "distinct_tasks D"
    and run: "advanceGuarded X i = (j, out)"
  shows "system_ok D (s, a @ Advanced i j out # b, if sent_once D i j then key i # log else log)"
proof -
  let ?fl = "a @ Claimed i # b" and ?fl' = "a @ Advanced i j out # b" and ?log = "if sent_once D i j then key i # log else log"
  have "flight_ok D ?fl log (s_rows s) (Claimed i)" by (rule system_okD(2) [OF ok]) simp
  then obtain x where x: "claimed_ok i" "x \<in> set (s_rows s)" "r_id x = i_ID i" "i_LeaseEpoch i \<le> r_lease_epoch x"
    "holds i x \<longrightarrow> at_place i x \<and> settled D ?fl log (Claimed i)"
    by (rule flight_okE) simp
  have i: "i_Status i \<in> {StatusRunning, StatusPausing, StatusCancelling}" "i_Phase i \<noteq> PhaseChildren" using x(1) by (simp_all add: claimed_ok_def)
  have "pending D (key i) (Claimed i)" if "sent_once D i j"
    using sent_pending [OF i run] X D that by (auto simp: careful_def distinct_tasks_def)
  then have le: "uses D k ?fl' ?log \<le> uses D k ?fl log" for k by (auto simp: uses_simps)
  have quiet: "uses D (key i) ?fl' ?log \<le> uses D (key i) (a @ b) log" if "e_reached j = e_reached i"
    using that by (simp add: uses_simps sent_once_def)
  have "flight_ok D ?fl' ?log (s_rows s) (Advanced i j out)"
    using x advanced_sound [OF x(1) run] advance_settles [OF ok X run x(1,2,3) _ _ _ le quiet]
    by (intro flight_okI [of _ x]) simp_all
  moreover have "flight_ok D ?fl' ?log (s_rows s) f" if "f \<in> set (a @ b)" for f
    by (rule flight_ok_mono [OF system_okD(2) [OF ok] le]) (use that in auto)
  moreover have "\<exists>x \<in> set (s_rows s). guarded D k x" if "0 < uses D k ?fl' ?log" for k
    using system_okD(4) [OF ok less_le_trans [OF that le]] .
  ultimately show ?thesis
    using system_okD(1) [OF ok] le_trans [OF le system_okD(3) [OF ok]] by (intro system_okI) auto
qed

subsection \<open>The claim keeps it\<close>

text \<open>An instance as a claim hands it out, against the row before the grant.\<close>

definition granted :: "string \<Rightarrow> row \<Rightarrow> einst \<Rightarrow> bool" where
  "granted w x i \<longleftrightarrow> i_ID i = r_id x \<and> i_LeaseEpoch i = r_lease_epoch x + 1 \<and> i_WorkerID i = Some w \<and> i_Status i = r_status x \<and>
     i_Phase i = r_phase x \<and> at_place i x \<and> i_ReclaimedExpired i = (r_worker_id x \<noteq> None)"

definition hand_out :: "string \<Rightarrow> int \<Rightarrow> row \<Rightarrow> inst" where
  "hand_out w e r = (toInstance (set_grant w e r))\<lparr>i_ReclaimedExpired := (r_worker_id r \<noteq> None)\<rparr>"

lemma hand_out_granted: "from_db (hand_out w e r) u = Some i \<Longrightarrow> granted w r i"
  by (auto simp: from_db_def hand_out_def toInstance_def set_grant_def granted_def at_place_def inst.extend_def split: option.splits)

lemma fresh_claims:
  "List.map_filter (\<lambda>g. from_db g (u g)) (map (hand_out w e) rows) = news \<Longrightarrow> distinct (map r_id rows) \<Longrightarrow>
     (\<forall>i \<in> set news. \<exists>x \<in> set rows. granted w x i) \<and> distinct (map i_ID news)"
proof (induction rows arbitrary: news)
  case (Cons x rows)
  let ?t = "List.map_filter (\<lambda>g. from_db g (u g)) (map (hand_out w e) rows)"
  have t: "\<forall>i \<in> set ?t. \<exists>x \<in> set rows. granted w x i" "distinct (map i_ID ?t)" using Cons.IH [OF refl] Cons.prems(2) by auto
  have "r_id x \<notin> i_ID ` set ?t" using t(1) Cons.prems(2) by (force simp: granted_def)
  moreover have "i_ID i = r_id x \<and> granted w x i" if "from_db (hand_out w e x) (u (hand_out w e x)) = Some i" for i
    using hand_out_granted [OF that] by (simp add: granted_def)
  ultimately show ?case
    using t Cons.prems(1) by (cases "from_db (hand_out w e x) (u (hand_out w e x))") auto
qed simp

lemma claim_fresh:
  assumes "ClaimInstances locked w dur limit cutoff now s = (gs, t)" "distinct (map r_id (s_rows s))"
    "news = List.map_filter (\<lambda>g. from_db g (u g)) gs"
  obtains cand where "\<forall>i \<in> set news. \<exists>x \<in> set cand. granted w x i" "distinct (map i_ID news)"
    "\<forall>x \<in> set cand. x \<in> set (s_rows s) \<and> claimable now cutoff x"
    "s_rows t = map (\<lambda>x. if x \<in> set cand then set_grant w (now + dur) x else x) (s_rows s)"
proof -
  let ?c = "claim_candidates locked limit now cutoff (s_rows s)"
  have c: "\<forall>x \<in> set ?c. x \<in> set (s_rows s) \<and> claimable now cutoff x"
    by (auto simp: claim_candidates_def dest!: in_set_takeD)
  have dc: "distinct (map r_id ?c)"
    using assms(2) unfolding claim_candidates_def
    by (simp add: distinct_map inj_on_def del: set_filter) (auto simp: inj_on_def dest!: in_set_takeD)
  have "gs = map (hand_out w (now + dur)) ?c"
    using assms(1) by (auto simp: ClaimInstances_def hand_out_def Let_def split: if_splits)
  then have n: "\<forall>i \<in> set news. \<exists>x \<in> set ?c. granted w x i" "distinct (map i_ID news)"
    using fresh_claims [OF _ dc] assms(3) by auto
  have "s_rows t = map (\<lambda>x. if r_id x \<in> r_id ` set ?c then set_grant w (now + dur) x else x) (s_rows s)"
    using claim_rows [of locked w dur limit cutoff now s] assms(1) by simp
  also have "\<dots> = map (\<lambda>x. if x \<in> set ?c then set_grant w (now + dur) x else x) (s_rows s)"
    using c same_row [OF assms(2)] by (intro map_cong refl) (metis image_iff)
  finally show ?thesis using that n c by blast
qed

lemma pending_one: "distinct (map i_ID news) \<Longrightarrow> length (filter (pending D k) (map Claimed news)) \<le> 1"
proof (induction news)
  case (Cons i news)
  show ?case
  proof (cases "pending D k (Claimed i)")
    case True
    then have "i_ID i = fst k" by (auto simp: key_def)
    then have "\<forall>j \<in> set news. i_ID j \<noteq> fst k" using Cons.prems by (metis distinct.simps(2) imageI list.set_map list.simps(9))
    then have "filter (pending D k) (map Claimed news) = []" by (auto simp: filter_empty_conv key_def)
    then show ?thesis by simp
  next
    case False
    then show ?thesis using Cons by (simp del: pending.simps)
  qed
qed simp

lemma uses_append: "uses D k (fl @ map Claimed news) log = uses D k fl log + length (filter (pending D k) (map Claimed news))"
  by (simp add: uses_def)

text \<open>A row free to be claimed: nobody has used or can still use its occurrence.\<close>

lemma free_unused:
  assumes "system_ok D (s, fl, log)" "x \<in> set (s_rows s)" "r_worker_id x = None" "claimable now cutoff x"
  shows "uses D (r_id x, r_task_epoch x) fl log = 0"
proof (rule ccontr)
  assume "uses D (r_id x, r_task_epoch x) fl log \<noteq> 0"
  then obtain z where z: "z \<in> set (s_rows s)" "guarded D (r_id x, r_task_epoch x) z" using system_okD(4) [OF assms(1)] by blast
  then have "z = x" using same_row [OF system_okD(1) [OF assms(1)] _ assms(2)] by (simp add: guarded_def)
  then show False using z(2) assms(3,4) by (auto simp: guarded_def claimable_def Terminal_def)
qed

lemma grant_guarded: "guarded D k x \<Longrightarrow> claimable now cutoff x \<Longrightarrow> guarded D k (set_grant w e x)"
  by (auto simp: guarded_def set_grant_def claimable_def Terminal_def split: if_splits)

lemma granted_ok: "granted w x i \<Longrightarrow> claimable now cutoff x \<Longrightarrow> w \<noteq> [] \<Longrightarrow> claimed_ok i"
  by (auto simp: granted_def claimed_ok_def claimable_def)

lemma granted_key: "granted w x i \<Longrightarrow> key i = (r_id x, r_task_epoch x)"
  by (simp add: granted_def key_def at_place_def)

lemma ok_claim:
  assumes ok: "system_ok D (s, fl, log)" and w: "w \<noteq> []"
    and c: "ClaimInstances locked w dur limit cutoff now s = (gs, t)"
  shows "system_ok D (t, fl @ map Claimed (List.map_filter (\<lambda>g. from_db g (u g)) gs), log)"
proof -
  define news where "news = List.map_filter (\<lambda>g. from_db g (u g)) gs"
  let ?fl = "fl @ map Claimed news"
  have ids: "distinct (map r_id (s_rows s))" by (rule system_okD(1) [OF ok])
  obtain cand where n: "\<forall>i \<in> set news. \<exists>x \<in> set cand. granted w x i" "distinct (map i_ID news)"
    and cand: "\<forall>x \<in> set cand. x \<in> set (s_rows s) \<and> claimable now cutoff x"
    and t: "s_rows t = map (\<lambda>x. if x \<in> set cand then set_grant w (now + dur) x else x) (s_rows s)"
    using claim_fresh [OF c ids news_def] by blast
  have row: "(if x \<in> set cand then set_grant w (now + dur) x else x) \<in> set (s_rows t)" if "x \<in> set (s_rows s)" for x
    using that t by simp
  have pend: "\<exists>x \<in> set cand. granted w x i \<and> key i = k \<and> r_worker_id x = None" if "pending D k (Claimed i)" "i \<in> set news" for k i
    using n(1) that by (fastforce simp: granted_def)
  have quiet: "uses D k ?fl log = uses D k fl log" if "\<And>x. x \<in> set cand \<Longrightarrow> k = (r_id x, r_task_epoch x) \<Longrightarrow> r_worker_id x \<noteq> None" for k
    using pend that granted_key by (fastforce simp: uses_append filter_empty_conv simp del: pending.simps)
  have fresh: "uses D k fl log = 0" if "pending D k (Claimed i)" "i \<in> set news" for k i
    using pend [OF that] free_unused [OF ok] cand granted_key by metis
  have old: "flight_ok D ?fl log (s_rows t) f" if f: "f \<in> set fl" for f
  proof -
    from system_okD(2) [OF ok f] obtain x where x: "claimed_ok (claim_of f)" "sound f" "x \<in> set (s_rows s)" "r_id x = i_ID (claim_of f)"
      "i_LeaseEpoch (claim_of f) \<le> r_lease_epoch x" "holds (claim_of f) x \<longrightarrow> at_place (claim_of f) x \<and> settled D fl log f"
      by (rule flight_okE)
    have "settled D ?fl log f" if "x \<notin> set cand" "settled D fl log f"
      using that(2) quiet [of "key (claim_of f)"] same_row [OF ids x(3)] cand x(4) that(1)
      by (intro settled_mono [OF that(2)]) (force simp: key_def)
    then show ?thesis
      using x(4,5,6) by (intro flight_okI [OF x(1,2) row [OF x(3)]]) (auto simp: set_grant_def holds_def)
  qed
  have new: "flight_ok D ?fl log (s_rows t) (Claimed i)" if i: "i \<in> set news" for i
  proof -
    obtain x where x: "x \<in> set cand" "granted w x i" using n(1) i by blast
    have "uses D (key i) ?fl log = 0" if "r_worker_id x = None" "\<not> pending D (key i) (Claimed i)"
    proof -
      have "\<not> pending D (key i) (Claimed i')" if "i' \<in> set news" for i'
        using n(2) i that \<open>\<not> pending D (key i) (Claimed i)\<close> by (auto simp: key_def distinct_map inj_on_def)
      then show ?thesis
        using free_unused [OF ok _ that(1)] x cand granted_key [OF x(2)]
        by (auto simp: uses_append filter_empty_conv simp del: pending.simps)
    qed
    then have "settled D ?fl log (Claimed i)" using x(2) by (auto simp: granted_def simp del: pending.simps)
    moreover have "claimed_ok i" using granted_ok x cand w by blast
    ultimately show ?thesis
      using x cand by (intro flight_okI [OF _ _ row [of x]]) (auto simp: set_grant_def granted_def at_place_def)
  qed
  have "uses D k ?fl log \<le> 1" for k
  proof (cases "\<exists>i \<in> set news. pending D k (Claimed i)")
    case True
    then have "uses D k fl log = 0" using fresh by blast
    then show ?thesis using pending_one [OF n(2), of D k] by (simp add: uses_append)
  next
    case False
    then show ?thesis using system_okD(3) [OF ok, of k] by (auto simp: uses_append filter_empty_conv simp del: pending.simps)
  qed
  moreover have "\<exists>y \<in> set (s_rows t). guarded D k y" if "0 < uses D k ?fl log" for k
  proof (cases "\<exists>i \<in> set news. pending D k (Claimed i)")
    case True
    then obtain i where i: "i \<in> set news" "pending D k (Claimed i)" by blast
    then obtain x where x: "x \<in> set cand" "granted w x i" using pend by blast
    then have "guarded D k (set_grant w (now + dur) x)"
      using i(2) by (auto simp: guarded_def set_grant_def granted_def key_def at_place_def)
    then show ?thesis using row [of x] x(1) cand by auto
  next
    case False
    then have "0 < uses D k fl log" using that by (auto simp: uses_append filter_empty_conv simp del: pending.simps)
    then obtain z where "z \<in> set (s_rows s)" "guarded D k z" using system_okD(4) [OF ok] by blast
    then show ?thesis using row [of z] grant_guarded cand by (metis (full_types))
  qed
  moreover have "distinct (map r_id (s_rows t))"
  proof -
    have "map r_id (s_rows t) = map r_id (s_rows s)" by (simp add: t set_grant_def)
    then show ?thesis using ids by simp
  qed
  ultimately have "system_ok D (t, ?fl, log)" using old new by (intro system_okI) auto
  then show ?thesis by (simp add: news_def)
qed


subsection \<open>At most once\<close>

lemma system_ok_step:
  assumes "distinct_tasks D" "system_ok D x" "system_step D (careful D) x y"
  shows "system_ok D y"
  using assms(3,2)
proof cases
  case (sys_world s t fl log)
  then show ?thesis using assms(2) ok_world [OF _ world_kept] system_okD(1) by blast
next
  case (sys_advance X i j out s a b log)
  then show ?thesis using ok_advance [OF _ sys_advance(3) assms(1) sys_advance(4), of s a b log] assms(2) by (simp add: key_def split: if_splits)
next
  case (sys_write X H postgres now j out s k res t a i b log)
  then show ?thesis using ok_write assms(2) by blast
qed (use assms(2) ok_claim ok_crash in blast)+

interpretation once: step_invariant "system_step D (careful D)" "\<lambda>x. distinct_tasks D \<and> system_ok D x" for D
  by unfold_locales (blast intro: system_ok_step)


end
