(* ===== verification/Engine_Samples.thy ===== *)
theory Engine_Samples
  imports Engine_Props Lazy_Samples Samples
begin

text \<open>
  Concrete advances: a process that calls a payment service once, with a rule for a call that was not sent
  and one for a call that was cut off, and a process that fans out over a list.
\<close>

subsection \<open>A payment\<close>

definition no_delay :: delay_spec where
  "no_delay = \<lparr>ds_For = JNull, ds_Until = JNull, ds_TZ = []\<rparr>"

definition no_retry :: "int retry" where
  "no_retry = \<lparr>rt_Retries = \<lparr>rn_n = 0, rn_expr = []\<rparr>, rt_Delay = \<lparr>rd_set = False, rd_d = 0, rd_expr = []\<rparr>,
     rt_Factor = \<lparr>rn_n = 0, rn_expr = []\<rparr>, rt_MaxDelay = \<lparr>rd_set = False, rd_d = 0, rd_expr = []\<rparr>\<rparr>"

definition pay_action :: "unit action" where
  "pay_action = \<lparr>ac_Type = ActionTypeFetch, ac_URL = ''http://pay'', ac_Method = ''post'', ac_Headers = JNull, ac_Query = JNull,
     ac_AcceptedStatus = JNull, ac_Responses = [], ac_ResultSchema = None, ac_Raises = [], ac_Name = [], ac_Version = 0,
     ac_Body = JNull, ac_Input = JNull, ac_BodySchema = None, ac_QuerySchema = None, ac_InputSchema = None, ac_Children = [],
     ac_Over = [], ac_Timeout = no_delay, ac_Delay = no_delay\<rparr>"

definition not_sent_rule :: "int error_case" where
  "not_sent_rule = \<lparr>ec_Code = [''pre.%''], ec_Case = [], ec_Retry = sample_retry, ec_Goto = [], ec_Raise = None, ec_Panic = None,
     ec_NotReached = None\<rparr>"

definition cut_off_rule :: "int error_case" where
  "cut_off_rule = \<lparr>ec_Code = [''only_once.%'', ''http.%''], ec_Case = [], ec_Retry = no_retry, ec_Goto = ''check'', ec_Raise = None,
     ec_Panic = None, ec_NotReached = None\<rparr>"

definition go_on :: switch_case where
  "go_on = \<lparr>sc_Case = [], sc_Goto = GotoNext, sc_Raise = None, sc_Panic = None\<rparr>"

definition pay_task :: "(unit, int) task" where
  "pay_task = \<lparr>tk_ID = ''t'', tk_Action = Some pay_action, tk_OnlyOnce = Some True, tk_OnError = [not_sent_rule, cut_off_rule],
     tk_Output = JNull, tk_OutputSchema = None, tk_Switch = [go_on]\<rparr>"

definition check_task :: "(unit, int) task" where
  "check_task = \<lparr>tk_ID = ''check'', tk_Action = None, tk_OnlyOnce = None, tk_OnError = [], tk_Output = JNull, tk_OutputSchema = None,
     tk_Switch = [go_on]\<rparr>"

definition pay_process :: "(unit, int) process_definition" where
  "pay_process = \<lparr>pd_Name = ''p'', pd_Tasks = [pay_task, check_task], pd_InputSchema = None, pd_ConfigSchema = None, pd_Output = JNull,
     pd_OutputSchema = None\<rparr>"

text \<open>A network that answers every request alike.\<close>

definition sample_net :: "do_result \<Rightarrow> net" where
  "sample_net r = \<lparr>NewRequestOk = (\<lambda>_ _. True), Do = (\<lambda>_. r), json_decode = (\<lambda>_. DecodedEOF), decoder_drains = (\<lambda>_. False)\<rparr>"

definition sample_engine :: "do_result \<Rightarrow> (unit, int, unit, int) engine" where
  "sample_engine r = \<lparr>x_decimals = whole_decimals, x_parse = sample_parser, x_floats = whole_floats, x_load = Map.empty,
     x_net = sample_net r, GetDefinition = (\<lambda>_ _ _ _. Inr pay_process), Validate = (\<lambda>_ v. Inr v), Conform = (\<lambda>_ v. Inr v),
     ResolveConfig = (\<lambda>_. Inr (JObj [])), ResolveChildVersion = (\<lambda>_ _ _ _ _ _. Inr 1), NextID = (\<lambda>n. ''c'' @ itoa (int n)),
     ChildrenForTask = (\<lambda>_ _ _. Inr []), PeekSignal = (\<lambda>_ _ _. Inr None), LoadLocation = Inr, ParseDuration = Inl, ParseInstant = Inl,
     x_now = 1000, x_now_retry = 1001, x_draw = 0, x_immediateRetries = False, quote = id, err_text = (\<lambda>_. []), retry_text = (\<lambda>_. []),
     sprint_ref = (\<lambda>h _. h)\<rparr>"

definition offline :: do_result where "offline = DoFailed False False"

definition cut_off :: do_result where "cut_off = DoFailed False True"

definition working :: "inst \<Rightarrow> einst" where
  "working i = inst.extend i \<lparr>e_State = [(''outputs'', JObj [])], e_Engine = no_engine_state, e_Config = JObj [], e_ExternalLost = False,
     e_UpdatedAt = 0, e_trail = [], e_reached = []\<rparr>"

lemma sample_reads: "reads_ok (sample_engine r)"
  by (auto simp: reads_ok_def sample_engine_def pay_process_def pay_task_def check_task_def)

lemma root_held: "holds_row (s_rows run2) (working held_root)"
proof -
  have "list_all (\<lambda>x. r_id x = ''r'' \<and> r_parent_id x = [] \<and> r_spawn_task_id x = [] \<and> r_parent_task_epoch x = 0 \<and> r_call_stack x = [] \<and>
      r_lease_epoch x = 1) (s_rows run2) \<and> s_rows run2 \<noteq> []" by code_simp
  then show ?thesis
    by (cases "s_rows run2") (auto simp: holds_row_def working_def held_root_def sample_inst_def inst.defs list_all_iff)
qed

lemma offline_advance:
  "snd (advanceGuarded (sample_engine offline) (working held_root)) = OutcomeUpdate"
  by code_simp


text \<open>The call could not be sent: the retry the first rule grants is written.\<close>

theorem engine_write_is_a_tree_step_witness:
  "tree_inv (s_rows (snd (snd (runAdvance (sample_engine offline) (\<lambda>_. ''c'') True False 3 (working held_root) run2))))"
proof -
  have "i_Status (working held_root) = StatusRunning" "i_Phase (working held_root) = PhaseNone"
    by (simp_all add: working_def held_root_def sample_inst_def inst.defs)
  moreover have "retired_raised (s_rows run2) (snd (advanceGuarded (sample_engine offline) (working held_root)))"
    by (simp add: offline_advance retired_raised_def)
  moreover have "tree_inv (s_rows run2)" using op_step_inv [OF run_steps(2)] op_step_inv [OF run_steps(1)] empty_inv by blast
  ultimately show ?thesis
    using engine_write_is_a_tree_step [OF root_held _ _ sample_reads, of offline "\<lambda>_. ''c''" True False 3] by (metis insertCI phase.distinct(1) prod.collapse)
qed

text \<open>The worker vanished under the call: the second rule takes the row to its check.\<close>

definition reclaimed :: einst where
  "reclaimed = working (held_root\<lparr>i_ReclaimedExpired := True\<rparr>)"

lemma reclaimed_facts: "i_ReclaimedExpired reclaimed" "0 \<le> i_RetryCount reclaimed" "i_Status reclaimed = StatusRunning"
  "lookupTask (sample_engine cut_off) AtPrepare reclaimed = Some pay_task" "OnlyOnceAction pay_task"
  by code_simp+


text \<open>A fresh claim makes the call, and loses the connection under it.\<close>

theorem one_request_per_claim_witness:
  "lookupTask (sample_engine cut_off) AtPrepare (working held_root) = Some pay_task \<and>
   e_reached (fst (advanceGuarded (sample_engine cut_off) (working held_root))) = [''t'']"
proof -
  let ?i = "working held_root"
  have f: "i_Status ?i = StatusRunning" "i_Phase ?i = PhaseNone" "e_reached ?i = []"
    by (simp_all add: working_def held_root_def sample_inst_def inst.defs)
  have r: "e_reached (fst (advanceGuarded (sample_engine cut_off) ?i)) = [''t'']" by code_simp
  have d: "definition_at (sample_engine cut_off) AtPrepare ?i = Inr pay_process" by code_simp
  have p: "t = pay_task" if "t \<in> set (pd_Tasks pay_process)" "tk_ID t = ''t''" for t
    using that by (auto simp: pay_process_def check_task_def)
  have "e_reached (fst (advanceGuarded (sample_engine cut_off) ?i)) \<noteq> e_reached ?i" using r f(3) by simp
  from one_request_per_claim [OF _ _ prod.collapse [symmetric] this] f(1,2)
  obtain def t where t: "definition_at (sample_engine cut_off) AtPrepare ?i = Inr def" "t \<in> set (pd_Tasks def)"
    "[''t''] = [tk_ID t]" "OnlyOnceAction t \<longrightarrow> lookupTask (sample_engine cut_off) AtPrepare ?i = Some t"
    unfolding r f(3) by auto
  have "t = pay_task" using p t(1-3) d by simp
  then show ?thesis using t(4) reclaimed_facts(5) r by blast
qed


subsection \<open>A fan-out\<close>

definition fan_child :: "string \<Rightarrow> int \<Rightarrow> status \<Rightarrow> string \<Rightarrow> einst" where
  "fan_child n k st out = (working (sample_inst n ''r'' [''r''] ''t''))\<lparr>i_Status := st, i_ErrorCode := (if st = StatusRaised then ''busy'' else []),
     e_Engine := no_engine_state\<lparr>es_spawn_index := Some k\<rparr>, e_State := [(''output'', JStr out)]\<rparr>"

definition fan_action :: "unit action" where
  "fan_action = pay_action\<lparr>ac_Type := ActionTypeChildList, ac_Name := ''p'', ac_Over := ''$: outputs''\<rparr>"



text \<open>A single child raised, under a rule that grants three retries.\<close>

definition call_action :: "unit action" where
  "call_action = pay_action\<lparr>ac_Type := ActionTypeChild, ac_Name := ''p''\<rparr>"

definition call_task :: "(unit, int) task" where
  "call_task = pay_task\<lparr>tk_Action := Some call_action, tk_OnlyOnce := None, tk_OnError := [not_sent_rule\<lparr>ec_Code := [''busy'']\<rparr>]\<rparr>"

definition raised_child :: einst where
  "raised_child = (working (sample_inst ''a'' ''r'' [''r''] ''t''))\<lparr>i_Status := StatusRaised, i_ErrorCode := ''busy''\<rparr>"

definition call_engine :: "(unit, int, unit, int) engine" where
  "call_engine = (sample_engine offline)\<lparr>ChildrenForTask := (\<lambda>_ _ _. Inr [raised_child])\<rparr>"

definition collecting :: einst where
  "collecting = working (held_root\<lparr>i_Phase := PhaseCollecting\<rparr>)"

definition collected :: "einst \<times> jval task_verdict" where
  "collected = collectBatch call_engine call_task call_action collecting"

definition new_children :: "einst \<times> jval task_verdict \<Rightarrow> (string list \<times> einst list) option" where
  "new_children r = (case snd r of Stop (OutcomeRespawn retired cs) \<Rightarrow> Some (retired, cs) | _ \<Rightarrow> None)"

lemma new_childrenD: "new_children r = Some (retired, cs) \<Longrightarrow> r = (fst r, Stop (OutcomeRespawn retired cs))"
  by (cases r) (auto simp: new_children_def split: task_verdict.splits advance_outcome.splits)

theorem respawn_takes_over_raised_slots_witness:
  "\<exists>c. new_children collected = Some ([''a''], [c]) \<and> takes_over call_engine call_task collecting raised_child c"
proof -
  have "(case new_children collected of Some (retired, cs) \<Rightarrow> retired = [''a''] \<and> length cs = 1 | None \<Rightarrow> False)" by code_simp
  then obtain c where c: "new_children collected = Some ([''a''], [c])"
    by (auto simp: length_Suc_conv split: option.splits)
  have s: "ChildrenForTask call_engine p task n = Inr siblings \<longleftrightarrow> siblings = [raised_child]" for p task n siblings
    by (auto simp: call_engine_def)
  show ?thesis
    using respawn_takes_over_raised_slots [OF new_childrenD [OF c, unfolded collected_def]] c by (auto simp: s)
qed

end
