(* ===== verification/Once_Samples.thy ===== *)
theory Once_Samples
  imports At_Most_Once Engine_Samples
begin

text \<open>
  Two runs of the whole system. In both a worker sends the payment and vanishes before it writes. A later
  claim finds the lease expired: it takes the rule for a call that was cut off. In the second run an
  operator paused the tree in between, and the claim that settles the pause cannot read the definition.
\<close>

type_synonym sample = "(unit, int, unit, int) engine"

definition pay_defs :: "(unit, int) definitions" where
  "pay_defs = (\<lambda>_ _. Some pay_process)"

definition taken :: "string \<Rightarrow> int \<Rightarrow> int \<Rightarrow> store \<Rightarrow> einst list \<times> store" where
  "taken w cutoff now s =
     (case ClaimInstances [] w 10 5 cutoff now s of (gs, t) \<Rightarrow> (List.map_filter (\<lambda>g. from_db g 0) gs, t))"

lemma sys_taken:
  assumes "w \<noteq> []" "length (fst (taken w cutoff now s)) = 1"
  shows "system_step D ok (s, [], log) (snd (taken w cutoff now s), [Claimed (hd (fst (taken w cutoff now s)))], log)"
proof -
  obtain gs t where c: "ClaimInstances [] w 10 5 cutoff now s = (gs, t)" by fastforce
  then obtain i where "List.map_filter (\<lambda>g. from_db g 0) gs = [i]" using assms(2) by (auto simp: taken_def length_Suc_conv)
  then show ?thesis using sys_claim [OF assms(1) c, of D ok "[]" log "\<lambda>_. 0"] c by (simp add: taken_def)
qed

lemma sys_taken_advance:
  assumes "w \<noteq> []" "length (fst (taken w cutoff now s)) = 1" "ok X" "i = hd (fst (taken w cutoff now s))" "advanceGuarded X i = (j, out)"
  shows "reaches (system_step D ok) (s, [], log) (snd (taken w cutoff now s), [Advanced i j out],
    if sent_once D i j then (i_ID i, i_TaskEpoch i) # log else log)"
proof -
  have "system_step D ok (s, [], log) (snd (taken w cutoff now s), [] @ Claimed i # [], log)"
    using sys_taken [OF assms(1,2)] assms(4) by simp
  from reaches_step [OF reaches_one [of "system_step D ok", OF this] sys_advance [of ok X, OF assms(3,5)]]
  show ?thesis by simp
qed

lemma sample_careful: "careful pay_defs (sample_engine r)"
proof -
  have "definition_at (sample_engine r) AtLookup i = Inr pay_process" for i
    by (simp add: definition_at_def sample_engine_def retryRead_def readAttempts_def numeral_2_eq_2)
  then show ?thesis by (auto simp: careful_def agrees_def lookup_answers_def pay_defs_def sample_engine_def)
qed

lemma pay_distinct: "distinct_tasks pay_defs"
  by (simp add: distinct_tasks_def pay_defs_def pay_process_def pay_task_def check_task_def)

subsection \<open>A crash\<close>

definition caller :: einst where "caller = hd (fst (taken ''w'' 0 1 run1))"

definition called :: "einst \<times> advance_outcome" where "called = advanceGuarded (sample_engine cut_off) caller"

definition heir :: einst where "heir = hd (fst (taken ''v'' 100 101 (snd (taken ''w'' 0 1 run1))))"

definition checked :: "einst \<times> advance_outcome" where "checked = advanceGuarded (sample_engine cut_off) heir"

definition crash_run :: system where
  "crash_run = (snd (taken ''v'' 100 101 (snd (taken ''w'' 0 1 run1))), [Advanced heir (fst checked) (snd checked)], [(''r'', 0)])"

lemma crash_facts:
  "length (fst (taken ''w'' 0 1 run1)) = 1" "sent_once pay_defs caller (fst called)" "i_ID caller = ''r''" "i_TaskEpoch caller = 0"
  "length (fst (taken ''v'' 100 101 (snd (taken ''w'' 0 1 run1)))) = 1" "\<not> sent_once pay_defs heir (fst checked)"
  "i_ReclaimedExpired heir" "i_Task (fst checked) = ''check''"
  by code_simp+

lemma run1_reached: "reaches (system_step D ok) (empty_store, [], []) (run1, [], [])"
  unfolding run1_def by (intro reaches_one sys_world world_step.intros)

lemma called_reached:
  assumes "ok (sample_engine cut_off)"
  shows "reaches (system_step pay_defs ok) (empty_store, [], []) (snd (taken ''w'' 0 1 run1), [], [(''r'', 0)])"
proof -
  have "reaches (system_step pay_defs ok) (run1, [], []) (snd (taken ''w'' 0 1 run1), [] @ Advanced caller (fst called) (snd called) # [], [(''r'', 0)])"
    using sys_taken_advance [of "''w''" 0 1 run1 ok, OF _ crash_facts(1) assms caller_def, of "fst called" "snd called" pay_defs "[]"] crash_facts(2,3,4)
    by (simp add: called_def)
  from reaches_trans [OF reaches_step [OF this sys_crash] run1_reached] show ?thesis by simp
qed


subsection \<open>A pause and a failed read\<close>

definition forgetful :: sample where
  "forgetful = (sample_engine cut_off)\<lparr>GetDefinition := (\<lambda>site _ _ _. if site = AtLookup then Inl ''timeout'' else Inr pay_process)\<rparr>"

definition paused_under :: store where "paused_under = snd (PauseProcess ''r'' 5 (snd (taken ''w'' 0 1 run1)))"

definition settler :: einst where "settler = hd (fst (taken ''v'' 100 101 paused_under))"

definition settled_pause :: "einst \<times> advance_outcome" where "settled_pause = advanceGuarded forgetful settler"

definition after_pause :: store where
  "after_pause = snd (snd (writeAdvance forgetful (\<lambda>_. ''c'') True 102 (fst settled_pause) (snd settled_pause) (snd (taken ''v'' 100 101 paused_under))))"

definition resumed :: store where "resumed = snd (ResumeProcess ''r'' 103 after_pause)"

definition second_caller :: einst where "second_caller = hd (fst (taken ''w'' 100 104 resumed))"

definition called_again :: "einst \<times> advance_outcome" where "called_again = advanceGuarded (sample_engine cut_off) second_caller"

lemma pause_facts:
  "length (fst (taken ''v'' 100 101 paused_under)) = 1" "\<not> sent_once pay_defs settler (fst settled_pause)"
  "length (fst (taken ''w'' 100 104 resumed)) = 1" "sent_once pay_defs second_caller (fst called_again)"
  "i_ID second_caller = ''r''" "i_TaskEpoch second_caller = 0"
  by code_simp+


lemma forgetful_agrees: "agrees pay_defs forgetful" "agrees pay_defs (sample_engine r)"
  by (auto simp: agrees_def forgetful_def sample_engine_def pay_defs_def split: if_splits)

lemma settled_reached:
  "reaches (system_step pay_defs (agrees pay_defs :: sample \<Rightarrow> bool)) (paused_under, [], [(''r'', 0)]) (after_pause, [], [(''r'', 0)])"
proof -
  let ?s = "snd (taken ''v'' 100 101 paused_under)"
  have r: "reaches (system_step pay_defs (agrees pay_defs :: sample \<Rightarrow> bool)) (paused_under, [], [(''r'', 0)])
      (?s, [] @ Advanced settler (fst settled_pause) (snd settled_pause) # [], [(''r'', 0)])"
    using sys_taken_advance [of "''v''" 100 101 paused_under "agrees pay_defs",
        OF _ pause_facts(1) forgetful_agrees(1) settler_def, of "fst settled_pause" "snd settled_pause" pay_defs "[(''r'', 0)]"] pause_facts(2)
    by (simp add: settled_pause_def)
  obtain k res where "writeAdvance forgetful (\<lambda>_. ''c'') True 102 (fst settled_pause) (snd settled_pause) ?s = (k, res, after_pause)"
    unfolding after_pause_def by (metis prod.collapse)
  from reaches_step [OF r sys_write [OF this]] show ?thesis by simp
qed

text \<open>
  C39: the resolution of an interrupted call depends on one read. When the claim that settles a pause cannot
  read the definition, \<open>lookupTask\<close> answers nothing, the row is written as paused, and the evidence that
  a worker vanished is gone: after the resume the \<open>only_once\<close> request of the same occurrence is sent again.
\<close>

theorem failed_read_loses_the_interruption:
  "\<exists>s fl. reaches (system_step pay_defs (agrees pay_defs :: sample \<Rightarrow> bool)) (empty_store, [], []) (s, fl, [(''r'', 0), (''r'', 0)])"
proof -
  let ?step = "system_step pay_defs (agrees pay_defs :: sample \<Rightarrow> bool)"
  have "reaches ?step (empty_store, [], []) (paused_under, [], [(''r'', 0)])"
    unfolding paused_under_def
    by (rule reaches_step [OF called_reached [of "agrees pay_defs", OF forgetful_agrees(2)]]) (intro sys_world world_step.intros)
  from reaches_trans [OF settled_reached this]
  have a: "reaches ?step (empty_store, [], []) (resumed, [], [(''r'', 0)])"
    unfolding resumed_def by (rule reaches_step) (intro sys_world world_step.intros)
  have "reaches ?step (resumed, [], [(''r'', 0)])
      (snd (taken ''w'' 100 104 resumed), [Advanced second_caller (fst called_again) (snd called_again)], [(''r'', 0), (''r'', 0)])"
    using sys_taken_advance [of "''w''" 100 104 resumed "agrees pay_defs",
        OF _ pause_facts(3) forgetful_agrees(2) [of cut_off] second_caller_def, of "fst called_again" "snd called_again" pay_defs "[(''r'', 0)]"] pause_facts(4-6)
    by (simp add: called_again_def)
  from reaches_trans [OF this a] show ?thesis by blast
qed

text \<open>
  The mark a claim trusts when it decides what may be replayed: a definition that cannot be read at the write
  marks the row replayable, also where the task is \<open>only_once\<close>.
\<close>

lemma unread_task_is_replayable:
  "definition_at X AtPersist i = Inl e \<Longrightarrow> \<not> taskIsOnlyOnce X i"
  by (simp add: taskIsOnlyOnce_def lookupTask_def interruptedOnlyOnce_def)

end
