(* ===== verification/Spec2Isabelle.thy ===== *)
theory Spec2Isabelle
  imports Samples Responses Parser_Roundtrip Errcode State_Codec Lazy_Samples Template_Scan Once_Samples
begin

text \<open>
  genroc runs durable processes: a definition names tasks, an instance walks through them, and every
  step is committed to a database, so that any number of workers may crash, lose their leases or
  race without losing or repeating work. A task may call a service, wait for an outside answer or
  spawn a batch of child instances, which makes the instances of a run a tree. This development
  models the part of the sources (under \<open>src/internal\<close>) that carries that promise.

  \<^bold>\<open>How the parts fit.\<close> The engine claims an instance under a lease (\<open>db/db_claim.go\<close>), evaluates the
  task, and writes the result back through a fenced update (\<open>db/db_instances.go\<close>). A task that spawns
  parks its row until the batch settles; a child that stops wakes or settles its ancestors, a
  failure poisons them, and an operator pauses, resumes, cancels or retries a whole tree
  (\<open>db/db_lifecycle.go\<close>). A task that waits parks its row until a signal is buffered for it, and an
  external worker may claim it meanwhile (\<open>db/db_signals.go\<close>, \<open>db/db_external.go\<close>,
  \<open>db/db_external_claim.go\<close>). Large values live in a content-addressed table of their own
  (\<open>db/db_objects.go\<close>), and sweeps remove what has concluded (\<open>db/db_retention.go\<close>).

  \<^bold>\<open>Theories.\<close>
  \<^item> \<open>Genroc_Prelude\<close>: results, maps, strings and integers as Go has them, and the two locales
    \<open>step_invariant\<close> and \<open>step_monotone\<close> every reachability argument goes through.
  \<^item> \<open>Errcode\<close> (\<open>errcode/errcode.go\<close>, \<open>catchable.go\<close>): the codes, their classes, the wildcard matcher.
  \<^item> \<open>Instance_Model\<close>, \<open>Responses\<close> (\<open>model/instance.go\<close>, \<open>model/status.go\<close>, part of
    \<open>model/validate.go\<close>): statuses and phases, the tokens of external tasks, status patterns and the
    choice of a response schema.
  \<^item> \<open>Syntax\<close>, \<open>Parser_Props\<close>, \<open>Parser_Roundtrip\<close> (\<open>expression/syntax\<close>): the expression parser over
    tokens, production by production, that it is total, and a printer.
  \<^item> \<open>Store\<close> (\<open>db/gen\<close>): the tables as one record \<open>store\<close> and each SQL statement as a function named
    \<open>q_\<close> after its query. \<open>Objects\<close>, \<open>Instances\<close>, \<open>Lease\<close>, \<open>Lifecycle\<close>, \<open>Spawn\<close>, \<open>External\<close>, \<open>Retention\<close>:
    one function per operation of the Go file each names, every branch and error included. A
    transaction is a function from a store to an error or a new store, and \<open>withTx\<close> drops the new
    store on an error.
  \<^item> \<open>Tree\<close>, \<open>Tree_Settle\<close>, \<open>Tree_Stop\<close>, \<open>Tree_Writes\<close>, \<open>Tree_Spawn\<close>, \<open>Tree_Retry\<close>: the invariant \<open>tree_inv\<close>
    of the process table and that each operation keeps it. \<open>Tree_System\<close> collects the operations in
    one step relation, \<open>op_step\<close>, and \<open>Tree_Epochs\<close> shows that epochs only grow along it.
  \<^item> \<open>External_Queue\<close>: the external queue's claims, renewals and releases.
  \<^item> \<open>Samples\<close>: concrete runs on which the properties are instantiated.

  \<^bold>\<open>What is shown.\<close> The properties are marked \<open>C1\<close>, \<open>C2\<close>, \<dots> where they are stated, here when they span
  operations and in the component's theory otherwise: the tree invariant on every reachable store and
  what it rules out (orphaned work, a stop that hangs, a settled root over busy work), exclusive
  grants and fenced writes, exact outcomes of the operator's verbs and of answers to external tasks,
  agreement of the Postgres and SQLite paths, and what the sweeps may delete.

  \<^bold>\<open>Choices.\<close> Statements on one row lock are atomic, so an operation that runs in one transaction is
  one step; where the code reads outside its transaction (\<open>RetryProcess\<close>, \<open>PruneConcludedTrees\<close>) the
  model takes the store it read as a second argument. Times and epochs are \<open>int\<close>, with the int64
  range stated where a conversion depends on it. The climb of \<open>settleUp\<close> and the walk of
  \<open>RetryProcess\<close> recurse along the tree and take fuel of one round per row; that it never runs out is
  part of \<open>stopping_a_child_commits\<close> and \<open>retry_revives_the_tree\<close>. The parser takes eight units per
  token, which \<open>Parse_is_total\<close> shows to be enough. The encoded JSON of an instance's state is an
  argument of the operations that write it.

  \<^bold>\<open>Not modelled.\<close> SQL outside these operations (listings, the registry, tokens, logs), the HTTP API,
  the language server, the command line and the web interface, and the loading of files, which are
  input and output around the model.
\<close>

subsection \<open>Notions the properties share\<close>

text \<open>The writes an engine makes with an instance it holds, all fenced by the lease epoch.\<close>

definition fenced_out :: "inst \<Rightarrow> store \<Rightarrow> bool" where
  "fenced_out i s \<longleftrightarrow> (\<forall>r \<in> set (s_rows s). \<not> inst_fence i r)"

definition tree_with :: "(status \<Rightarrow> bool) \<Rightarrow> string \<Rightarrow> row \<Rightarrow> bool" where
  "tree_with P i r \<longleftrightarrow> r_root_id r = i \<and> P (r_status r)"

subsection \<open>Trees\<close>

lemma reachable_inv: "reaches db_step empty_store s \<Longrightarrow> tree_inv (s_rows s)"
  by (rule store_inv.inv_reaches [OF _ empty_inv])



lemma root_row_of:
  assumes "wf_rows rows" "q \<in> set rows" "r \<in> set rows" "root_of q r"
  shows "r_parent_id q = []" "root_of q q"
proof -
  obtain q' where q': "q' \<in> set rows" "root_of q' r" "r_parent_id q' = []" using root_exists [OF assms(1,3)] by blast
  then have "q' = q" using wf_inj [OF assms(1) q'(1) assms(2)] assms(4) by (simp add: root_of_def)
  then show "r_parent_id q = []" "root_of q q" using q' wf_root [OF assms(1,2)] by (auto simp: root_of_def)
qed


text \<open>Below a busy row there is a busy row that waits for no child.\<close>

lemma busy_leaf:
  assumes inv: "tree_inv rows"
  shows "r \<in> set rows \<Longrightarrow> Draining (r_status r) \<Longrightarrow> root_of q r \<Longrightarrow> q \<in> set rows \<Longrightarrow> Draining (r_status q) \<Longrightarrow>
    \<exists>l \<in> set rows. root_of q l \<and> leaf l \<and> r_status l \<noteq> StatusRunning \<and> (l = r \<or> r_id r \<in> set (r_call_stack l))"
proof (induction "Max (insert 0 ((length \<circ> r_call_stack) ` set rows)) - length (r_call_stack r)" arbitrary: r rule: less_induct)
  case less
  note wf = tree_invD(1) [OF inv]
  let ?M = "Max (insert 0 ((length \<circ> r_call_stack) ` set rows))"
  have bound: "length (r_call_stack x) \<le> ?M" if "x \<in> set rows" for x using that by (intro Max_ge) auto
  show ?case
  proof (cases "r_phase r = PhaseChildren")
    case False
    then have "r_status r \<noteq> StatusFailing" using tree_invD(4) [OF inv less.prems(1)] by (auto simp: node_ok_def)
    then have "leaf r" "r_status r \<noteq> StatusRunning" using less.prems(2) False by (auto simp: leaf_def Draining_def)
    then show ?thesis using less.prems by blast
  next
    case True
    then obtain k where k: "k \<in> set rows" "child_of r k" "Busy (r_status k)"
      using tree_invD(5) [OF inv less.prems(1)] less.prems(2) by (auto simp: wait_ok_def Draining_def)
    have st: "r_call_stack k = r_call_stack r @ [r_id r]" "r_root_id k = r_root_id r"
      using parent_in_stack [OF wf k(1) less.prems(1) k(2)] by auto
    have "root_of q k" using st less.prems(3) by (simp add: root_of_def)
    moreover have "r_status k \<noteq> StatusRunning"
      using tree_invD(3) [OF inv less.prems(4) k(1) calculation] less.prems(5) by (auto simp: Draining_def)
    moreover have dk: "Draining (r_status k)" using k(3) calculation(2) by (auto simp: Busy_def)
    moreover have "?M - length (r_call_stack k) < ?M - length (r_call_stack r)"
      using bound [OF k(1)] st(1) by simp
    ultimately obtain l where l: "l \<in> set rows" "root_of q l" "leaf l" "r_status l \<noteq> StatusRunning" "l = k \<or> r_id k \<in> set (r_call_stack l)"
      using less.hyps [of k] k(1) less.prems(4,5) by blast
    then have "r_id r \<in> set (r_call_stack l)"
      using st stack_closed [OF wf l(1) k(1) _ less.prems(1) k(2)] by auto
    then show ?thesis using l by blast
  qed
qed



subsection \<open>Leases\<close>

lemma fenced_write_refused:
  assumes "fenced_out i s"
  shows "write_inst i now s = Inl ErrLeaseLost" "write_progress i now s = Inl ErrLeaseLost"
proof -
  obtain cols s0 where p: "persistState i now s = (cols, s0)" by fastforce
  have "rows_matching (inst_fence i) s0 = 0" using assms persist_rows [OF p] by (simp add: rows_matching_0 fenced_out_def)
  then show "write_inst i now s = Inl ErrLeaseLost" "write_progress i now s = Inl ErrLeaseLost"
    using p by (simp_all add: write_inst_def write_progress_def requireFenced_def q_UpdateInstance_def q_UpdateInstanceProgress_def)
qed

text \<open>
  C2: a worker that lost its lease writes nothing: when no row carries the instance's grant, a
  checkpoint, an update, a finish and a failure all report a lost lease and leave the whole store,
  objects and signals included, exactly as it was.
\<close>

theorem stale_writes_change_nothing:
  assumes "fenced_out i s" and "i_CallStack i = [] \<or> q_GetInstanceStatus (hd (i_CallStack i)) s \<noteq> None"
  shows "UpdateInstance i now s = (Inl ErrLeaseLost, s) \<and> UpdateInstanceProgress i now s = (Inl ErrLeaseLost, s) \<and>
    FinishChild pg i now s = (Inl ErrLeaseLost, s) \<and> FailInstanceAndAncestors pg i now s = (Inl ErrLeaseLost, s)"
proof -
  note w = fenced_write_refused [OF assms(1), of now]
  have upd: "UpdateInstance i now s = (Inl ErrLeaseLost, s)" by (simp add: UpdateInstance_def w)
  moreover have "UpdateInstanceProgress i now s = (Inl ErrLeaseLost, s)" by (simp add: UpdateInstanceProgress_def w)
  moreover have "FinishChild pg i now s = (Inl ErrLeaseLost, s)"
    using upd by (simp add: FinishChild_def withChildTx_def withTx_def finish_loop w)
  moreover have "fail_tail i p now s = Inl ErrLeaseLost" for p by (simp add: fail_tail_def w)
  then have "FailInstanceAndAncestors pg i now s = (Inl ErrLeaseLost, s)"
    using assms(2) by (auto simp: FailInstanceAndAncestors_def withChildTx_def withTx_def fail_loop split: list.splits option.splits)
  ultimately show ?thesis by blast
qed

lemma epochs_row:
  assumes "epochs_le rows rows'" "distinct (map r_id rows')" "find_row rows i = Some r"
  shows "\<exists>r'. find_row rows' i = Some r' \<and> r_lease_epoch r \<le> r_lease_epoch r'"
proof -
  have "r \<in> set rows" "r_id r = i" using find_row_Some [OF assms(3)] by auto
  then obtain r' where "r' \<in> set rows'" "r_id r' = i" "r_lease_epoch r \<le> r_lease_epoch r'"
    using assms(1) by (auto simp: epochs_le_def)
  then show ?thesis using find_row_distinct [OF assms(2)] by blast
qed

lemma grant_epoch:
  assumes "distinct (map r_id (s_rows s))" "i \<in> set (fst (ClaimInstances locked w dur limit cutoff now s))"
  shows "\<exists>r. find_row (s_rows s) (i_ID i) = Some r \<and> i_LeaseEpoch i = r_lease_epoch r + 1 \<and>
    find_row (s_rows (snd (ClaimInstances locked w dur limit cutoff now s))) (i_ID i) = Some (set_grant w (now + dur) r)"
proof -
  let ?C = "claim_candidates locked limit now cutoff (s_rows s)"
  obtain r where r: "r \<in> set ?C" and
    i: "i = (toInstance (set_grant w (now + dur) r))\<lparr>i_ReclaimedExpired := (r_worker_id r \<noteq> None)\<rparr>"
    using assms(2) by (auto simp: ClaimInstances_def Let_def split: if_splits)
  have f: "find_row (s_rows s) (r_id r) = Some r" using find_row_distinct [OF assms(1)] r candidates_sub by blast
  have "find_row (s_rows (snd (ClaimInstances locked w dur limit cutoff now s))) (r_id r) = Some (set_grant w (now + dur) r)"
    unfolding claim_rows by (subst find_row_map) (use r in \<open>auto simp: f set_grant_def\<close>)
  then show ?thesis using f by (auto simp: i toInstance_def set_grant_def)
qed

text \<open>
  C9: a grant is never given twice: after a claim granted an instance, a second claim that takes the
  same instance over, however many operations later, hands out a strictly larger epoch, and from
  then on the first holder is fenced out for good, whatever it or anyone else does.
\<close>

theorem grants_are_exclusive:
  assumes s: "tree_inv (s_rows s)"
    and g1: "i \<in> set (fst (ClaimInstances locked w dur limit cutoff now s))"
    and r1: "reaches op_step (snd (ClaimInstances locked w dur limit cutoff now s)) t"
    and g2: "i' \<in> set (fst (ClaimInstances locked' w' dur' limit' cutoff' now' t))" "i_ID i' = i_ID i"
    and r2: "reaches op_step (snd (ClaimInstances locked' w' dur' limit' cutoff' now' t)) u"
    and old: "i_ID j = i_ID i" "i_LeaseEpoch j = i_LeaseEpoch i"
  shows "i_LeaseEpoch i < i_LeaseEpoch i' \<and> fenced_out j u"
proof -
  let ?s1 = "snd (ClaimInstances locked w dur limit cutoff now s)"
  let ?t1 = "snd (ClaimInstances locked' w' dur' limit' cutoff' now' t)"
  have inv: "tree_inv (s_rows ?s1)" "tree_inv (s_rows t)" "tree_inv (s_rows ?t1)" "tree_inv (s_rows u)"
    using ClaimInstances_inv s op_inv.inv_reaches [OF r1] op_inv.inv_reaches [OF r2] by blast+
  note d = wf_distinct [OF tree_invD(1)]
  obtain r where r: "i_LeaseEpoch i = r_lease_epoch r + 1"
    "find_row (s_rows ?s1) (i_ID i) = Some (set_grant w (now + dur) r)"
    using grant_epoch [OF d [OF s] g1] by blast
  obtain x where x: "find_row (s_rows t) (i_ID i) = Some x" "r_lease_epoch r + 1 \<le> r_lease_epoch x"
    using epochs_row [OF epochs.rel_reaches [OF r1] d [OF inv(2)] r(2)] by (auto simp: set_grant_def)
  obtain y where y: "i_LeaseEpoch i' = r_lease_epoch y + 1" "find_row (s_rows t) (i_ID i) = Some y"
    "find_row (s_rows ?t1) (i_ID i) = Some (set_grant w' (now' + dur') y)"
    using grant_epoch [OF d [OF inv(2)] g2(1)] g2(2) by auto
  have lt: "i_LeaseEpoch i < i_LeaseEpoch i'" using r(1) x y by simp
  obtain z where z: "find_row (s_rows u) (i_ID i) = Some z" "i_LeaseEpoch i' \<le> r_lease_epoch z"
    using epochs_row [OF epochs.rel_reaches [OF r2] d [OF inv(4)] y(3)] y(1) by (auto simp: set_grant_def)
  have "\<not> inst_fence j v" if "v \<in> set (s_rows u)" for v
  proof
    assume f: "inst_fence j v"
    then have "r_id v = i_ID i" using old(1) by (simp add: inst_fence_def)
    then have "find_row (s_rows u) (i_ID i) = Some v" using find_row_distinct [OF d [OF inv(4)]] that by blast
    then show False using z lt f old(2) by (simp add: inst_fence_def)
  qed
  then show ?thesis using lt by (simp add: fenced_out_def)
qed

subsection \<open>Settling\<close>

text \<open>
  C12: a child that stops always gets through: on every reachable store, finishing or failing a child
  either commits, with the wake-up and settling of its ancestors done and the trees well formed, or
  reports a lost lease and changes nothing; the climb through the ancestors never runs out.
\<close>

theorem stopping_a_child_commits:
  assumes "reaches db_step empty_store s" and "engine_inst (s_rows s) i" and "x \<in> set (s_rows s)" and "r_id x = i_ID i"
  shows "(finish_ok (s_rows s) i \<and> i_ParentID i \<noteq> [] \<longrightarrow>
      (\<exists>s'. FinishChild pg i now s = (Inr (), s') \<and> tree_inv (s_rows s')) \<or> FinishChild pg i now s = (Inl ErrLeaseLost, s)) \<and>
    (fail_ok i \<longrightarrow>
      (\<exists>s'. FailInstanceAndAncestors pg i now s = (Inr (), s') \<and> tree_inv (s_rows s')) \<or>
      FailInstanceAndAncestors pg i now s = (Inl ErrLeaseLost, s))"
proof (intro conjI impI)
  note inv = reachable_inv [OF assms(1)]
  assume "finish_ok (s_rows s) i \<and> i_ParentID i \<noteq> []"
  then show "(\<exists>s'. FinishChild pg i now s = (Inr (), s') \<and> tree_inv (s_rows s')) \<or> FinishChild pg i now s = (Inl ErrLeaseLost, s)"
    by (intro FinishChild_cases [OF inv assms(2)]) simp_all
next
  note inv = reachable_inv [OF assms(1)]
  assume "fail_ok i"
  then show "(\<exists>s'. FailInstanceAndAncestors pg i now s = (Inr (), s') \<and> tree_inv (s_rows s')) \<or>
      FailInstanceAndAncestors pg i now s = (Inl ErrLeaseLost, s)"
    using assms(3,4) by (intro FailInstanceAndAncestors_cases [OF inv assms(2)] bexI [of _ x]) simp_all
qed


text \<open>
  A progress checkpoint never changes any row's status: a pause that was requested while the
  task ran stays pending after the checkpoint, and lands on the next claim.
\<close>

theorem progress_keeps_every_status:
  "map r_status (s_rows (snd (UpdateInstanceProgress i now s))) = map r_status (s_rows s)"
proof -
  have "map r_status (s_rows s') = map r_status (s_rows s)" if "write_progress i now s = Inr s'" for s'
  proof (cases "persistState i now s")
    case (Pair cols s0)
    then have "s' = upd (inst_fence i) (set_progress (progressParams i cols now)) s0"
      using that by (auto simp: write_progress_def q_UpdateInstanceProgress_def requireFenced_def split: if_splits)
    then show ?thesis using persist_rows [OF Pair] by (simp add: set_progress_def)
  qed
  then show ?thesis
    by (cases "write_progress i now s") (simp_all add: UpdateInstanceProgress_def withTx_def del: map_eq_conv)
qed


subsection \<open>The operator's verbs\<close>

lemma root_of_row:
  assumes inv: "tree_inv (s_rows s)" and q: "row_at s i = Some q" "r_parent_id q = []"
  shows "q \<in> set (s_rows s)" "r_id q = i" "root_of q q"
  using find_row_Some [OF q(1) [unfolded row_at_def]] wf_root [OF tree_invD(1) [OF inv]] q(2) by (auto simp: root_of_def)

lemma pause_idle_tree:
  assumes inv: "tree_inv (s_rows s)" and q: "row_at s i = Some q" "r_parent_id q = []" "r_status q = StatusRunning"
    and idle: "\<forall>r \<in> set (s_rows s). r_root_id r = i \<longrightarrow> r_worker_id r = None"
  shows "\<exists>s1. PauseProcess i t s = (Inr \<lparr>lr_Outcome = OutcomeApplied, lr_Status = StatusPaused,
        lr_Instances = length (filter (tree_with ((=) StatusRunning) i) (s_rows s))\<rparr>, s1) \<and>
      s_rows s1 = map (\<lambda>r. if tree_with ((=) StatusRunning) i r then set_status StatusPaused t r else r) (s_rows s)"
proof -
  note qr = root_of_row [OF inv q(1,2)]
  let ?hit = "\<lambda>r. r_root_id r = i \<and> r_status r = StatusRunning"
  have nd: "split_status (s_rows s) i StatusPausing StatusPaused r = StatusPaused" if "r \<in> set (s_rows s)" "r_root_id r = i" for r
    using idle that by (auto simp: split_status_def above_held_def list_ex_iff)
  have out: "fst (q_PauseTree i t s) = map (\<lambda>r. (r_id r, StatusPaused)) (filter ?hit (s_rows s))"
    using nd by (auto simp: q_PauseTree_def stop_rows_def Let_def intro!: map_cong)
  have rows: "s_rows (snd (q_PauseTree i t s)) = map (\<lambda>r. if ?hit r then set_status StatusPaused t r else r) (s_rows s)"
    using nd by (auto simp: q_PauseTree_def stop_rows_def Let_def)
  have ne: "filter ?hit (s_rows s) \<noteq> []" using qr q(3) by (auto simp: filter_empty_conv root_of_def)
  obtain ps s0 where ps: "q_PauseTree i t s = (ps, s0)" by fastforce
  have body: "stop_body i pause_verb t s = Inr ((StatusRunning, ps), s0)"
    using q ps by (simp add: stop_body_def q_GetInstanceStatus_def row_at_def refuseInTransition_def pause_verb_def)
  have ps': "ps \<noteq> []" "filter (\<lambda>(_, st). st = StatusPausing) ps = []" "length ps = length (filter ?hit (s_rows s))"
    using out ps ne by (auto simp: filter_empty_conv)
  let ?s1 = "logInstances (map fst (filter (\<lambda>(_, st). st = StatusPausing) ps)) EventPausing
      (logInstances (map fst (filter (\<lambda>(_, st). st \<noteq> StatusPausing) ps)) EventPaused (logInstances [i] EventPauseRequested s0))"
  have rows1: "s_rows ?s1 = map (\<lambda>r. if ?hit r then set_status StatusPaused t r else r) (s_rows s)" using rows ps by simp
  have find1: "find_row (s_rows ?s1) i = Some (set_status StatusPaused t q)"
    unfolding rows1 using q(1,3) qr by (subst find_row_map) (auto simp: set_status_def row_at_def root_of_def)
  have res: "PauseProcess i t s = (Inr \<lparr>lr_Outcome = OutcomeApplied, lr_Status = StatusPaused, lr_Instances = length ps\<rparr>, ?s1)"
    using q(1,2) body ps'(1,2) find1
    by (simp add: PauseProcess_def stopTree_def row_at_def requireRoot_def withTx_def lifecycleResult_def pause_verb_def Let_def set_status_def)
  have "tree_with ((=) StatusRunning) i = ?hit" by (auto simp: tree_with_def fun_eq_iff)
  then show ?thesis using res rows1 ps'(3) by simp
qed

lemma resume_paused_tree:
  assumes q: "row_at s i = Some q" "r_parent_id q = []" "r_status q = StatusPaused" "r_root_id q = i"
    and d: "distinct (map r_id (s_rows s))"
  shows "\<exists>s1. ResumeProcess i t s = (Inr \<lparr>lr_Outcome = OutcomeApplied, lr_Status = StatusRunning,
        lr_Instances = length (filter (tree_with ((=) StatusPaused) i) (s_rows s))\<rparr>, s1) \<and>
      s_rows s1 = map (\<lambda>r. if tree_with ((=) StatusPaused) i r then set_status StatusRunning t r else r) (s_rows s)"
proof -
  let ?hit = "\<lambda>r. r_root_id r = i \<and> r_status r = StatusPaused"
  let ?ids = "tree_ids (\<lambda>r. r_status r = StatusPaused) i s"
  have hit: "tree_with ((=) StatusPaused) i = ?hit" by (auto simp: tree_with_def fun_eq_iff)
  have qm: "q \<in> set (s_rows s)" "r_id q = i" using find_row_Some q(1) by (auto simp: row_at_def)
  have ids: "r_id r \<in> set ?ids \<longleftrightarrow> ?hit r" if "r \<in> set (s_rows s)" for r
    using that distinct_ids_inj [OF d that] by (auto simp: tree_ids_def)
  have ne: "?ids \<noteq> []" using ids [OF qm(1)] q(3,4) by force
  have len: "length ?ids = length (filter ?hit (s_rows s))" by (simp add: tree_ids_def)
  have body: "resume_body i t s = Inr (?ids, q_SetStatusIn StatusRunning t ?ids s)"
    using q(1,3) ne by (simp add: resume_body_def Let_def q_GetInstanceStatus_def row_at_def refuseInTransition_def updateStatusIn_def)
  let ?s1 = "logInstances ?ids EventResumed (q_SetStatusIn StatusRunning t ?ids s)"
  have rows1: "s_rows ?s1 = map (\<lambda>r. if ?hit r then set_status StatusRunning t r else r) (s_rows s)"
    using ids by (auto simp: q_SetStatusIn_def)
  have "find_row (s_rows ?s1) i = Some (set_status StatusRunning t q)"
    unfolding rows1 using q qm by (subst find_row_map) (auto simp: set_status_def row_at_def)
  then have "ResumeProcess i t s = (Inr \<lparr>lr_Outcome = OutcomeApplied, lr_Status = StatusRunning, lr_Instances = length ?ids\<rparr>, ?s1)"
    using q(1,2) body ne
    by (simp add: ResumeProcess_def row_at_def requireRoot_def withTx_def lifecycleResult_def Let_def set_status_def)
  then show ?thesis using rows1 len hit by simp
qed

text \<open>
  C15: pausing and resuming a tree nobody is working on is a round trip: both report \<open>applied\<close> with
  the same number of rows, the root reads paused in between, and afterwards every row is as it was,
  timers, phases, epochs and wait state included, except for its last-update time.
\<close>

theorem pause_resume_roundtrip:
  assumes inv: "tree_inv (s_rows s)" and q: "row_at s i = Some q" "r_parent_id q = []" "r_status q = StatusRunning"
    and idle: "\<forall>r \<in> set (s_rows s). r_root_id r = i \<longrightarrow> r_worker_id r = None"
  shows "\<exists>n s1 s2. PauseProcess i t1 s = (Inr \<lparr>lr_Outcome = OutcomeApplied, lr_Status = StatusPaused, lr_Instances = n\<rparr>, s1) \<and>
      ResumeProcess i t2 s1 = (Inr \<lparr>lr_Outcome = OutcomeApplied, lr_Status = StatusRunning, lr_Instances = n\<rparr>, s2) \<and>
      s_rows s2 = map (\<lambda>r. if tree_with ((=) StatusRunning) i r then r\<lparr>r_updated_at := t2\<rparr> else r) (s_rows s)"
proof -
  note qr = root_of_row [OF inv q(1,2)]
  let ?R = "tree_with ((=) StatusRunning) i" and ?P = "tree_with ((=) StatusPaused) i"
  let ?g = "\<lambda>r. if ?R r then set_status StatusPaused t1 r else r"
  obtain s1 where s1: "PauseProcess i t1 s = (Inr \<lparr>lr_Outcome = OutcomeApplied, lr_Status = StatusPaused,
      lr_Instances = length (filter ?R (s_rows s))\<rparr>, s1)" "s_rows s1 = map ?g (s_rows s)"
    using pause_idle_tree [OF inv q idle] by blast
  have R: "?R q" using q(3) qr by (simp add: tree_with_def root_of_def)
  have id: "r_id (?g r) = r_id r" for r by (simp add: set_status_def)
  have "find_row (s_rows s1) i = Some (?g q)"
    unfolding s1(2) using q(1) by (subst find_row_map) (simp_all add: id row_at_def)
  then have q1: "row_at s1 i = Some (set_status StatusPaused t1 q)" using R by (simp add: row_at_def)
  have d1: "distinct (map r_id (s_rows s1))" unfolding s1(2) map_map comp_def id by (rule wf_distinct [OF tree_invD(1) [OF inv]])
  obtain s2 where s2: "ResumeProcess i t2 s1 = (Inr \<lparr>lr_Outcome = OutcomeApplied, lr_Status = StatusRunning,
      lr_Instances = length (filter ?P (s_rows s1))\<rparr>, s2)"
    "s_rows s2 = map (\<lambda>r. if ?P r then set_status StatusRunning t2 r else r) (s_rows s1)"
    using resume_paused_tree [OF q1 _ _ _ d1, of t2] q(2) qr by (auto simp: set_status_def root_of_def)
  have P: "?P (?g r) = ?R r" if "r \<in> set (s_rows s)" for r
    using tree_invD(3) [OF inv qr(1) that] q(3) qr(2) by (auto simp: tree_with_def set_status_def root_of_def)
  have "filter ?P (s_rows s1) = map ?g (filter ?R (s_rows s))"
    unfolding s1(2) filter_map comp_def by (rule arg_cong [of _ _ "map ?g"], rule filter_cong [OF refl]) (rule P)
  then have n: "length (filter ?P (s_rows s1)) = length (filter ?R (s_rows s))" by simp
  have "s_rows s2 = map (\<lambda>r. if ?R r then r\<lparr>r_updated_at := t2\<rparr> else r) (s_rows s)"
    unfolding s2(2) s1(2) map_map
  proof (rule map_cong [OF refl])
    fix r assume r: "r \<in> set (s_rows s)"
    have "r\<lparr>r_status := StatusRunning, r_updated_at := t2\<rparr> = r\<lparr>r_updated_at := t2\<rparr>" if "?R r"
      using that by (cases r) (simp add: tree_with_def)
    then show "((\<lambda>r. if ?P r then set_status StatusRunning t2 r else r) \<circ> ?g) r = (if ?R r then r\<lparr>r_updated_at := t2\<rparr> else r)"
      unfolding comp_def P [OF r] by (simp add: set_status_def)
  qed
  then show ?thesis using s1(1) s2(1) n by auto
qed

text \<open>
  C16: a cancel is final: on every reachable store, once a root is cancelled, pausing or cancelling
  it again reports \<open>unchanged\<close>, resuming and retrying it are refused as conflicts, forced or not, and
  none of the four writes anything.
\<close>

theorem cancel_is_final:
  assumes "reaches db_step empty_store s" and q: "row_at s i = Some q" "r_parent_id q = []" "r_status q = StatusCancelled"
  shows "PauseProcess i t s = (Inr \<lparr>lr_Outcome = OutcomeUnchanged, lr_Status = StatusCancelled, lr_Instances = 0\<rparr>, s) \<and>
    CancelProcess i t s = (Inr \<lparr>lr_Outcome = OutcomeUnchanged, lr_Status = StatusCancelled, lr_Instances = 0\<rparr>, s) \<and>
    ResumeProcess i t s = (Inl ErrConflict, s) \<and> RetryProcess defs i force t s s = (Inl ErrConflict, s)"
proof -
  note inv = reachable_inv [OF assms(1)]
  note qr = root_of_row [OF inv q(1,2)]
  have "r_status r \<noteq> StatusPaused" if "r \<in> set (s_rows s)" "r_root_id r = i" for r
    using tree_invD(3) [OF inv qr(1) that(1)] q(3) qr(2) that(2) by (auto simp: root_of_def)
  then have "set (tree_ids (\<lambda>r. r_status r = StatusPaused) i s) = {}" by (auto simp: tree_ids_def)
  then have none: "tree_ids (\<lambda>r. r_status r = StatusPaused) i s = []" by simp
  have stop: "stop_body i v t s = Inr ((StatusCancelled, []), s)" for v
    using q by (simp add: stop_body_def q_GetInstanceStatus_def row_at_def)
  have "resume_body i t s = Inl ErrConflict"
    using q none by (simp add: resume_body_def q_GetInstanceStatus_def row_at_def refuseInTransition_def Let_def)
  then show ?thesis
    using q stop
    by (simp add: PauseProcess_def CancelProcess_def ResumeProcess_def RetryProcess_def stopTree_def withTx_def row_at_def
        requireRoot_def lifecycleResult_def retry_precheck_def pause_verb_def cancel_verb_def)
qed

text \<open>
  C11: a retry that succeeds revives the whole failed tree in place: every failed or paused row of
  it runs, every row that had concluded is untouched, no row of another tree changes, and the trees
  stay well formed; a retry that is refused changes nothing.
\<close>

theorem retry_revives_the_tree:
  assumes "reaches db_step empty_store s" and q: "row_at s i = Some q" "r_parent_id q = []" "r_status q = StatusFailed"
    and out: "RetryProcess defs i force now s s = (res, s')"
  shows "case res of
      Inl e \<Rightarrow> s' = s
    | Inr lr \<Rightarrow> lr_Outcome lr = OutcomeApplied \<and> lr_Status lr = StatusRunning \<and> tree_inv (s_rows s') \<and>
        map r_id (s_rows s') = map r_id (s_rows s) \<and>
        (\<forall>r \<in> set (s_rows s). \<exists>r' \<in> set (s_rows s'). r_id r' = r_id r \<and>
           (if r_root_id r = i \<and> r_status r \<in> {StatusFailed, StatusPaused} then r_status r' = StatusRunning else r' = r))"
proof -
  note inv = reachable_inv [OF assms(1)]
  note qr = root_of_row [OF inv q(1,2)]
  have ft: "failed_tree (s_rows s) q" using inv qr(1) q by (simp add: failed_tree_def)
  have pre: "retry_precheck i s = Inr ()" using q by (simp add: retry_precheck_def row_at_def requireRoot_def)
  let ?N = "tree_nodes (s_rows s) q"
  consider e where "retry_body defs force i now s = Inl e"
    | d p t ov where "retry_body defs force i now s = Inr ((d, p), t)" "s_rows t = map (retried ?N q ov now) (s_rows s)"
    using retry_rows [OF ft, of defs force now] qr(2) by (metis surj_pair)
  then show ?thesis
  proof cases
    case 1
    then show ?thesis using out pre by (auto simp: RetryProcess_def withTx_def)
  next
    case (2 d p t ov)
    let ?g = "retried ?N q ov now"
    have s': "s' = logInstances p EventResumed t" "res = lifecycleResult i OutcomeApplied (length d + length p) s'"
      using out pre 2(1) by (auto simp: RetryProcess_def withTx_def Let_def)
    have rows: "s_rows s' = map ?g (s_rows s)" using s'(1) 2(2) by simp
    have id: "r_id (?g r) = r_id r" for r using retried_simps(3) [of r ?N q ov now] by (simp add: same_place_def)
    have st: "if r_root_id r = i \<and> r_status r \<in> {StatusFailed, StatusPaused} then r_status (?g r) = StatusRunning else ?g r = r"
      if "r \<in> set (s_rows s)" for r
      using retried_status [OF ft that, of ?N ov now] qr(2)
      by (auto simp: root_of_def concluded_def retried_def split: if_splits)
    have "find_row (s_rows s') i = Some (?g q)" unfolding rows using q(1) by (subst find_row_map) (simp_all add: id row_at_def)
    moreover have "r_status (?g q) = StatusRunning" using st [OF qr(1)] qr q(3) by (simp add: root_of_def)
    ultimately have "res = Inr \<lparr>lr_Outcome = OutcomeApplied, lr_Status = StatusRunning, lr_Instances = length d + length p\<rparr>"
      using s'(2) by (simp add: lifecycleResult_def)
    moreover have "tree_inv (s_rows s')" unfolding rows by (rule retried_inv [OF ft])
    moreover have "map r_id (s_rows s') = map r_id (s_rows s)" unfolding rows by (simp add: id)
    moreover have "\<exists>r' \<in> set (s_rows s'). r_id r' = r_id r \<and>
        (if r_root_id r = i \<and> r_status r \<in> {StatusFailed, StatusPaused} then r_status r' = StatusRunning else r' = r)"
      if "r \<in> set (s_rows s)" for r
      unfolding rows using st [OF that] that by (intro bexI [of _ "?g r"]) (auto simp: id)
    ultimately show ?thesis by simp
  qed
qed

subsection \<open>Witnesses\<close>


lemma run5_facts: "Busy (r_status (got run5 ''a''))" "r_parent_id (got run5 ''a'') = ''r''"
  "Draining (r_status (got run5 ''r''))" "root_of (got run5 ''r'') (got run5 ''r'')"
  by code_simp+


lemma run6_facts: "Terminal (r_status (got run6 ''r''))" "root_of (got run6 ''r'') (got run6 ''b'')"
  "r_parent_id (got run6 ''r'') = []" "r_status (got run6 ''r'') = StatusFailed"
  by code_simp+



theorem stale_writes_change_nothing_witness:
  "UpdateInstance (failed_a\<lparr>i_LeaseEpoch := 0\<rparr>) 5 run4 = (Inl ErrLeaseLost, run4)"
proof -
  have "list_all (\<lambda>r. \<not> inst_fence (failed_a\<lparr>i_LeaseEpoch := 0\<rparr>) r) (s_rows run4)" by code_simp
  then have "fenced_out (failed_a\<lparr>i_LeaseEpoch := 0\<rparr>) run4" by (simp add: fenced_out_def list_all_iff)
  moreover have "q_GetInstanceStatus (hd (i_CallStack (failed_a\<lparr>i_LeaseEpoch := 0\<rparr>))) run4 \<noteq> None" by code_simp
  ultimately show ?thesis using stale_writes_change_nothing by blast
qed

lemma granted_facts:
  "fst (ClaimInstances [] ''w'' 10 1 0 3 run3) \<noteq> []" "fst (ClaimInstances [] ''v'' 10 1 100 101 run4) \<noteq> []"
  "i_ID granted4 = i_ID granted3"
  by code_simp+

lemma granted_in: "granted3 \<in> set (fst (ClaimInstances [] ''w'' 10 1 0 3 run3))"
  "granted4 \<in> set (fst (ClaimInstances [] ''v'' 10 1 100 101 run4))"
  unfolding granted3_def granted4_def by (rule hd_in_set; rule granted_facts)+

theorem grants_are_exclusive_witness: "i_LeaseEpoch granted3 < i_LeaseEpoch granted4 \<and> fenced_out granted3 run11"
  using grants_are_exclusive [OF reachable_inv [OF run_reached(1)] granted_in(1) reaches_refl, folded run4_def,
      OF granted_in(2) granted_facts(3) reaches_refl, folded run11_def, OF refl refl] .

theorem stopping_a_child_commits_witness:
  "\<exists>s'. FailInstanceAndAncestors True failed_a 5 run4 = (Inr (), s') \<and> tree_inv (s_rows s')"
proof -
  have i: "engine_inst (s_rows run4) failed_a" "fail_ok failed_a" "i_ID failed_a = ''a''"
    using run4_rows by (auto simp: engine_inst_def fail_ok_def failed_a_def child_a_def sample_inst_def list_all_iff)
  have "fst (FailInstanceAndAncestors True failed_a 5 run4) = Inr ()" by code_simp
  then show ?thesis
    using stopping_a_child_commits [OF run_reached(3) i(1), of "got run4 ''a''" True 5] run_got i(2,3) by auto
qed

theorem pause_resume_roundtrip_witness:
  "\<exists>n s1 s2. PauseProcess ''r'' 4 run3 = (Inr \<lparr>lr_Outcome = OutcomeApplied, lr_Status = StatusPaused, lr_Instances = n\<rparr>, s1) \<and>
      ResumeProcess ''r'' 5 s1 = (Inr \<lparr>lr_Outcome = OutcomeApplied, lr_Status = StatusRunning, lr_Instances = n\<rparr>, s2)"
proof -
  have "r_parent_id (got run3 ''r'') = []" "r_status (got run3 ''r'') = StatusRunning" by code_simp+
  moreover have "list_all (\<lambda>r. r_worker_id r = None) (s_rows run3)" by code_simp
  ultimately show ?thesis
    using pause_resume_roundtrip [OF reachable_inv [OF run_reached(1)], of "''r''" "got run3 ''r''" 4 5] run_got
    by (auto simp: list_all_iff)
qed

theorem cancel_is_final_witness: "ResumeProcess ''r'' 5 run10 = (Inl ErrConflict, run10)"
proof -
  have "r_parent_id (got run10 ''r'') = []" "r_status (got run10 ''r'') = StatusCancelled" by code_simp+
  then show ?thesis using cancel_is_final [OF run_reached(2), of "''r''" "got run10 ''r''" 5] run_got by simp
qed

theorem retry_revives_the_tree_witness:
  "\<exists>s'. snd (RetryProcess [] ''r'' True 6 run6 run6) = s' \<and> tree_inv (s_rows s') \<and> map r_id (s_rows s') = map r_id (s_rows run6)"
proof -
  have lr: "fst (RetryProcess [] ''r'' True 6 run6 run6) =
      Inr \<lparr>lr_Outcome = OutcomeApplied, lr_Status = StatusRunning, lr_Instances = 3\<rparr>" by code_simp
  obtain res s' where out: "RetryProcess [] ''r'' True 6 run6 run6 = (res, s')" by fastforce
  then show ?thesis
    using retry_revives_the_tree [OF run_reached(5) _ run6_facts(3,4) out] run_got lr by simp
qed

lemma run2_free: "fst (''g'', 1 :: int) \<notin> g_id ` set (s_signals run2)" "fst (''g'', 1 :: int) \<notin> g_id ` set (s_signals ext2)"
  by code_simp+

theorem claim_grants_only_free_rows_witness:
  "\<exists>r. row_at run3 (i_ID granted3) = Some r \<and> claimable 3 0 r \<and> i_LeaseEpoch granted3 = r_lease_epoch r + 1"
  using claim_grants_only_free_rows [OF run_distinct(2) granted_in(1)] by blast

theorem renew_chunked_is_bulk_witness:
  "RenewWorkerLeases ''w'' [''a''] 10 8 run4 = (8, run4\<lparr>s_rows := bulk_renew [''a''] ''w'' 18 (s_rows run4)\<rparr>)"
  using renew_chunked_is_bulk [OF run_distinct(3), of "''w''" "[''a'']" 10 8] by simp

theorem resolve_accepts_iff_witness:
  "ResolveExternalTask ''r'' 0 (BoundToClaim 1) (''g'', 1) ''o'' 4 ext2 =
    (Inr (), ext2\<lparr>s_signals := s_signals ext2 @ [new_signal (''g'', 1) ''r'' (r_task (got ext2 ''r'')) ''o'' 4],
       s_rows := map (\<lambda>x. if r_id x = ''r'' then set_unparked 4 x else x) (s_rows ext2)\<rparr>)"
proof -
  have "may_answer 0 (BoundToClaim 1) 4 (got ext2 ''r'')" by code_simp
  then show ?thesis using resolve_accepts_iff [OF run2_free(2)] run_got(9) by simp
qed

theorem resolve_once_witness:
  "ResolveExternalTask ''r'' 0 Unclaimed (''h'', 2) ''o'' 5
     (snd (ResolveExternalTask ''r'' 0 (BoundToClaim 1) (''g'', 1) ''o'' 4 ext2)) =
   (Inl ErrConflict, snd (ResolveExternalTask ''r'' 0 (BoundToClaim 1) (''g'', 1) ''o'' 4 ext2))"
proof -
  have "fst (ResolveExternalTask ''r'' 0 (BoundToClaim 1) (''g'', 1) ''o'' 4 ext2) = Inr ()" by code_simp
  from resolve_once [OF pair_fst [OF this]] show ?thesis .
qed

theorem no_lost_signal_witness:
  "ready_with (new_signal (''g'', 1) ''r'' ''t'' ''o'' 3)
     (snd (ArmExternalUnlessSignalled held_root (no_cols, [], []) ''t'' None 2
        (snd (DeliverSignal ''r'' ''t'' (''g'', 1) ''o'' 3 run2)))) \<and>
   ready_with (new_signal (''g'', 1) ''r'' ''t'' ''o'' 2)
     (snd (DeliverSignal ''r'' ''t'' (''g'', 1) ''o'' 2 (snd (ArmExternalUnlessSignalled held_root (no_cols, [], []) ''t'' None 3 run2))))"
proof -
  have i: "i_ID held_root = ''r''" "i_Status held_root = StatusRunning" "i_Task held_root = ''t''"
    "i_ConsumedSignalID held_root \<noteq> ''g''" by code_simp+
  have r: "inst_fence held_root (got run2 ''r'')" "r_status (got run2 ''r'') = StatusRunning"
    "\<not> live_at (r_external_worker_id (got run2 ''r'')) (r_external_lease_expires_at (got run2 ''r'')) 2" by code_simp+
  have "row_at run2 (i_ID held_root) = Some (got run2 ''r'')" using run_got(1) i(1) by simp
  from no_lost_signal [OF run_distinct(1) this r(1) i(2) _ i(3) run2_free(1) _ r(3), of "''o''" 3 "(no_cols, [], [])" None]
  show ?thesis using i r(2) by simp
qed

theorem claim_dialects_agree_witness:
  "ClaimExternalTasks_pg [] ''x'' 10 5 any_task 3 ext1 = ClaimExternalTasks_sqlite ''x'' 10 5 any_task 3 ext1"
proof -
  have "list_all (\<lambda>r. r_external_worker_id r \<noteq> Some []) (s_rows ext1)" by code_simp
  then show ?thesis by (intro claim_dialects_agree run_distinct) (auto simp: list_all_iff)
qed


theorem renew_verdicts_witness:
  "fst (RenewExternalClaims ''x'' [\<lparr>x_ID = ''r'', x_TaskEpoch = 0, x_ClaimEpoch = 1\<rparr>, \<lparr>x_ID = ''q'', x_TaskEpoch = 0, x_ClaimEpoch = 1\<rparr>] 10 8 ext2) =
     [RenewRenewed, RenewLost]"
proof -
  have "map (verdict_of ''x'' ext2) [\<lparr>x_ID = ''r'', x_TaskEpoch = 0, x_ClaimEpoch = 1\<rparr>, \<lparr>x_ID = ''q'', x_TaskEpoch = 0, x_ClaimEpoch = 1\<rparr>] =
     [RenewRenewed, RenewLost]" by code_simp
  then show ?thesis unfolding renew_verdicts [OF run_distinct(6)] by simp
qed

theorem release_voids_the_handle_witness:
  "\<exists>r'. row_at (snd (ReleaseExternalClaim ''r'' 0 1 4 ext2)) ''r'' = Some r' \<and> r_external_worker_id r' = None \<and>
     \<not> may_answer 0 (BoundToClaim 1) 5 r'"
proof -
  have "fst (ReleaseExternalClaim ''r'' 0 1 4 ext2) = Inr ()" by code_simp
  from release_voids_the_handle [OF pair_fst [OF this] _ run_distinct(6), of "got ext2 ''r''" 5] show ?thesis using run_got(9) by blast
qed

theorem prune_takes_concluded_trees_witness:
  "set (s_rows (snd (PruneConcludedTrees 9 5 run6 run6))) \<subseteq> set (s_rows run6) \<and> fst (PruneConcludedTrees 9 5 run6 run6) = 1"
proof
  show "set (s_rows (snd (PruneConcludedTrees 9 5 run6 run6))) \<subseteq> set (s_rows run6)"
    using prune_takes_concluded_trees [OF run_distinct(4) prod.collapse [symmetric], of 9 5 run6] by blast
  show "fst (PruneConcludedTrees 9 5 run6 run6) = 1" by code_simp
qed

theorem upgrade_all_or_nothing_witness:
  "fst (UpgradeInstances [\<lparr>up_Instance = toInstance (got run6 ''b''), up_ToVersion = 2, up_encoded = (no_cols, [], [])\<rparr>] 9 run6) = Inr ()"
proof -
  let ?ups = "[\<lparr>up_Instance = toInstance (got run6 ''b''), up_ToVersion = 2, up_encoded = (no_cols, [], [])\<rparr>]"
  have "list_all (\<lambda>up. list_ex (upgradeable up) (s_rows run6)) ?ups" by code_simp
  then show ?thesis using upgrade_all_or_nothing [of ?ups run6 9] by (auto simp: list_all_iff list_ex_iff)
qed

subsection \<open>Findings\<close>


text \<open>
  A retry remembers a single parent of a raised slot. In this run the root and its child both
  wait on a batch with a raised slot when a grandchild fails; the retry revives both, and only the
  child is marked for re-spawning its raised slot.
\<close>

theorem retry_marks_only_one_parent:
  "statuses two_raised = [(''r'', StatusFailed), (''a'', StatusRaised), (''b'', StatusFailed), (''c'', StatusRaised), (''d'', StatusFailed)] \<and>
   statuses (snd (RetryProcess [] ''r'' True 9 two_raised two_raised)) =
     [(''r'', StatusRunning), (''a'', StatusRaised), (''b'', StatusRunning), (''c'', StatusRaised), (''d'', StatusRunning)] \<and>
   overridden (snd (RetryProcess [] ''r'' True 9 two_raised two_raised)) = [''b'']"
  by code_simp

end
